(* ===== verification/Py_Prelude.thy ===== *)
theory Py_Prelude
  imports Main "HOL-Library.AList" "HOL-Library.Multiset"
begin

text \<open>
  The Python run-time notions that every component of the development uses.

  \<^item> A raised exception is a value: \<open>'a res\<close> is \<open>py_error + 'a\<close>, with \<^const>\<open>Inl\<close> for the
    exception. Sequencing is \<open>bind_res\<close>; a comprehension whose body may raise is \<open>map_res\<close>.
  \<^item> A list index follows Python: negative indices count from the end, an index out of range
    raises. A slice never raises: its bounds are clamped.
  \<^item> A dictionary keeps insertion order (Python 3.7 and later), so it is an association list
    with distinct keys; an assignment to an existing key keeps the key's position.

  The collections \<open>res_simps\<close> and \<open>dict_simps\<close> carry the rewriting of error plumbing and of
  dictionary operations through the component proofs.
\<close>

named_theorems res_simps \<open>unfolding of the exception plumbing\<close>
named_theorems dict_simps \<open>rewriting of dictionary operations\<close>

section \<open>Exceptions as values\<close>

datatype py_error =
    AssertionError
  | AttributeError
  | ImportError
  | IndexError
  | KeyError
  | NameError
  | OSError
  | RuntimeError
  | TypeError
  | ValueError
  | ZeroDivisionError
  | OtherError string

type_synonym 'a res = "py_error + 'a"

definition bind_res :: "'a res \<Rightarrow> ('a \<Rightarrow> 'b res) \<Rightarrow> 'b res" where
  "bind_res m f = (case m of Inl e \<Rightarrow> Inl e | Inr x \<Rightarrow> f x)"

definition assert_res :: "bool \<Rightarrow> unit res" where
  "assert_res b = (if b then Inr () else Inl AssertionError)"

fun map_res :: "('a \<Rightarrow> 'b res) \<Rightarrow> 'a list \<Rightarrow> 'b list res" where
  "map_res f [] = Inr []"
| "map_res f (x # xs) = bind_res (f x) (\<lambda>y. bind_res (map_res f xs) (\<lambda>ys. Inr (y # ys)))"

fun fold_res :: "('a \<Rightarrow> 's \<Rightarrow> 's res) \<Rightarrow> 'a list \<Rightarrow> 's \<Rightarrow> 's res" where
  "fold_res f [] s = Inr s"
| "fold_res f (x # xs) s = bind_res (f x s) (fold_res f xs)"

definition of_option :: "py_error \<Rightarrow> 'a option \<Rightarrow> 'a res" where
  "of_option e v = (case v of None \<Rightarrow> Inl e | Some x \<Rightarrow> Inr x)"

lemma bind_res_Inl [simp]: "bind_res (Inl e) f = Inl e"
  by (simp add: bind_res_def)

lemma bind_res_Inr [simp]: "bind_res (Inr x) f = f x"
  by (simp add: bind_res_def)

lemma bind_res_eq_Inr [res_simps]:
  "bind_res m f = Inr y \<longleftrightarrow> (\<exists>x. m = Inr x \<and> f x = Inr y)"
  by (cases m) auto

lemma bind_res_eq_Inl [res_simps]:
  "bind_res m f = Inl e \<longleftrightarrow> m = Inl e \<or> (\<exists>x. m = Inr x \<and> f x = Inl e)"
  by (cases m) auto

lemma bind_res_assoc: "bind_res (bind_res m f) g = bind_res m (\<lambda>x. bind_res (f x) g)"
  by (cases m) auto

lemma assert_res_Inr [simp]: "assert_res b = Inr u \<longleftrightarrow> b"
  by (simp add: assert_res_def)

lemma assert_res_Inl [simp]: "assert_res b = Inl e \<longleftrightarrow> \<not> b \<and> e = AssertionError"
  by (auto simp: assert_res_def)

lemma assert_res_True [simp]: "b \<Longrightarrow> assert_res b = Inr ()"
  by (simp add: assert_res_def)

lemma assert_res_False [simp]: "\<not> b \<Longrightarrow> assert_res b = Inl AssertionError"
  by (simp add: assert_res_def)

lemma of_option_simps [simp]:
  "of_option e None = Inl e" "of_option e (Some x) = Inr x"
  by (simp_all add: of_option_def)

lemma of_option_eq [res_simps]:
  "of_option e v = Inr x \<longleftrightarrow> v = Some x"
  "of_option e v = Inl e' \<longleftrightarrow> v = None \<and> e' = e"
  by (auto simp: of_option_def split: option.splits)

text \<open>A comprehension that meets no exception is the plain \<^const>\<open>map\<close>, and conversely.\<close>

lemma map_res_Inr_map:
  "(\<And>x. x \<in> set xs \<Longrightarrow> f x = Inr (g x)) \<Longrightarrow> map_res f xs = Inr (map g xs)"
  by (induction xs) auto

lemma map_res_InrD:
  "map_res f xs = Inr ys \<Longrightarrow> list_all2 (\<lambda>x y. f x = Inr y) xs ys"
  by (induction xs arbitrary: ys) (auto simp: res_simps)

lemma map_res_length: "map_res f xs = Inr ys \<Longrightarrow> length ys = length xs"
  by (auto dest!: map_res_InrD list_all2_lengthD)

lemma map_res_map: "map_res f (map g xs) = map_res (\<lambda>x. f (g x)) xs"
  by (induction xs) auto

lemma map_res_append:
  "map_res f (xs @ ys) = bind_res (map_res f xs) (\<lambda>us. bind_res (map_res f ys) (\<lambda>vs. Inr (us @ vs)))"
  by (induction xs) (auto simp: bind_res_def split: sum.splits)

section \<open>Lists\<close>

definition py_index :: "'a list \<Rightarrow> int \<Rightarrow> 'a res" where
  "py_index xs i =
     (if i < - int (length xs) \<or> int (length xs) \<le> i then Inl IndexError
      else if 0 \<le> i then Inr (xs ! nat i)
      else Inr (xs ! nat (int (length xs) + i)))"

definition clamp_index :: "nat \<Rightarrow> int \<Rightarrow> nat" where
  "clamp_index n k = nat (if k < 0 then max 0 (int n + k) else min k (int n))"

definition py_slice :: "'a list \<Rightarrow> int \<Rightarrow> int \<Rightarrow> 'a list" where
  "py_slice xs i j =
     (let a = clamp_index (length xs) i; b = clamp_index (length xs) j
      in take (b - a) (drop a xs))"

definition py_range :: "int \<Rightarrow> int \<Rightarrow> int list" where
  "py_range a b = [a..b - 1]"

definition sum_len :: "'a list list \<Rightarrow> nat" where
  "sum_len xss = fold (\<lambda>ys n. n + length ys) xss 0"

lemma py_index_nat [simp]: "i < length xs \<Longrightarrow> py_index xs (int i) = Inr (xs ! i)"
  by (simp add: py_index_def)

lemma py_index_Inr:
  "0 \<le> i \<Longrightarrow> py_index xs i = Inr x \<longleftrightarrow> nat i < length xs \<and> x = xs ! nat i"
  by (auto simp: py_index_def Let_def)

lemma py_index_Inl:
  "0 \<le> i \<Longrightarrow> py_index xs i = Inl e \<longleftrightarrow> int (length xs) \<le> i \<and> e = IndexError"
  by (auto simp: py_index_def Let_def)

lemma clamp_index_le [simp]: "clamp_index n k \<le> n"
  by (auto simp: clamp_index_def)

lemma clamp_index_nat [simp]: "clamp_index n (int k) = min k n"
  by (auto simp: clamp_index_def)

lemma py_slice_nat:
  "i \<le> j \<Longrightarrow> j \<le> length xs \<Longrightarrow> py_slice xs (int i) (int j) = take (j - i) (drop i xs)"
  by (simp add: py_slice_def)

lemma set_py_slice: "set (py_slice xs i j) \<subseteq> set xs"
  unfolding py_slice_def Let_def by (meson in_set_dropD in_set_takeD subsetI)

lemma set_py_range [simp]: "set (py_range a b) = {a..<b}"
  by (auto simp: py_range_def)

lemma distinct_py_range [simp]: "distinct (py_range a b)"
  by (simp add: py_range_def)

lemma length_py_range [simp]: "length (py_range a b) = nat (b - a)"
  by (simp add: py_range_def)

lemma sum_len_fold: "fold (\<lambda>ys n. n + length ys) xss k = k + length (concat xss)"
  by (induction xss arbitrary: k) auto

lemma sum_len_concat: "sum_len xss = length (concat xss)"
  by (simp add: sum_len_def sum_len_fold)

lemma int_le_div_iff: "0 < (b::int) \<Longrightarrow> d \<le> a div b \<longleftrightarrow> d * b \<le> a"
proof
  assume b: "0 < b" and "d \<le> a div b"
  then have "d * b \<le> (a div b) * b" by (simp add: mult_right_mono)
  also have "\<dots> \<le> a" using b by (simp add: minus_mod_eq_div_mult [symmetric])
  finally show "d * b \<le> a" .
next
  assume b: "0 < b" and "d * b \<le> a"
  then have "d * b div b \<le> a div b" by (intro zdiv_mono1)
  with b show "d \<le> a div b" by simp
qed

text \<open>Consecutive slices between increasing cut points tile the list they are cut from.\<close>

lemma slice_split:
  "a \<le> b \<Longrightarrow> b \<le> c \<Longrightarrow> take (b - a) (drop a xs) @ take (c - b) (drop b xs) = take (c - a) (drop a xs)"
proof -
  assume ab: "a \<le> b" and bc: "b \<le> c"
  have "take (c - a) (drop a xs) = take (b - a) (drop a xs) @ take (c - b) (drop (b - a) (drop a xs))"
    using ab bc take_add [of "b - a" "c - b" "drop a xs"] by simp
  then show ?thesis using ab by simp
qed

section \<open>Dictionaries\<close>

type_synonym ('k, 'v) dict = "('k \<times> 'v) list"

abbreviation dict_set :: "('k, 'v) dict \<Rightarrow> 'k \<Rightarrow> 'v \<Rightarrow> ('k, 'v) dict" where
  "dict_set d k v \<equiv> AList.update k v d"

abbreviation dict_get :: "('k, 'v) dict \<Rightarrow> 'k \<Rightarrow> 'v option" where
  "dict_get \<equiv> map_of"

definition dict_keys :: "('k, 'v) dict \<Rightarrow> 'k list" where
  "dict_keys d = map fst d"

definition dict_get_or :: "('k, 'v) dict \<Rightarrow> 'k \<Rightarrow> 'v \<Rightarrow> 'v" where
  "dict_get_or d k v = (case dict_get d k of None \<Rightarrow> v | Some x \<Rightarrow> x)"

definition dict_has :: "('k, 'v) dict \<Rightarrow> 'k \<Rightarrow> bool" where
  "dict_has d k = (dict_get d k \<noteq> None)"

definition dict_index :: "('k, 'v) dict \<Rightarrow> 'k \<Rightarrow> 'v res" where
  "dict_index d k = of_option KeyError (dict_get d k)"

definition dict_ok :: "('k, 'v) dict \<Rightarrow> bool" where
  "dict_ok d = distinct (dict_keys d)"

fun dict_update_all :: "('k, 'v) dict \<Rightarrow> ('k \<times> 'v) list \<Rightarrow> ('k, 'v) dict" where
  "dict_update_all d [] = d"
| "dict_update_all d ((k, v) # kvs) = dict_update_all (dict_set d k v) kvs"

lemma dict_get_set [dict_simps, simp]:
  "dict_get (dict_set d k v) k' = (if k' = k then Some v else dict_get d k')"
  by (simp add: update_conv')

lemma dict_ok_Nil [simp]: "dict_ok []"
  by (simp add: dict_ok_def dict_keys_def)

lemma dict_ok_set [dict_simps, simp]: "dict_ok d \<Longrightarrow> dict_ok (dict_set d k v)"
  by (simp add: dict_ok_def dict_keys_def distinct_update)

lemma dict_keys_set:
  "dict_keys (dict_set d k v) = (if k \<in> set (dict_keys d) then dict_keys d else dict_keys d @ [k])"
  by (simp add: dict_keys_def update_keys)

lemma dict_has_iff: "dict_has d k \<longleftrightarrow> k \<in> set (dict_keys d)"
  by (simp add: dict_has_def dict_keys_def map_of_eq_None_iff)

lemma dict_has_set [dict_simps, simp]: "dict_has (dict_set d k v) k' \<longleftrightarrow> k' = k \<or> dict_has d k'"
  by (simp add: dict_has_def)

lemma dict_get_or_set [dict_simps, simp]:
  "dict_get_or (dict_set d k v) k' w = (if k' = k then v else dict_get_or d k' w)"
  by (simp add: dict_get_or_def)

lemma dict_index_set [dict_simps, simp]:
  "dict_index (dict_set d k v) k' = (if k' = k then Inr v else dict_index d k')"
  by (simp add: dict_index_def)

lemma dict_get_update_all:
  "dict_get (dict_update_all d kvs) k = (case map_of (rev kvs) k of None \<Rightarrow> dict_get d k | Some v \<Rightarrow> Some v)"
  by (induction d kvs rule: dict_update_all.induct)
     (auto simp: map_add_def split: option.splits)

lemma dict_ok_update_all [simp]: "dict_ok d \<Longrightarrow> dict_ok (dict_update_all d kvs)"
  by (induction d kvs rule: dict_update_all.induct) auto

end
