(* ===== verification/Py_Strings.thy ===== *)
theory Py_Strings
  imports Py_Prelude
begin

text \<open>
  The string methods that the sources use, over ASCII strings: \<open>split\<close> and \<open>join\<close> on a
  one-character separator, \<open>strip\<close>, \<open>find\<close>, \<open>lower\<close>, \<open>startswith\<close>, \<open>str\<close> of an integer and
  \<open>int\<close> of a string. The lemmas give the two round trips the launchers rest on: splitting undoes
  joining, and reading undoes printing a number.
\<close>

section \<open>Splitting and joining\<close>

fun py_split :: "char \<Rightarrow> string \<Rightarrow> string list" where
  "py_split c [] = [[]]"
| "py_split c (x # xs) =
     (if x = c then [] # py_split c xs
      else (case py_split c xs of [] \<Rightarrow> [[x]] | y # ys \<Rightarrow> (x # y) # ys))"

fun py_join :: "string \<Rightarrow> string list \<Rightarrow> string" where
  "py_join s [] = []"
| "py_join s [x] = x"
| "py_join s (x # y # ys) = x @ s @ py_join s (y # ys)"

lemma py_split_not_Nil [simp]: "py_split c s \<noteq> []"
  by (induction s) (auto split: list.splits)

lemma py_split_nosep: "x \<in> set (py_split c s) \<Longrightarrow> c \<notin> set x"
  by (induction s arbitrary: x) (auto split: list.splits if_splits)

lemma py_split_id [simp]: "c \<notin> set s \<Longrightarrow> py_split c s = [s]"
  by (induction s) auto

lemma py_split_append: "c \<notin> set x \<Longrightarrow> py_split c (x @ c # s) = x # py_split c s"
  by (induction x) auto

lemma py_join_Cons: "xs \<noteq> [] \<Longrightarrow> py_join s (x # xs) = x @ s @ py_join s xs"
  by (cases xs) auto

lemma py_join_split: "py_join [c] (py_split c s) = s"
proof (induction s)
  case (Cons x s)
  then show ?case
    by (cases "py_split c s"; cases "tl (py_split c s)") (auto simp: py_join_Cons)
qed simp

lemma py_split_join:
  "xs \<noteq> [] \<Longrightarrow> (\<And>x. x \<in> set xs \<Longrightarrow> c \<notin> set x) \<Longrightarrow> py_split c (py_join [c] xs) = xs"
proof (induction xs)
  case (Cons x xs)
  then show ?case by (cases xs) (auto simp: py_split_append)
qed simp

lemma set_py_join: "set (py_join s xs) \<subseteq> set s \<union> \<Union> (set ` set xs)"
  by (induction s xs rule: py_join.induct) auto

lemma length_py_split: "length (py_split c s) = Suc (length (filter (\<lambda>x. x = c) s))"
  by (induction s) (auto split: list.splits)

section \<open>Stripping, searching, lower case\<close>

definition py_strip_by :: "(char \<Rightarrow> bool) \<Rightarrow> string \<Rightarrow> string" where
  "py_strip_by P s = rev (dropWhile P (rev (dropWhile P s)))"

definition is_space :: "char \<Rightarrow> bool" where
  "is_space c = (c \<in> {CHR 0x09, CHR 0x0A, CHR 0x0B, CHR 0x0C, CHR 0x0D,
                      CHR 0x1C, CHR 0x1D, CHR 0x1E, CHR 0x1F, CHR 0x20})"

definition py_strip :: "string \<Rightarrow> string" where
  "py_strip s = py_strip_by is_space s"

fun py_find :: "string \<Rightarrow> char \<Rightarrow> int" where
  "py_find [] c = -1"
| "py_find (x # xs) c = (if x = c then 0 else (let i = py_find xs c in if i = -1 then -1 else i + 1))"

definition py_startswith :: "string \<Rightarrow> string \<Rightarrow> bool" where
  "py_startswith s p = (take (length p) s = p)"

definition lower_char :: "char \<Rightarrow> char" where
  "lower_char c = (case map_of (zip ''ABCDEFGHIJKLMNOPQRSTUVWXYZ'' ''abcdefghijklmnopqrstuvwxyz'') c of
                     None \<Rightarrow> c | Some d \<Rightarrow> d)"

definition py_lower :: "string \<Rightarrow> string" where
  "py_lower s = map lower_char s"

lemma py_strip_by_id:
  "s = [] \<or> (\<not> P (hd s) \<and> \<not> P (last s)) \<Longrightarrow> py_strip_by P s = s"
proof (cases s rule: rev_cases)
  case (snoc ys y)
  assume "s = [] \<or> (\<not> P (hd s) \<and> \<not> P (last s))"
  with snoc have "dropWhile P s = s" "\<not> P y" by (cases ys; auto)+
  with snoc show ?thesis by (simp add: py_strip_by_def)
qed (simp add: py_strip_by_def)

lemma py_find_ge: "-1 \<le> py_find s c"
  by (induction s) (auto simp: Let_def)

lemma py_find_minus1 [simp]: "py_find s c = -1 \<longleftrightarrow> c \<notin> set s"
  using py_find_ge by (induction s) (auto simp: Let_def, smt (verit) py_find_ge)

lemma py_find_append: "c \<notin> set x \<Longrightarrow> py_find (x @ c # s) c = int (length x)"
  by (induction x) (auto simp: Let_def)

lemma py_find_split:
  "c \<in> set s \<Longrightarrow> \<exists>x y. s = x @ c # y \<and> c \<notin> set x \<and> py_find s c = int (length x)"
  by (metis py_find_append split_list_first)

section \<open>Numbers\<close>

definition is_digit :: "char \<Rightarrow> bool" where
  "is_digit c = (c \<in> set ''0123456789'')"

definition digit_char :: "nat \<Rightarrow> char" where
  "digit_char d = ''0123456789'' ! d"

definition digit_val :: "char \<Rightarrow> nat" where
  "digit_val c = length (takeWhile (\<lambda>x. x \<noteq> c) ''0123456789'')"

fun nat_str :: "nat \<Rightarrow> string" where
  "nat_str n = (if n < 10 then [digit_char n] else nat_str (n div 10) @ [digit_char (n mod 10)])"

declare nat_str.simps [simp del]

definition py_str :: "int \<Rightarrow> string" where
  "py_str i = (if i < 0 then ''-'' @ nat_str (nat (- i)) else nat_str (nat i))"

definition digits_ok :: "string \<Rightarrow> bool" where
  "digits_ok s = list_all (\<lambda>w. w \<noteq> [] \<and> list_all is_digit w) (py_split (CHR ''_'') s)"

definition digits_val :: "string \<Rightarrow> nat" where
  "digits_val s = foldl (\<lambda>a c. a * 10 + digit_val c) 0 (filter is_digit s)"

definition py_int :: "string \<Rightarrow> int res" where
  "py_int s =
     (let t = py_strip s;
          neg = (t \<noteq> [] \<and> hd t = CHR ''-'');
          u = (if t \<noteq> [] \<and> (hd t = CHR ''-'' \<or> hd t = CHR ''+'') then tl t else t)
      in if digits_ok u then Inr (if neg then - int (digits_val u) else int (digits_val u))
         else Inl ValueError)"

lemma less_10_cases: "(d::nat) < 10 \<Longrightarrow> d \<in> {0, 1, 2, 3, 4, 5, 6, 7, 8, 9}"
  by auto

lemma is_digit_digit_char [simp]: "d < 10 \<Longrightarrow> is_digit (digit_char d)"
  using less_10_cases [of d] by (auto simp: is_digit_def digit_char_def)

lemma digit_val_digit_char [simp]: "d < 10 \<Longrightarrow> digit_val (digit_char d) = d"
  using less_10_cases [of d] by (auto simp: digit_val_def digit_char_def)

lemma nat_str_not_Nil [simp]: "nat_str n \<noteq> []"
  by (subst nat_str.simps) simp

lemma nat_str_digits: "list_all is_digit (nat_str n)"
proof (induction n rule: nat_str.induct)
  case (1 n)
  then show ?case by (cases "n < 10") (simp_all add: nat_str.simps [of n])
qed

lemma nat_str_digit: "c \<in> set (nat_str n) \<Longrightarrow> is_digit c"
  using nat_str_digits by (auto simp: list_all_iff)

lemma digits_val_nat_str: "digits_val (nat_str n) = n"
proof (induction n rule: nat_str.induct)
  case (1 n)
  then show ?case
    by (cases "n < 10") (simp_all add: nat_str.simps [of n] digits_val_def)
qed

lemma is_digit_not [simp]:
  "\<not> is_digit (CHR ''-'')" "\<not> is_digit (CHR ''+'')" "\<not> is_digit (CHR ''_'')" "\<not> is_digit (CHR '','')"
  "\<not> is_digit (CHR '':'')" "\<not> is_digit (CHR '' '')" "\<not> is_digit (CHR ''.'')"
  by (simp_all add: is_digit_def)

lemma is_digit_not_space: "is_digit c \<Longrightarrow> \<not> is_space c"
  by (auto simp: is_digit_def is_space_def)

lemma nat_str_notin [simp]:
  "CHR ''-'' \<notin> set (nat_str n)" "CHR ''_'' \<notin> set (nat_str n)" "CHR '','' \<notin> set (nat_str n)"
  "CHR '':'' \<notin> set (nat_str n)" "CHR '' '' \<notin> set (nat_str n)"
  using nat_str_digit is_digit_not by blast+

lemma nat_str_inj: "nat_str m = nat_str n \<Longrightarrow> m = n"
  by (metis digits_val_nat_str)

lemma py_int_nat_str [simp]: "py_int (nat_str n) = Inr (int n)"
proof -
  have hd: "is_digit (hd (nat_str n))" and la: "is_digit (last (nat_str n))"
    by (auto intro: nat_str_digit [of _ n])
  have strip: "py_strip (nat_str n) = nat_str n"
    unfolding py_strip_def using hd la by (intro py_strip_by_id) (simp add: is_digit_not_space)
  have sign: "hd (nat_str n) \<noteq> CHR ''-''" "hd (nat_str n) \<noteq> CHR ''+''"
    using hd is_digit_not by metis+
  show ?thesis
    unfolding py_int_def Let_def strip
    using sign nat_str_digits by (simp add: digits_ok_def digits_val_nat_str)
qed

lemma py_int_py_str [simp]: "py_int (py_str i) = Inr i"
proof (cases "i < 0")
  case True
  let ?m = "nat (- i)"
  have la: "is_digit (last (nat_str ?m))" by (auto intro: nat_str_digit [of _ ?m])
  have strip: "py_strip (''-'' @ nat_str ?m) = ''-'' @ nat_str ?m"
    unfolding py_strip_def using la
    by (intro py_strip_by_id) (simp add: is_digit_not_space, simp add: is_space_def)
  show ?thesis
    unfolding py_int_def Let_def py_str_def using True strip nat_str_digits
    by (simp add: digits_ok_def digits_val_nat_str)
next
  case False
  then show ?thesis by (simp add: py_str_def)
qed

lemma py_str_inj: "py_str i = py_str j \<Longrightarrow> i = j"
  by (metis py_int_py_str Inr_inject)

lemma py_int_empty [simp]: "py_int [] = Inl ValueError"
  by (simp add: py_int_def py_strip_def py_strip_by_def digits_ok_def)

end
