(* ===== verification/Numa_Alloc.thy ===== *)
theory Numa_Alloc
  imports Py_Strings
begin

text \<open>
  The core allocator of the launcher, \<open>allocate_cpu\<close> of \<^verbatim>\<open>launcher/launch.py\<close> with its
  local functions \<open>get_numa_info\<close>, \<open>_get_allocation\<close> and \<open>_get_quota\<close>.

  The process environment is a dictionary of strings; the file system below
  \<^verbatim>\<open>/sys/devices/system/node\<close> is a parameter. A list of cores is a list of Python integers;
  the state the allocator mutates is the list of nodes, each with the cores nobody has taken yet.
  The lemmas show that the loops return, that the runs handed out are consecutive and tile what
  leaves the pool, that no core is handed out twice, and when every worker is served.
\<close>

section \<open>Environment\<close>

type_synonym env = "(string, string) dict"
type_synonym cores = "int list"

definition NUMA_PATH :: string where
  "NUMA_PATH = ''/sys/devices/system/node''"

definition env_int :: "env \<Rightarrow> string \<Rightarrow> int \<Rightarrow> int res" where
  "env_int e k d = (case dict_get e k of None \<Rightarrow> Inr d | Some s \<Rightarrow> py_int s)"

definition path_join :: "string \<Rightarrow> string \<Rightarrow> string" where
  "path_join a b =
     (if py_startswith b ''/'' then b
      else if a = [] \<or> last a = CHR ''/'' then a @ b
      else a @ ''/'' @ b)"

section \<open>Core allocation\<close>

definition cpu_mt :: "env \<Rightarrow> bool" where
  "cpu_mt e = (py_lower (dict_get_or e ''BYTEPS_MULTITHREADED_CPU'' ''1'') \<in> set [''1'', ''true''])"

text \<open>The digits of the first match of the pattern \<^verbatim>\<open>cpu\d+\<close> in a file name, if any.\<close>

fun cpu_match :: "string \<Rightarrow> string option" where
  "cpu_match [] = None"
| "cpu_match (c # cs) =
     (let ds = takeWhile is_digit (drop 3 (c # cs))
      in if py_startswith (c # cs) ''cpu'' \<and> ds \<noteq> [] then Some ds else cpu_match cs)"

definition node_cpus :: "bool \<Rightarrow> string list \<Rightarrow> cores" where
  "node_cpus mt items =
     (let cpus = filter (\<lambda>x. x \<noteq> None) (map cpu_match items);
          cpu_ids = sort (map (\<lambda>d. int (digits_val (the d))) cpus)
      in if mt then take (length cpu_ids div 2) cpu_ids else cpu_ids)"

definition get_numa_info :: "bool \<Rightarrow> (string \<Rightarrow> string list option) \<Rightarrow> cores list res" where
  "get_numa_info mt fs =
     (case fs NUMA_PATH of
        None \<Rightarrow> Inr []
      | Some items \<Rightarrow>
          map_res (\<lambda>node. bind_res (of_option OSError (fs (path_join NUMA_PATH node)))
                                   (\<lambda>its. Inr (node_cpus mt its)))
            (filter (\<lambda>s. py_startswith s ''node'') items))"

definition split_index :: "cores \<Rightarrow> int \<Rightarrow> nat list" where
  "split_index node quota = filter (\<lambda>i. node ! i \<noteq> node ! (i - 1) + 1) [1..<nat quota]"

fun cut_runs :: "cores \<Rightarrow> nat list \<Rightarrow> cores list \<Rightarrow> nat \<Rightarrow> int \<Rightarrow> cores list \<times> nat \<times> int" where
  "cut_runs node [] ret last_idx quota = (ret, last_idx, quota)"
| "cut_runs node (idx # idxs) ret last_idx quota =
     cut_runs node idxs (ret @ [py_slice node (int last_idx) (int idx)]) idx
       (quota - (int idx - int last_idx))"

definition node_allocation :: "bool \<Rightarrow> cores \<Rightarrow> int \<Rightarrow> int \<Rightarrow> cores \<Rightarrow> cores list" where
  "node_allocation mt node quota cpu_num blacklist =
     (let (ret, last_idx, q) = cut_runs node (split_index node quota) [] 0 quota;
          curr_alloc = py_slice node (int last_idx) (int last_idx + q);
          curr_alloc = filter (\<lambda>item. item \<notin> set blacklist) curr_alloc;
          ret = ret @ [curr_alloc]
      in if mt then ret @ [filter (\<lambda>item. item \<notin> set blacklist) (map (\<lambda>x. x + cpu_num) curr_alloc)]
         else ret)"

definition del_at :: "'a list \<Rightarrow> nat \<Rightarrow> 'a list" where
  "del_at xs i = take i xs @ drop (Suc i) xs"

definition del_first :: "'a list \<Rightarrow> nat \<Rightarrow> 'a list" where
  "del_first xs n = foldl del_at xs (rev [0..<n])"

fun get_allocation_nodes ::
    "bool \<Rightarrow> cores list \<Rightarrow> int \<Rightarrow> int \<Rightarrow> cores \<Rightarrow> cores list \<times> cores list" where
  "get_allocation_nodes mt [] quota cpu_num bl = ([], [])"
| "get_allocation_nodes mt (node # nodes) quota cpu_num bl =
     (if int (length node) < quota
      then let (ret, nodes') = get_allocation_nodes mt nodes quota cpu_num bl
           in (ret, node # nodes')
      else (node_allocation mt node quota cpu_num bl, del_first node (nat quota) # nodes))"

definition get_allocation ::
    "bool \<Rightarrow> cores list \<Rightarrow> int \<Rightarrow> int \<Rightarrow> cores \<Rightarrow> (cores list \<times> cores list) res" where
  "get_allocation mt nodes quota cpu_num bl =
     (if quota < 1 then Inl ValueError else Inr (get_allocation_nodes mt nodes quota cpu_num bl))"

function shrink_default :: "int \<Rightarrow> int \<Rightarrow> int \<Rightarrow> int" where
  "shrink_default dq local_size cpu_num =
     (if dq \<ge> 1 \<and> dq * local_size > cpu_num then shrink_default (dq - 1) local_size cpu_num else dq)"
  by pat_completeness auto
termination
  by (relation "measure (\<lambda>(dq, _, _). nat dq)") auto

function shrink_root :: "int \<Rightarrow> int \<Rightarrow> int" where
  "shrink_root rq node_size =
     (if rq \<ge> 1 \<and> rq > node_size then shrink_root (rq - 1) node_size else rq)"
  by pat_completeness auto
termination
  by (relation "measure (\<lambda>(rq, _). nat rq)") auto

declare shrink_default.simps [simp del] shrink_root.simps [simp del]

definition get_quota :: "env \<Rightarrow> cores list \<Rightarrow> int \<Rightarrow> int \<Rightarrow> int list res" where
  "get_quota e nodes cpu_num local_size =
     bind_res (if local_size = 0 then Inl ZeroDivisionError else Inr (cpu_num div local_size)) (\<lambda>d0.
     bind_res (env_int e ''BYTEPS_NUMA_DEFAULT_QUOTA'' d0) (\<lambda>d1.
     let default_quota = shrink_default d1 local_size cpu_num;
         root_quota = cpu_num - default_quota * (local_size - 1)
     in bind_res (env_int e ''BYTEPS_NUMA_ROOT_QUOTA'' 0) (\<lambda>r0.
        let root_quota = (if r0 \<noteq> 0 then r0 else root_quota)
        in bind_res (py_index nodes 0) (\<lambda>n0.
           let node_size = int (length n0);
               node_size = (if cpu_mt e then node_size div 2 else node_size);
               root_quota = shrink_root root_quota node_size
           in Inr (replicate (nat (local_size - 1)) default_quota @ [root_quota])))))"

function alloc_worker ::
    "bool \<Rightarrow> int \<Rightarrow> cores \<Rightarrow> cores list \<Rightarrow> int \<Rightarrow> (cores list option \<times> cores list) res" where
  "alloc_worker mt cpu_num bl nodes quota =
     (if quota > 0
      then (case get_allocation mt nodes quota cpu_num bl of
              Inl e \<Rightarrow> Inl e
            | Inr (allocation, nodes') \<Rightarrow>
                if allocation \<noteq> [] then Inr (Some allocation, nodes')
                else alloc_worker mt cpu_num bl nodes' (quota - 1))
      else Inr (None, nodes))"
  by pat_completeness auto
termination
  by (relation "measure (\<lambda>(_, _, _, _, q). nat q)") auto

declare alloc_worker.simps [simp del]

fun alloc_all ::
    "bool \<Rightarrow> int \<Rightarrow> cores \<Rightarrow> cores list \<Rightarrow> int list \<Rightarrow> cores list list res" where
  "alloc_all mt cpu_num bl nodes [] = Inr []"
| "alloc_all mt cpu_num bl nodes (quota # quotas) =
     bind_res (alloc_worker mt cpu_num bl nodes quota) (\<lambda>(a, nodes').
     bind_res (alloc_all mt cpu_num bl nodes' quotas) (\<lambda>ret.
       Inr (case a of None \<Rightarrow> ret | Some allocation \<Rightarrow> allocation # ret)))"

definition cpu_blacklist :: "env \<Rightarrow> cores res" where
  "cpu_blacklist e =
     map_res py_int (py_split (CHR '','') (dict_get_or e ''BYTEPS_CPU_BLACKLIST'' ''-1''))"

definition allocate_cpu ::
    "env \<Rightarrow> (string \<Rightarrow> string list option) \<Rightarrow> int \<Rightarrow> cores list list option res" where
  "allocate_cpu e fs local_size =
     bind_res (get_numa_info (cpu_mt e) fs) (\<lambda>nodes.
       if nodes = [] then Inr None
       else let cpu_num = int (sum_len nodes)
            in bind_res (get_quota e nodes cpu_num local_size) (\<lambda>quota_list.
               bind_res (cpu_blacklist e) (\<lambda>bl.
               bind_res (alloc_all (cpu_mt e) cpu_num bl nodes quota_list) (\<lambda>ret. Inr (Some ret)))))"

section \<open>Runs of consecutive cores\<close>

fun consec :: "cores \<Rightarrow> bool" where
  "consec [] = True"
| "consec [x] = True"
| "consec (x # y # ys) = (y = x + 1 \<and> consec (y # ys))"

lemma consec_nth: "consec xs \<longleftrightarrow> (\<forall>i. Suc i < length xs \<longrightarrow> xs ! Suc i = xs ! i + 1)"
proof (induction xs rule: consec.induct)
  case (3 x y ys)
  then show ?case by (auto simp: nth_Cons split: nat.splits)
qed auto

lemma consec_upto: "consec xs \<Longrightarrow> xs \<noteq> [] \<Longrightarrow> [hd xs..last xs] = xs"
proof (induction xs rule: consec.induct)
  case (3 x y ys)
  then have IH: "[y..last (y # ys)] = y # ys" and y: "y = x + 1" by auto
  from IH have "y \<le> last (y # ys)" by (metis upto_Nil2 list.distinct(1) not_le)
  with IH y show ?case by (simp add: upto_rec1)
qed auto

lemma consec_slice:
  assumes "\<And>j. a < j \<Longrightarrow> j < b \<Longrightarrow> node ! j = node ! (j - 1) + 1" and "b \<le> length node"
  shows "consec (take (b - a) (drop a node))"
  unfolding consec_nth
proof (intro allI impI)
  fix i assume "Suc i < length (take (b - a) (drop a node))"
  with assms show "take (b - a) (drop a node) ! Suc i = take (b - a) (drop a node) ! i + 1"
    using assms(1) [of "a + Suc i"] by simp
qed

lemma filter_upt_Nil: "filter P [a..<n] = [] \<Longrightarrow> a \<le> j \<Longrightarrow> j < n \<Longrightarrow> \<not> P j"
  by (auto simp: filter_empty_conv)

lemma filter_upt_Cons:
  "filter P [a..<n] = i # is \<Longrightarrow>
     a \<le> i \<and> i < n \<and> (\<forall>j. a \<le> j \<longrightarrow> j < i \<longrightarrow> \<not> P j) \<and> is = filter P [Suc i..<n]"
proof (induction "n - a" arbitrary: a)
  case (Suc k)
  then have lt: "a < n" by simp
  show ?case
  proof (cases "P a")
    case True
    with Suc.prems lt show ?thesis by (auto simp: upt_conv_Cons)
  next
    case False
    with Suc.prems lt have eq: "filter P [Suc a..<n] = i # is" by (simp add: upt_conv_Cons)
    have "k = n - Suc a" using Suc.hyps(2) by simp
    with Suc.hyps(1) [OF this eq] False show ?thesis
      by (metis Suc_leD Suc_leI le_neq_implies_less)
  qed
qed simp

lemma cut_runs_spec:
  assumes "idxs = filter (\<lambda>i. node ! i \<noteq> node ! (i - 1) + 1) [Suc l..<n]"
    and "l < n" "n \<le> length node" "cut_runs node idxs ret l q = (ret', l', q')"
  shows "\<exists>segs. ret' = ret @ segs \<and> concat segs @ take (n - l') (drop l' node) = take (n - l) (drop l node)
           \<and> l' < n \<and> q' = q - (int l' - int l)
           \<and> (\<forall>s \<in> set segs. s \<noteq> [] \<and> consec s) \<and> consec (take (n - l') (drop l' node))"
  using assms
proof (induction idxs arbitrary: ret l q)
  case Nil
  have "consec (take (n - l) (drop l node))"
    by (rule consec_slice) (use Nil filter_upt_Nil [OF Nil.prems(1) [symmetric]] in auto)
  with Nil show ?case by simp
next
  case (Cons i js)
  from filter_upt_Cons [OF Cons.prems(1) [symmetric]]
  have i: "l < i" "i < n" "\<And>j. l < j \<Longrightarrow> j < i \<Longrightarrow> node ! j = node ! (j - 1) + 1"
    and js: "js = filter (\<lambda>i. node ! i \<noteq> node ! (i - 1) + 1) [Suc i..<n]"
    by auto
  let ?s = "take (i - l) (drop l node)"
  have slice: "py_slice node (int l) (int i) = ?s"
    using i Cons.prems by (intro py_slice_nat) auto
  from Cons.prems(4) slice
  have "cut_runs node js (ret @ [?s]) i (q - (int i - int l)) = (ret', l', q')" by simp
  from Cons.IH [OF js i(2) Cons.prems(3) this] obtain segs where
    segs: "ret' = ret @ ?s # segs" "concat segs @ take (n - l') (drop l' node) = take (n - i) (drop i node)"
      "l' < n" "q' = q - (int i - int l) - (int l' - int i)"
      "\<forall>s \<in> set segs. s \<noteq> [] \<and> consec s" "consec (take (n - l') (drop l' node))" by auto
  have "?s \<noteq> []" "consec ?s"
    using i Cons.prems consec_slice [of l i node] by auto
  moreover have "?s @ take (n - i) (drop i node) = take (n - l) (drop l node)"
    using i by (intro slice_split) auto
  ultimately show ?case using segs
    by (intro exI [of _ "?s # segs"]) (auto simp: append_assoc)
qed

text \<open>What one node gives: runs that tile its first \<open>quota\<close> cores, the last of them filtered.\<close>

lemma node_allocation_spec:
  assumes "1 \<le> quota" "quota \<le> int (length node)"
  obtains segs curr where
    "concat segs @ curr = take (nat quota) node" "curr \<noteq> []" "consec curr"
    "\<forall>s \<in> set segs. s \<noteq> [] \<and> consec s"
    "node_allocation mt node quota cpu_num bl =
       segs @ [filter (\<lambda>i. i \<notin> set bl) curr]
         @ (if mt then [filter (\<lambda>i. i \<notin> set bl) (map (\<lambda>x. x + cpu_num) (filter (\<lambda>i. i \<notin> set bl) curr))]
            else [])"
proof -
  obtain r l q where cut: "cut_runs node (split_index node quota) [] 0 quota = (r, l, q)"
    by (cases "cut_runs node (split_index node quota) [] 0 quota") auto
  have n: "0 < nat quota" "nat quota \<le> length node" using assms by auto
  from cut_runs_spec [OF _ n cut] obtain segs where
    segs: "r = segs" "concat segs @ take (nat quota - l) (drop l node) = take (nat quota) node"
      "l < nat quota" "q = quota - int l" "\<forall>s \<in> set segs. s \<noteq> [] \<and> consec s"
      "consec (take (nat quota - l) (drop l node))"
    by (auto simp: split_index_def)
  let ?curr = "take (nat quota - l) (drop l node)"
  have "int l + q = int (nat quota)" using segs assms by simp
  then have slice: "py_slice node (int l) (int l + q) = ?curr"
    using segs n by (simp only: py_slice_nat)
  show thesis
    by (rule that [of segs ?curr])
       (use segs n slice cut in \<open>auto simp: node_allocation_def Let_def\<close>)
qed

lemma del_first_drop: "n \<le> length xs \<Longrightarrow> del_first xs n = drop n xs"
  unfolding del_first_def
  by (induction n arbitrary: xs) (auto simp: del_at_def)

section \<open>The pool of free cores\<close>

text \<open>
  One successful allocation step: some node with at least \<open>q\<close> free cores gives away its first
  \<open>q\<close>; the other nodes keep theirs.
\<close>

definition takes ::
    "bool \<Rightarrow> int \<Rightarrow> cores \<Rightarrow> cores list \<Rightarrow> int \<Rightarrow> cores list \<Rightarrow> cores list \<Rightarrow> bool" where
  "takes mt cpu_num bl nodes q a nodes' \<longleftrightarrow>
     1 \<le> q \<and> (\<exists>pre node post. nodes = pre @ node # post \<and> q \<le> int (length node)
               \<and> nodes' = pre @ drop (nat q) node # post
               \<and> a = node_allocation mt node q cpu_num bl)"

lemma node_allocation_not_Nil: "node_allocation mt node quota cpu_num bl \<noteq> []"
  by (cases "cut_runs node (split_index node quota) [] 0 quota") (simp add: node_allocation_def Let_def)

lemma get_allocation_nodes_cases:
  assumes "1 \<le> quota" "get_allocation_nodes mt nodes quota cpu_num bl = (a, nodes')"
  shows "(a = [] \<and> nodes' = nodes \<and> (\<forall>n \<in> set nodes. int (length n) < quota))
         \<or> takes mt cpu_num bl nodes quota a nodes'"
  using assms(2)
proof (induction nodes arbitrary: a nodes')
  case (Cons node nodes)
  show ?case
  proof (cases "int (length node) < quota")
    case True
    with Cons.prems obtain r ns where ns: "get_allocation_nodes mt nodes quota cpu_num bl = (r, ns)"
      "a = r" "nodes' = node # ns"
      by (auto split: prod.splits)
    from Cons.IH [OF ns(1)] show ?thesis
    proof
      assume "takes mt cpu_num bl nodes quota r ns"
      then obtain pre m post where "nodes = pre @ m # post" "quota \<le> int (length m)"
        "ns = pre @ drop (nat quota) m # post" "r = node_allocation mt m quota cpu_num bl"
        by (auto simp: takes_def)
      then have "takes mt cpu_num bl (node # nodes) quota a nodes'"
        unfolding takes_def using assms(1) ns by (metis append_Cons)
      then show ?thesis ..
    qed (use True ns in auto)
  next
    case False
    then have "takes mt cpu_num bl (node # nodes) quota a nodes'"
      unfolding takes_def using Cons.prems assms(1)
      by (intro conjI exI [of _ "[]"] exI [of _ node] exI [of _ nodes]) (auto simp: del_first_drop)
    then show ?thesis ..
  qed
qed simp

text \<open>
  The retry loop of one worker always returns, without an exception: with \<open>None\<close> only if the quota
  is not positive or nobody has a core left.
\<close>

lemma alloc_worker_cases:
  "\<exists>a nodes'. alloc_worker mt cpu_num bl nodes quota = Inr (a, nodes')
     \<and> ((a = None \<and> nodes' = nodes \<and> (quota \<le> 0 \<or> concat nodes = []))
        \<or> (\<exists>q al. a = Some al \<and> al \<noteq> [] \<and> q \<le> quota \<and> takes mt cpu_num bl nodes q al nodes'))"
proof (induction "nat quota" arbitrary: quota)
  case 0
  then show ?case by (auto simp: alloc_worker.simps [of mt cpu_num bl nodes quota])
next
  case (Suc k)
  then have pos: "0 < quota" by simp
  obtain r ns where get: "get_allocation_nodes mt nodes quota cpu_num bl = (r, ns)"
    by (cases "get_allocation_nodes mt nodes quota cpu_num bl")
  from get_allocation_nodes_cases [OF _ get] pos
  consider (none) "r = []" "ns = nodes" "\<forall>n \<in> set nodes. int (length n) < quota"
    | (some) "takes mt cpu_num bl nodes quota r ns" by force
  then show ?case
  proof cases
    case none
    with pos get have eq: "alloc_worker mt cpu_num bl nodes quota = alloc_worker mt cpu_num bl nodes (quota - 1)"
      by (simp add: alloc_worker.simps [of mt cpu_num bl nodes quota] get_allocation_def)
    have "k = nat (quota - 1)" using Suc.hyps(2) by simp
    from Suc.hyps(1) [OF this] obtain a ns' where
      IH: "alloc_worker mt cpu_num bl nodes (quota - 1) = Inr (a, ns')"
        "(a = None \<and> ns' = nodes \<and> (quota - 1 \<le> 0 \<or> concat nodes = []))
         \<or> (\<exists>q al. a = Some al \<and> al \<noteq> [] \<and> q \<le> quota - 1 \<and> takes mt cpu_num bl nodes q al ns')"
      by blast
    have "concat nodes = []" if q: "quota - 1 \<le> 0"
    proof -
      have "n = []" if "n \<in> set nodes" for n
        using none(3) q that by (cases n) auto
      then show ?thesis by simp
    qed
    then have none': "a = None \<and> ns' = nodes \<and> (quota \<le> 0 \<or> concat nodes = [])
         \<or> (\<exists>q al. a = Some al \<and> al \<noteq> [] \<and> q \<le> quota \<and> takes mt cpu_num bl nodes q al ns')"
      using IH(2) by (metis zle_diff1_eq order.strict_implies_order)
    show ?thesis unfolding eq IH(1) using none' by blast
  next
    case some
    then have "r \<noteq> []" by (auto simp: takes_def node_allocation_not_Nil)
    with some pos get show ?thesis
      by (auto simp: alloc_worker.simps [of mt cpu_num bl nodes quota] get_allocation_def)
  qed
qed

lemma alloc_worker_total: "\<exists>r. alloc_worker mt cpu_num bl nodes quota = Inr r"
  using alloc_worker_cases by blast

lemma alloc_all_total: "\<exists>r. alloc_all mt cpu_num bl nodes quotas = Inr r"
proof (induction quotas arbitrary: nodes)
  case (Cons q qs)
  obtain a ns where "alloc_worker mt cpu_num bl nodes q = Inr (a, ns)"
    using alloc_worker_cases by blast
  moreover obtain r where "alloc_all mt cpu_num bl ns qs = Inr r" using Cons.IH by blast
  ultimately show ?case by simp
qed simp

text \<open>The cores one step takes leave the pool, and the cores it hands out come from them.\<close>

lemma takes_pool:
  assumes "takes mt cpu_num bl nodes q a nodes'"
  obtains phys where "mset (concat nodes) = mset phys + mset (concat nodes')"
    "int (length phys) = q"
    "set (concat a) \<subseteq> set phys \<union> (if mt then (\<lambda>x. x + cpu_num) ` set phys else {})"
    "distinct phys \<Longrightarrow> (\<And>x. x \<in> set phys \<Longrightarrow> 0 \<le> x \<and> x < cpu_num) \<Longrightarrow> distinct (concat a)"
proof -
  from assms obtain pre node post where
    t: "1 \<le> q" "nodes = pre @ node # post" "q \<le> int (length node)"
      "nodes' = pre @ drop (nat q) node # post" "a = node_allocation mt node q cpu_num bl"
    by (auto simp: takes_def)
  obtain segs curr where
    s1: "concat segs @ curr = take (nat q) node" "curr \<noteq> []" "consec curr"
      "\<forall>s \<in> set segs. s \<noteq> [] \<and> consec s"
    and s2: "node_allocation mt node q cpu_num bl = segs @ [filter (\<lambda>i. i \<notin> set bl) curr]
         @ (if mt then [filter (\<lambda>i. i \<notin> set bl) (map (\<lambda>x. x + cpu_num) (filter (\<lambda>i. i \<notin> set bl) curr))]
            else [])"
    by (rule node_allocation_spec [OF t(1,3), where mt = mt and cpu_num = cpu_num and bl = bl])
  note s = s1(1) s2 [folded t(5)]
  let ?phys = "take (nat q) node"
  have ph: "set ?phys = set (concat segs) \<union> set curr" by (metis s(1) set_append)
  show thesis
  proof (rule that [of ?phys])
    have "mset node = mset ?phys + mset (drop (nat q) node)"
      by (metis append_take_drop_id mset_append)
    then show "mset (concat nodes) = mset ?phys + mset (concat nodes')"
      using t by simp
    show "int (length ?phys) = q" using t by simp
    show "set (concat a) \<subseteq> set ?phys \<union> (if mt then (\<lambda>x. x + cpu_num) ` set ?phys else {})"
      unfolding s(2) ph by auto
  next
    assume d: "distinct ?phys" and r: "\<And>x. x \<in> set ?phys \<Longrightarrow> 0 \<le> x \<and> x < cpu_num"
    from d have dd: "distinct (concat segs @ curr)" by (simp only: s(1))
    have r': "\<And>x. x \<in> set (concat segs) \<or> x \<in> set curr \<Longrightarrow> 0 \<le> x \<and> x < cpu_num"
      using r ph by auto
    have inj: "inj_on (\<lambda>x. x + cpu_num) A" for A by (simp add: inj_on_def)
    let ?c = "filter (\<lambda>i. i \<notin> set bl) curr"
    let ?b = "filter (\<lambda>i. i \<notin> set bl) (map (\<lambda>x. x + cpu_num) ?c)"
    have c: "distinct (concat segs @ ?c)" using dd by auto
    have b: "distinct ?b" using dd by (simp add: distinct_map inj)
    have "x < cpu_num" if "x \<in> set (concat segs @ ?c)" for x using r' that by auto
    moreover have "cpu_num \<le> x" if "x \<in> set ?b" for x using r' that by auto
    ultimately have "set (concat segs @ ?c) \<inter> set ?b = {}"
      by (meson disjoint_iff linorder_not_le)
    with c b have "distinct (concat segs @ ?c @ (if mt then ?b else []))"
      by (simp only: distinct_append append_assoc [symmetric] split: if_split) simp
    then show "distinct (concat a)" unfolding s(2) by auto
  qed
qed

lemma alloc_all_step:
  "alloc_all mt cpu_num bl nodes (q # qs) = Inr ret \<Longrightarrow>
     \<exists>a nodes' ret'. alloc_worker mt cpu_num bl nodes q = Inr (a, nodes')
       \<and> alloc_all mt cpu_num bl nodes' qs = Inr ret'
       \<and> ret = (case a of None \<Rightarrow> ret' | Some al \<Rightarrow> al # ret')"
  by (auto simp: res_simps)

definition sibling_ids :: "bool \<Rightarrow> int \<Rightarrow> int set \<Rightarrow> int set" where
  "sibling_ids mt cpu_num A = A \<union> (if mt then (\<lambda>x. x + cpu_num) ` A else {})"

lemma sibling_ids_mono: "A \<subseteq> B \<Longrightarrow> sibling_ids mt n A \<subseteq> sibling_ids mt n B"
  by (auto simp: sibling_ids_def)

lemma sibling_ids_disjoint:
  assumes "A \<inter> B = {}" "\<And>x. x \<in> A \<union> B \<Longrightarrow> 0 \<le> x \<and> x < n"
  shows "sibling_ids mt n A \<inter> sibling_ids mt n B = {}"
proof (rule equals0I)
  fix x assume "x \<in> sibling_ids mt n A \<inter> sibling_ids mt n B"
  then obtain a b where ab: "a \<in> A" "x = a \<or> x = a + n" "b \<in> B" "x = b \<or> x = b + n"
    by (auto simp: sibling_ids_def split: if_splits)
  have "0 \<le> a \<and> a < n" "0 \<le> b \<and> b < n" using assms(2) ab by auto
  with ab(2,4) have "a = b" by auto
  then show False using ab(1,3) assms(1) by (simp add: disjoint_iff)
qed

lemma alloc_all_pool:
  assumes "distinct (concat nodes)" "\<And>x. x \<in> set (concat nodes) \<Longrightarrow> 0 \<le> x \<and> x < cpu_num"
    and "alloc_all mt cpu_num bl nodes qs = Inr ret"
  shows "distinct (concat (concat ret)) \<and>
         set (concat (concat ret)) \<subseteq> sibling_ids mt cpu_num (set (concat nodes))"
  using assms
proof (induction qs arbitrary: nodes ret)
  case Nil
  then show ?case by simp
next
  case (Cons q qs)
  from alloc_all_step [OF Cons.prems(3)] obtain a ns r where
    st: "alloc_worker mt cpu_num bl nodes q = Inr (a, ns)" "alloc_all mt cpu_num bl ns qs = Inr r"
      "ret = (case a of None \<Rightarrow> r | Some al \<Rightarrow> al # r)" by blast
  from alloc_worker_cases [of mt cpu_num bl nodes q] st(1)
  consider "a = None" "ns = nodes" | q' al where "a = Some al" "takes mt cpu_num bl nodes q' al ns"
    by auto
  then show ?case
  proof cases
    case 1
    with Cons.IH [OF Cons.prems(1,2)] st show ?thesis by simp
  next
    case 2
    obtain phys where
      ph: "mset (concat nodes) = mset phys + mset (concat ns)"
        "set (concat al) \<subseteq> set phys \<union> (if mt then (\<lambda>x. x + cpu_num) ` set phys else {})"
        "distinct phys \<Longrightarrow> (\<And>x. x \<in> set phys \<Longrightarrow> 0 \<le> x \<and> x < cpu_num) \<Longrightarrow> distinct (concat al)"
      using takes_pool [OF 2(2)] by metis
    have perm: "mset (concat nodes) = mset (phys @ concat ns)" using ph(1) by simp
    have d: "distinct (phys @ concat ns)" using Cons.prems(1) perm mset_eq_imp_distinct_iff by blast
    have eq: "set (concat nodes) = set phys \<union> set (concat ns)"
      using perm by (metis mset_eq_setD set_append)
    have rng: "\<And>x. x \<in> set phys \<or> x \<in> set (concat ns) \<Longrightarrow> 0 \<le> x \<and> x < cpu_num"
      using Cons.prems(2) eq by blast
    have IH: "distinct (concat (concat r))" "set (concat (concat r)) \<subseteq> sibling_ids mt cpu_num (set (concat ns))"
      using Cons.IH [of ns r] d rng st(2) by (auto simp del: set_concat)
    have al: "set (concat al) \<subseteq> sibling_ids mt cpu_num (set phys)"
      using ph(2) by (simp add: sibling_ids_def)
    have "sibling_ids mt cpu_num (set phys) \<inter> sibling_ids mt cpu_num (set (concat ns)) = {}"
      using d rng by (intro sibling_ids_disjoint) (auto simp del: set_concat)
    with al IH have "set (concat al) \<inter> set (concat (concat r)) = {}" by blast
    moreover have "distinct (concat al)" using ph(3) d rng by simp
    moreover have "set (concat al) \<union> set (concat (concat r)) \<subseteq> sibling_ids mt cpu_num (set (concat nodes))"
      using al IH(2) sibling_ids_mono [of "set phys"] sibling_ids_mono [of "set (concat ns)"] eq
      by (metis Un_upper1 Un_upper2 Un_subset_iff order_trans)
    ultimately show ?thesis using IH(1) st(3) 2(1) by (simp del: set_concat)
  qed
qed

text \<open>Runs of cores that exist, and none of them empty.\<close>

definition real_runs :: "int set \<Rightarrow> cores list \<Rightarrow> bool" where
  "real_runs A al \<longleftrightarrow> al \<noteq> [] \<and> (\<forall>r \<in> set al. r \<noteq> [] \<and> set r \<subseteq> A)"

lemma real_runs_mono: "real_runs A al \<Longrightarrow> A \<subseteq> B \<Longrightarrow> real_runs B al"
  by (fastforce simp: real_runs_def)

lemma takes_real_runs:
  assumes "takes mt cpu_num bl nodes q a nodes'" "set bl \<inter> sibling_ids mt cpu_num (set (concat nodes)) = {}"
  shows "real_runs (sibling_ids mt cpu_num (set (concat nodes))) a"
proof -
  from assms(1) obtain pre node post where
    t: "1 \<le> q" "nodes = pre @ node # post" "q \<le> int (length node)" "a = node_allocation mt node q cpu_num bl"
    by (auto simp: takes_def)
  obtain segs curr where s: "concat segs @ curr = take (nat q) node" "curr \<noteq> []" "\<forall>s \<in> set segs. s \<noteq> [] \<and> consec s"
    and a: "node_allocation mt node q cpu_num bl = segs @ [filter (\<lambda>i. i \<notin> set bl) curr]
         @ (if mt then [filter (\<lambda>i. i \<notin> set bl) (map (\<lambda>x. x + cpu_num) (filter (\<lambda>i. i \<notin> set bl) curr))] else [])"
    by (rule node_allocation_spec [OF t(1,3), where mt = mt and cpu_num = cpu_num and bl = bl])
  have "set (concat segs @ curr) \<subseteq> set node" unfolding s(1) by (rule set_take_subset)
  then have sub: "set (concat segs @ curr) \<subseteq> set (concat nodes)" using t(2) by auto
  then have free: "x \<notin> set bl" "mt \<Longrightarrow> x + cpu_num \<notin> set bl" if "x \<in> set curr" for x
    using that assms(2) by (auto simp: sibling_ids_def disjoint_iff simp del: set_concat)
  then have "filter (\<lambda>i. i \<notin> set bl) curr = curr" "mt \<Longrightarrow> filter (\<lambda>i. i \<notin> set bl) (map (\<lambda>x. x + cpu_num) curr) = map (\<lambda>x. x + cpu_num) curr"
    by (simp_all add: filter_id_conv)
  then have "a = segs @ [curr] @ (if mt then [map (\<lambda>x. x + cpu_num) curr] else [])" using a t(4) by simp
  moreover have "set r \<subseteq> sibling_ids mt cpu_num (set (concat nodes))" if "r \<in> set segs \<or> r = curr" for r
    using sub that by (force simp: sibling_ids_def)
  moreover have "(\<lambda>x. x + cpu_num) ` set curr \<subseteq> sibling_ids mt cpu_num (set (concat nodes))" if "mt"
    using sub that by (simp add: sibling_ids_def image_mono le_supI2)
  ultimately show ?thesis using s(2,3) by (cases mt) (simp_all add: real_runs_def ball_Un del: set_concat)
qed

lemma alloc_all_serves:
  assumes "\<And>q. q \<in> set qs \<Longrightarrow> 1 \<le> q" "sum_list qs \<le> int (length (concat nodes))" "set bl \<inter> sibling_ids mt cpu_num (set (concat nodes)) = {}"
  shows "\<exists>ret. alloc_all mt cpu_num bl nodes qs = Inr ret \<and> length ret = length qs
               \<and> (\<forall>al \<in> set ret. real_runs (sibling_ids mt cpu_num (set (concat nodes))) al)"
  using assms
proof (induction qs arbitrary: nodes)
  case (Cons q qs)
  have sum_nonneg: "0 \<le> sum_list qs" using Cons.prems(1) by (intro sum_list_nonneg) force
  obtain a ns where w: "alloc_worker mt cpu_num bl nodes q = Inr (a, ns)"
    "(a = None \<and> ns = nodes \<and> (q \<le> 0 \<or> concat nodes = []))
     \<or> (\<exists>q' al. a = Some al \<and> al \<noteq> [] \<and> q' \<le> q \<and> takes mt cpu_num bl nodes q' al ns)"
    using alloc_worker_cases [of mt cpu_num bl nodes q] by blast
  have "\<not> (q \<le> 0 \<or> concat nodes = [])" using Cons.prems sum_nonneg by fastforce
  with w(2) obtain q' al where al: "a = Some al" "al \<noteq> []" "q' \<le> q" "takes mt cpu_num bl nodes q' al ns"
    by blast
  obtain phys where ph: "mset (concat nodes) = mset phys + mset (concat ns)" "int (length phys) = q'"
    using takes_pool [OF al(4)] by metis
  have "int (length (concat nodes)) = q' + int (length (concat ns))"
    using arg_cong [OF ph(1), of size] ph(2) by (simp add: size_mset [symmetric] del: length_concat size_mset) 
  then have "sum_list qs \<le> int (length (concat ns))" using Cons.prems(2) al(3) by simp
  moreover have sub: "sibling_ids mt cpu_num (set (concat ns)) \<subseteq> sibling_ids mt cpu_num (set (concat nodes))"
    using mset_eq_setD [of "concat nodes" "phys @ concat ns"] ph(1) by (intro sibling_ids_mono) auto
  ultimately obtain r where r: "alloc_all mt cpu_num bl ns qs = Inr r" "length r = length qs"
      "\<forall>al \<in> set r. real_runs (sibling_ids mt cpu_num (set (concat ns))) al"
    using Cons.IH [of ns] Cons.prems(1,3) by (auto simp del: set_concat)
  have "real_runs (sibling_ids mt cpu_num (set (concat nodes))) al" by (rule takes_real_runs [OF al(4) Cons.prems(3)])
  then show ?case using w(1) al(1) r sub by (auto intro: real_runs_mono simp del: set_concat)
qed simp

section \<open>Quotas\<close>

lemma shrink_default_eq:
  assumes "1 \<le> local_size" "0 \<le> cpu_num"
  shows "shrink_default d local_size cpu_num = (if 1 \<le> d then min d (cpu_num div local_size) else d)"
  using assms
proof (induction d local_size cpu_num rule: shrink_default.induct)
  case (1 d ls cn)
  have iff: "d \<le> cn div ls \<longleftrightarrow> \<not> cn < d * ls" using 1 by (simp add: int_le_div_iff not_less)
  have ge: "0 \<le> cn div ls" using 1 by (simp add: pos_imp_zdiv_nonneg_iff)
  show ?case
  proof (cases "1 \<le> d \<and> cn < d * ls")
    case True
    then have "shrink_default d ls cn = shrink_default (d - 1) ls cn"
      by (simp add: shrink_default.simps [of d ls cn])
    also have "\<dots> = (if 1 \<le> d - 1 then min (d - 1) (cn div ls) else d - 1)"
      using 1 True by simp
    finally show ?thesis using True iff ge by auto
  next
    case False
    then show ?thesis using iff by (auto simp: shrink_default.simps [of d ls cn])
  qed
qed

lemma shrink_root_eq: "0 \<le> node_size \<Longrightarrow> shrink_root r node_size = min r node_size"
proof (induction r node_size rule: shrink_root.induct)
  case (1 r ns)
  then show ?case by (auto simp: shrink_root.simps [of r ns])
qed

definition node_size :: "env \<Rightarrow> cores list \<Rightarrow> int" where
  "node_size e nodes = (let n = int (length (hd nodes)) in if cpu_mt e then n div 2 else n)"

lemma node_size_nonneg: "0 \<le> node_size e nodes"
  by (simp add: node_size_def Let_def)

text \<open>The quotas in closed form, for every override the code parses.\<close>

lemma get_quota_eq:
  assumes "1 \<le> local_size" "0 \<le> cpu_num" "nodes \<noteq> []"
    and "env_int e ''BYTEPS_NUMA_DEFAULT_QUOTA'' (cpu_num div local_size) = Inr d"
    and "env_int e ''BYTEPS_NUMA_ROOT_QUOTA'' 0 = Inr r"
  shows "get_quota e nodes cpu_num local_size =
    (let dq = (if 1 \<le> d then min d (cpu_num div local_size) else d);
         rq = (if r \<noteq> 0 then r else cpu_num - dq * (local_size - 1))
     in Inr (replicate (nat (local_size - 1)) dq @ [min rq (node_size e nodes)]))"
proof -
  have "py_index nodes 0 = Inr (hd nodes)"
    using assms(3) py_index_nat [of 0 nodes] by (simp add: hd_conv_nth)
  then show ?thesis
    using assms node_size_nonneg [of e nodes]
    by (simp add: get_quota_def Let_def shrink_default_eq shrink_root_eq node_size_def)
qed

lemma sum_list_quota:
  fixes d :: int
  assumes "1 \<le> n"
  shows "sum_list (replicate (nat (n - 1)) d @ [min (c - d * (n - 1)) s]) \<le> c"
proof -
  have "sum_list (replicate (nat (n - 1)) d) = (n - 1) * d"
    using assms by (simp add: sum_list_replicate)
  then show ?thesis by (simp add: min_def algebra_simps)
qed

text \<open>
  Quotas never oversubscribe: unless the user fixes the root's quota, the quotas of all local
  workers together are at most the number of cores found, whatever default quota the user asks for.
\<close>

theorem get_quota_total:
  assumes "1 \<le> local_size" "0 \<le> cpu_num" "nodes \<noteq> []"
    and "env_int e ''BYTEPS_NUMA_DEFAULT_QUOTA'' (cpu_num div local_size) = Inr d"
    and "env_int e ''BYTEPS_NUMA_ROOT_QUOTA'' 0 = Inr 0"
  shows "\<exists>qs. get_quota e nodes cpu_num local_size = Inr qs \<and> length qs = nat local_size
              \<and> sum_list qs \<le> cpu_num \<and> last qs \<le> node_size e nodes"
proof -
  let ?dq = "if 1 \<le> d then min d (cpu_num div local_size) else d"
  let ?qs = "replicate (nat (local_size - 1)) ?dq @ [min (cpu_num - ?dq * (local_size - 1)) (node_size e nodes)]"
  have "get_quota e nodes cpu_num local_size = Inr ?qs"
    using get_quota_eq [OF assms] by (simp add: Let_def)
  moreover have "sum_list ?qs \<le> cpu_num" by (rule sum_list_quota [OF assms(1)])
  moreover have "length ?qs = nat local_size" "last ?qs \<le> node_size e nodes" using assms(1) by simp_all
  ultimately show ?thesis by blast
qed

theorem get_quota_total_witness:
  "\<exists>qs. get_quota [] [[0, 1, 2, 3], [4, 5, 6, 7]] 8 3 = Inr qs \<and> length qs = nat 3
        \<and> sum_list qs \<le> 8 \<and> last qs \<le> node_size [] [[0, 1, 2, 3], [4, 5, 6, 7]]"
  by (rule get_quota_total [of 3 8 "[[0, 1, 2, 3], [4, 5, 6, 7]]" "[]" 2]) (simp_all add: env_int_def)

section \<open>Allocation of a whole machine\<close>

lemma allocate_cpu_cases:
  assumes "get_numa_info (cpu_mt e) fs = Inr nodes" "allocate_cpu e fs n = Inr (Some ret)"
  obtains qs bl where "alloc_all (cpu_mt e) (int (length (concat nodes))) bl nodes qs = Inr ret"
  using assms by (auto simp: allocate_cpu_def Let_def sum_len_concat res_simps split: if_splits)

text \<open>
  No core is bound twice: on a machine whose cores are numbered without gaps, the allocator
  never gives one core, nor one hyper-thread sibling, to two workers or twice to one worker.
\<close>

theorem allocate_cpu_disjoint:
  assumes "get_numa_info (cpu_mt e) fs = Inr nodes"
    and "distinct (concat nodes)"
    and "\<forall>x \<in> set (concat nodes). 0 \<le> x \<and> x < int (length (concat nodes))"
    and "allocate_cpu e fs n = Inr (Some ret)"
  shows "distinct (concat (concat ret))
         \<and> set (concat (concat ret)) \<subseteq> sibling_ids (cpu_mt e) (int (length (concat nodes))) (set (concat nodes))"
proof -
  obtain qs bl where "alloc_all (cpu_mt e) (int (length (concat nodes))) bl nodes qs = Inr ret"
    using allocate_cpu_cases [OF assms(1,4)] .
  then show ?thesis using assms(2,3) by (intro alloc_all_pool) auto
qed

definition example_fs :: "string \<Rightarrow> string list option" where
  "example_fs p =
     (if p = NUMA_PATH then Some [''online'', ''node0'', ''node1'']
      else if p = path_join NUMA_PATH ''node0'' then Some [''cpu0'', ''cpu1'', ''cpu2'', ''cpu3'', ''cpulist'', ''cpu8'', ''cpu9'', ''cpu10'', ''cpu11'']
      else if p = path_join NUMA_PATH ''node1'' then Some [''cpu12'', ''cpu4'', ''cpu5'', ''cpu6'', ''cpu7'', ''cpu13'', ''cpu14'', ''cpu15'']
      else None)"

lemma example_numa: "get_numa_info (cpu_mt []) example_fs = Inr [[0, 1, 2, 3], [4, 5, 6, 7]]"
  by code_simp

lemma example_alloc:
  "allocate_cpu [] example_fs 3 = Inr (Some [[[0, 1], [8, 9]], [[2, 3], [10, 11]], [[4, 5], [12, 13]]])"
  by code_simp

theorem allocate_cpu_disjoint_witness:
  "\<exists>ret. allocate_cpu [] example_fs 3 = Inr (Some ret) \<and> length ret = 3 \<and> distinct (concat (concat ret))"
  using allocate_cpu_disjoint [OF example_numa _ _ example_alloc] example_alloc by simp

text \<open>
  C36. Every local worker gets cores: with at least one core per worker, no quota overrides, a
  first node with at least one core (two with multi-threading, where the code halves its size once more) and
  no found core or sibling on the black list, the allocator returns exactly one allocation per worker. Each
  has at least one run, and every run is non-empty and consists of cores found on the machine or, with multi-threading, their
  siblings. So the launcher's lookup by local rank succeeds, and so does the binding command.
\<close>

theorem allocate_cpu_serves_all:
  assumes "get_numa_info (cpu_mt e) fs = Inr nodes" "nodes \<noteq> []"
    and "dict_get e ''BYTEPS_NUMA_DEFAULT_QUOTA'' = None" "dict_get e ''BYTEPS_NUMA_ROOT_QUOTA'' = None"
    and "cpu_blacklist e = Inr bl"
    and "1 \<le> n" "n \<le> int (length (concat nodes))" "1 \<le> node_size e nodes"
    and "set bl \<inter> sibling_ids (cpu_mt e) (int (length (concat nodes))) (set (concat nodes)) = {}"
  shows "\<exists>ret. allocate_cpu e fs n = Inr (Some ret) \<and> length ret = nat n
     \<and> (\<forall>al \<in> set ret. al \<noteq> [] \<and> (\<forall>r \<in> set al. r \<noteq> [] \<and> set r \<subseteq> sibling_ids (cpu_mt e) (int (length (concat nodes))) (set (concat nodes))))"
proof -
  let ?c = "int (length (concat nodes))"
  let ?d = "?c div n"
  let ?qs = "replicate (nat (n - 1)) ?d @ [min (?c - ?d * (n - 1)) (node_size e nodes)]"
  have d: "1 \<le> ?d" "?d * n \<le> ?c"
    using assms(6,7) int_le_div_iff [of n 1 ?c] int_le_div_iff [of n ?d ?c] by auto
  have "get_quota e nodes ?c n = Inr ?qs"
    using get_quota_eq [of n ?c nodes e ?d 0] assms d by (simp add: env_int_def Let_def)
  moreover have "1 \<le> ?c - ?d * (n - 1)" using d by (simp add: algebra_simps)
  then have "\<And>q. q \<in> set ?qs \<Longrightarrow> 1 \<le> q" using d assms(8) by auto
  from alloc_all_serves [OF this sum_list_quota [OF assms(6)] assms(9)]
  obtain ret where "alloc_all (cpu_mt e) ?c bl nodes ?qs = Inr ret" "length ret = length ?qs"
    "\<forall>al \<in> set ret. real_runs (sibling_ids (cpu_mt e) ?c (set (concat nodes))) al" by blast
  moreover have "length ?qs = nat n" using assms(6) by simp
  ultimately show ?thesis
    using assms(1,2,5) by (simp add: allocate_cpu_def Let_def sum_len_concat real_runs_def del: set_concat)
qed

theorem allocate_cpu_serves_all_witness:
  "\<exists>ret. allocate_cpu [] example_fs 3 = Inr (Some ret) \<and> length ret = 3
     \<and> (\<forall>al \<in> set ret. al \<noteq> [] \<and> (\<forall>r \<in> set al. r \<noteq> [] \<and> set r \<subseteq> {0..15}))"
proof -
  have bl: "cpu_blacklist [] = Inr [-1]" "1 \<le> node_size [] [[0, 1, 2, 3], [4, 5, 6, 7]]" by code_simp+
  have ids: "sibling_ids (cpu_mt []) (int (length (concat [[0, 1, 2, 3], [4, 5, 6, 7 :: int]]))) (set (concat [[0, 1, 2, 3], [4, 5, 6, 7]])) \<subseteq> {0..15}"
    by (auto simp: sibling_ids_def)
  then have free: "set [-1] \<inter> sibling_ids (cpu_mt []) (int (length (concat [[0, 1, 2, 3], [4, 5, 6, 7 :: int]]))) (set (concat [[0, 1, 2, 3], [4, 5, 6, 7]])) = {}"
    by auto
  obtain ret where ret: "allocate_cpu [] example_fs 3 = Inr (Some ret)" "length ret = nat 3"
      "\<forall>al \<in> set ret. al \<noteq> [] \<and> (\<forall>r \<in> set al. r \<noteq> [] \<and> set r \<subseteq> sibling_ids (cpu_mt []) (int (length (concat [[0, 1, 2, 3], [4, 5, 6, 7 :: int]])))
         (set (concat [[0, 1, 2, 3], [4, 5, 6, 7]])))"
    using allocate_cpu_serves_all [OF example_numa _ _ _ bl(1) _ _ bl(2) free, of 3] by auto
  have "\<forall>al \<in> set ret. al \<noteq> [] \<and> (\<forall>r \<in> set al. r \<noteq> [] \<and> set r \<subseteq> {0..15})" using ret(3) ids by (blast intro: order_trans)
  then show ?thesis using ret(1,2) by auto
qed

section \<open>Gaps in the core numbers\<close>

lemma nth_consec: "consec xs \<Longrightarrow> 0 < i \<Longrightarrow> i < length xs \<Longrightarrow> xs ! i = xs ! (i - 1) + 1"
  by (cases i) (simp_all add: consec_nth)

lemma split_index_gap:
  assumes "consec xs" "consec ys" "xs \<noteq> []" "ys \<noteq> []" "hd ys \<noteq> last xs + 1"
  shows "split_index (xs @ ys) (int (length (xs @ ys))) = [length xs]"
proof -
  let ?P = "\<lambda>i. (xs @ ys) ! i \<noteq> (xs @ ys) ! (i - 1) + 1"
  have P: "?P i \<longleftrightarrow> i = length xs" if i: "1 \<le> i" "i < length (xs @ ys)" for i
  proof (cases i "length xs" rule: linorder_cases)
    case less
    then show ?thesis using i nth_consec [OF assms(1), of i] by (auto simp: nth_append)
  next
    case equal
    then have "(xs @ ys) ! i = hd ys" "(xs @ ys) ! (i - 1) = last xs"
      using assms(3,4) i by (simp_all add: nth_append hd_conv_nth last_conv_nth)
    then show ?thesis using equal assms(5) by simp
  next
    case greater
    then show ?thesis using i nth_consec [OF assms(2), of "i - length xs"] by (auto simp: nth_append)
  qed
  have A: "filter ?P [1..<length (xs @ ys)] = filter (\<lambda>i. i = length xs) [1..<length (xs @ ys)]"
    by (rule filter_cong [OF refl]) (use P in auto)
  have B: "[1..<length (xs @ ys)] = [1..<length xs] @ length xs # [Suc (length xs)..<length (xs @ ys)]"
    using assms(3,4) upt_add_eq_append [of 1 "length xs" "length ys"]
    by (simp add: upt_conv_Cons Suc_le_eq del: upt_Suc)
  have "filter (\<lambda>i. i = length xs) [1..<length (xs @ ys)] = [length xs]"
    unfolding B by (auto simp: filter_empty_conv)
  with A show ?thesis unfolding split_index_def nat_int by (rule trans)
qed

text \<open>
  Where the core numbers have a gap, the black list and the hyper-thread siblings apply to the
  last run only: the run before the gap is handed out unfiltered and without its siblings.
\<close>

theorem node_allocation_gap:
  assumes "consec xs" "consec ys" "xs \<noteq> []" "ys \<noteq> []" "hd ys \<noteq> last xs + 1"
  shows "node_allocation mt (xs @ ys) (int (length (xs @ ys))) cpu_num bl =
     (let last_run = filter (\<lambda>i. i \<notin> set bl) ys
      in [xs, last_run]
         @ (if mt then [filter (\<lambda>i. i \<notin> set bl) (map (\<lambda>x. x + cpu_num) last_run)] else []))"
proof -
  have "py_slice (xs @ ys) (int 0) (int (length xs)) = xs"
    by (subst py_slice_nat) auto
  moreover have "py_slice (xs @ ys) (int (length xs)) (int (length xs + length ys)) = ys"
    by (subst py_slice_nat) auto
  ultimately show ?thesis
    using split_index_gap [OF assms] by (simp add: node_allocation_def Let_def)
qed

theorem node_allocation_gap_witness:
  "node_allocation False ([0, 1] @ [4, 5]) (int (length ([0, 1] @ [4, 5 :: int]))) 4 [1] = [[0, 1], [4, 5]]"
  by (subst node_allocation_gap) simp_all

end
