(* ===== verification/Launch.thy ===== *)
theory Launch
  imports Numa_Alloc
begin

text \<open>
  The worker and server launcher, \<^verbatim>\<open>launcher/launch.py\<close>: the environment check, the command
  line of one worker, the parser of a user's core list and the top level \<open>launch_bps\<close>. The core
  allocator is in \<open>Numa_Alloc\<close>.

  The presence of \<^verbatim>\<open>numactl\<close> and the outcome of a started process are parameters. A call of
  \<open>launch_bps\<close> yields the processes it started, in order, and how it ended.
\<close>

definition COMMON_REQUIRED_ENVS :: "string list" where
  "COMMON_REQUIRED_ENVS = [''DMLC_ROLE'', ''DMLC_NUM_WORKER'', ''DMLC_NUM_SERVER'',
                           ''DMLC_PS_ROOT_URI'', ''DMLC_PS_ROOT_PORT'']"

definition WORKER_REQUIRED_ENVS :: "string list" where
  "WORKER_REQUIRED_ENVS = [''DMLC_WORKER_ID'']"

section \<open>Environment check\<close>

datatype check_outcome = Passed | Exit_missing string | Failed py_error

fun check_present :: "env \<Rightarrow> string list \<Rightarrow> check_outcome" where
  "check_present e [] = Passed"
| "check_present e (k # ks) = (if dict_has e k then check_present e ks else Exit_missing k)"

text \<open>
  The second component is the module's list \<open>COMMON_REQUIRED_ENVS\<close> after the call: the code binds
  \<open>required_envs\<close> to that very list and extends it in place.
\<close>

definition check_env :: "env \<Rightarrow> string list \<Rightarrow> check_outcome \<times> string list" where
  "check_env e common =
     (case dict_get e ''DMLC_ROLE'' of
        None \<Rightarrow> (Failed AssertionError, common)
      | Some role \<Rightarrow>
          if py_lower role \<notin> set [''worker'', ''server'', ''scheduler''] then (Failed AssertionError, common)
          else if role = ''worker''
          then (case dict_get e ''DMLC_NUM_WORKER'' of
                  None \<Rightarrow> (Failed AssertionError, common)
                | Some nw \<Rightarrow>
                   (case py_int nw of
                      Inl err \<Rightarrow> (Failed err, common)
                    | Inr num_worker \<Rightarrow>
                        if \<not> num_worker \<ge> 1 then (Failed AssertionError, common)
                        else if num_worker = 1
                        then (check_present e ([] @ WORKER_REQUIRED_ENVS), common)
                        else let common' = common @ WORKER_REQUIRED_ENVS
                             in (check_present e common', common')))
          else (check_present e common, common))"

section \<open>One worker\<close>

fun numa_fmt_loop :: "cores list \<Rightarrow> string res" where
  "numa_fmt_loop [] = Inr []"
| "numa_fmt_loop (cpu_set # rest) =
     bind_res (py_index cpu_set 0) (\<lambda>a.
     bind_res (py_index cpu_set (-1)) (\<lambda>b.
     bind_res (numa_fmt_loop rest) (\<lambda>s.
       Inr ((if length cpu_set = 1 then py_str a @ '','' else py_str a @ ''-'' @ py_str b @ '','') @ s))))"

definition numa_prefix :: "cores list \<Rightarrow> string res" where
  "numa_prefix allocation =
     bind_res (numa_fmt_loop allocation) (\<lambda>s.
       Inr (py_strip_by (\<lambda>c. c = CHR '','') (''numactl --physcpubind '' @ s) @ '' ''))"

definition gdb_prefix :: string where
  "gdb_prefix = ''gdb -ex '' @ [CHR 0x27] @ ''run'' @ [CHR 0x27] @ '' -ex '' @ [CHR 0x27] @ ''bt''
                  @ [CHR 0x27] @ '' -batch --args ''"

record worker_call =
  wc_command :: string
  wc_env :: env
  wc_trace :: "string option"

definition worker ::
    "env \<Rightarrow> bool \<Rightarrow> nat \<Rightarrow> nat \<Rightarrow> string \<Rightarrow> cores list option \<Rightarrow> worker_call res" where
  "worker e numactl local_rank local_size command allocation =
     (let my_env = dict_set (dict_set e ''BYTEPS_LOCAL_RANK'' (py_str (int local_rank)))
                            ''BYTEPS_LOCAL_SIZE'' (py_str (int local_size))
      in bind_res (env_int e ''BYTEPS_ENABLE_GDB'' 0) (\<lambda>gdb.
         let command = (if gdb \<noteq> 0
                        then gdb_prefix @ (if py_startswith command ''python'' then command
                                           else ''python '' @ command)
                        else command)
         in bind_res (case allocation of
                        None \<Rightarrow> Inr command
                      | Some a \<Rightarrow> if a \<noteq> [] \<and> numactl
                                  then bind_res (numa_prefix a) (\<lambda>numa. Inr (numa @ command))
                                  else Inr command) (\<lambda>command.
            Inr \<lparr>wc_command = command, wc_env = my_env,
                 wc_trace = (if dict_get_or e ''BYTEPS_TRACE_ON'' '''' = ''1''
                             then Some (path_join (dict_get_or e ''BYTEPS_TRACE_DIR'' ''.'')
                                                  (py_str (int local_rank)))
                             else None)\<rparr>)))"

section \<open>The user's core list\<close>

definition parse_range :: "string \<Rightarrow> cores res" where
  "parse_range elem =
     bind_res (map_res py_int (py_split (CHR ''-'') elem)) (\<lambda>sub.
     bind_res (py_index sub 0) (\<lambda>a.
     bind_res (py_index sub (-1)) (\<lambda>b. Inr (py_range a (b + 1)))))"

definition parse_num_range :: "string \<Rightarrow> cores list list res" where
  "parse_num_range core_list =
     map_res (\<lambda>item. map_res parse_range (py_split (CHR '','') item)) (py_split (CHR '':'') core_list)"

section \<open>Top level\<close>

datatype launch_outcome = Finished | Exited | Raised py_error

datatype launch_call =
    Start_worker nat nat string "cores list option"
  | Start_server string

fun start_workers ::
    "nat list \<Rightarrow> nat \<Rightarrow> string \<Rightarrow> bool \<Rightarrow> cores list list option \<Rightarrow> launch_call list \<times> py_error option" where
  "start_workers [] n command bind allocations = ([], None)"
| "start_workers (i # is) n command bind allocations =
     (case (if bind
            then (case allocations of
                    None \<Rightarrow> Inl TypeError
                  | Some al \<Rightarrow> bind_res (py_index al (int i)) (\<lambda>a. Inr (Some a)))
            else Inr None) of
        Inl e \<Rightarrow> ([], Some e)
      | Inr a \<Rightarrow> let (calls, err) = start_workers is n command bind allocations
                 in (Start_worker i n command a # calls, err))"

text \<open>
  What a worker's thread keeps in \<open>exc\<close>: the exception of \<open>worker\<close> itself, or the one of the process
  it runs to its end (\<open>run\<close>).
\<close>

definition thread_exc ::
    "env \<Rightarrow> bool \<Rightarrow> (worker_call \<Rightarrow> py_error option) \<Rightarrow> launch_call \<Rightarrow> py_error option" where
  "thread_exc e numactl run c =
     (case c of
        Start_worker i n command a \<Rightarrow>
          (case worker e numactl i n command a of Inl err \<Rightarrow> Some err | Inr wc \<Rightarrow> run wc)
      | Start_server command \<Rightarrow> run \<lparr>wc_command = command, wc_env = e, wc_trace = None\<rparr>)"

fun join_workers :: "(launch_call \<Rightarrow> py_error option) \<Rightarrow> launch_call list \<Rightarrow> launch_outcome" where
  "join_workers exc [] = Finished"
| "join_workers exc (t # ts) = (case exc t of Some e \<Rightarrow> Raised e | None \<Rightarrow> join_workers exc ts)"

definition worker_allocations ::
    "env \<Rightarrow> (string \<Rightarrow> string list option) \<Rightarrow> nat \<Rightarrow> cores list list option res" where
  "worker_allocations e fs local_size =
     (let user_override = py_strip (dict_get_or e ''BYTEPS_VISIBLE_CPU_CORES'' '''')
      in if user_override \<noteq> [] then bind_res (parse_num_range user_override) (\<lambda>a. Inr (Some a))
         else allocate_cpu e fs (int local_size))"

definition local_size_of :: "env \<Rightarrow> nat" where
  "local_size_of e =
     (case dict_get e ''NVIDIA_VISIBLE_DEVICES'' of
        None \<Rightarrow> 1
      | Some v \<Rightarrow> length (py_split (CHR '','') v))"

definition launch_bps ::
    "env \<Rightarrow> string list \<Rightarrow> (string \<Rightarrow> string list option) \<Rightarrow> bool \<Rightarrow> (worker_call \<Rightarrow> py_error option)
       \<Rightarrow> string list \<Rightarrow> launch_call list \<times> launch_outcome" where
  "launch_bps e argv fs numactl run common =
     (case dict_get e ''DMLC_ROLE'' of
        None \<Rightarrow> ([], Raised KeyError)
      | Some role \<Rightarrow>
         (case fst (check_env e common) of
            Failed err \<Rightarrow> ([], Raised err)
          | Exit_missing k \<Rightarrow> ([], Exited)
          | Passed \<Rightarrow>
             let e = dict_set e ''PYTHONUNBUFFERED'' ''1''
             in if role = ''worker''
                then let local_size = local_size_of e;
                         bind = (dict_get_or e ''BYTEPS_NUMA_ON'' ''1'' = ''1'')
                     in (case (if bind then worker_allocations e fs local_size else Inr None) of
                           Inl err \<Rightarrow> ([], Raised err)
                         | Inr allocations \<Rightarrow>
                             let (calls, err) = start_workers [0..<local_size] local_size
                                                  (py_join '' '' argv) bind allocations
                             in (calls, (case err of
                                           Some x \<Rightarrow> Raised x
                                         | None \<Rightarrow> join_workers (thread_exc e numactl run) calls)))
                else (case (if dict_get_or e ''BYTEPS_FORCE_DISTRIBUTED'' '''' = ''1'' then Inr True
                            else bind_res (env_int e ''DMLC_NUM_WORKER'' 1) (\<lambda>n. Inr (n > 1))) of
                        Inl err \<Rightarrow> ([], Raised err)
                      | Inr False \<Rightarrow> ([], Finished)
                      | Inr True \<Rightarrow>
                         (case env_int e ''BYTEPS_ENABLE_GDB'' 0 of
                            Inl err \<Rightarrow> ([], Raised err)
                          | Inr gdb \<Rightarrow>
                              let command = ''python3 -c '' @ [CHR 0x27] @ ''import byteps.server'' @ [CHR 0x27];
                                  command = (if gdb \<noteq> 0 then gdb_prefix @ command else command)
                              in ([Start_server command],
                                  (case thread_exc e numactl run (Start_server command) of Some x \<Rightarrow> Raised x | None \<Rightarrow> Finished))))))"

section \<open>Behaviour of the launcher\<close>

text \<open>
  Core binding fails without a NUMA directory: when the system has none, the allocator
  returns nothing and the launcher, which indexes that result, stops with a type error before any
  worker is started (the default setting binds to cores).
\<close>

theorem launch_bps_no_numa:
  assumes "dict_get e ''DMLC_ROLE'' = Some ''worker''" "fst (check_env e common) = Passed"
    and "dict_get e ''BYTEPS_NUMA_ON'' = None" "dict_get e ''BYTEPS_VISIBLE_CPU_CORES'' = None"
    and "fs NUMA_PATH = None"
  shows "launch_bps e argv fs numactl run common = ([], Raised TypeError)"
proof -
  let ?e = "dict_set e ''PYTHONUNBUFFERED'' ''1''"
  have alloc: "worker_allocations ?e fs n = Inr None" for n
    using assms(4,5)
    by (simp add: worker_allocations_def dict_get_or_def allocate_cpu_def get_numa_info_def
                  py_strip_def py_strip_by_def)
  have "0 < local_size_of ?e"
    by (cases "dict_get e ''NVIDIA_VISIBLE_DEVICES''") (simp_all add: local_size_of_def length_py_split)
  then obtain k where k: "[0..<local_size_of ?e] = 0 # k" by (metis upt_conv_Cons)
  show ?thesis
    using assms(1-3) alloc k by (simp add: launch_bps_def Let_def dict_get_or_def)
qed

theorem launch_bps_no_numa_witness:
  "launch_bps [(''DMLC_ROLE'', ''worker''), (''DMLC_NUM_WORKER'', ''1''), (''DMLC_WORKER_ID'', ''0'')]
     [''train.py''] (\<lambda>_. None) True (\<lambda>_. None) COMMON_REQUIRED_ENVS = ([], Raised TypeError)"
  by (rule launch_bps_no_numa) (simp_all, code_simp)

section \<open>Core lists: printing and parsing\<close>

definition run_fmt :: "cores \<Rightarrow> string" where
  "run_fmt r = (if length r = 1 then py_str (hd r) else py_str (hd r) @ ''-'' @ py_str (last r))"

lemma py_index_hd: "xs \<noteq> [] \<Longrightarrow> py_index xs 0 = Inr (hd xs)"
  using py_index_nat [of 0 xs] by (simp add: hd_conv_nth)

lemma py_index_last: "xs \<noteq> [] \<Longrightarrow> py_index xs (-1) = Inr (last xs)"
  by (auto simp: py_index_def Let_def last_conv_nth nat_diff_distrib' intro!: arg_cong [where f = "(!) xs"])

lemma numa_fmt_loop_eq:
  "[] \<notin> set a \<Longrightarrow> numa_fmt_loop a = Inr (concat (map (\<lambda>r. run_fmt r @ '','') a))"
  by (induction a) (auto simp: py_index_hd py_index_last run_fmt_def)

lemma numa_fmt_loop_empty: "[] \<in> set a \<Longrightarrow> numa_fmt_loop a = Inl IndexError"
proof (induction a)
  case (Cons r a)
  then show ?case
    by (cases "r = []") (auto simp: py_index_hd py_index_last, simp add: py_index_def)
qed simp

lemma concat_comma_join:
  "xs \<noteq> [] \<Longrightarrow> concat (map (\<lambda>x. f x @ sep) xs) = py_join sep (map f xs) @ sep"
  by (induction xs rule: list_nonempty_induct) (auto simp: py_join_Cons)

lemma strip_trailing:
  assumes "s \<noteq> []" "\<not> P (hd (p @ s))" "\<not> P (last s)" "P c"
  shows "py_strip_by P (p @ s @ [c]) = p @ s"
proof -
  have "dropWhile P (p @ s @ [c]) = p @ s @ [c]"
    using assms by (cases p; cases s) auto
  moreover have "dropWhile P (c # rev (p @ s)) = rev (p @ s)"
    using assms by (cases s rule: rev_cases) auto
  ultimately show ?thesis by (simp add: py_strip_by_def)
qed

lemma run_fmt_props:
  assumes "r \<noteq> []" "\<forall>x \<in> set r. 0 \<le> x"
  shows "CHR '','' \<notin> set (run_fmt r)" "CHR '':'' \<notin> set (run_fmt r)" "run_fmt r \<noteq> []"
    "last (run_fmt r) \<noteq> CHR '',''"
proof -
  have "0 \<le> hd r" "0 \<le> last r" using assms by auto
  then have f: "run_fmt r = (if length r = 1 then nat_str (nat (hd r))
                             else nat_str (nat (hd r)) @ ''-'' @ nat_str (nat (last r)))"
    by (simp add: run_fmt_def py_str_def)
  show "CHR '','' \<notin> set (run_fmt r)" "CHR '':'' \<notin> set (run_fmt r)" by (simp_all add: f)
  show "run_fmt r \<noteq> []" by (simp add: f)
  with \<open>CHR '','' \<notin> set (run_fmt r)\<close> show "last (run_fmt r) \<noteq> CHR '',''" by (metis last_in_set)
qed

lemma parse_range_run_fmt:
  assumes "r \<noteq> []" "consec r" "\<forall>x \<in> set r. 0 \<le> x"
  shows "parse_range (run_fmt r) = Inr r"
proof (cases "length r = 1")
  case True
  then obtain x where "r = [x]" by (cases r) auto
  with assms show ?thesis
    by (simp add: parse_range_def run_fmt_def py_str_def py_index_hd py_index_last py_range_def)
next
  case False
  have nn: "0 \<le> hd r" "0 \<le> last r" using assms by auto
  have "py_split (CHR ''-'') (run_fmt r) = [nat_str (nat (hd r)), nat_str (nat (last r))]"
    using False nn by (simp add: run_fmt_def py_str_def py_split_append)
  with nn consec_upto [OF assms(2,1)] show ?thesis
    by (simp add: parse_range_def py_index_hd py_index_last py_range_def)
qed

text \<open>
  The binding command names exactly the allocated cores: for an allocation of consecutive runs
  of core numbers, the argument written after \<open>numactl --physcpubind\<close>, read back by the launcher's
  own parser of core lists, is that allocation.
\<close>

theorem numa_prefix_parse:
  assumes "a \<noteq> []" "\<forall>r \<in> set a. r \<noteq> [] \<and> consec r \<and> (\<forall>x \<in> set r. 0 \<le> x)"
  shows "\<exists>s. numa_prefix a = Inr (''numactl --physcpubind '' @ s @ '' '') \<and> parse_num_range s = Inr [a]"
proof -
  let ?s = "py_join '','' (map run_fmt a)"
  let ?p = "''numactl --physcpubind ''"
  have ne: "[] \<notin> set a" using assms(2) by auto
  have fmt: "CHR '','' \<notin> set (run_fmt r)" "CHR '':'' \<notin> set (run_fmt r)" "run_fmt r \<noteq> []"
    "last (run_fmt r) \<noteq> CHR '',''" if "r \<in> set a" for r
    using assms(2) that run_fmt_props [of r] by auto
  have last: "?s \<noteq> [] \<and> last ?s \<noteq> CHR '',''"
    using assms(1) fmt(3,4) by (induction a rule: list_nonempty_induct) (auto simp: py_join_Cons)
  have "numa_fmt_loop a = Inr (?s @ '','')"
    using numa_fmt_loop_eq [OF ne] concat_comma_join [OF assms(1), of run_fmt "'',''"] by simp
  moreover have "py_strip_by (\<lambda>c. c = CHR '','') (?p @ ?s @ '','') = ?p @ ?s"
    using last by (intro strip_trailing) auto
  ultimately have "numa_prefix a = Inr (?p @ ?s @ '' '')"
    by (simp add: numa_prefix_def)
  moreover have "CHR '':'' \<notin> set ?s"
    using set_py_join [of "'','' " "map run_fmt a"] fmt(2) by auto
  moreover have "py_split (CHR '','') ?s = map run_fmt a"
    using assms(1) fmt(1) by (intro py_split_join) auto
  moreover have "map_res parse_range (map run_fmt a) = Inr a"
    using assms(2) parse_range_run_fmt by (induction a) auto
  ultimately show ?thesis by (auto simp: parse_num_range_def)
qed

theorem numa_prefix_parse_witness:
  "\<exists>s. numa_prefix [[1], [4, 5], [7, 8, 9, 10, 11], [12]] = Inr (''numactl --physcpubind '' @ s @ '' '')
       \<and> parse_num_range s = Inr [[[1], [4, 5], [7, 8, 9, 10, 11], [12]]]"
  by (rule numa_prefix_parse) simp_all

text \<open>The example in the parser's comment.\<close>

lemma parse_num_range_example:
  "parse_num_range ''1,4-5,7-11,12:20-25'' =
     Inr [[[1], [4, 5], [7, 8, 9, 10, 11], [12]], [[20, 21, 22, 23, 24, 25]]]"
  by code_simp

text \<open>
  A worker fails exactly on an empty run: the command of a worker bound to cores cannot be
  built, with an index error, if and only if its allocation holds an empty run.
\<close>

theorem worker_empty_run:
  assumes "env_int e ''BYTEPS_ENABLE_GDB'' 0 = Inr g" "a \<noteq> []"
  shows "worker e True i n command (Some a) = Inl IndexError \<longleftrightarrow> [] \<in> set a"
  using assms numa_fmt_loop_empty [of a] numa_fmt_loop_eq [of a]
  by (cases "[] \<in> set a") (simp_all add: worker_def numa_prefix_def Let_def)

theorem worker_empty_run_witness:
  "worker [] True 0 1 ''python train.py'' (Some (node_allocation False [0, 1, 2] 1 3 [0])) = Inl IndexError
     \<longleftrightarrow> [] \<in> set (node_allocation False [0, 1, 2] 1 3 [0])"
  by (rule worker_empty_run [where g = 0]) (simp add: env_int_def, code_simp)

section \<open>Starting and joining the workers\<close>

lemma start_workers_eq:
  "start_workers [k..<k + m] n cmd True (Some al) =
     (map (\<lambda>i. Start_worker i n cmd (Some (al ! i))) [k..<min (k + m) (max k (length al))],
      if k + m \<le> max k (length al) then None else Some IndexError)"
proof (induction m arbitrary: k)
  case (Suc m)
  have up: "[k..<k + Suc m] = k # [Suc k..<Suc k + m]" by (simp add: upt_conv_Cons)
  show ?case
  proof (cases "k < length al")
    case True
    then have "[k..<min (k + Suc m) (max k (length al))] =
        k # [Suc k..<min (Suc k + m) (max (Suc k) (length al))]"
      by (simp add: upt_conv_Cons max_def min_def)
    with True Suc.IH [of "Suc k"] show ?thesis unfolding up by (simp add: max_def del: upt_Suc)
  next
    case False
    then show ?thesis unfolding up by (simp add: py_index_def)
  qed
qed simp

lemma join_workers_first: "\<forall>t \<in> set ts. exc t = None \<Longrightarrow> exc t = Some x \<Longrightarrow> join_workers exc (ts @ t # us) = Raised x"
  by (induction ts) auto

lemma join_workers_none: "\<forall>t \<in> set ts. exc t = None \<Longrightarrow> join_workers exc ts = Finished"
  by (induction ts) auto

text \<open>Joining threads that are numbered from 0.\<close>

lemma join_workers_upt:
  "\<forall>i < n. exc (f i) = None \<Longrightarrow> join_workers exc (map f [0..<n]) = Finished"
  "k < n \<Longrightarrow> exc (f k) = Some x \<Longrightarrow> \<forall>i < k. exc (f i) = None \<Longrightarrow> join_workers exc (map f [0..<n]) = Raised x"
proof -
  show "join_workers exc (map f [0..<n]) = Finished" if "\<forall>i < n. exc (f i) = None" using that by (intro join_workers_none) simp
  assume k: "k < n" "exc (f k) = Some x" "\<forall>i < k. exc (f i) = None"
  then have "map f [0..<n] = map f [0..<k] @ f k # map f [Suc k..<n]"
    using upt_add_eq_append [of 0 k "n - k"] by (simp add: upt_conv_Cons)
  then show "join_workers exc (map f [0..<n]) = Raised x" using k join_workers_first [of "map f [0..<k]" exc "f k"] by simp
qed

text \<open>
  C37. One process per device, in rank order: given allocations, a bound worker launch starts the
  processes for local ranks 0, 1, ... with the i-th allocation each, all with the same command; if
  there are fewer allocations than devices it stops with an index error after starting the ranks
  that have one. Otherwise a rank fails with the exception of building its command or else of running it;
  the launch raises the exception of the lowest failing rank, and it finishes when no rank fails.
\<close>

theorem launch_bps_workers:
  assumes "dict_get e ''DMLC_ROLE'' = Some ''worker''" "fst (check_env e common) = Passed"
    and "dict_get_or e ''BYTEPS_NUMA_ON'' ''1'' = ''1''"
    and "local_size_of e = n"
    and "worker_allocations (dict_set e ''PYTHONUNBUFFERED'' ''1'') fs n = Inr (Some al)"
    and "\<forall>i. exc i = (case worker (dict_set e ''PYTHONUNBUFFERED'' ''1'') numactl i n (py_join '' '' argv) (Some (al ! i)) of
                        Inl err \<Rightarrow> Some err | Inr wc \<Rightarrow> run wc)"
  shows "\<exists>outcome. launch_bps e argv fs numactl run common =
       (map (\<lambda>i. Start_worker i n (py_join '' '' argv) (Some (al ! i))) [0..<min n (length al)], outcome)
     \<and> (length al < n \<longrightarrow> outcome = Raised IndexError)
     \<and> (n \<le> length al \<longrightarrow> ((\<forall>i < n. exc i = None) \<longrightarrow> outcome = Finished)
          \<and> (\<forall>k < n. \<forall>x. exc k = Some x \<and> (\<forall>i < k. exc i = None) \<longrightarrow> outcome = Raised x))"
proof -
  let ?e = "dict_set e ''PYTHONUNBUFFERED'' ''1''" and ?f = "\<lambda>i. Start_worker i n (py_join '' '' argv) (Some (al ! i))"
  have "local_size_of ?e = n" using assms(4) by (simp add: local_size_of_def)
  then have run: "launch_bps e argv fs numactl run common =
      (map ?f [0..<min n (length al)], if n \<le> length al then join_workers (thread_exc ?e numactl run) (map ?f [0..<min n (length al)]) else Raised IndexError)"
    using assms(1-5) start_workers_eq [of 0 n n "py_join '' '' argv" al] by (simp add: launch_bps_def Let_def)
  have "exc i = thread_exc ?e numactl run (?f i)" for i using assms(6) by (simp add: thread_exc_def)
  then show ?thesis
    unfolding run using join_workers_upt [where n = n and exc = "thread_exc ?e numactl run" and f = ?f] by (auto simp: min_def)
qed

text \<open>Both processes fail; the launch reports rank 0.\<close>

theorem launch_bps_workers_witness:
  "launch_bps [(''DMLC_ROLE'', ''worker''), (''DMLC_NUM_WORKER'', ''1''), (''DMLC_WORKER_ID'', ''0''),
               (''NVIDIA_VISIBLE_DEVICES'', ''0,1''), (''BYTEPS_VISIBLE_CPU_CORES'', ''0-1:2-3'')]
     [''python'', ''train.py''] (\<lambda>_. None) True (\<lambda>wc. Some (OtherError (wc_command wc))) COMMON_REQUIRED_ENVS =
   ([Start_worker 0 2 ''python train.py'' (Some [[0, 1]]), Start_worker 1 2 ''python train.py'' (Some [[2, 3]])],
    Raised (OtherError ''numactl --physcpubind 0-1 python train.py''))"
proof -
  let ?e = "[(''DMLC_ROLE'', ''worker''), (''DMLC_NUM_WORKER'', ''1''), (''DMLC_WORKER_ID'', ''0''),
             (''NVIDIA_VISIBLE_DEVICES'', ''0,1''), (''BYTEPS_VISIBLE_CPU_CORES'', ''0-1:2-3'')]"
  let ?run = "\<lambda>wc. Some (OtherError (wc_command wc))"
  let ?exc = "\<lambda>i. case worker (dict_set ?e ''PYTHONUNBUFFERED'' ''1'') True i 2 (py_join '' '' [''python'', ''train.py'']) (Some ([[[0, 1]], [[2, 3]]] ! i)) of
                  Inl err \<Rightarrow> Some err | Inr wc \<Rightarrow> ?run wc"
  have w: "worker_allocations (dict_set ?e ''PYTHONUNBUFFERED'' ''1'') (\<lambda>_. None) 2 = Inr (Some [[[0, 1]], [[2, 3]]])" by code_simp
  have f: "local_size_of ?e = 2" "fst (check_env ?e COMMON_REQUIRED_ENVS) = Passed" by code_simp+
  have x: "?exc 0 = Some (OtherError ''numactl --physcpubind 0-1 python train.py'')" by code_simp
  have r: "dict_get ?e ''DMLC_ROLE'' = Some ''worker''" "dict_get_or ?e ''BYTEPS_NUMA_ON'' ''1'' = ''1''" by (simp_all add: dict_get_or_def)
  obtain outcome where o: "launch_bps ?e [''python'', ''train.py''] (\<lambda>_. None) True ?run COMMON_REQUIRED_ENVS =
       (map (\<lambda>i. Start_worker i 2 (py_join '' '' [''python'', ''train.py'']) (Some ([[[0, 1]], [[2, 3]]] ! i))) [0..<min 2 (length [[[0, 1]], [[2, 3 :: int]]])], outcome)"
      "\<forall>k < 2. \<forall>x. ?exc k = Some x \<and> (\<forall>i < k. ?exc i = None) \<longrightarrow> outcome = Raised x"
    using launch_bps_workers [OF r(1) f(2) r(2) f(1) w, where exc = ?exc and numactl = True and argv = "[''python'', ''train.py'']" and run = ?run] by auto
  have "outcome = Raised (OtherError ''numactl --physcpubind 0-1 python train.py'')"
    by (rule o(2) [rule_format, of 0]) (simp, rule conjI [OF x], simp)
  then show ?thesis using o(1) by (simp add: upt_conv_Cons numeral_2_eq_2)
qed

text \<open>
  The role is compared with and without regard to case: a role that is the word worker in
  another case passes the environment check, but is launched as a server.
\<close>

theorem launch_bps_role_case:
  assumes "dict_get e ''DMLC_ROLE'' = Some role" "py_lower role = ''worker''" "role \<noteq> ''worker''"
    and "list_all (dict_has e) common"
    and "env_int e ''DMLC_NUM_WORKER'' 1 = Inr w" "1 < w" "dict_get e ''BYTEPS_ENABLE_GDB'' = None"
  shows "fst (check_env e common) = Passed
         \<and> (\<exists>cmd. fst (launch_bps e argv fs numactl run common) = [Start_server cmd])"
proof -
  have "check_present e common = Passed"
    using assms(4) by (induction common) auto
  with assms show ?thesis
    by (simp add: launch_bps_def check_env_def Let_def env_int_def dict_get_or_def)
qed

theorem launch_bps_role_case_witness:
  "let e = [(''DMLC_ROLE'', ''Worker''), (''DMLC_NUM_WORKER'', ''2''), (''DMLC_NUM_SERVER'', ''1''),
            (''DMLC_PS_ROOT_URI'', ''10.0.0.1''), (''DMLC_PS_ROOT_PORT'', ''1234'')]
   in fst (check_env e COMMON_REQUIRED_ENVS) = Passed
      \<and> (\<exists>cmd. fst (launch_bps e [] (\<lambda>_. None) True (\<lambda>_. None) COMMON_REQUIRED_ENVS) = [Start_server cmd])"
  unfolding Let_def
  by (rule launch_bps_role_case [where role = "''Worker''" and w = 2])
     (simp, code_simp, simp, code_simp, code_simp, simp, simp)

section \<open>The environment check\<close>

lemma check_present_Passed: "check_present e ks = Passed \<longleftrightarrow> list_all (dict_has e) ks"
  by (induction ks) auto

lemma check_env_outcome:
  "fst (check_env e common) = Passed \<longleftrightarrow>
     (\<exists>role. dict_get e ''DMLC_ROLE'' = Some role \<and>
       (if role = ''worker''
        then \<exists>nw n. dict_get e ''DMLC_NUM_WORKER'' = Some nw \<and> py_int nw = Inr n \<and> 1 \<le> n
               \<and> dict_has e ''DMLC_WORKER_ID'' \<and> (n = 1 \<or> list_all (dict_has e) common)
        else py_lower role \<in> {''worker'', ''server'', ''scheduler''} \<and> list_all (dict_has e) common))"
proof -
  have low: "py_lower ''worker'' = ''worker''" by code_simp
  show ?thesis
    by (auto simp: check_env_def WORKER_REQUIRED_ENVS_def Let_def check_present_Passed low
             split: option.splits sum.splits)
qed

text \<open>
  What the environment check accepts: for the role worker a worker count of at least one, the
  worker's number and, with more than one worker, the common variables; for the two other roles, in
  any case, the common variables.
\<close>

theorem check_env_passed:
  "fst (check_env e common) = Passed \<longleftrightarrow>
     (\<exists>role. dict_get e ''DMLC_ROLE'' = Some role \<and>
       (if role = ''worker''
        then \<exists>nw n. dict_get e ''DMLC_NUM_WORKER'' = Some nw \<and> py_int nw = Inr n \<and> 1 \<le> n
               \<and> dict_has e ''DMLC_WORKER_ID'' \<and> (n = 1 \<or> list_all (dict_has e) common)
        else py_lower role \<in> {''worker'', ''server'', ''scheduler''} \<and> list_all (dict_has e) common))"
  by (rule check_env_outcome)

text \<open>
  The check of a distributed worker changes what later checks require: it extends the module's
  list of common variables in place, so that a server environment accepted before is afterwards
  refused for lack of a worker number.
\<close>

theorem check_env_leaks:
  assumes "dict_get e ''DMLC_ROLE'' = Some ''worker''" "dict_get e ''DMLC_NUM_WORKER'' = Some nw"
    and "py_int nw = Inr n" "1 < n"
    and "dict_get e' ''DMLC_ROLE'' = Some ''server''" "list_all (dict_has e') common"
    and "\<not> dict_has e' ''DMLC_WORKER_ID''"
  shows "fst (check_env e' common) = Passed
         \<and> fst (check_env e' (snd (check_env e common))) = Exit_missing ''DMLC_WORKER_ID''"
proof -
  have low: "py_lower ''worker'' = ''worker''" "py_lower ''server'' = ''server''" by code_simp+
  have ext: "check_present e' (ks @ [''DMLC_WORKER_ID'']) = Exit_missing ''DMLC_WORKER_ID''"
    if "list_all (dict_has e') ks" for ks
    using that assms(7) by (induction ks) auto
  have "snd (check_env e common) = common @ [''DMLC_WORKER_ID'']"
    using assms(1-4) low by (simp add: check_env_def WORKER_REQUIRED_ENVS_def Let_def)
  then show ?thesis
    using assms(5,6) low ext by (simp add: check_env_def check_present_Passed)
qed

theorem check_env_leaks_witness:
  "let e = [(''DMLC_ROLE'', ''worker''), (''DMLC_NUM_WORKER'', ''2'')];
       e' = [(''DMLC_ROLE'', ''server''), (''DMLC_NUM_WORKER'', ''2''), (''DMLC_NUM_SERVER'', ''1''),
             (''DMLC_PS_ROOT_URI'', ''10.0.0.1''), (''DMLC_PS_ROOT_PORT'', ''1234'')]
   in fst (check_env e' COMMON_REQUIRED_ENVS) = Passed
      \<and> fst (check_env e' (snd (check_env e COMMON_REQUIRED_ENVS))) = Exit_missing ''DMLC_WORKER_ID''"
  unfolding Let_def
  by (rule check_env_leaks [where nw = "''2''" and n = 2]) (simp, simp, code_simp, simp, simp, code_simp, code_simp)

end
