(* ===== verification/Shell.thy ===== *)
theory Shell
  imports Py_Strings
begin

text \<open>
  What becomes of a command that the distributed launcher hands to the shell: the syntax of the POSIX shell and the
  options of \<^verbatim>\<open>ssh\<close> that such a command uses. The local shell cuts the command into words, \<^verbatim>\<open>ssh\<close> takes
  its options, the host and the remote command from them, and the remote shell runs the leading \<^verbatim>\<open>export\<close> commands
  in its environment. Whatever lies outside this part of the syntax gives \<open>None\<close>.

  None of this is code of the repository; it is the meaning of the strings that \<open>Dist_Launch\<close> builds.
\<close>

section \<open>Characters\<close>

definition is_alpha :: "char \<Rightarrow> bool" where
  "is_alpha c = (c \<in> set ''ABCDEFGHIJKLMNOPQRSTUVWXYZabcdefghijklmnopqrstuvwxyz'')"

text \<open>Characters that mean themselves, wherever they stand in a word.\<close>

definition plain_char :: "char \<Rightarrow> bool" where
  "plain_char c = (is_alpha c \<or> is_digit c \<or> c \<in> set ''_./:-,+@%='')"

definition plain :: "string \<Rightarrow> bool" where
  "plain s = list_all plain_char s"

definition is_name :: "string \<Rightarrow> bool" where
  "is_name s = (s \<noteq> [] \<and> \<not> is_digit (hd s) \<and> list_all (\<lambda>c. is_alpha c \<or> is_digit c \<or> c = CHR ''_'') s)"

definition quote :: string where
  "quote = [CHR 0x27]"

section \<open>The words of a command\<close>

text \<open>
  The words before the first redirection. The flag says whether the reader is between single quotes; the word
  read so far is \<open>None\<close> between words.
\<close>

definition text_of :: "string option \<Rightarrow> string" where
  "text_of cur = (case cur of None \<Rightarrow> [] | Some w \<Rightarrow> w)"

definition word_of :: "string option \<Rightarrow> string list" where
  "word_of cur = (case cur of None \<Rightarrow> [] | Some w \<Rightarrow> [w])"

fun sh_lex :: "bool \<Rightarrow> string option \<Rightarrow> string \<Rightarrow> string list option" where
  "sh_lex q cur [] = (if q then None else Some (word_of cur))"
| "sh_lex q cur (c # s) =
     (if q then (if c = CHR 0x27 then sh_lex False cur s else sh_lex True (Some (text_of cur @ [c])) s)
      else if c = CHR 0x27 then sh_lex True (Some (text_of cur)) s
      else if c = CHR '' '' then map_option ((@) (word_of cur)) (sh_lex False None s)
      else if c = CHR ''>'' then Some (word_of cur)
      else if plain_char c then sh_lex False (Some (text_of cur @ [c])) s
      else None)"

definition sh_words :: "string \<Rightarrow> string list option" where
  "sh_words s = sh_lex False None s"

section \<open>The options of ssh\<close>

record ssh_target =
  st_login :: "string option"
  st_host :: string
  st_port :: "string option"
  st_command :: string

text \<open>Options may stand before and after the host; the first word after both belongs to the remote command.\<close>

fun ssh_options :: "string list \<Rightarrow> string option \<Rightarrow> string option \<Rightarrow> string option \<Rightarrow> ssh_target option" where
  "ssh_options [] l p h = map_option (\<lambda>host. \<lparr>st_login = l, st_host = host, st_port = p, st_command = []\<rparr>) h"
| "ssh_options (a # as) l p h =
     (if a \<in> set [''-o'', ''-l'', ''-p'']
      then (case as of
              [] \<Rightarrow> None
            | x # r \<Rightarrow> ssh_options r (if a = ''-l'' \<and> l = None then Some x else l) (if a = ''-p'' \<and> p = None then Some x else p) h)
      else if py_startswith a ''-'' then None
      else (case h of
              None \<Rightarrow> ssh_options as l p (Some a)
            | Some host \<Rightarrow> Some \<lparr>st_login = l, st_host = host, st_port = p, st_command = py_join '' '' (a # as)\<rparr>))"

definition ssh_run :: "string \<Rightarrow> ssh_target option" where
  "ssh_run command =
     (case sh_words command of
        None \<Rightarrow> None
      | Some ws \<Rightarrow> if ws \<noteq> [] \<and> hd ws = ''ssh'' then ssh_options (tl ws) None None None else None)"

section \<open>Exports on the remote side\<close>

definition assignment :: "string \<Rightarrow> (string \<times> string) option" where
  "assignment s =
     (let i = py_find s (CHR ''=''); k = take (nat i) s; v = drop (nat (i + 1)) s
      in if i \<noteq> -1 \<and> is_name k \<and> plain v then Some (k, v) else None)"

text \<open>The environment after the leading exports of a command, and the rest of the command.\<close>

function sh_exports :: "(string, string) dict \<Rightarrow> string \<Rightarrow> ((string, string) dict \<times> string) option" where
  "sh_exports e s =
     (let s = dropWhile (\<lambda>c. c = CHR '' '') s
      in if py_startswith s ''export ''
         then let body = takeWhile (\<lambda>c. c \<noteq> CHR '';'') (drop 7 s); rest = dropWhile (\<lambda>c. c \<noteq> CHR '';'') (drop 7 s)
              in if rest = [] then None
                 else (case assignment body of None \<Rightarrow> None | Some (k, v) \<Rightarrow> sh_exports (dict_set e k v) (tl rest))
         else Some (e, s))"
  by pat_completeness auto

termination
proof (relation "measure (\<lambda>(_, s). length s)")
  fix e :: "(string, string) dict" and s s' :: string and body rest and kv :: "string \<times> string" and k v
  assume s': "s' = dropWhile (\<lambda>c. c = CHR '' '') s" and "rest = dropWhile (\<lambda>c. c \<noteq> CHR '';'') (drop 7 s')" "rest \<noteq> []"
  then have "length rest \<le> length s'" "0 < length rest" using length_dropWhile_le [of "\<lambda>c. c \<noteq> CHR '';''" "drop 7 s'"] by auto
  moreover have "length s' \<le> length s" by (simp add: s' length_dropWhile_le)
  ultimately have "length rest - 1 < length s" by linarith
  then have "length (tl rest) < length s" by simp
  then show "((dict_set e k v, tl rest), e, s) \<in> measure (\<lambda>(_, s). length s)" by simp
qed simp

declare sh_exports.simps [simp del]

section \<open>Reading words\<close>

lemma plain_char_not [simp]:
  "\<not> plain_char (CHR '' '')" "\<not> plain_char (CHR 0x27)" "\<not> plain_char (CHR ''>'')" "\<not> plain_char (CHR '';'')"
  by (simp_all add: plain_char_def is_alpha_def is_digit_def)

lemma plain_simps [simp]: "plain []" "plain (c # s) = (plain_char c \<and> plain s)" "plain (s @ t) = (plain s \<and> plain t)"
  by (simp_all add: plain_def)

lemma plain_notin: "plain s \<Longrightarrow> \<not> plain_char c \<Longrightarrow> c \<notin> set s"
  by (auto simp: plain_def list_all_iff)

lemma word_of_append [simp]: "(@) (word_of None) = id" "(@) (word_of (Some w)) = (#) w"
  by (simp_all add: word_of_def fun_eq_iff)

lemma sh_lex_plain: "plain w \<Longrightarrow> sh_lex False cur (w @ s) = (if w = [] then sh_lex False cur s else sh_lex False (Some (text_of cur @ w)) s)"
proof (induction w arbitrary: cur)
  case (Cons c w)
  then have "c \<noteq> CHR 0x27" "c \<noteq> CHR '' ''" "c \<noteq> CHR ''>''" by auto
  then show ?case using Cons by (simp add: text_of_def)
qed simp

lemma sh_lex_word: "plain w \<Longrightarrow> w \<noteq> [] \<Longrightarrow> sh_lex False None (w @ CHR '' '' # s) = map_option ((#) w) (sh_lex False None s)"
  by (simp add: sh_lex_plain text_of_def)

lemma sh_lex_space: "sh_lex False None (CHR '' '' # s) = sh_lex False None s"
  by (simp add: option.map_id)

lemma sh_lex_in_quotes: "CHR 0x27 \<notin> set t \<Longrightarrow> sh_lex True (Some w) (t @ CHR 0x27 # s) = sh_lex False (Some (w @ t)) s"
  by (induction t arbitrary: w) (auto simp: text_of_def)

lemma sh_lex_quoted:
  "CHR 0x27 \<notin> set t \<Longrightarrow> sh_lex False None (CHR 0x27 # t @ CHR 0x27 # CHR '' '' # s) = map_option ((#) t) (sh_lex False None s)"
  by (simp add: sh_lex_in_quotes text_of_def)

section \<open>Reading exports\<close>

lemma sh_exports_space: "sh_exports e (CHR '' '' # s) = sh_exports e s"
  by (subst (1 2) sh_exports.simps) simp

lemma name_notin: "is_name k \<Longrightarrow> CHR ''='' \<notin> set k \<and> CHR '';'' \<notin> set k \<and> CHR 0x27 \<notin> set k"
proof -
  assume "is_name k"
  then have "is_alpha c \<or> is_digit c \<or> c = CHR ''_''" if "c \<in> set k" for c using that by (simp add: is_name_def list_all_iff)
  moreover have "\<not> (is_alpha c \<or> is_digit c \<or> c = CHR ''_'')" if "c = CHR ''='' \<or> c = CHR '';'' \<or> c = CHR 0x27" for c
    using that by (elim disjE) (simp_all add: is_alpha_def is_digit_def)
  ultimately show ?thesis by blast
qed

lemma assignment_pair: "is_name k \<Longrightarrow> plain v \<Longrightarrow> assignment (k @ CHR ''='' # v) = Some (k, v)"
  using name_notin [of k] by (simp add: assignment_def py_find_append Let_def nat_add_distrib)

lemma sh_exports_export:
  assumes "is_name k" "plain v"
  shows "sh_exports e (''export '' @ k @ ''='' @ v @ '';'' @ s) = sh_exports (dict_set e k v) s"
proof -
  let ?b = "k @ CHR ''='' # v"
  have "CHR '';'' \<notin> set ?b" using name_notin [OF assms(1)] plain_notin [OF assms(2), of "CHR '';''"] by simp
  then have "\<forall>c \<in> set ?b. c \<noteq> CHR '';''" by metis
  then have b: "takeWhile (\<lambda>c. c \<noteq> CHR '';'') (?b @ CHR '';'' # s) = ?b" "dropWhile (\<lambda>c. c \<noteq> CHR '';'') (?b @ CHR '';'' # s) = CHR '';'' # s"
    using takeWhile_append2 [of ?b "\<lambda>c. c \<noteq> CHR '';''" "CHR '';'' # s"] dropWhile_append2 [of ?b "\<lambda>c. c \<noteq> CHR '';''" "CHR '';'' # s"] by simp_all
  then have "takeWhile (\<lambda>c. c \<noteq> CHR '';'') (k @ CHR ''='' # v @ CHR '';'' # s) = ?b"
      "dropWhile (\<lambda>c. c \<noteq> CHR '';'') (k @ CHR ''='' # v @ CHR '';'' # s) = CHR '';'' # s" by simp_all
  then show ?thesis
    using assignment_pair [OF assms] by (subst sh_exports.simps) (simp add: py_startswith_def Let_def del: takeWhile_append dropWhile_append)
qed

text \<open>A command that starts with neither a space nor an export.\<close>

definition no_export :: "string \<Rightarrow> bool" where
  "no_export s = (\<not> py_startswith s '' '' \<and> \<not> py_startswith s ''export '')"

lemma sh_exports_command: "no_export s \<Longrightarrow> sh_exports e s = Some (e, s)"
  by (subst sh_exports.simps, cases s) (auto simp: no_export_def py_startswith_def Let_def)

end
