(* ===== verification/Dist_Launch.thy ===== *)
theory Dist_Launch
  imports Shell
begin

text \<open>
  The multi-host launcher, \<^verbatim>\<open>launcher/dist_launcher.py\<close>: it reads the host files, builds one
  environment per process and starts the scheduler, the workers and the servers over ssh.

  The file system is a parameter (\<open>read\<close>, the lines of a file, \<open>None\<close> for a file that cannot be
  opened), as is the environment of the launcher itself. A started thread is recorded as the command that it
  hands to the shell; the exit code of ssh never reaches the launcher, whose threads keep no exception. What the shell and ssh
  make of a command is in \<open>Shell\<close>.
\<close>

type_synonym envs_map = "(string, string) dict"
type_synonym host = "string \<times> string"

section \<open>Environment arguments\<close>

text \<open>
  \<open>key\<close> and \<open>val\<close> are locals of the whole function: an item without a colon stores the pair of the
  item before it once more, and raises when there is none.
\<close>

fun preprocess_loop :: "string list \<Rightarrow> (string \<times> string) option \<Rightarrow> envs_map \<Rightarrow> envs_map res" where
  "preprocess_loop [] kv m = Inr m"
| "preprocess_loop (item # items) kv m =
     (let i = py_find item (CHR '':'');
          kv' = (if i \<noteq> -1 then Some (take (nat i) item, drop (nat (i + 1)) item) else kv)
      in case kv' of
           None \<Rightarrow> Inl NameError
         | Some (k, v) \<Rightarrow> preprocess_loop items kv' (dict_set m k v))"

definition preprocess_envs :: "string list \<Rightarrow> envs_map res" where
  "preprocess_envs args_envs = preprocess_loop args_envs None []"

definition export :: "string \<Rightarrow> string \<Rightarrow> string" where
  "export k v = ''export '' @ k @ ''='' @ v @ '';''"

definition get_env :: "envs_map \<Rightarrow> envs_map \<Rightarrow> string" where
  "get_env sys envs_map =
     py_join '' ''
       (concat (map (\<lambda>k. case dict_get sys k of None \<Rightarrow> [] | Some v \<Rightarrow> [export k v])
                    [''OMP_NUM_THREADS'', ''KMP_AFFINITY''])
        @ map (\<lambda>(k, v). export k v) envs_map)"

section \<open>Host files\<close>

definition parse_host :: "string \<Rightarrow> host" where
  "parse_host h =
     (let i = py_find h (CHR '':'')
      in if i \<noteq> -1 then (take (nat i) h, drop (nat (i + 1)) h) else (h, ''22''))"

definition get_hosts_from_file :: "(string \<Rightarrow> string list option) \<Rightarrow> string \<Rightarrow> host list res" where
  "get_hosts_from_file read filename =
     bind_res (of_option OSError (read filename)) (\<lambda>tmp.
     bind_res (assert_res (length tmp > 0)) (\<lambda>_.
       Inr (map (\<lambda>h. parse_host (py_strip h)) (filter (\<lambda>h. length (py_strip h) > 0) tmp))))"

section \<open>Starting the processes\<close>

definition start_ssh :: "string \<Rightarrow> string \<Rightarrow> string \<Rightarrow> string option \<Rightarrow> string \<Rightarrow> string" where
  "start_ssh prog node port username fname =
     (let pname = ''sshlog'' @ ''/'' @ fname
      in case username of
           Some u \<Rightarrow> ''ssh -o StrictHostKeyChecking=no '' @ '' -l '' @ u
                       @ '' '' @ node @ '' -p '' @ port @ '' '' @ quote @ prog @ quote
                       @ '' > '' @ pname @ ''.stdout'' @ '' 2>'' @ pname @ ''.stderr&''
         | None \<Rightarrow> ''ssh -o StrictHostKeyChecking=no '' @ node @ '' -p '' @ port @ '' '' @ quote @ prog @ quote
                       @ '' > '' @ pname @ ''.stdout'' @ '' 2>'' @ pname @ ''.stderr&'')"

record dist_args =
  arg_worker_hostfile :: string
  arg_server_hostfile :: string
  arg_scheduler_ip :: string
  arg_scheduler_port :: int
  arg_interface :: string
  arg_env :: "string list"
  arg_username :: "string option"
  arg_scheduler_ssh_port :: string
  arg_command :: "string list"

definition ssh_process ::
    "envs_map \<Rightarrow> dist_args \<Rightarrow> string \<Rightarrow> envs_map \<Rightarrow> host \<Rightarrow> string \<Rightarrow> string" where
  "ssh_process sys args username pass_envs h fname =
     start_ssh (get_env sys pass_envs @ py_join '' '' (arg_command args)) (fst h) (snd h) (Some username) fname"

fun start_worker_hosts ::
    "envs_map \<Rightarrow> dist_args \<Rightarrow> string \<Rightarrow> nat \<Rightarrow> host list \<Rightarrow> envs_map \<Rightarrow> string list \<times> envs_map" where
  "start_worker_hosts sys args username i [] pass_envs = ([], pass_envs)"
| "start_worker_hosts sys args username i (h # hs) pass_envs =
     (let pass_envs = dict_set pass_envs ''DMLC_ROLE'' ''worker'';
          pass_envs = dict_set pass_envs ''DMLC_WORKER_ID'' (py_str (int i));
          c = ssh_process sys args username pass_envs h (''worker'' @ py_str (int i));
          (cs, pass_envs) = start_worker_hosts sys args username (Suc i) hs pass_envs
      in (c # cs, pass_envs))"

fun start_server_hosts ::
    "envs_map \<Rightarrow> dist_args \<Rightarrow> string \<Rightarrow> nat \<Rightarrow> host list \<Rightarrow> envs_map \<Rightarrow> string list" where
  "start_server_hosts sys args username i [] pass_envs = []"
| "start_server_hosts sys args username i (h # hs) pass_envs =
     (let pass_envs = dict_set pass_envs ''DMLC_ROLE'' ''server''
      in ssh_process sys args username pass_envs h (''server'' @ py_str (int i))
         # start_server_hosts sys args username (Suc i) hs pass_envs)"

definition common_envs :: "dist_args \<Rightarrow> nat \<Rightarrow> nat \<Rightarrow> envs_map \<Rightarrow> envs_map" where
  "common_envs args num_worker num_server m =
     dict_set (dict_set (dict_set (dict_set (dict_set m
       ''DMLC_NUM_WORKER'' (py_str (int num_worker)))
       ''DMLC_NUM_SERVER'' (py_str (int num_server)))
       ''DMLC_INTERFACE'' (arg_interface args))
       ''DMLC_PS_ROOT_URI'' (arg_scheduler_ip args))
       ''DMLC_PS_ROOT_PORT'' (py_str (arg_scheduler_port args))"

definition submit ::
    "(string \<Rightarrow> string list option) \<Rightarrow> envs_map \<Rightarrow> dist_args \<Rightarrow> string list res" where
  "submit read sys args =
     bind_res (get_hosts_from_file read (arg_worker_hostfile args)) (\<lambda>worker_hosts.
     bind_res (get_hosts_from_file read (arg_server_hostfile args)) (\<lambda>server_hosts.
     bind_res (assert_res (length worker_hosts \<ge> 1)) (\<lambda>_.
     bind_res (assert_res (length server_hosts \<ge> 1)) (\<lambda>_.
     bind_res (preprocess_envs (arg_env args)) (\<lambda>m.
       let pass_envs = common_envs args (length worker_hosts) (length server_hosts) m;
           username = (case arg_username args of None \<Rightarrow> '''' | Some u \<Rightarrow> u);
           pass_envs = dict_set pass_envs ''DMLC_ROLE'' ''scheduler'';
           sched = ssh_process sys args username pass_envs
                     (arg_scheduler_ip args, arg_scheduler_ssh_port args) ''scheduler'';
           (workers, pass_envs) = start_worker_hosts sys args username 0 worker_hosts pass_envs
       in Inr (sched # workers @ start_server_hosts sys args username 0 server_hosts pass_envs))))))"

definition dist_main ::
    "(string \<Rightarrow> string list option) \<Rightarrow> envs_map \<Rightarrow> dist_args \<Rightarrow> string list res" where
  "dist_main read sys args =
     bind_res (assert_res (arg_worker_hostfile args \<noteq> [])) (\<lambda>_.
     bind_res (assert_res (arg_server_hostfile args \<noteq> [])) (\<lambda>_.
     bind_res (assert_res (arg_scheduler_ip args \<noteq> [])) (\<lambda>_.
     bind_res (assert_res (arg_scheduler_port args \<noteq> 0)) (\<lambda>_. submit read sys args))))"

section \<open>Environment arguments: behaviour\<close>

lemma py_find_bounds: "c \<in> set s \<Longrightarrow> 0 \<le> py_find s c \<and> py_find s c < int (length s)"
  using py_find_split [of c s] by auto

lemma cut_at_colon:
  "CHR '':'' \<notin> set k \<Longrightarrow> take (nat (py_find (k @ '':'' @ v) (CHR '':''))) (k @ '':'' @ v) = k"
  "CHR '':'' \<notin> set k \<Longrightarrow> drop (nat (py_find (k @ '':'' @ v) (CHR '':'') + 1)) (k @ '':'' @ v) = v"
  by (simp_all add: py_find_append nat_add_distrib)

lemma find_colon_ne: "py_find (k @ CHR '':'' # v) (CHR '':'') \<noteq> -1"
  by simp

lemma preprocess_loop_pairs:
  "\<forall>(k, v) \<in> set kvs. CHR '':'' \<notin> set k \<Longrightarrow>
   preprocess_loop (map (\<lambda>(k, v). k @ '':'' @ v) kvs) kv m = Inr (dict_update_all m kvs)"
proof (induction kvs arbitrary: kv m)
  case (Cons p kvs)
  obtain k v where p: "p = (k, v)" by fastforce
  with Cons.prems have k: "CHR '':'' \<notin> set k" by simp
  then show ?case
    using Cons p cut_at_colon [OF k, of v] find_colon_ne [of k v] by (simp add: Let_def)
qed simp

lemma preprocess_loop_total: "\<exists>m'. preprocess_loop items (Some kv) m = Inr m'"
  by (induction items arbitrary: kv m) (auto simp: Let_def split: prod.splits)

text \<open>
  The environment option of the distributed launcher: items of the form key:value are stored
  in order, a later one overriding an earlier one of the same key, and the value may hold further
  colons.
\<close>

theorem preprocess_envs_pairs:
  assumes "\<forall>(k, v) \<in> set kvs. CHR '':'' \<notin> set k"
  shows "\<exists>m. preprocess_envs (map (\<lambda>(k, v). k @ '':'' @ v) kvs) = Inr m \<and> dict_ok m
             \<and> dict_get m = map_of (rev kvs)"
proof -
  have "dict_get (dict_update_all [] kvs) = map_of (rev kvs)"
    by (rule ext) (simp add: dict_get_update_all split: option.splits)
  then show ?thesis
    using preprocess_loop_pairs [OF assms, of None "[]"] by (auto simp: preprocess_envs_def)
qed

theorem preprocess_envs_pairs_witness:
  "\<exists>m. preprocess_envs (map (\<lambda>(k, v). k @ '':'' @ v) [(''A'', ''1''), (''URL'', ''tcp://h:80''), (''A'', ''2'')]) = Inr m
       \<and> dict_ok m \<and> dict_get m = map_of (rev [(''A'', ''1''), (''URL'', ''tcp://h:80''), (''A'', ''2'')])"
  by (rule preprocess_envs_pairs) simp

text \<open>
  An item without a colon is an error in first position only, an unbound local; elsewhere it passes
  unnoticed.
\<close>

lemma preprocess_envs_error:
  "preprocess_envs items = Inl e \<longleftrightarrow> e = NameError \<and> items \<noteq> [] \<and> CHR '':'' \<notin> set (hd items)"
proof (cases items)
  case (Cons item rest)
  show ?thesis
  proof (cases "CHR '':'' \<in> set item")
    case True
    then have "py_find item (CHR '':'') \<noteq> -1" by simp
    with Cons True show ?thesis
      using preprocess_loop_total [of rest]
      by (auto simp: preprocess_envs_def Let_def) (metis sum.distinct(1))
  qed (use Cons in \<open>auto simp: preprocess_envs_def Let_def\<close>)
qed (simp add: preprocess_envs_def)

section \<open>Host files: behaviour\<close>

lemma parse_host_pair: "CHR '':'' \<notin> set h \<Longrightarrow> parse_host (h @ CHR '':'' # p) = (h, p)"
  using cut_at_colon [of h p] find_colon_ne [of h p] by (simp add: parse_host_def)

lemma parse_host_plain: "CHR '':'' \<notin> set h \<Longrightarrow> parse_host h = (h, ''22'')"
  by (simp add: parse_host_def)

text \<open>A word: a non-empty string with no white space at its ends.\<close>

definition is_word :: "string \<Rightarrow> bool" where
  "is_word s = (s \<noteq> [] \<and> \<not> is_space (hd s) \<and> \<not> is_space (last s))"

lemma py_strip_line: "is_word s \<Longrightarrow> py_strip (s @ [CHR 0x0A]) = s"
proof -
  assume "is_word s"
  then have "dropWhile is_space (s @ [CHR 0x0A]) = s @ [CHR 0x0A]"
    by (cases s) (simp_all add: is_word_def)
  moreover have "dropWhile is_space (rev s) = rev s"
    using \<open>is_word s\<close> by (cases s rule: rev_cases) (simp_all add: is_word_def)
  moreover have "is_space (CHR 0x0A)" by (simp add: is_space_def)
  ultimately show ?thesis by (simp add: py_strip_def py_strip_by_def)
qed

lemma py_strip_empty_line: "py_strip [CHR 0x0A] = []"
  by (simp add: py_strip_def py_strip_by_def is_space_def)

definition host_line :: "host \<Rightarrow> string" where
  "host_line h = fst h @ '':'' @ snd h @ [CHR 0x0A]"

text \<open>
  Reading back a host file: a file with one host:port line per host, blank lines anywhere, is
  read as exactly these hosts in order.
\<close>

theorem get_hosts_from_file_lines:
  assumes "\<forall>h \<in> set hosts. is_word (fst h) \<and> CHR '':'' \<notin> set (fst h) \<and> is_word (snd h)"
    and "filter (\<lambda>l. l \<noteq> [CHR 0x0A]) lines = map host_line hosts" "lines \<noteq> []"
    and "read f = Some lines"
  shows "get_hosts_from_file read f = Inr hosts"
proof -
  have strip: "py_strip (host_line h) = fst h @ '':'' @ snd h" if "h \<in> set hosts" for h
    using assms(1) that py_strip_line [of "fst h @ '':'' @ snd h"]
    by (auto simp: host_line_def is_word_def)
  have keep: "filter (\<lambda>l. 0 < length (py_strip l)) lines = filter (\<lambda>l. l \<noteq> [CHR 0x0A]) lines"
  proof (rule filter_cong [OF refl])
    fix l assume "l \<in> set lines"
    then have "l \<noteq> [CHR 0x0A] \<Longrightarrow> l \<in> host_line ` set hosts"
      using arg_cong [OF assms(2), of set] by (auto simp: set_eq_iff image_iff)
    then show "(0 < length (py_strip l)) = (l \<noteq> [CHR 0x0A])"
      using strip py_strip_empty_line by (cases "l = [CHR 0x0A]") auto
  qed
  have "map (\<lambda>h. parse_host (py_strip h)) (map host_line hosts) = hosts"
    using assms(1) strip by (auto simp: parse_host_pair intro!: map_idI)
  then show ?thesis
    using assms(3,4) keep assms(2) by (simp add: get_hosts_from_file_def)
qed

theorem get_hosts_from_file_lines_witness:
  "get_hosts_from_file (\<lambda>_. Some [host_line (''10.0.0.1'', ''22''), [CHR 0x0A], host_line (''gpu-2'', ''2222'')]) ''hosts''
     = Inr [(''10.0.0.1'', ''22''), (''gpu-2'', ''2222'')]"
  by (rule get_hosts_from_file_lines) (simp_all add: is_word_def is_space_def host_line_def)

section \<open>The processes of a job\<close>

text \<open>A command that starts a process on a host with a given environment; a dictionary has no key twice.\<close>

definition started :: "envs_map \<Rightarrow> dist_args \<Rightarrow> string \<Rightarrow> string \<Rightarrow> (string \<rightharpoonup> string) \<times> host \<times> string \<Rightarrow> bool" where
  "started sys args u prog = (\<lambda>(env, h, fname). \<exists>m. prog = ssh_process sys args u m h fname \<and> dict_ok m \<and> dict_get m = env)"

lemma dict_get_set_fun: "dict_get (dict_set d k v) = (dict_get d)(k \<mapsto> v)"
  by (rule update_conv')

definition worker_env :: "(string \<rightharpoonup> string) \<Rightarrow> nat \<Rightarrow> string \<rightharpoonup> string" where
  "worker_env env i = env (''DMLC_ROLE'' \<mapsto> ''worker'', ''DMLC_WORKER_ID'' \<mapsto> py_str (int i))"

lemma worker_env_again: "worker_env (worker_env env i) j = worker_env env j" "worker_env (env (''DMLC_ROLE'' \<mapsto> r)) j = worker_env env j"
  by (auto simp: worker_env_def)

definition worker_process :: "(string \<rightharpoonup> string) \<Rightarrow> nat \<Rightarrow> host \<Rightarrow> (string \<rightharpoonup> string) \<times> host \<times> string" where
  "worker_process env i h = (worker_env env i, h, ''worker'' @ py_str (int i))"

lemma worker_process_again: "worker_process (worker_env env i) = worker_process env" "worker_process (env (''DMLC_ROLE'' \<mapsto> r)) = worker_process env"
  by (simp_all add: fun_eq_iff worker_process_def worker_env_again)

lemma map2_upt_Cons: "map2 f [i..<i + length (x # xs)] (x # xs) = f i x # map2 f [Suc i..<Suc i + length xs] xs"
  by (simp add: upt_conv_Cons del: upt_Suc)

lemma start_worker_hosts_started:
  "dict_ok m \<Longrightarrow> list_all2 (started sys args u) (fst (start_worker_hosts sys args u i hs m)) (map2 (worker_process (dict_get m)) [i..<i + length hs] hs)
     \<and> dict_ok (snd (start_worker_hosts sys args u i hs m))
     \<and> (hs \<noteq> [] \<longrightarrow> dict_get (snd (start_worker_hosts sys args u i hs m)) = worker_env (dict_get m) (i + length hs - 1))"
proof (induction hs arbitrary: i m)
  case (Cons h hs)
  define m1 where "m1 = dict_set (dict_set m ''DMLC_ROLE'' ''worker'') ''DMLC_WORKER_ID'' (py_str (int i))"
  have get: "dict_get m1 = worker_env (dict_get m) i"
    by (simp add: m1_def worker_env_def dict_get_set_fun del: dict_get_set)
  have ok: "dict_ok m1" using Cons.prems by (simp add: m1_def)
  obtain ps m2 where rec: "start_worker_hosts sys args u (Suc i) hs m1 = (ps, m2)" by fastforce
  have start: "start_worker_hosts sys args u i (h # hs) m = (ssh_process sys args u m1 h (''worker'' @ py_str (int i)) # ps, m2)"
    using rec by (simp add: m1_def Let_def del: append.simps)
  have first: "started sys args u (ssh_process sys args u m1 h (''worker'' @ py_str (int i))) (worker_process (dict_get m) i h)"
    using ok get by (auto simp: started_def worker_process_def)
  have IH: "list_all2 (started sys args u) ps (map2 (worker_process (dict_get m)) [Suc i..<Suc i + length hs] hs)" "dict_ok m2"
      "hs \<noteq> [] \<Longrightarrow> dict_get m2 = worker_env (dict_get m) (Suc i + length hs - 1)"
    using Cons.IH [OF ok, of "Suc i"] by (simp_all only: rec fst_conv snd_conv get worker_env_again worker_process_again simp_thms)
  have "dict_get m2 = worker_env (dict_get m) (i + length (h # hs) - 1)"
    using IH(3) rec get by (cases "hs = []") simp_all
  then show ?case unfolding start map2_upt_Cons using first IH(1,2) by (simp del: upt_Suc)
qed simp

definition server_process :: "(string \<rightharpoonup> string) \<Rightarrow> nat \<Rightarrow> host \<Rightarrow> (string \<rightharpoonup> string) \<times> host \<times> string" where
  "server_process env i h = (env (''DMLC_ROLE'' \<mapsto> ''server''), h, ''server'' @ py_str (int i))"

lemma start_server_hosts_started:
  "dict_ok m \<Longrightarrow> list_all2 (started sys args u) (start_server_hosts sys args u i hs m) (map2 (server_process (dict_get m)) [i..<i + length hs] hs)"
proof (induction hs arbitrary: i m)
  case (Cons h hs)
  define m1 where "m1 = dict_set m ''DMLC_ROLE'' ''server''"
  have get: "dict_get m1 = (dict_get m) (''DMLC_ROLE'' \<mapsto> ''server'')" unfolding m1_def by (rule dict_get_set_fun)
  have ok: "dict_ok m1" using Cons.prems by (simp add: m1_def)
  have start: "start_server_hosts sys args u i (h # hs) m =
      ssh_process sys args u m1 h (''server'' @ py_str (int i)) # start_server_hosts sys args u (Suc i) hs m1"
    by (simp add: m1_def Let_def)
  have first: "started sys args u (ssh_process sys args u m1 h (''server'' @ py_str (int i))) (server_process (dict_get m) i h)"
    using ok get by (auto simp: started_def server_process_def)
  have "server_process (dict_get m1) = server_process (dict_get m)" by (simp add: fun_eq_iff server_process_def get)
  then show ?case using Cons.IH [OF ok, of "Suc i"] first unfolding start map2_upt_Cons by simp
qed simp

text \<open>The variables common to all processes of a job, and the processes: environment, host and name of the log.\<close>

definition job_envs :: "dist_args \<Rightarrow> nat \<Rightarrow> nat \<Rightarrow> envs_map \<Rightarrow> string \<rightharpoonup> string" where
  "job_envs args nw ns m =
     (dict_get m) (''DMLC_NUM_WORKER'' \<mapsto> py_str (int nw), ''DMLC_NUM_SERVER'' \<mapsto> py_str (int ns),
                   ''DMLC_INTERFACE'' \<mapsto> arg_interface args, ''DMLC_PS_ROOT_URI'' \<mapsto> arg_scheduler_ip args,
                   ''DMLC_PS_ROOT_PORT'' \<mapsto> py_str (arg_scheduler_port args))"

definition job_processes :: "dist_args \<Rightarrow> host list \<Rightarrow> host list \<Rightarrow> envs_map \<Rightarrow> ((string \<rightharpoonup> string) \<times> host \<times> string) list" where
  "job_processes args wh sh m =
     (let env = job_envs args (length wh) (length sh) m
      in (env (''DMLC_ROLE'' \<mapsto> ''scheduler''), (arg_scheduler_ip args, arg_scheduler_ssh_port args), ''scheduler'')
         # map2 (worker_process env) [0..<length wh] wh @ map2 (server_process (worker_env env (length wh - 1))) [0..<length sh] sh)"

lemma common_envs_job: "dict_get (common_envs args nw ns m) = job_envs args nw ns m"
  by (simp add: fun_eq_iff common_envs_def job_envs_def)

lemma preprocess_loop_ok: "dict_ok m \<Longrightarrow> preprocess_loop items kv m = Inr m' \<Longrightarrow> dict_ok m'"
  by (induction items kv m rule: preprocess_loop.induct) (auto simp: Let_def split: option.splits if_splits prod.splits)

definition login_name :: "dist_args \<Rightarrow> string" where
  "login_name args = (case arg_username args of None \<Rightarrow> '''' | Some u \<Rightarrow> u)"

text \<open>
  What a job starts: one scheduler, then the workers in host order, numbered from 0, then the
  servers; all with the same job variables, which override the user's. The servers, and they only,
  also get the number of the last worker, left over from the worker loop.
\<close>

theorem submit_processes:
  assumes "get_hosts_from_file read (arg_worker_hostfile args) = Inr wh"
    and "get_hosts_from_file read (arg_server_hostfile args) = Inr sh"
    and "wh \<noteq> []" "sh \<noteq> []" "preprocess_envs (arg_env args) = Inr m"
  shows "\<exists>progs. submit read sys args = Inr progs \<and> list_all2 (started sys args (login_name args)) progs (job_processes args wh sh m)"
proof -
  let ?u = "login_name args" and ?env = "job_envs args (length wh) (length sh) m"
  let ?m = "dict_set (common_envs args (length wh) (length sh) m) ''DMLC_ROLE'' ''scheduler''"
  obtain ws m' where ws: "start_worker_hosts sys args ?u 0 wh ?m = (ws, m')" by fastforce
  have "dict_ok m" using assms(5) preprocess_loop_ok [of "[]"] by (simp add: preprocess_envs_def)
  then have ok: "dict_ok ?m" by (simp add: common_envs_def)
  have get: "dict_get ?m = ?env (''DMLC_ROLE'' \<mapsto> ''scheduler'')" by (simp add: dict_get_set_fun common_envs_job del: dict_get_set)
  let ?sched = "ssh_process sys args ?u ?m (arg_scheduler_ip args, arg_scheduler_ssh_port args) ''scheduler''"
  have sub: "submit read sys args = Inr (?sched # ws @ start_server_hosts sys args ?u 0 sh m')"
    using assms ws by (simp add: submit_def Let_def Suc_le_eq login_name_def)
  have w: "list_all2 (started sys args ?u) ws (map2 (worker_process ?env) [0..<length wh] wh)" "dict_ok m'"
      "dict_get m' = worker_env ?env (length wh - 1)"
    using start_worker_hosts_started [OF ok, of sys args ?u 0 wh] assms(3)
    by (simp_all only: ws get worker_env_again worker_process_again fst_conv snd_conv add_0 simp_thms not_False_eq_True)
  have "started sys args ?u ?sched (?env (''DMLC_ROLE'' \<mapsto> ''scheduler''), (arg_scheduler_ip args, arg_scheduler_ssh_port args), ''scheduler'')"
    using ok get by (auto simp: started_def)
  then have "list_all2 (started sys args ?u) (?sched # ws @ start_server_hosts sys args ?u 0 sh m') (job_processes args wh sh m)"
    using start_server_hosts_started [OF w(2), of sys args ?u 0 sh] w(1,3) by (simp add: job_processes_def Let_def list_all2_appendI)
  with sub show ?thesis by blast
qed

lemma dist_main_ok:
  "dist_main read sys args = Inr progs \<Longrightarrow> submit read sys args = Inr progs"
  by (auto simp: dist_main_def res_simps)

section \<open>From a command to a process\<close>

text \<open>Words that the shell and ssh take as they are.\<close>

definition plain_word :: "string \<Rightarrow> bool" where
  "plain_word s = (s \<noteq> [] \<and> plain s \<and> hd s \<noteq> CHR ''-'')"

definition plain_env :: "envs_map \<Rightarrow> bool" where
  "plain_env m = list_all (\<lambda>(k, v). is_name k \<and> plain v) m"

definition sys_exports :: "envs_map \<Rightarrow> envs_map" where
  "sys_exports sys = concat (map (\<lambda>k. case dict_get sys k of None \<Rightarrow> [] | Some v \<Rightarrow> [(k, v)]) [''OMP_NUM_THREADS'', ''KMP_AFFINITY''])"

lemma get_env_exports: "get_env sys m = py_join '' '' (map (\<lambda>(k, v). export k v) (sys_exports sys @ m))"
  by (simp add: get_env_def sys_exports_def split: option.splits)

lemma exports_run:
  "plain_env kvs \<Longrightarrow> sh_exports e (py_join '' '' (map (\<lambda>(k, v). export k v) kvs) @ s) = sh_exports (dict_update_all e kvs) s"
proof (induction kvs arbitrary: e)
  case (Cons kv kvs)
  obtain k v where kv: "kv = (k, v)" by fastforce
  then have "is_name k" "plain v" "plain_env kvs" using Cons.prems by (simp_all add: plain_env_def)
  note x = sh_exports_export [OF this(1,2), of e] and IH = Cons.IH [OF this(3)]
  show ?case
  proof (cases kvs)
    case Nil
    then show ?thesis using x [of s] by (simp add: kv export_def)
  next
    case C: (Cons kv' kvs')
    have "py_join '' '' (map (\<lambda>(k, v). export k v) (kv # kvs)) @ s =
        ''export '' @ k @ ''='' @ v @ '';'' @ CHR '' '' # py_join '' '' (map (\<lambda>(k, v). export k v) kvs) @ s"
      by (simp add: kv C export_def)
    then show ?thesis using x [of "CHR '' '' # py_join '' '' (map (\<lambda>(k, v). export k v) kvs) @ s"] IH by (simp add: kv sh_exports_space)
  qed
qed simp

lemma export_no_quote: "is_name k \<Longrightarrow> plain v \<Longrightarrow> CHR 0x27 \<notin> set (export k v)"
  using name_notin [of k] plain_notin [of v "CHR 0x27"] by (simp add: export_def)

lemma get_env_no_quote:
  assumes "plain_env (sys_exports sys @ m)"
  shows "CHR 0x27 \<notin> set (get_env sys m)"
proof -
  have "CHR 0x27 \<notin> set x" if "x \<in> set (map (\<lambda>(k, v). export k v) (sys_exports sys @ m))" for x
    using assms that export_no_quote by (force simp: plain_env_def list_all_iff)
  then have "CHR 0x27 \<notin> set '' '' \<union> \<Union> (set ` set (map (\<lambda>(k, v). export k v) (sys_exports sys @ m)))" by simp blast
  then show ?thesis using set_py_join [of "'' ''" "map (\<lambda>(k, v). export k v) (sys_exports sys @ m)"] unfolding get_env_exports by blast
qed

lemma get_env_start: "m \<noteq> [] \<Longrightarrow> \<exists>s. get_env sys m @ t = ''export '' @ s"
proof -
  assume "m \<noteq> []"
  then obtain kv kvs where "sys_exports sys @ m = kv # kvs" by (cases "sys_exports sys @ m") auto
  then show ?thesis by (cases kv; cases kvs) (auto simp: get_env_exports export_def)
qed

text \<open>The words of the command: with an empty user name, the word after the option is missing.\<close>

lemma start_ssh_words:
  assumes "plain u" "plain_word node" "plain_word port" "CHR 0x27 \<notin> set prog"
  shows "sh_words (start_ssh prog node port (Some u) fname) =
     Some ([''ssh'', ''-o'', ''StrictHostKeyChecking=no'', ''-l''] @ (if u = [] then [] else [u]) @ [node, ''-p'', port, prog])"
proof -
  have lit: "plain ''ssh''" "plain ''-o''" "plain ''StrictHostKeyChecking=no''" "plain ''-l''" "plain ''-p''"
    by (simp_all add: plain_char_def is_alpha_def)
  let ?rest = "'' '' @ quote @ prog @ quote @ '' > '' @ ''sshlog'' @ ''/'' @ fname @ ''.stdout'' @ '' 2>'' @ ''sshlog'' @ ''/'' @ fname @ ''.stderr&''"
  have cmd: "start_ssh prog node port (Some u) fname = ''ssh'' @ CHR '' '' # ''-o'' @ CHR '' '' # ''StrictHostKeyChecking=no'' @ CHR '' '' # CHR '' ''
      # ''-l'' @ CHR '' '' # u @ CHR '' '' # node @ CHR '' '' # ''-p'' @ CHR '' '' # port @ ?rest"
    by (simp add: start_ssh_def Let_def)
  have q: "sh_lex False None (CHR 0x27 # prog @ CHR 0x27 # CHR '' '' # CHR ''>'' # x) = Some [prog]" for x
    using sh_lex_quoted [OF assms(4), of "CHR ''>'' # x"] by (simp add: word_of_def)
  have r: "sh_lex False None (port @ ?rest) = Some [port, prog]"
    using assms(3) sh_lex_word [of port] q by (simp add: plain_word_def quote_def)
  have n: "sh_lex False None (node @ CHR '' '' # ''-p'' @ CHR '' '' # port @ ?rest) = Some [node, ''-p'', port, prog]"
    using assms(2) sh_lex_word [of node] sh_lex_word [OF lit(5)] r by (simp add: plain_word_def del: sh_lex.simps append.simps)
  have u: "sh_lex False None (u @ CHR '' '' # x) = map_option ((@) (if u = [] then [] else [u])) (sh_lex False None x)" for x
    using assms(1) sh_lex_word [of u x] sh_lex_space [of x] by (cases "u = []"; cases "sh_lex False None x") (simp_all del: sh_lex.simps)
  show ?thesis
    unfolding sh_words_def cmd sh_lex_word [OF lit(1)] 
    using n u sh_lex_word [OF lit(1)] sh_lex_word [OF lit(2)] sh_lex_word [OF lit(3)] sh_lex_word [OF lit(4)] sh_lex_space
    by (simp del: sh_lex.simps append.simps)
qed

text \<open>With a user name, ssh runs the program on the host, under that name.\<close>

lemma start_ssh_run:
  assumes "plain_word u" "plain_word node" "plain_word port" "CHR 0x27 \<notin> set prog" "\<not> py_startswith prog ''-''"
  shows "ssh_run (start_ssh prog node port (Some u) fname) = Some \<lparr>st_login = Some u, st_host = node, st_port = Some port, st_command = prog\<rparr>"
proof -
  have n: "node \<notin> {''-o'', ''-l'', ''-p''}" "\<not> py_startswith node ''-''" using assms(2) by (cases node; auto simp: plain_word_def py_startswith_def)+
  have p: "prog \<notin> {''-o'', ''-l'', ''-p''}" using assms(5) by (auto simp: py_startswith_def)
  show ?thesis using start_ssh_words [of u node port prog fname] assms n p by (simp add: ssh_run_def plain_word_def)
qed

text \<open>
  Without the option for the user name the name is empty, but the command still has the option \<^verbatim>\<open>-l\<close>: ssh takes the host for
  the login name and the program for the host, and runs nothing on the host.
\<close>

theorem no_username_no_process:
  assumes "arg_username args = None" "plain_word (fst h)" "plain_word (snd h)"
    and "plain_env (sys_exports sys @ m)" "m \<noteq> []" "CHR 0x27 \<notin> set (py_join '' '' (arg_command args))"
  shows "ssh_run (ssh_process sys args (login_name args) m h fname) =
     Some \<lparr>st_login = Some (fst h), st_host = get_env sys m @ py_join '' '' (arg_command args), st_port = Some (snd h), st_command = []\<rparr>"
proof -
  let ?prog = "get_env sys m @ py_join '' '' (arg_command args)"
  have q: "CHR 0x27 \<notin> set ?prog" using get_env_no_quote [OF assms(4)] assms(6) by simp
  have "take 1 ?prog = ''e''" using get_env_start [OF assms(5), of sys "py_join '' '' (arg_command args)"] by (auto simp del: take_append)
  then have p: "\<not> py_startswith ?prog ''-''" "?prog \<notin> set [''-o'', ''-l'', ''-p'']" by (auto simp: py_startswith_def simp del: take_append)
  have "ssh_process sys args (login_name args) m h fname = start_ssh ?prog (fst h) (snd h) (Some []) fname"
    using assms(1) by (simp add: ssh_process_def login_name_def)
  then show ?thesis using start_ssh_words [OF plain_simps(1) assms(2,3) q, of fname] p by (simp add: ssh_run_def)
qed

section \<open>A job of plain words\<close>

text \<open>
  The shell takes the words of the job as they are: user name, hosts, ports, variables and values hold neither spaces nor quotes nor
  other special characters, and the command of the user has no single quote and does not start with an export of its own.
\<close>

definition plain_job :: "envs_map \<Rightarrow> dist_args \<Rightarrow> string \<Rightarrow> host list \<Rightarrow> envs_map \<Rightarrow> bool" where
  "plain_job sys args u hosts m =
     (plain_word u \<and> list_all (\<lambda>(node, port). plain_word node \<and> plain_word port) ((arg_scheduler_ip args, arg_scheduler_ssh_port args) # hosts)
      \<and> plain (arg_interface args) \<and> plain_env (sys_exports sys @ m)
      \<and> CHR 0x27 \<notin> set (py_join '' '' (arg_command args)) \<and> no_export (py_join '' '' (arg_command args)))"

definition plain_map :: "(string \<rightharpoonup> string) \<Rightarrow> bool" where
  "plain_map env = (\<forall>k v. env k = Some v \<longrightarrow> is_name k \<and> plain v)"

lemma plain_map_upd: "plain_map env \<Longrightarrow> is_name k \<Longrightarrow> plain v \<Longrightarrow> plain_map (env (k \<mapsto> v))"
  by (simp add: plain_map_def)

lemma plain_env_map: "plain_env m \<Longrightarrow> plain_map (dict_get m)"
  by (auto simp: plain_env_def plain_map_def list_all_iff dest: map_of_SomeD)

lemma plain_map_env: "dict_ok m \<Longrightarrow> plain_map (dict_get m) \<Longrightarrow> plain_env m"
  by (auto simp: plain_env_def plain_map_def list_all_iff dict_ok_def dict_keys_def)

lemma plain_py_str: "plain (py_str i)"
proof -
  have "plain (nat_str n)" for n using nat_str_digits [of n] by (simp add: plain_def plain_char_def list_all_iff)
  then show ?thesis by (simp add: py_str_def plain_char_def)
qed

lemma job_names: "list_all is_name [''DMLC_NUM_WORKER'', ''DMLC_NUM_SERVER'', ''DMLC_INTERFACE'', ''DMLC_PS_ROOT_URI'', ''DMLC_PS_ROOT_PORT'', ''DMLC_ROLE'', ''DMLC_WORKER_ID'']"
  by code_simp

lemma plain_roles: "plain ''scheduler''" "plain ''worker''" "plain ''server''"
  by code_simp+

lemma job_processes_plain:
  assumes "plain_job sys args u (wh @ sh) m" "(env, h, f) \<in> set (job_processes args wh sh m)"
  shows "plain_map env" "h \<in> set ((arg_scheduler_ip args, arg_scheduler_ssh_port args) # wh @ sh)"
proof -
  have "plain_map (job_envs args (length wh) (length sh) m)"
    using assms(1) job_names plain_env_map [of m] unfolding job_envs_def
    by (intro plain_map_upd) (auto simp: plain_job_def plain_word_def plain_env_def plain_py_str)
  then show "plain_map env"
    using assms(2) job_names plain_roles
    by (auto simp: job_processes_def Let_def worker_process_def server_process_def worker_env_def intro!: plain_map_upd plain_py_str)
  show "h \<in> set ((arg_scheduler_ip args, arg_scheduler_ssh_port args) # wh @ sh)"
    using assms(2) by (auto simp: job_processes_def Let_def worker_process_def server_process_def dest: set_zip_rightD)
qed

text \<open>The host runs the command of the user with the variables of the process in its environment.\<close>

definition runs_on :: "envs_map \<Rightarrow> dist_args \<Rightarrow> string \<Rightarrow> string \<Rightarrow> host \<Rightarrow> (string \<rightharpoonup> string) \<Rightarrow> bool" where
  "runs_on base args u prog h env =
     (\<exists>t e. ssh_run prog = Some t \<and> st_login t = Some u \<and> st_host t = fst h \<and> st_port t = Some (snd h)
        \<and> sh_exports base (st_command t) = Some (e, py_join '' '' (arg_command args)) \<and> env \<subseteq>\<^sub>m dict_get e)"

lemma exported_get: "dict_ok d \<Longrightarrow> dict_get d \<subseteq>\<^sub>m dict_get (dict_update_all base d)"
proof -
  assume "dict_ok d"
  then have "distinct (map fst d)" by (simp add: dict_ok_def dict_keys_def)
  then have "map_of (rev d) k = Some v" if "map_of d k = Some v" for k v
    using map_of_is_SomeI [of "rev d" k v] map_of_SomeD [OF that] by (simp add: rev_map [symmetric])
  then show ?thesis by (auto simp: map_le_def dict_get_update_all dom_def)
qed

lemma dict_update_all_append: "dict_update_all d (xs @ ys) = dict_update_all (dict_update_all d xs) ys"
  by (induction d xs rule: dict_update_all.induct) simp_all

lemma started_runs:
  assumes "started sys args u prog (env, h, f)" "plain_word u" "plain_word (fst h)" "plain_word (snd h)" "plain_map env" "env k \<noteq> None"
    and "plain_env (sys_exports sys)" "CHR 0x27 \<notin> set (py_join '' '' (arg_command args))" "no_export (py_join '' '' (arg_command args))"
  shows "runs_on base args u prog h env"
proof -
  let ?cmd = "py_join '' '' (arg_command args)"
  obtain m where m: "prog = ssh_process sys args u m h f" "dict_ok m" "dict_get m = env" using assms(1) by (auto simp: started_def)
  let ?prog = "get_env sys m @ ?cmd" and ?e = "dict_update_all (dict_update_all base (sys_exports sys)) m"
  have p: "plain_env (sys_exports sys @ m)" using plain_map_env [of m] m assms(5,7) by (simp add: plain_env_def)
  have ne: "m \<noteq> []" using m(3) assms(6) by auto
  have "take 1 ?prog = ''e''" using get_env_start [OF ne, of sys ?cmd] by (auto simp del: take_append)
  then have "ssh_run prog = Some \<lparr>st_login = Some u, st_host = fst h, st_port = Some (snd h), st_command = ?prog\<rparr>"
    using get_env_no_quote [OF p] assms(8) unfolding m(1) ssh_process_def
    by (intro start_ssh_run assms(2,3,4)) (simp, simp add: py_startswith_def del: take_append)
  moreover have "sh_exports base ?prog = Some (?e, ?cmd)"
    using exports_run [OF p, of base ?cmd] sh_exports_command [OF assms(9), of ?e] by (simp add: get_env_exports dict_update_all_append)
  ultimately show ?thesis using exported_get [OF m(2), of "dict_update_all base (sys_exports sys)"] m(3) by (auto simp: runs_on_def)
qed

lemma job_processes_role: "(env, h, f) \<in> set (job_processes args wh sh m) \<Longrightarrow> env ''DMLC_ROLE'' \<noteq> None"
  by (auto simp: job_processes_def Let_def worker_process_def server_process_def worker_env_def)

text \<open>
  Every process of a job of plain words reaches its host: ssh logs in under the user's name, and the remote shell runs the user's command
  with the variables of the process in its environment.
\<close>

theorem submit_runs:
  assumes "submit read sys args = Inr progs"
    and "get_hosts_from_file read (arg_worker_hostfile args) = Inr wh" "get_hosts_from_file read (arg_server_hostfile args) = Inr sh"
    and "preprocess_envs (arg_env args) = Inr m" "arg_username args = Some u" "plain_job sys args u (wh @ sh) m"
  shows "list_all2 (\<lambda>prog (env, h, f). runs_on base args u prog h env) progs (job_processes args wh sh m)"
proof -
  have ne: "wh \<noteq> []" "sh \<noteq> []" using assms(1-3) by (auto simp: submit_def res_simps)
  have st: "list_all2 (started sys args u) progs (job_processes args wh sh m)"
    using submit_processes [OF assms(2,3) ne assms(4), of sys] assms(1,5) by (auto simp: login_name_def)
  show ?thesis
  proof (rule list_all2I)
    show len: "length progs = length (job_processes args wh sh m)" by (rule list_all2_lengthD [OF st])
    show "\<forall>x \<in> set (zip progs (job_processes args wh sh m)). (\<lambda>(prog, env, h, f). runs_on base args u prog h env) x"
    proof (clarify)
      fix prog env h1 h2 f assume x: "(prog, env, (h1, h2), f) \<in> set (zip progs (job_processes args wh sh m))"
      then have p: "started sys args u prog (env, (h1, h2), f)" using st by (auto simp: list_all2_iff)
      note j = set_zip_rightD [OF x]
      show "runs_on base args u prog (h1, h2) env"
        using assms(6) job_processes_plain [OF assms(6) j] job_processes_role [OF j]
        by (intro started_runs [OF p, where k = "''DMLC_ROLE''"]) (auto simp: plain_job_def plain_env_def list_all_iff)
    qed
  qed
qed

end
