(* ===== verification/Tensor.thy ===== *)
theory Tensor
  imports Complex_Main Py_Prelude
begin

text \<open>
  The tensor operations the sources use, over flat data. A tensor is its element type, its size
  and its elements in row-major order. The elements are the finite floating point numbers or
  integers it holds, as rationals; infinities and NaN are not represented. How a real result is
  stored in an element type is a parameter of every operation that stores one,
  \<open>c :: dtype \<Rightarrow> rat \<Rightarrow> rat\<close> (rounding for the floating point types, truncation and wrap-around for the
  integer types): \<open>c dt x = x\<close> says that \<open>x\<close> is representable, and \<open>exact\<close> arithmetic is the
  parameter that represents every number.

  Where the sources combine vectors of different lengths, the vector of length one is broadcast and
  every other mismatch raises, as in torch.
\<close>

named_theorems vec_simps \<open>lengths and entries of vector operations\<close>

datatype dtype = Float16 | Float32 | Float64 | Uint8 | Int32 | Int64

type_synonym storage = "dtype \<Rightarrow> rat \<Rightarrow> rat"

definition exact :: storage where
  "exact dt x = x"

fun is_floating_point :: "dtype \<Rightarrow> bool" where
  "is_floating_point Float16 = True"
| "is_floating_point Float32 = True"
| "is_floating_point Float64 = True"
| "is_floating_point _ = False"

fun dtype_rank :: "dtype \<Rightarrow> nat" where
  "dtype_rank Uint8 = 0"
| "dtype_rank Int32 = 1"
| "dtype_rank Int64 = 2"
| "dtype_rank Float16 = 3"
| "dtype_rank Float32 = 4"
| "dtype_rank Float64 = 5"

definition promote :: "dtype \<Rightarrow> dtype \<Rightarrow> dtype" where
  "promote a b = (if dtype_rank a < dtype_rank b then b else a)"

record tensor =
  t_dtype :: dtype
  t_size :: "nat list"
  t_data :: "rat list"

definition numel :: "nat list \<Rightarrow> nat" where
  "numel sz = fold (\<lambda>w d. d * w) sz 1"

definition tensor_ok :: "tensor \<Rightarrow> bool" where
  "tensor_ok t = (length (t_data t) = numel (t_size t))"

definition view_flat :: "tensor \<Rightarrow> tensor" where
  "view_flat t = t\<lparr>t_size := [length (t_data t)]\<rparr>"

definition view_as :: "nat list \<Rightarrow> tensor \<Rightarrow> tensor res" where
  "view_as sz t = (if numel sz = length (t_data t) then Inr (t\<lparr>t_size := sz\<rparr>) else Inl RuntimeError)"

definition to_dtype :: "storage \<Rightarrow> dtype \<Rightarrow> tensor \<Rightarrow> tensor" where
  "to_dtype c dt t = (if dt = t_dtype t then t else t\<lparr>t_dtype := dt, t_data := map (c dt) (t_data t)\<rparr>)"

definition zeros :: "nat \<Rightarrow> tensor" where
  "zeros d = \<lparr>t_dtype = Float32, t_size = [d], t_data = replicate d 0\<rparr>"

section \<open>Vectors\<close>

definition trunc :: "rat \<Rightarrow> int" where
  "trunc q = (if 0 \<le> q then \<lfloor>q\<rfloor> else \<lceil>q\<rceil>)"

definition vadd :: "rat list \<Rightarrow> rat list \<Rightarrow> rat list" where
  "vadd xs ys = map2 (+) xs ys"

definition vsub :: "rat list \<Rightarrow> rat list \<Rightarrow> rat list" where
  "vsub xs ys = map2 (-) xs ys"

definition vscale :: "rat \<Rightarrow> rat list \<Rightarrow> rat list" where
  "vscale a xs = map ((*) a) xs"

definition vzero :: "nat \<Rightarrow> rat list" where
  "vzero n = replicate n 0"

definition vsum :: "nat \<Rightarrow> rat list list \<Rightarrow> rat list" where
  "vsum n xss = foldr vadd xss (vzero n)"

definition bcast2 :: "('a \<Rightarrow> 'a \<Rightarrow> 'b) \<Rightarrow> 'a list \<Rightarrow> 'a list \<Rightarrow> 'b list res" where
  "bcast2 f xs ys =
     (if length xs = length ys then Inr (map2 f xs ys)
      else if length ys = 1 then Inr (map (\<lambda>x. f x (hd ys)) xs)
      else if length xs = 1 then Inr (map (f (hd xs)) ys)
      else Inl RuntimeError)"

definition gather :: "'a list \<Rightarrow> nat list \<Rightarrow> 'a list res" where
  "gather xs idx =
     (if list_all (\<lambda>i. i < length xs) idx then Inr (map ((!) xs) idx) else Inl IndexError)"

fun scatter :: "'a list \<Rightarrow> (nat \<times> 'a) list \<Rightarrow> 'a list" where
  "scatter xs [] = xs"
| "scatter xs ((i, v) # ivs) = scatter (xs[i := v]) ivs"

definition slice_assign :: "'a list \<Rightarrow> int \<Rightarrow> int \<Rightarrow> 'a list \<Rightarrow> 'a list res" where
  "slice_assign xs i j ys =
     (let a = clamp_index (length xs) i; b = clamp_index (length xs) j; n = b - a
      in if length ys = n then Inr (take a xs @ ys @ drop (a + n) xs)
         else if length ys = 1 then Inr (take a xs @ replicate n (hd ys) @ drop (a + n) xs)
         else Inl RuntimeError)"

definition index_copy :: "'a list \<Rightarrow> int list \<Rightarrow> 'a list \<Rightarrow> 'a list res" where
  "index_copy xs idx src =
     (if length idx \<noteq> length src then Inl IndexError
      else if \<not> list_all (\<lambda>i. 0 \<le> i \<and> i < int (length xs)) idx then Inl IndexError
      else Inr (scatter xs (zip (map nat idx) src)))"

section \<open>Sorting\<close>

text \<open>
  The second result of \<open>sort(descending=True)\<close>: the positions of the elements in descending order.
  The order among equal elements is not documented, so the operation is a parameter with this law.
\<close>

definition argsort_ok :: "('a::linorder list \<Rightarrow> nat list) \<Rightarrow> 'a list \<Rightarrow> bool" where
  "argsort_ok argsort xs \<longleftrightarrow>
     distinct (argsort xs) \<and> set (argsort xs) = {..<length xs}
     \<and> sorted_wrt (\<ge>) (map ((!) xs) (argsort xs))"

definition stable_argsort :: "'a::linorder list \<Rightarrow> nat list" where
  "stable_argsort xs = rev (sort_key ((!) xs) (rev [0..<length xs]))"

lemma stable_argsort_ok: "argsort_ok stable_argsort xs"
proof -
  have "sorted (map ((!) xs) (sort_key ((!) xs) (rev [0..<length xs])))" by simp
  then have "sorted_wrt (\<ge>) (rev (map ((!) xs) (sort_key ((!) xs) (rev [0..<length xs]))))"
    by (simp add: sorted_wrt_rev)
  then show ?thesis
    by (auto simp: argsort_ok_def stable_argsort_def rev_map [symmetric] simp del: sorted_sort_key)
qed

lemma argsort_okD:
  assumes "argsort_ok argsort xs"
  shows "distinct (argsort xs)" "set (argsort xs) = {..<length xs}" "length (argsort xs) = length xs"
    "sorted_wrt (\<ge>) (map ((!) xs) (argsort xs))"
  using assms distinct_card [of "argsort xs"] by (auto simp: argsort_ok_def)

text \<open>The first \<open>k\<close> positions hold the \<open>k\<close> largest elements.\<close>

lemma argsort_top:
  assumes "argsort_ok argsort xs" "i \<in> set (take k (argsort xs))" "j \<in> set (drop k (argsort xs))"
  shows "xs ! j \<le> xs ! i"
proof -
  have "sorted_wrt (\<ge>) (map ((!) xs) (take k (argsort xs)) @ map ((!) xs) (drop k (argsort xs)))"
    using argsort_okD(4) [OF assms(1)] by (metis append_take_drop_id map_append)
  with assms(2,3) show ?thesis by (auto simp: sorted_wrt_append)
qed

section \<open>Lemmas\<close>

lemma exact_eq [simp]: "exact dt x = x"
  by (simp add: exact_def)

lemma map_exact [simp]: "map (exact dt) xs = xs"
  by (simp add: exact_def map_idI)

lemma numel_mult: "fold (\<lambda>w d. d * w) sz k = (k::nat) * prod_list sz"
  by (induction sz arbitrary: k) auto

lemma numel_prod: "numel sz = prod_list sz"
  by (simp add: numel_def numel_mult)

lemma view_flat_sel [simp]:
  "t_data (view_flat t) = t_data t" "t_dtype (view_flat t) = t_dtype t"
  "t_size (view_flat t) = [length (t_data t)]"
  by (simp_all add: view_flat_def)

lemma trunc_of_int [simp]: "trunc (of_int i) = i"
  by (simp add: trunc_def)

lemma trunc_of_nat [simp]: "trunc (of_nat n) = int n"
  by (simp add: trunc_def)

lemma trunc_nonneg: "0 \<le> q \<Longrightarrow> 0 \<le> trunc q"
  by (simp add: trunc_def)

lemma trunc_less_one: "0 \<le> q \<Longrightarrow> q < 1 \<Longrightarrow> trunc q = 0"
  by (simp add: trunc_def floor_eq_iff)

lemma length_vec [simp, vec_simps]:
  "length (vadd xs ys) = min (length xs) (length ys)"
  "length (vsub xs ys) = min (length xs) (length ys)"
  "length (vscale a xs) = length xs" "length (vzero n) = n"
  by (simp_all add: vadd_def vsub_def vscale_def vzero_def)

lemma nth_vec [simp, vec_simps]:
  "i < length xs \<Longrightarrow> i < length ys \<Longrightarrow> vadd xs ys ! i = xs ! i + ys ! i"
  "i < length xs \<Longrightarrow> i < length ys \<Longrightarrow> vsub xs ys ! i = xs ! i - ys ! i"
  "i < length xs \<Longrightarrow> vscale a xs ! i = a * xs ! i"
  "i < n \<Longrightarrow> vzero n ! i = 0"
  by (simp_all add: vadd_def vsub_def vscale_def vzero_def)

lemma vsum_Nil [simp]: "vsum n [] = vzero n"
  by (simp add: vsum_def)

lemma vsum_Cons [simp]: "vsum n (x # xs) = vadd x (vsum n xs)"
  by (simp add: vsum_def)

lemma length_vsum [simp]: "\<forall>x \<in> set xss. length x = n \<Longrightarrow> length (vsum n xss) = n"
  by (induction xss) auto

lemma nth_vsum:
  "\<forall>x \<in> set xss. length x = n \<Longrightarrow> i < n \<Longrightarrow> vsum n xss ! i = sum_list (map (\<lambda>x. x ! i) xss)"
  by (induction xss) auto

lemma vadd_comm: "vadd xs ys = vadd ys xs"
  by (intro nth_equalityI) auto

lemma vadd_assoc: "vadd (vadd xs ys) zs = vadd xs (vadd ys zs)"
  by (intro nth_equalityI) auto

lemma vadd_zero [simp]: "length xs = n \<Longrightarrow> vadd xs (vzero n) = xs" "length xs = n \<Longrightarrow> vadd (vzero n) xs = xs"
  by (intro nth_equalityI; simp)+

lemma vscale_add: "vscale a (vadd xs ys) = vadd (vscale a xs) (vscale a ys)"
  by (intro nth_equalityI) (auto simp: algebra_simps)

lemma bcast2_same [simp]: "length xs = length ys \<Longrightarrow> bcast2 f xs ys = Inr (map2 f xs ys)"
  by (simp add: bcast2_def)

lemma gather_ok [simp]: "\<forall>i \<in> set idx. i < length xs \<Longrightarrow> gather xs idx = Inr (map ((!) xs) idx)"
  by (simp add: gather_def list_all_iff)

lemma length_scatter [simp]: "length (scatter xs ivs) = length xs"
  by (induction xs ivs rule: scatter.induct) auto

lemma nth_scatter_notin: "j \<notin> fst ` set ivs \<Longrightarrow> scatter xs ivs ! j = xs ! j"
  by (induction xs ivs rule: scatter.induct) auto

lemma nth_scatter_in:
  "distinct (map fst ivs) \<Longrightarrow> (j, v) \<in> set ivs \<Longrightarrow> j < length xs \<Longrightarrow> scatter xs ivs ! j = v"
proof (induction xs ivs rule: scatter.induct)
  case (2 xs i w ivs)
  show ?case
  proof (cases "(j, v) = (i, w)")
    case True
    with 2 have "j \<notin> fst ` set ivs" by auto
    with True 2 show ?thesis by (simp add: nth_scatter_notin)
  qed (use 2 in auto)
qed simp

lemma slice_assign_exact:
  assumes "a \<le> b" "b \<le> length xs" "length ys = b - a"
  shows "slice_assign xs (int a) (int b) ys = Inr (take a xs @ ys @ drop b xs)"
  using assms by (simp add: slice_assign_def Let_def)

lemma slice_assign_mismatch:
  assumes "length ys \<noteq> min b (length xs) - min a (length xs)" "length ys \<noteq> 1"
  shows "slice_assign xs (int a) (int b) ys = Inl RuntimeError"
  using assms by (simp add: slice_assign_def Let_def)

end
