(* ===== verification/Compression.thy ===== *)
theory Compression
  imports Tensor
begin

text \<open>
  Gradient compression, \<^verbatim>\<open>byteps/torch/compression.py\<close>: the pass-through compressor, the TopK
  compressor with error feedback, the dummy compressor and the half-precision compressor. The INCA
  compressors are not in the repository; the class \<open>Compression\<close> names them nevertheless.

  A compressor with a state returns the new state also when it raises. The timing entries of a
  context are left out. The storage parameter \<open>c\<close> is the one of \<open>Tensor\<close>; \<open>argsort\<close> stands for the
  positions returned by torch's descending sort.
\<close>

section \<open>Pass-through\<close>

definition none_compress :: "tensor \<Rightarrow> tensor \<times> unit option" where
  "none_compress tensor = (tensor, None)"

definition none_decompress :: "tensor \<Rightarrow> unit option \<Rightarrow> tensor" where
  "none_decompress tensor ctx = tensor"

section \<open>TopK\<close>

record topk_params =
  par_kp :: "rat option"
  par_ef :: "bool option"
  par_d :: "int option"
  par_use_bps_server :: "bool option"

record topk =
  tk_kp :: rat
  tk_ef :: bool
  tk_d :: int
  tk_use_bps_server :: bool
  tk_errors :: "(string, tensor) dict"

record topk_ctx =
  ctx_size :: "nat list"
  ctx_name :: string

definition topk_init :: "topk_params \<Rightarrow> topk res" where
  "topk_init params =
     bind_res (of_option KeyError (par_kp params)) (\<lambda>kp.
     bind_res (of_option KeyError (par_d params)) (\<lambda>d.
       Inr \<lparr>tk_kp = kp, tk_ef = (case par_ef params of None \<Rightarrow> True | Some b \<Rightarrow> b), tk_d = d,
            tk_use_bps_server = (case par_use_bps_server params of None \<Rightarrow> True | Some b \<Rightarrow> b),
            tk_errors = []\<rparr>))"

definition compressed_num :: "storage \<Rightarrow> rat \<Rightarrow> nat \<Rightarrow> int" where
  "compressed_num c kp d = trunc (c Float64 (kp * of_nat d))"

text \<open>The sum of the gradient and the error kept under the same name; a missing error counts as 0.\<close>

definition accumulate :: "storage \<Rightarrow> tensor \<Rightarrow> tensor option \<Rightarrow> tensor res" where
  "accumulate c t old =
     (case old of
        None \<Rightarrow> Inr (t\<lparr>t_data := map (c (t_dtype t)) (t_data t)\<rparr>)
      | Some e \<Rightarrow>
          bind_res (bcast2 (+) (t_data t) (t_data e)) (\<lambda>s.
            let dt = promote (t_dtype t) (t_dtype e)
            in Inr \<lparr>t_dtype = dt, t_size = [length s], t_data = map (c dt) s\<rparr>))"

text \<open>The packed form: the first \<open>k\<close> entries are positions, the next \<open>k\<close> the values found there.\<close>

definition topk_pack ::
    "storage \<Rightarrow> (rat list \<Rightarrow> nat list) \<Rightarrow> nat \<Rightarrow> int \<Rightarrow> rat list \<Rightarrow> (rat list \<times> nat list) res" where
  "topk_pack c argsort d k vs =
     (let idx = py_slice (argsort (map abs vs)) 0 k
      in bind_res (slice_assign (t_data (zeros d)) 0 k (map (\<lambda>i. c Float32 (of_nat i)) idx)) (\<lambda>res1.
         bind_res (gather vs idx) (\<lambda>top.
         bind_res (slice_assign res1 k (2 * k) (map (c Float32) top)) (\<lambda>res2.
           Inr (res2, idx)))))"

definition topk_compress ::
    "storage \<Rightarrow> (rat list \<Rightarrow> nat list) \<Rightarrow> topk \<Rightarrow> tensor \<Rightarrow> string \<Rightarrow> (tensor \<times> topk_ctx) res \<times> topk" where
  "topk_compress c argsort tk tensor0 name =
     (let orig_size = t_size tensor0;
          tensor1 = view_flat tensor0;
          d = length (t_data tensor1);
          k = compressed_num c (tk_kp tk) d;
          ctx = \<lparr>ctx_size = orig_size, ctx_name = name\<rparr>
      in if tk_ef tk
         then (case accumulate c tensor1 (dict_get (tk_errors tk) name) of
                 Inl err \<Rightarrow> (Inl err, tk)
               | Inr e \<Rightarrow>
                   let tk1 = tk\<lparr>tk_errors := dict_set (tk_errors tk) name e\<rparr>
                   in (case topk_pack c argsort d k (t_data e) of
                         Inl err \<Rightarrow> (Inl err, tk1)
                       | Inr (packed, idx) \<Rightarrow>
                           let e' = e\<lparr>t_data := scatter (t_data e) (map (\<lambda>i. (i, 0)) idx)\<rparr>
                           in (Inr ((zeros d)\<lparr>t_data := packed\<rparr>, ctx),
                               tk\<lparr>tk_errors := dict_set (tk_errors tk) name e'\<rparr>)))
         else (case topk_pack c argsort d k (t_data tensor1) of
                 Inl err \<Rightarrow> (Inl err, tk)
               | Inr (packed, idx) \<Rightarrow> (Inr ((zeros d)\<lparr>t_data := packed\<rparr>, ctx), tk)))"

definition topk_decompress :: "storage \<Rightarrow> topk \<Rightarrow> tensor \<Rightarrow> topk_ctx \<Rightarrow> tensor res" where
  "topk_decompress c tk tensor ctx =
     (let d = numel (ctx_size ctx);
          k = compressed_num c (tk_kp tk) d;
          index = map (\<lambda>x. min (trunc x) (int d - 1)) (py_slice (t_data tensor) 0 k)
      in if t_dtype tensor \<noteq> Float32 then Inl RuntimeError
         else bind_res (index_copy (t_data (zeros d)) index (py_slice (t_data tensor) k (2 * k))) (\<lambda>res.
                view_as (ctx_size ctx) ((zeros d)\<lparr>t_data := res\<rparr>)))"

section \<open>Dummy\<close>

datatype modify_idx = Whole | At int

definition neg_at :: "modify_idx \<Rightarrow> rat list \<Rightarrow> rat list res" where
  "neg_at idx xs =
     (case idx of
        Whole \<Rightarrow> Inr (map uminus xs)
      | At i \<Rightarrow> bind_res (py_index xs i) (\<lambda>x.
                  Inr (xs[nat (if i < 0 then int (length xs) + i else i) := - x])))"

definition dummy_rotation :: "rat list \<Rightarrow> rat list" where
  "dummy_rotation xs = xs"

definition dummy_inverse_rotation :: "rat list \<Rightarrow> rat list" where
  "dummy_inverse_rotation xs = xs"

definition dummy_sq_func :: "rat list \<Rightarrow> rat list" where
  "dummy_sq_func xs = xs"

record dummy_state =
  du_idx :: modify_idx
  du_temps :: "(string, tensor) dict"

text \<open>
  The tensor is modified in place before it is copied, so the result holds three parts: the copy and
  its size, the caller's tensor after the call, and the state.
\<close>

definition dummy_compress ::
    "storage \<Rightarrow> dummy_state \<Rightarrow> tensor \<Rightarrow> string \<Rightarrow> ((tensor \<times> nat list) res) \<times> tensor \<times> dummy_state" where
  "dummy_compress c du tensor0 name =
     (case neg_at (du_idx du) (t_data tensor0) of
        Inl err \<Rightarrow> (Inl err, tensor0, du)
      | Inr xs \<Rightarrow>
          let orig = tensor0\<lparr>t_data := xs\<rparr>;
              t = (view_flat orig)\<lparr>t_data := dummy_sq_func (dummy_rotation xs)\<rparr>
          in (case accumulate c t (dict_get (du_temps du) name) of
                Inl err \<Rightarrow> (Inl err, orig, du)
              | Inr s \<Rightarrow>
                  (case bcast2 (-) (t_data s) (dummy_inverse_rotation (t_data t)) of
                     Inl err \<Rightarrow> (Inl err, orig, du\<lparr>du_temps := dict_set (du_temps du) name s\<rparr>)
                   | Inr r \<Rightarrow>
                       (Inr (t, t_size tensor0), orig,
                        du\<lparr>du_temps := dict_set (du_temps du) name (s\<lparr>t_data := map (c (t_dtype s)) r\<rparr>)\<rparr>))))"

definition dummy_decompress :: "dummy_state \<Rightarrow> tensor \<Rightarrow> nat list \<Rightarrow> tensor res" where
  "dummy_decompress du tensor sz =
     bind_res (neg_at (du_idx du) (t_data tensor)) (\<lambda>xs.
       view_as sz (tensor\<lparr>t_data := dummy_inverse_rotation xs\<rparr>))"

section \<open>Half precision\<close>

definition fp16_compress :: "storage \<Rightarrow> tensor \<Rightarrow> tensor \<times> dtype" where
  "fp16_compress c tensor =
     (if is_floating_point (t_dtype tensor) then to_dtype c Float16 tensor else tensor, t_dtype tensor)"

definition fp16_decompress :: "storage \<Rightarrow> tensor \<Rightarrow> dtype \<Rightarrow> tensor" where
  "fp16_decompress c tensor ctx = (if is_floating_point ctx then to_dtype c ctx tensor else tensor)"

section \<open>The class of the compressors\<close>

definition compressor_classes :: "string list" where
  "compressor_classes = [''Compressor'', ''NoneCompressor'', ''TopKCompressor'', ''DummyCompressor'', ''FP16Compressor'']"

definition Compression_body :: "(string \<times> string) list" where
  "Compression_body = [(''none'', ''NoneCompressor''), (''newinca'', ''NewINCACompressor''), (''inca'', ''INCACompressor''),
                       (''fp16'', ''FP16Compressor''), (''dummy'', ''DummyCompressor''), (''topk'', ''TopKCompressor'')]"

definition Compression_class :: "string list \<Rightarrow> (string \<times> string) list res" where
  "Compression_class names =
     map_res (\<lambda>(attr, cls). if cls \<in> set names then Inr (attr, cls) else Inl NameError) Compression_body"

section \<open>TopK: one round\<close>

definition top_idx :: "(rat list \<Rightarrow> nat list) \<Rightarrow> nat \<Rightarrow> rat list \<Rightarrow> nat list" where
  "top_idx argsort k vs = take k (argsort (map abs vs))"

lemma top_idx_props:
  assumes "argsort_ok argsort (map abs vs)"
  shows "distinct (top_idx argsort k vs)" "set (top_idx argsort k vs) \<subseteq> {..<length vs}"
    "length (top_idx argsort k vs) = min k (length vs)"
  using argsort_okD [OF assms] by (auto simp: top_idx_def dest: in_set_takeD)


lemma topk_pack_ok:
  assumes "argsort_ok argsort (map abs vs)" "length vs = d" "2 * k \<le> d"
  shows "topk_pack c argsort d (int k) vs =
    (let idx = top_idx argsort k vs
     in Inr (map (\<lambda>i. c Float32 (of_nat i)) idx @ map (\<lambda>i. c Float32 (vs ! i)) idx @ replicate (d - 2 * k) 0, idx))"
proof -
  let ?idx = "top_idx argsort k vs"
  let ?p = "map (\<lambda>i. c Float32 (of_nat i)) ?idx"
  have len: "length ?idx = k" and idx: "\<forall>i \<in> set ?idx. i < length vs"
    using top_idx_props(2,3) [OF assms(1), of k] assms(2,3) by auto
  have sl: "py_slice (argsort (map abs vs)) 0 (int k) = ?idx"
    using py_slice_nat [of 0 k "argsort (map abs vs)"] argsort_okD(3) [OF assms(1)] assms(2,3)
    by (simp add: top_idx_def)
  have s1: "slice_assign (replicate d 0) 0 (int k) ?p = Inr (?p @ replicate (d - k) 0)"
    using slice_assign_exact [of 0 k "replicate d 0" ?p] len assms(3) by simp
  have s2: "slice_assign (?p @ replicate (d - k) 0) (int k) (2 * int k) (map (c Float32) (map ((!) vs) ?idx))
      = Inr (?p @ map (\<lambda>i. c Float32 (vs ! i)) ?idx @ replicate (d - 2 * k) 0)"
    using slice_assign_exact [of k "2 * k" "?p @ replicate (d - k) 0" "map (c Float32) (map ((!) vs) ?idx)"]
      len assms(3) by (simp add: comp_def)
  show ?thesis
    using sl s1 s2 gather_ok [OF idx] by (simp add: topk_pack_def zeros_def Let_def)
qed

text \<open>Unpacking restores the packed values at their positions, over a vector of zeros.\<close>

lemma topk_decompress_packed:
  assumes "t_dtype p = Float32" "numel sz = d" "compressed_num c (tk_kp tk) d = int k" "2 * k \<le> d"
    and "t_data p = map of_nat idx @ ws @ rest" "length idx = k" "length ws = k" "\<forall>i \<in> set idx. i < d"
  shows "topk_decompress c tk p \<lparr>ctx_size = sz, ctx_name = name\<rparr> =
           Inr \<lparr>t_dtype = Float32, t_size = sz, t_data = scatter (vzero d) (zip idx ws)\<rparr>"
proof -
  have sl: "py_slice (t_data p) 0 (int k) = map of_nat idx" "py_slice (t_data p) (int k) (2 * int k) = ws"
    using py_slice_nat [of 0 k "t_data p"] py_slice_nat [of k "2 * k" "t_data p"] assms(5-7) by auto
  have ix: "map ((\<lambda>x. min (trunc x) (int d - 1)) \<circ> of_nat) idx = map int idx"
    using assms(8) by (auto simp: min_def)
  have "index_copy (vzero d) (map int idx) ws = Inr (scatter (vzero d) (zip idx ws))"
    using assms(6-8) by (auto simp: index_copy_def list_all_iff comp_def)
  then show ?thesis
    using assms(1-3) sl
    by (simp add: ix topk_decompress_def Let_def zeros_def view_as_def vzero_def [symmetric])
qed

lemma nth_scatter_zip:
  assumes "distinct idx" "\<forall>i \<in> set idx. i < length xs" "j < length xs"
  shows "scatter xs (zip idx (map f idx)) ! j = (if j \<in> set idx then f j else xs ! j)"
proof (cases "j \<in> set idx")
  case True
  then have "(j, f j) \<in> set (zip idx (map f idx))"
    by (metis in_set_conv_nth length_map map_snd_zip nth_map nth_zip in_set_zip fst_conv snd_conv)
  moreover have "distinct (map fst (zip idx (map f idx)))" using assms(1) by simp
  ultimately show ?thesis using True assms(3) by (simp add: nth_scatter_in)
next
  case False
  then have "j \<notin> fst ` set (zip idx (map f idx))" by (metis length_map list.set_map map_fst_zip)
  with False show ?thesis by (simp add: nth_scatter_notin)
qed

lemma scatter_zero: "map (\<lambda>i. (i, 0)) idx = zip idx (map (\<lambda>_. 0) idx)"
  by (simp add: zip_map2 zip_same_conv_map)

text \<open>What is sent and what is kept add up to the whole.\<close>

lemma sent_kept_sum:
  assumes "distinct idx" "\<forall>i \<in> set idx. i < n" "length vs = n"
  shows "vadd (scatter (vzero n) (zip idx (map ((!) vs) idx))) (scatter vs (zip idx (map (\<lambda>_. 0) idx))) = vs"
proof (rule nth_equalityI)
  fix i assume "i < length (vadd (scatter (vzero n) (zip idx (map ((!) vs) idx))) (scatter vs (zip idx (map (\<lambda>_. 0) idx))))"
  then have "i < n" by simp
  then show "vadd (scatter (vzero n) (zip idx (map ((!) vs) idx))) (scatter vs (zip idx (map (\<lambda>_. 0) idx))) ! i = vs ! i"
    using assms nth_scatter_zip [OF assms(1), of "vzero n" i "(!) vs"] nth_scatter_zip [OF assms(1), of vs i "\<lambda>_. 0"]
    by simp
qed (use assms in simp)

text \<open>
  One round in closed form: the \<open>k\<close> largest entries in magnitude are sent, everything else is kept.
\<close>

lemma topk_round:
  assumes "tk_ef tk" "tensor_ok t" "length (t_data t) = d"
    and "accumulate c (view_flat t) (dict_get (tk_errors tk) name) = Inr e" "length (t_data e) = d"
    and "compressed_num c (tk_kp tk) d = int k" "2 * k \<le> d" "argsort_ok argsort (map abs (t_data e))"
    and "\<forall>i < d. c Float32 (of_nat i) = of_nat i" "\<forall>x \<in> set (t_data e). c Float32 x = x"
  defines "idx \<equiv> top_idx argsort k (t_data e)"
  shows "\<exists>p. topk_compress c argsort tk t name =
           (Inr (p, \<lparr>ctx_size = t_size t, ctx_name = name\<rparr>),
            tk\<lparr>tk_errors := dict_set (tk_errors tk) name
                 (e\<lparr>t_data := scatter (t_data e) (zip idx (map (\<lambda>_. 0) idx))\<rparr>)\<rparr>)
         \<and> (\<forall>tk'. tk_kp tk' = tk_kp tk \<longrightarrow>
              topk_decompress c tk' p \<lparr>ctx_size = t_size t, ctx_name = name\<rparr> =
              Inr \<lparr>t_dtype = Float32, t_size = t_size t,
                   t_data = scatter (vzero d) (zip idx (map ((!) (t_data e)) idx))\<rparr>)"
proof -
  let ?p = "(zeros d)\<lparr>t_data := map of_nat idx @ map ((!) (t_data e)) idx @ replicate (d - 2 * k) 0\<rparr>"
  have idx: "\<forall>i \<in> set idx. i < d" "length idx = k"
    using top_idx_props [OF assms(8), of k] assms(5,7) by (auto simp: idx_def)
  have "\<forall>i \<in> set idx. c Float32 (of_nat i) = of_nat i \<and> c Float32 (t_data e ! i) = t_data e ! i"
    using idx(1) assms(5,9,10) by simp
  then have pack: "topk_pack c argsort d (int k) (t_data e) =
      Inr (map of_nat idx @ map ((!) (t_data e)) idx @ replicate (d - 2 * k) 0, idx)"
    using topk_pack_ok [OF assms(8,5,7), of c] by (simp add: Let_def idx_def cong: map_cong)
  have "topk_compress c argsort tk t name =
      (Inr (?p, \<lparr>ctx_size = t_size t, ctx_name = name\<rparr>),
       tk\<lparr>tk_errors := dict_set (tk_errors tk) name
            (e\<lparr>t_data := scatter (t_data e) (zip idx (map (\<lambda>_. 0) idx))\<rparr>)\<rparr>)"
    using assms(1-4,6) pack by (simp add: topk_compress_def Let_def scatter_zero)
  moreover have "topk_decompress c tk' ?p \<lparr>ctx_size = t_size t, ctx_name = name\<rparr> =
      Inr \<lparr>t_dtype = Float32, t_size = t_size t,
           t_data = scatter (vzero d) (zip idx (map ((!) (t_data e)) idx))\<rparr>" if "tk_kp tk' = tk_kp tk" for tk'
    using assms(2,3,6,7) idx that
    by (intro topk_decompress_packed [where k = k and rest = "replicate (d - 2 * k) 0"])
       (simp_all add: zeros_def tensor_ok_def)
  ultimately show ?thesis by blast
qed


definition example_tk :: topk where
  "example_tk = \<lparr>tk_kp = 1 / 2, tk_ef = True, tk_d = 4, tk_use_bps_server = True, tk_errors = []\<rparr>"

definition example_grad :: tensor where
  "example_grad = \<lparr>t_dtype = Float32, t_size = [2, 2], t_data = [1, - 5, 3, 2]\<rparr>"


text \<open>
  When twice the number of sent entries does not fit, packing fails after the error has already
  been accumulated: the values do not fit behind the positions.
\<close>

lemma topk_pack_overflow:
  assumes "argsort_ok argsort (map abs vs)" "length vs = d" "k \<le> d" "d < 2 * k" "k \<noteq> 1"
  shows "topk_pack c argsort d (int k) vs = Inl RuntimeError"
proof -
  let ?idx = "top_idx argsort k vs"
  let ?p = "map (\<lambda>i. c Float32 (of_nat i)) ?idx"
  have len: "length ?idx = k" and idx: "\<forall>i \<in> set ?idx. i < length vs"
    using top_idx_props(2,3) [OF assms(1), of k] assms(2,3) by auto
  have sl: "py_slice (argsort (map abs vs)) 0 (int k) = ?idx"
    using py_slice_nat [of 0 k "argsort (map abs vs)"] argsort_okD(3) [OF assms(1)] assms(2,3)
    by (simp add: top_idx_def)
  have s1: "slice_assign (replicate d 0) 0 (int k) ?p = Inr (?p @ replicate (d - k) 0)"
    using slice_assign_exact [of 0 k "replicate d 0" ?p] len assms(3) by simp
  have s2: "slice_assign (?p @ replicate (d - k) 0) (int k) (2 * int k) ys = Inl RuntimeError"
    if "length ys = k" for ys
    using slice_assign_mismatch [of ys "2 * k" "?p @ replicate (d - k) 0" k] len assms(3-5) that by simp
  show ?thesis
    using sl s1 gather_ok [OF idx] len by (simp add: topk_pack_def zeros_def Let_def s2)
qed

text \<open>
  TopK with a ratio above one half fails: the packed tensor is as long as the gradient, so more
  than half of the entries cannot be sent; the call raises, and the accumulated error, which then
  already holds the gradient, stays in the state.
\<close>

theorem topk_compress_overflow:
  assumes "tk_ef tk" "length (t_data t) = d"
    and "accumulate c (view_flat t) (dict_get (tk_errors tk) name) = Inr e" "length (t_data e) = d"
    and "compressed_num c (tk_kp tk) d = int k" "k \<le> d" "d < 2 * k" "k \<noteq> 1"
    and "argsort_ok argsort (map abs (t_data e))"
  shows "topk_compress c argsort tk t name =
           (Inl RuntimeError, tk\<lparr>tk_errors := dict_set (tk_errors tk) name e\<rparr>)"
  using assms topk_pack_overflow [OF assms(9,4,6,7,8), of c] by (simp add: topk_compress_def Let_def)

theorem topk_compress_overflow_witness:
  "fst (topk_compress exact stable_argsort (example_tk\<lparr>tk_kp := 3 / 4\<rparr>) example_grad ''w'') = Inl RuntimeError"
  by (subst topk_compress_overflow [where d = 4 and k = 3 and e = "view_flat example_grad"])
     (simp_all add: example_tk_def example_grad_def compressed_num_def stable_argsort_ok trunc_def
        accumulate_def view_flat_def)

text \<open>
  A small tensor is never sent: when the ratio times the number of entries is below one, a
  round sends zeros only and the whole accumulated gradient stays in the error.
\<close>

theorem topk_small_tensor:
  assumes "tk_ef tk" "length (t_data t) = d"
    and "0 \<le> c Float64 (tk_kp tk * of_nat d)" "c Float64 (tk_kp tk * of_nat d) < 1"
    and "accumulate c (view_flat t) (dict_get (tk_errors tk) name) = Inr e"
  shows "topk_compress c argsort tk t name =
     (Inr (zeros d, \<lparr>ctx_size = t_size t, ctx_name = name\<rparr>),
      tk\<lparr>tk_errors := dict_set (tk_errors tk) name e\<rparr>)"
proof -
  have "compressed_num c (tk_kp tk) d = 0"
    using assms(3,4) by (simp add: compressed_num_def trunc_less_one)
  moreover have "topk_pack c argsort d 0 (t_data e) = Inr (replicate d 0, [])"
    using slice_assign_exact [of 0 0 "replicate d (0 :: rat)" "[]"]
    by (simp add: topk_pack_def zeros_def py_slice_def Let_def clamp_index_def gather_def)
  ultimately show ?thesis
    using assms by (simp add: topk_compress_def Let_def zeros_def)
qed

theorem topk_small_tensor_witness:
  "topk_compress exact stable_argsort (example_tk\<lparr>tk_kp := 1 / 5\<rparr>) example_grad ''w'' =
     (Inr (zeros 4, \<lparr>ctx_size = [2, 2], ctx_name = ''w''\<rparr>),
      example_tk\<lparr>tk_kp := 1 / 5, tk_errors := [(''w'', view_flat example_grad)]\<rparr>)"
  by (subst topk_small_tensor [where d = 4 and e = "view_flat example_grad"])
     (simp_all add: example_tk_def example_grad_def accumulate_def view_flat_def)

section \<open>Error feedback over a whole training run\<close>

text \<open>
  What an optimizer relies on, as an interface: a round of compress and decompress succeeds, and
  what is sent plus what is kept is what came in plus what was kept before. The client lemma says
  that nothing is lost over any number of rounds.
\<close>

fun compress_run ::
    "('s \<Rightarrow> tensor \<Rightarrow> string \<Rightarrow> (tensor \<times> 'ctx) res \<times> 's) \<Rightarrow> ('s \<Rightarrow> tensor \<Rightarrow> 'ctx \<Rightarrow> tensor res)
       \<Rightarrow> 's \<Rightarrow> string \<Rightarrow> tensor list \<Rightarrow> (rat list list \<times> 's) res" where
  "compress_run cmp dcmp s name [] = Inr ([], s)"
| "compress_run cmp dcmp s name (t # ts) =
     (case cmp s t name of
        (Inl err, _) \<Rightarrow> Inl err
      | (Inr (p, ctx), s') \<Rightarrow>
          bind_res (dcmp s' p ctx) (\<lambda>g.
          bind_res (compress_run cmp dcmp s' name ts) (\<lambda>(gs, s''). Inr (t_data g # gs, s''))))"

definition grad_ok :: "nat \<Rightarrow> tensor \<Rightarrow> bool" where
  "grad_ok n t = (tensor_ok t \<and> length (t_data t) = n \<and> t_dtype t = Float32)"

locale error_feedback =
  fixes cmp :: "'s \<Rightarrow> tensor \<Rightarrow> string \<Rightarrow> (tensor \<times> 'ctx) res \<times> 's"
    and dcmp :: "'s \<Rightarrow> tensor \<Rightarrow> 'ctx \<Rightarrow> tensor res"
    and residual :: "'s \<Rightarrow> string \<Rightarrow> nat \<Rightarrow> rat list"
    and inv :: "nat \<Rightarrow> 's \<Rightarrow> string \<Rightarrow> bool"
  assumes length_residual: "inv n s name \<Longrightarrow> length (residual s name n) = n"
    and round: "inv n s name \<Longrightarrow> grad_ok n t \<Longrightarrow>
      \<exists>p ctx s' g. cmp s t name = (Inr (p, ctx), s') \<and> dcmp s' p ctx = Inr g \<and> inv n s' name
        \<and> grad_ok n g \<and> t_size g = t_size t
        \<and> vadd (t_data g) (residual s' name n) = vadd (t_data t) (residual s name n)"
begin

lemma run_conserves:
  "inv n s name \<Longrightarrow> \<forall>t \<in> set ts. grad_ok n t \<Longrightarrow>
   \<exists>gs s'. compress_run cmp dcmp s name ts = Inr (gs, s') \<and> inv n s' name
     \<and> length gs = length ts \<and> (\<forall>g \<in> set gs. length g = n)
     \<and> vadd (vsum n gs) (residual s' name n) = vadd (vsum n (map t_data ts)) (residual s name n)"
proof (induction ts arbitrary: s)
  case Nil
  then show ?case by simp
next
  case (Cons t ts)
  obtain p ctx s1 g where r: "cmp s t name = (Inr (p, ctx), s1)" "dcmp s1 p ctx = Inr g"
      "inv n s1 name" "grad_ok n g"
      "vadd (t_data g) (residual s1 name n) = vadd (t_data t) (residual s name n)"
    using round [of n s name t] Cons.prems by auto
  obtain gs s2 where i: "compress_run cmp dcmp s1 name ts = Inr (gs, s2)" "inv n s2 name"
      "length gs = length ts" "\<forall>g \<in> set gs. length g = n"
      "vadd (vsum n gs) (residual s2 name n) = vadd (vsum n (map t_data ts)) (residual s1 name n)"
    using Cons.IH [OF r(3)] Cons.prems by auto
  have "vadd (vsum n (t_data g # gs)) (residual s2 name n) =
      vadd (vsum n (map t_data ts)) (vadd (t_data g) (residual s1 name n))"
    using i(5) by (metis vadd_assoc vadd_comm vsum_Cons)
  also have "\<dots> = vadd (vsum n (map t_data (t # ts))) (residual s name n)"
    using r(5) by (simp add: vadd_assoc) (metis vadd_assoc vadd_comm)
  finally have "vadd (vsum n (t_data g # gs)) (residual s2 name n) =
      vadd (vsum n (map t_data (t # ts))) (residual s name n)" .
  with r i show ?case by (auto simp: grad_ok_def)
qed

end

text \<open>A compressor that keeps nothing back is the special case of a zero residual.\<close>

locale lossless =
  fixes cmp :: "'s \<Rightarrow> tensor \<Rightarrow> string \<Rightarrow> (tensor \<times> 'ctx) res \<times> 's"
    and dcmp :: "'s \<Rightarrow> tensor \<Rightarrow> 'ctx \<Rightarrow> tensor res"
    and inv :: "nat \<Rightarrow> 's \<Rightarrow> string \<Rightarrow> bool"
  assumes roundtrip: "inv n s name \<Longrightarrow> grad_ok n t \<Longrightarrow>
      \<exists>p ctx s'. cmp s t name = (Inr (p, ctx), s') \<and> dcmp s' p ctx = Inr t \<and> inv n s' name"

sublocale lossless \<subseteq> error_feedback cmp dcmp "\<lambda>s name n. vzero n" inv
proof
  fix n s name t
  assume "inv n s name" "grad_ok n t"
  then show "\<exists>p ctx s' g. cmp s t name = (Inr (p, ctx), s') \<and> dcmp s' p ctx = Inr g \<and> inv n s' name
        \<and> grad_ok n g \<and> t_size g = t_size t \<and> vadd (t_data g) (vzero n) = vadd (t_data t) (vzero n)"
    using roundtrip by blast
qed simp

context lossless
begin

lemma run_identity:
  "inv n s name \<Longrightarrow> \<forall>t \<in> set ts. grad_ok n t \<Longrightarrow>
   \<exists>s'. compress_run cmp dcmp s name ts = Inr (map t_data ts, s') \<and> inv n s' name"
proof (induction ts arbitrary: s)
  case (Cons t ts)
  obtain p ctx s1 where r: "cmp s t name = (Inr (p, ctx), s1)" "dcmp s1 p ctx = Inr t" "inv n s1 name"
    using roundtrip [of n s name t] Cons.prems by auto
  with Cons.IH [OF r(3)] Cons.prems show ?case by auto
qed simp

end

section \<open>The compressors implement the interface\<close>

definition none_step :: "unit \<Rightarrow> tensor \<Rightarrow> string \<Rightarrow> (tensor \<times> unit option) res \<times> unit" where
  "none_step s t name = (Inr (none_compress t), s)"

interpretation none: lossless none_step "\<lambda>s p ctx. Inr (none_decompress p ctx)" "\<lambda>n s name. True"
  by unfold_locales (simp add: none_step_def none_compress_def none_decompress_def)

definition dummy_step :: "dummy_state \<Rightarrow> tensor \<Rightarrow> string \<Rightarrow> (tensor \<times> nat list) res \<times> dummy_state" where
  "dummy_step du t name = (case dummy_compress exact du t name of (r, _, du') \<Rightarrow> (r, du'))"

definition modify_ok :: "nat \<Rightarrow> modify_idx \<Rightarrow> bool" where
  "modify_ok n idx = (case idx of Whole \<Rightarrow> True | At i \<Rightarrow> - int n \<le> i \<and> i < int n)"

definition dummy_inv :: "nat \<Rightarrow> dummy_state \<Rightarrow> string \<Rightarrow> bool" where
  "dummy_inv n du name =
     (modify_ok n (du_idx du)
      \<and> (case dict_get (du_temps du) name of None \<Rightarrow> True | Some e \<Rightarrow> length (t_data e) = n))"

lemma neg_at_total: "modify_ok n idx \<Longrightarrow> length xs = n \<Longrightarrow> \<exists>ys. neg_at idx xs = Inr ys \<and> length ys = n"
  by (auto simp: neg_at_def modify_ok_def py_index_def split: modify_idx.splits)

lemma neg_at_twice: "neg_at idx xs = Inr ys \<Longrightarrow> neg_at idx ys = Inr xs"
  by (auto simp: neg_at_def py_index_def res_simps comp_def nat_less_iff split: modify_idx.splits if_splits)

lemma dummy_round:
  assumes "tensor_ok t" "neg_at (du_idx du) (t_data t) = Inr ys"
    and "case dict_get (du_temps du) name of None \<Rightarrow> True | Some e \<Rightarrow> length (t_data e) = length (t_data t)"
  shows "\<exists>p du' e. dummy_compress c du t name = (Inr (p, t_size t), t\<lparr>t_data := ys\<rparr>, du')
           \<and> dummy_decompress du' p (t_size t) = Inr t
           \<and> du_idx du' = du_idx du \<and> dict_get (du_temps du') name = Some e \<and> length (t_data e) = length (t_data t)"
proof -
  have len: "length ys = length (t_data t)"
    using assms(2) by (auto simp: neg_at_def res_simps split: modify_idx.splits)
  let ?p = "\<lparr>t_dtype = t_dtype t, t_size = [length ys], t_data = ys\<rparr>"
  have p: "(view_flat (t\<lparr>t_data := ys\<rparr>))\<lparr>t_data := ys\<rparr> = ?p"
    by (cases t) (simp add: view_flat_def)
  obtain s where s: "accumulate c ?p (dict_get (du_temps du) name) = Inr s" "length (t_data s) = length ys"
    using assms(3) len by (cases "dict_get (du_temps du) name") (auto simp: accumulate_def Let_def)
  have "\<exists>du' e. dummy_compress c du t name = (Inr (?p, t_size t), t\<lparr>t_data := ys\<rparr>, du')
      \<and> du_idx du' = du_idx du \<and> dict_get (du_temps du') name = Some e \<and> length (t_data e) = length ys"
    using assms(2) s
    by (simp add: p dummy_compress_def Let_def dummy_sq_func_def dummy_rotation_def
          dummy_inverse_rotation_def)
  moreover have "dummy_decompress du' ?p (t_size t) = Inr t" if "du_idx du' = du_idx du" for du'
    using neg_at_twice [OF assms(2)] assms(1) that
    by (cases t) (simp add: dummy_decompress_def dummy_inverse_rotation_def view_as_def tensor_ok_def view_flat_def)
  ultimately show ?thesis unfolding len by blast
qed

text \<open>
  The dummy compressor gives back the gradient, rounding or not, but leaves the caller's own
  tensor with the chosen entry negated, because it negates in place before it copies.
\<close>

theorem dummy_roundtrip:
  assumes "tensor_ok t" "neg_at (du_idx du) (t_data t) = Inr ys"
    and "case dict_get (du_temps du) name of None \<Rightarrow> True | Some e \<Rightarrow> length (t_data e) = length (t_data t)"
  shows "\<exists>p du'. dummy_compress c du t name = (Inr (p, t_size t), t\<lparr>t_data := ys\<rparr>, du')
           \<and> dummy_decompress du' p (t_size t) = Inr t"
  using dummy_round [OF assms] by blast

theorem dummy_roundtrip_witness:
  "\<exists>p du'. dummy_compress exact \<lparr>du_idx = At (- 1), du_temps = []\<rparr> example_grad ''w'' =
       (Inr (p, t_size example_grad), example_grad\<lparr>t_data := [1, - 5, 3, - 2]\<rparr>, du')
     \<and> dummy_decompress du' p (t_size example_grad) = Inr example_grad"
  by (rule dummy_roundtrip)
     (simp_all add: example_grad_def tensor_ok_def numel_prod neg_at_def py_index_def)

interpretation dummy: lossless dummy_step dummy_decompress dummy_inv
proof
  fix n du name t
  assume inv: "dummy_inv n du name" and t: "grad_ok n t"
  obtain ys where "neg_at (du_idx du) (t_data t) = Inr ys"
    using neg_at_total [of n "du_idx du" "t_data t"] inv t by (auto simp: dummy_inv_def grad_ok_def)
  moreover have "case dict_get (du_temps du) name of None \<Rightarrow> True | Some e \<Rightarrow> length (t_data e) = length (t_data t)"
    using inv t by (auto simp: dummy_inv_def grad_ok_def split: option.splits)
  ultimately show "\<exists>p ctx du'. dummy_step du t name = (Inr (p, ctx), du') \<and> dummy_decompress du' p ctx = Inr t
      \<and> dummy_inv n du' name"
    using dummy_round [of t du ys name exact] inv t
    by (fastforce simp: dummy_step_def dummy_inv_def grad_ok_def)
qed

definition topk_residual :: "topk \<Rightarrow> string \<Rightarrow> nat \<Rightarrow> rat list" where
  "topk_residual tk name n = (case dict_get (tk_errors tk) name of None \<Rightarrow> vzero n | Some e \<Rightarrow> t_data e)"

definition topk_inv :: "(rat list \<Rightarrow> nat list) \<Rightarrow> nat \<Rightarrow> topk \<Rightarrow> string \<Rightarrow> bool" where
  "topk_inv argsort n tk name \<longleftrightarrow>
     tk_ef tk \<and> (\<forall>xs. argsort_ok argsort xs)
     \<and> 0 \<le> compressed_num exact (tk_kp tk) n \<and> 2 * compressed_num exact (tk_kp tk) n \<le> int n
     \<and> (case dict_get (tk_errors tk) name of None \<Rightarrow> True | Some e \<Rightarrow> length (t_data e) = n)"

lemma accumulate_exact:
  assumes "topk_inv argsort n tk name" "grad_ok n t"
  shows "\<exists>e. accumulate exact (view_flat t) (dict_get (tk_errors tk) name) = Inr e
           \<and> t_data e = vadd (t_data t) (topk_residual tk name n)"
  using assms
  by (auto simp: accumulate_def topk_inv_def grad_ok_def topk_residual_def Let_def vadd_def [symmetric]
           split: option.splits)

interpretation topk: error_feedback "topk_compress exact argsort" "topk_decompress exact" topk_residual
    "topk_inv argsort" for argsort
proof
  fix n tk name
  assume "topk_inv argsort n tk name"
  then show "length (topk_residual tk name n) = n"
    by (auto simp: topk_inv_def topk_residual_def split: option.splits)
next
  fix n tk name t
  assume inv: "topk_inv argsort n tk name" and t: "grad_ok n t"
  obtain e where e: "accumulate exact (view_flat t) (dict_get (tk_errors tk) name) = Inr e"
      "t_data e = vadd (t_data t) (topk_residual tk name n)"
    using accumulate_exact [OF inv t] by blast
  define k where "k = nat (compressed_num exact (tk_kp tk) n)"
  have k: "compressed_num exact (tk_kp tk) n = int k" "2 * k \<le> n"
    using inv unfolding topk_inv_def k_def by linarith+
  have n: "tensor_ok t" "length (t_data t) = n" "tk_ef tk" "argsort_ok argsort (map abs (t_data e))"
    using t inv by (auto simp: grad_ok_def topk_inv_def)
  have len: "length (t_data e) = n"
    using e(2) n inv by (auto simp: topk_inv_def topk_residual_def split: option.splits)
  let ?idx = "top_idx argsort k (t_data e)"
  let ?g = "scatter (vzero n) (zip ?idx (map ((!) (t_data e)) ?idx))"
  let ?e = "scatter (t_data e) (zip ?idx (map (\<lambda>_. 0) ?idx))"
  let ?tk = "tk\<lparr>tk_errors := dict_set (tk_errors tk) name (e\<lparr>t_data := ?e\<rparr>)\<rparr>"
  have idx: "distinct ?idx" "\<forall>i \<in> set ?idx. i < n" using top_idx_props [OF n(4), of k] len by auto
  have sum: "vadd ?g ?e = t_data e"
    by (rule sent_kept_sum [OF idx len])
  obtain p where "topk_compress exact argsort tk t name =
      (Inr (p, \<lparr>ctx_size = t_size t, ctx_name = name\<rparr>), ?tk)"
    and "topk_decompress exact ?tk p \<lparr>ctx_size = t_size t, ctx_name = name\<rparr> =
      Inr \<lparr>t_dtype = Float32, t_size = t_size t, t_data = ?g\<rparr>"
    using topk_round [OF n(3,1,2) e(1) len k n(4)] by auto
  moreover have "topk_inv argsort n ?tk name" using inv len by (simp add: topk_inv_def)
  moreover have "topk_residual ?tk name n = ?e" by (simp add: topk_residual_def)
  moreover have "grad_ok n \<lparr>t_dtype = Float32, t_size = t_size t, t_data = ?g\<rparr>"
    using t by (simp add: grad_ok_def tensor_ok_def)
  ultimately show "\<exists>p ctx s' g. topk_compress exact argsort tk t name = (Inr (p, ctx), s')
      \<and> topk_decompress exact s' p ctx = Inr g \<and> topk_inv argsort n s' name \<and> grad_ok n g \<and> t_size g = t_size t
      \<and> vadd (t_data g) (topk_residual s' name n) = vadd (t_data t) (topk_residual tk name n)"
    using sum e(2) by (intro exI conjI) (assumption | simp)+
qed

text \<open>
  C32. Nothing is ever lost by TopK with error feedback: over any sequence of gradients of one
  parameter, what has been sent in all rounds plus the error kept at the end is the sum of all
  gradients plus the error at the start, in exact arithmetic.
\<close>

theorem topk_run_conserves:
  assumes "topk_inv argsort n tk name" "\<forall>t \<in> set ts. grad_ok n t"
  shows "\<exists>gs tk'. compress_run (topk_compress exact argsort) (topk_decompress exact) tk name ts = Inr (gs, tk')
     \<and> length gs = length ts
     \<and> vadd (vsum n gs) (topk_residual tk' name n) = vadd (vsum n (map t_data ts)) (topk_residual tk name n)"
  using topk.run_conserves [OF assms] by blast

theorem topk_run_conserves_witness:
  "\<exists>gs tk'. compress_run (topk_compress exact stable_argsort) (topk_decompress exact) example_tk ''w'' [example_grad, example_grad] = Inr (gs, tk')
     \<and> length gs = length [example_grad, example_grad]
     \<and> vadd (vsum 4 gs) (topk_residual tk' ''w'' 4) =
         vadd (vsum 4 (map t_data [example_grad, example_grad])) (topk_residual example_tk ''w'' 4)"
  by (rule topk_run_conserves)
     (simp_all add: topk_inv_def example_tk_def example_grad_def stable_argsort_ok compressed_num_def
        trunc_def grad_ok_def tensor_ok_def numel_prod)

text \<open>
  The pass-through and the dummy compressor send every gradient as it is.
\<close>

lemma none_run_identity:
  assumes "\<forall>t \<in> set ts. grad_ok n t"
  shows "compress_run none_step (\<lambda>s p ctx. Inr (none_decompress p ctx)) () name ts = Inr (map t_data ts, ())"
  using none.run_identity [OF TrueI assms] by auto

lemma dummy_run_identity:
  assumes "dummy_inv n du name" "\<forall>t \<in> set ts. grad_ok n t"
  shows "\<exists>du'. compress_run dummy_step dummy_decompress du name ts = Inr (map t_data ts, du')"
  using dummy.run_identity [OF assms] by blast

section \<open>Half precision: behaviour\<close>

text \<open>
  Half precision is lossless exactly on what half precision represents: for a floating point
  gradient, decompressing the compressed tensor gives the gradient back if and only if every entry
  survives the two conversions; a gradient of another element type is untouched.
\<close>

theorem fp16_roundtrip:
  "fp16_decompress c (fst (fp16_compress c t)) (snd (fp16_compress c t)) = t \<longleftrightarrow>
     (if is_floating_point (t_dtype t) \<and> t_dtype t \<noteq> Float16
      then list_all (\<lambda>x. c (t_dtype t) (c Float16 x) = x) (t_data t) else True)"
proof -
  have eq: "map (\<lambda>x. c dt (c Float16 x)) xs = xs \<longleftrightarrow> list_all (\<lambda>x. c dt (c Float16 x) = x) xs" for dt xs
    by (induction xs) auto
  show ?thesis
    by (cases t) (auto simp: fp16_decompress_def fp16_compress_def to_dtype_def comp_def eq)
qed

section \<open>The class of the compressors: behaviour\<close>

text \<open>
  The body of the class \<open>Compression\<close> names two classes that the module does not define, so the
  module cannot be imported as published; with both of them supplied it can.
\<close>

lemma Compression_import: "Compression_class compressor_classes = Inl NameError"
  by code_simp

lemma Compression_import_complete:
  "Compression_class (compressor_classes @ [''NewINCACompressor'', ''INCACompressor'']) = Inr Compression_body"
  by code_simp

end
