(* ===== verification/Tracker_Topology.thy ===== *)
theory Tracker_Topology
  imports Py_Prelude
begin

text \<open>
  The connection topology of the rabit tracker, \<^verbatim>\<open>ps-lite/tracker/tracker.py\<close>: the binary tree, the
  ring that shares edges with it and the renumbering that makes the ring the natural order.

  The iteration order of a Python set is a parameter \<open>it\<close>; the law used is that iteration yields
  every element once (\<open>iter_ok\<close>). The recursion of \<open>find_share_ring\<close> is bounded by the interpreter's
  recursion limit, the argument \<open>limit\<close>: beyond it the interpreter raises. A limit whose power of two
  exceeds the number of nodes is enough, since the tree has logarithmic depth.
\<close>

definition get_neighbor :: "int \<Rightarrow> int \<Rightarrow> int list" where
  "get_neighbor rank0 nslave =
     (let rank = rank0 + 1
      in (if rank > 1 then [rank div 2 - 1] else [])
         @ (if rank * 2 - 1 < nslave then [rank * 2 - 1] else [])
         @ (if rank * 2 < nslave then [rank * 2] else []))"

definition get_tree :: "int \<Rightarrow> (int, int list) dict \<times> (int, int) dict" where
  "get_tree nslave =
     (dict_update_all [] (map (\<lambda>r. (r, get_neighbor r nslave)) (py_range 0 nslave)),
      dict_update_all [] (map (\<lambda>r. (r, (r + 1) div 2 - 1)) (py_range 0 nslave)))"

text \<open>The list built from the rings of the children: the last one is reversed.\<close>

definition join_rings :: "int \<Rightarrow> int list list \<Rightarrow> int list" where
  "join_rings r vlsts = r # concat (butlast vlsts) @ rev (last vlsts)"

fun find_share_ring ::
    "(int set \<Rightarrow> int list) \<Rightarrow> nat \<Rightarrow> (int, int list) dict \<Rightarrow> (int, int) dict \<Rightarrow> int \<Rightarrow> int list res" where
  "find_share_ring it 0 tree_map parent_map r = Inl RuntimeError"
| "find_share_ring it (Suc limit) tree_map parent_map r =
     bind_res (dict_index tree_map r) (\<lambda>nset.
     bind_res (dict_index parent_map r) (\<lambda>parent.
       let cset = set nset - {parent}
       in if cset = {} then Inr [r]
          else bind_res (map_res (\<lambda>v. find_share_ring it limit tree_map parent_map v) (it cset))
                 (\<lambda>vlsts. Inr (join_rings r vlsts))))"

definition ring_entry :: "int list \<Rightarrow> int \<Rightarrow> int \<Rightarrow> (int \<times> int \<times> int) res" where
  "ring_entry rlst nslave r =
     bind_res (py_index rlst r) (\<lambda>k.
     bind_res (py_index rlst ((r + nslave - 1) mod nslave)) (\<lambda>rprev.
     bind_res (py_index rlst ((r + 1) mod nslave)) (\<lambda>rnext. Inr (k, rprev, rnext))))"

definition get_ring ::
    "(int set \<Rightarrow> int list) \<Rightarrow> nat \<Rightarrow> (int, int list) dict \<Rightarrow> (int, int) dict \<Rightarrow> (int, int \<times> int) dict res" where
  "get_ring it limit tree_map parent_map =
     bind_res (dict_index parent_map 0) (\<lambda>p0.
     bind_res (assert_res (p0 = -1)) (\<lambda>_.
     bind_res (find_share_ring it limit tree_map parent_map 0) (\<lambda>rlst.
     bind_res (assert_res (length rlst = length tree_map)) (\<lambda>_.
       let nslave = int (length tree_map)
       in bind_res (map_res (ring_entry rlst nslave) (py_range 0 nslave)) (\<lambda>es.
            Inr (dict_update_all [] es))))))"

text \<open>Numbering the nodes along the ring: \<open>k\<close> is the node reached so far.\<close>

fun ring_numbers ::
    "(int, int \<times> int) dict \<Rightarrow> int list \<Rightarrow> int \<Rightarrow> (int, int) dict \<Rightarrow> (int, int) dict res" where
  "ring_numbers ring_map [] k rmap = Inr rmap"
| "ring_numbers ring_map (i # is) k rmap =
     bind_res (dict_index ring_map k) (\<lambda>(_, k'). ring_numbers ring_map is k' (dict_set rmap k' (i + 1)))"

definition get_link_map ::
    "(int set \<Rightarrow> int list) \<Rightarrow> nat \<Rightarrow> int \<Rightarrow>
       ((int, int list) dict \<times> (int, int) dict \<times> (int, int \<times> int) dict) res" where
  "get_link_map it limit nslave =
     (let (tree_map, parent_map) = get_tree nslave
      in bind_res (get_ring it limit tree_map parent_map) (\<lambda>ring_map.
         bind_res (ring_numbers ring_map (py_range 0 (nslave - 1)) 0 [(0, 0)]) (\<lambda>rmap.
         bind_res (map_res (\<lambda>(k, v0, v1).
             bind_res (dict_index rmap k) (\<lambda>k'.
             bind_res (dict_index rmap v0) (\<lambda>a.
             bind_res (dict_index rmap v1) (\<lambda>b. Inr (k', (a, b)))))) ring_map) (\<lambda>ring'.
         bind_res (map_res (\<lambda>(k, v).
             bind_res (map_res (dict_index rmap) v) (\<lambda>v'.
             bind_res (dict_index rmap k) (\<lambda>k'. Inr (k', v')))) tree_map) (\<lambda>tree'.
         bind_res (map_res (\<lambda>(k, v).
             bind_res (if k \<noteq> 0 then dict_index rmap v else Inr (-1)) (\<lambda>v'.
             bind_res (dict_index rmap k) (\<lambda>k'. Inr (k', v')))) parent_map) (\<lambda>parent'.
           Inr (dict_update_all [] tree', dict_update_all [] parent', dict_update_all [] ring')))))))"

section \<open>The tree\<close>

definition iter_ok :: "(int set \<Rightarrow> int list) \<Rightarrow> bool" where
  "iter_ok it \<longleftrightarrow> (\<forall>S. finite S \<longrightarrow> distinct (it S) \<and> set (it S) = S)"

lemma iter_ok_sorted: "iter_ok sorted_list_of_set"
  by (simp add: iter_ok_def)

lemma dict_update_all_fresh:
  "distinct (map fst kvs) \<Longrightarrow> fst ` set kvs \<inter> fst ` set d = {} \<Longrightarrow> dict_update_all d kvs = d @ kvs"
proof (induction d kvs rule: dict_update_all.induct)
  case (2 d k v kvs)
  then have "k \<notin> fst ` set d" by auto
  then have "dict_set d k v = d @ [(k, v)]" by (induction d) auto
  with 2 show ?case by auto
qed simp

lemma dict_update_all_Nil: "distinct (map fst kvs) \<Longrightarrow> dict_update_all [] kvs = kvs"
  by (simp add: dict_update_all_fresh)

lemma get_tree_eq:
  "get_tree n = (map (\<lambda>r. (r, get_neighbor r n)) (py_range 0 n), map (\<lambda>r. (r, (r + 1) div 2 - 1)) (py_range 0 n))"
  by (simp add: get_tree_def dict_update_all_Nil comp_def)

lemma get_tree_maps:
  "dict_get (fst (get_tree n)) r = (if 0 \<le> r \<and> r < n then Some (get_neighbor r n) else None)"
  "dict_get (snd (get_tree n)) r = (if 0 \<le> r \<and> r < n then Some ((r + 1) div 2 - 1) else None)"
  by (auto simp: get_tree_eq map_of_map_restrict restrict_map_def)

lemma mem_set_if: "y \<in> set (if b then [a] else []) \<longleftrightarrow> b \<and> y = a"
  by auto

lemma get_neighbor_mem:
  assumes "0 \<le> x" "y < n"
  shows "y \<in> set (get_neighbor x n) \<longleftrightarrow> (x \<noteq> 0 \<and> y = (x + 1) div 2 - 1) \<or> y = 2 * x + 1 \<or> y = 2 * x + 2"
proof -
  have "(x + 1 > 1 \<and> y = d) \<or> ((x + 1) * 2 - 1 < n \<and> y = (x + 1) * 2 - 1) \<or> ((x + 1) * 2 < n \<and> y = (x + 1) * 2)
      \<longleftrightarrow> (x \<noteq> 0 \<and> y = d) \<or> y = 2 * x + 1 \<or> y = 2 * x + 2" for d
    using assms by (cases "x = 0") auto
  then show ?thesis unfolding get_neighbor_def Let_def set_append Un_iff mem_set_if .
qed

lemma get_neighbor_range:
  assumes "0 \<le> r" "r < n" "x \<in> set (get_neighbor r n)"
  shows "0 \<le> x \<and> x < n"
proof -
  have "0 \<le> (r + 1) div 2 - 1 \<and> (r + 1) div 2 - 1 < n" if "r + 1 > 1" using that assms(1,2) by presburger
  with assms show ?thesis unfolding get_neighbor_def Let_def set_append Un_iff mem_set_if by auto
qed

lemma get_neighbor_children:
  assumes "0 \<le> r" "r < n"
  shows "set (get_neighbor r n) - {(r + 1) div 2 - 1} = {x. x < n \<and> (x = 2 * r + 1 \<or> x = 2 * r + 2)}"
proof -
  define p where "p = (r + 1) div 2 - 1"
  have "p < 2 * r + 1" unfolding p_def using assms(1) by presburger
  then have p: "2 * r + 1 \<noteq> p" "2 * r + 2 \<noteq> p" by simp_all
  have "x \<in> set (get_neighbor r n) \<and> x \<noteq> p \<longleftrightarrow> x < n \<and> (x = 2 * r + 1 \<or> x = 2 * r + 2)" for x
  proof (cases "x < n")
    case True
    then show ?thesis using get_neighbor_mem [OF assms(1) True] p unfolding p_def [symmetric] by argo
  next
    case False
    then show ?thesis using get_neighbor_range [OF assms, of x] by blast
  qed
  then show ?thesis unfolding p_def [symmetric] by blast
qed

lemma get_neighbor_iff:
  assumes "0 \<le> x" "0 \<le> y" "y < n"
  shows "y \<in> set (get_neighbor x n) \<longleftrightarrow> (x \<noteq> 0 \<and> y = (x + 1) div 2 - 1) \<or> (y \<noteq> 0 \<and> x = (y + 1) div 2 - 1)"
proof -
  have "y = 2 * x + 1 \<or> y = 2 * x + 2 \<longleftrightarrow> y \<noteq> 0 \<and> x = (y + 1) div 2 - 1"
    using assms(1,2) by presburger
  then show ?thesis using get_neighbor_mem [OF assms(1,3)] by argo
qed

lemma get_neighbor_sym:
  assumes "0 \<le> x" "x < n" "0 \<le> y" "y < n"
  shows "y \<in> set (get_neighbor x n) \<longleftrightarrow> x \<in> set (get_neighbor y n)"
  using get_neighbor_iff [OF assms(1,3,4)] get_neighbor_iff [OF assms(3,1,2)] by blast

lemma get_neighbor_irrefl: "0 \<le> x \<Longrightarrow> x < n \<Longrightarrow> x \<notin> set (get_neighbor x n)"
proof -
  assume x: "0 \<le> x" "x < n"
  have "x \<noteq> 0 \<Longrightarrow> x \<noteq> (x + 1) div 2 - 1" using x(1) by presburger
  then show ?thesis using get_neighbor_iff [OF x(1) x] by blast
qed

text \<open>
  C33. The links of the tracker's tree: a link goes both ways, every node but the root is linked to
  its parent, which has a smaller number, and all other links of a node go to nodes whose parent it is.
\<close>

theorem get_neighbor_tree:
  assumes "0 \<le> x" "x < n" "0 \<le> y" "y < n"
  shows "(y \<in> set (get_neighbor x n) \<longleftrightarrow> x \<in> set (get_neighbor y n))
    \<and> (y \<in> set (get_neighbor x n) \<longleftrightarrow>
         (x \<noteq> 0 \<and> dict_get (snd (get_tree n)) x = Some y) \<or> (y \<noteq> 0 \<and> dict_get (snd (get_tree n)) y = Some x))
    \<and> (x \<noteq> 0 \<longrightarrow> (\<exists>p. dict_get (snd (get_tree n)) x = Some p \<and> 0 \<le> p \<and> p < x))"
proof -
  have "(x + 1) div 2 - 1 < x" if "x \<noteq> 0" using that assms(1) by presburger
  moreover have "0 \<le> (x + 1) div 2 - 1" if "x \<noteq> 0" using that assms(1) by presburger
  moreover have "dict_get (snd (get_tree n)) x = Some ((x + 1) div 2 - 1)"
      "dict_get (snd (get_tree n)) y = Some ((y + 1) div 2 - 1)"
    using assms by (simp_all add: get_tree_maps)
  ultimately show ?thesis
    using get_neighbor_sym [OF assms] get_neighbor_iff [OF assms(1,3,4)] by (metis option.inject)
qed

theorem get_neighbor_tree_witness:
  "6 \<in> set (get_neighbor 2 7) \<and> 2 \<in> set (get_neighbor 6 7)
    \<and> (\<exists>p. dict_get (snd (get_tree 7)) 6 = Some p \<and> 0 \<le> p \<and> p < 6)"
proof -
  have "2 \<in> set (get_neighbor 6 7)" by code_simp
  then show ?thesis using get_neighbor_tree [of 6 7 2] by simp
qed

section \<open>Descendants\<close>

definition desc :: "int \<Rightarrow> int \<Rightarrow> int set" where
  "desc n r = {x. 0 \<le> x \<and> x < n \<and> (\<exists>k. (x + 1) div 2 ^ k = r + 1)}"

lemma div_pow_Suc: "(x :: int) div 2 ^ Suc k = x div 2 ^ k div 2"
  by (simp add: zdiv_zmult2_eq power_Suc2 del: power_Suc)

lemma div_pow_mono:
  assumes "0 \<le> (x :: int)" "j \<le> k"
  shows "x div 2 ^ k \<le> x div 2 ^ j"
  using assms by (intro zdiv_mono2) (auto simp: power_increasing)

lemma desc_ge: "x \<in> desc n r \<Longrightarrow> r \<le> x"
proof -
  assume "x \<in> desc n r"
  then obtain k where "0 \<le> x" "(x + 1) div 2 ^ k = r + 1" by (auto simp: desc_def)
  with div_pow_mono [of "x + 1" 0 k] show ?thesis by simp
qed

lemma desc_empty: "n \<le> r \<Longrightarrow> desc n r = {}"
  using desc_ge [of _ n r] by (fastforce simp: desc_def)

lemma half_iff: "(y :: int) div 2 = r + 1 \<longleftrightarrow> y = 2 * r + 2 \<or> y = 2 * r + 3"
  by presburger

lemma mem_desc_child:
  "x \<in> desc n (2 * r + 1) \<longleftrightarrow> 0 \<le> x \<and> x < n \<and> (\<exists>k. (x + 1) div 2 ^ k = 2 * r + 2)"
  "x \<in> desc n (2 * r + 2) \<longleftrightarrow> 0 \<le> x \<and> x < n \<and> (\<exists>k. (x + 1) div 2 ^ k = 2 * r + 3)"
proof -
  have *: "2 * r + 1 + 1 = 2 * r + 2" "2 * r + 2 + 1 = 2 * r + 3" by simp_all
  show "x \<in> desc n (2 * r + 1) \<longleftrightarrow> 0 \<le> x \<and> x < n \<and> (\<exists>k. (x + 1) div 2 ^ k = 2 * r + 2)"
    "x \<in> desc n (2 * r + 2) \<longleftrightarrow> 0 \<le> x \<and> x < n \<and> (\<exists>k. (x + 1) div 2 ^ k = 2 * r + 3)"
    unfolding desc_def mem_Collect_eq * by (rule refl)+
qed

lemma desc_step:
  assumes "0 \<le> r" "r < n"
  shows "desc n r = insert r (desc n (2 * r + 1) \<union> desc n (2 * r + 2))"
proof (intro set_eqI iffI)
  fix x assume "x \<in> desc n r"
  then obtain k where k: "0 \<le> x" "x < n" "(x + 1) div 2 ^ k = r + 1" by (auto simp: desc_def)
  show "x \<in> insert r (desc n (2 * r + 1) \<union> desc n (2 * r + 2))"
  proof (cases k)
    case 0
    with k show ?thesis by simp
  next
    case (Suc j)
    with k(3) have "(x + 1) div 2 ^ j = 2 * r + 2 \<or> (x + 1) div 2 ^ j = 2 * r + 3"
      by (simp only: div_pow_Suc half_iff)
    with k(1,2) show ?thesis unfolding insert_iff Un_iff mem_desc_child by blast
  qed
next
  fix x assume "x \<in> insert r (desc n (2 * r + 1) \<union> desc n (2 * r + 2))"
  then consider "x = r" | k where "0 \<le> x" "x < n"
      "(x + 1) div 2 ^ k = 2 * r + 2 \<or> (x + 1) div 2 ^ k = 2 * r + 3"
    unfolding insert_iff Un_iff mem_desc_child by blast
  moreover have "(x + 1) div 2 ^ Suc k = r + 1" if "(x + 1) div 2 ^ k = 2 * r + 2 \<or> (x + 1) div 2 ^ k = 2 * r + 3" for k
    using that by (simp only: div_pow_Suc half_iff)
  moreover have "(r + 1) div 2 ^ 0 = r + 1" by simp
  ultimately show "x \<in> desc n r"
    using assms by cases (unfold desc_def mem_Collect_eq, blast+)
qed

lemma desc_disjoint:
  assumes "0 \<le> r"
  shows "desc n (2 * r + 1) \<inter> desc n (2 * r + 2) = {}"
proof (rule ccontr)
  assume "desc n (2 * r + 1) \<inter> desc n (2 * r + 2) \<noteq> {}"
  then obtain x j k where x: "0 \<le> x" "(x + 1) div 2 ^ j = 2 * r + 2" "(x + 1) div 2 ^ k = 2 * r + 3"
    unfolding disjoint_iff mem_desc_child by blast
  consider "j = k" | "Suc j \<le> k" | "Suc k \<le> j" by linarith
  then show False
  proof cases
    case 2
    then have "2 * r + 3 \<le> (2 * r + 2) div 2"
      using div_pow_mono [of "x + 1" "Suc j" k] x unfolding div_pow_Suc by simp
    with assms show False by simp
  next
    case 3
    then have "2 * r + 2 \<le> (2 * r + 3) div 2"
      using div_pow_mono [of "x + 1" "Suc k" j] x unfolding div_pow_Suc by simp
    with assms show False by simp
  qed (use x in simp)
qed

lemma reach_one: "1 \<le> (y :: int) \<Longrightarrow> \<exists>k. y div 2 ^ k = 1"
proof (induction "nat y" arbitrary: y rule: less_induct)
  case less
  show ?case
  proof (cases "y = 1")
    case True
    then have "y div 2 ^ 0 = 1" by simp
    then show ?thesis by blast
  next
    case False
    with less.prems have "1 \<le> y div 2" "nat (y div 2) < nat y" by auto
    with less.hyps obtain k where "y div 2 div 2 ^ k = 1" by blast
    then have "y div 2 ^ Suc k = 1" by (simp add: zdiv_zmult2_eq)
    then show ?thesis by blast
  qed
qed

lemma desc_root: "desc n 0 = {0..<n}"
  using reach_one [of "_ + 1"] by (auto simp: desc_def)

section \<open>The ring\<close>

lemma join_rings_mset: "vl \<noteq> [] \<Longrightarrow> mset (join_rings r vl) = add_mset r (mset (concat vl))"
proof -
  assume "vl \<noteq> []"
  then have "concat vl = concat (butlast vl) @ last vl"
    by (metis append_butlast_last_id concat.simps(2) concat_append concat.simps(1) append_Nil2)
  then show ?thesis by (simp add: join_rings_def)
qed

lemma join_rings_perm:
  assumes "vl \<noteq> []" "distinct vl" "\<forall>l \<in> set vl. distinct l \<and> r \<notin> set l"
    and "\<forall>l \<in> set vl. \<forall>m \<in> set vl. l \<noteq> m \<longrightarrow> set l \<inter> set m = {}"
  shows "distinct (join_rings r vl)" "set (join_rings r vl) = insert r (\<Union> (set ` set vl))"
proof -
  have "distinct (r # concat vl)" using assms(2-4) by (auto intro!: distinct_concat)
  moreover have m: "mset (join_rings r vl) = mset (r # concat vl)"
    using join_rings_mset [OF assms(1)] by simp
  ultimately show "distinct (join_rings r vl)" by (metis mset_eq_imp_distinct_iff)
  show "set (join_rings r vl) = insert r (\<Union> (set ` set vl))"
    using mset_eq_setD [OF m] by simp
qed

lemma join_rings_last: "vl \<noteq> [] \<Longrightarrow> last vl \<noteq> [] \<Longrightarrow> last (join_rings r vl) = hd (last vl)"
  by (simp add: join_rings_def last_rev)

text \<open>What the search returns for a node: its descendants, each once, starting with the node itself
  and ending in one of its children.\<close>

definition ring_list :: "int \<Rightarrow> int \<Rightarrow> int list \<Rightarrow> bool" where
  "ring_list n r l \<longleftrightarrow> l \<noteq> [] \<and> hd l = r \<and> distinct l \<and> set l = desc n r
     \<and> (l = [r] \<or> (last l < n \<and> (last l = 2 * r + 1 \<or> last l = 2 * r + 2)))"

lemma desc_children_union:
  "(\<Union>v \<in> {x. x < n \<and> (x = a \<or> x = b)}. desc n v) = desc n a \<union> desc n b"
proof -
  have "desc n v = {}" if "\<not> v < n" for v using that by (simp add: desc_empty)
  then show ?thesis by (cases "a < n"; cases "b < n") auto
qed

lemma ring_list_join:
  assumes r: "0 \<le> r" "r < n"
    and vs: "vs \<noteq> []" "distinct vs" "set vs = {x. x < n \<and> (x = 2 * r + 1 \<or> x = 2 * r + 2)}"
    and F: "\<forall>v \<in> set vs. ring_list n v (F v)"
  shows "ring_list n r (join_rings r (map F vs))"
proof -
  have hd: "F v \<noteq> []" "hd (F v) = v" "distinct (F v)" "set (F v) = desc n v" if "v \<in> set vs" for v
    using bspec [OF F that] unfolding ring_list_def by blast+
  have inj: "distinct (map F vs)"
    using vs(2) hd(2) by (metis distinct_map inj_onI)
  have nr: "r \<notin> desc n v" if "v \<in> set vs" for v
    using desc_ge [of r n v] that r unfolding vs(3) by auto
  have disj: "desc n v \<inter> desc n w = {}" if "v \<in> set vs" "w \<in> set vs" "v \<noteq> w" for v w
    using that desc_disjoint [OF r(1), of n] unfolding vs(3) by auto
  have ends: "last (join_rings r (map F vs)) = last vs"
    using vs(1) hd(1,2) [of "last vs"] by (subst join_rings_last) (simp_all add: last_map)
  have "(\<Union>v \<in> set vs. set (F v)) = (\<Union>v \<in> set vs. desc n v)"
    by (rule SUP_cong [OF refl]) (rule hd(4))
  also have "\<dots> = desc n (2 * r + 1) \<union> desc n (2 * r + 2)"
    unfolding vs(3) by (rule desc_children_union)
  finally have U: "insert r (\<Union> (set ` set (map F vs))) = desc n r"
    using desc_step [OF r] by (simp add: image_image)
  have P: "\<forall>l \<in> set (map F vs). distinct l \<and> r \<notin> set l"
    using hd(3,4) nr by simp
  have D: "\<forall>l \<in> set (map F vs). \<forall>m \<in> set (map F vs). l \<noteq> m \<longrightarrow> set l \<inter> set m = {}"
  proof (intro ballI impI)
    fix l m assume "l \<in> set (map F vs)" "m \<in> set (map F vs)" "l \<noteq> m"
    then obtain v w where "v \<in> set vs" "w \<in> set vs" "l = F v" "m = F w" "v \<noteq> w" by auto
    then show "set l \<inter> set m = {}" using disj [of v w] hd(4) by metis
  qed
  have ne: "map F vs \<noteq> []" using vs(1) by simp
  note perm = join_rings_perm [OF ne inj P D, unfolded U]
  have "last vs \<in> {x. x < n \<and> (x = 2 * r + 1 \<or> x = 2 * r + 2)}"
    using vs(1) last_in_set [of vs] unfolding vs(3) by blast
  then show ?thesis using ends perm by (simp add: ring_list_def join_rings_def)
qed

lemma find_share_ring_desc:
  assumes "iter_ok it" "0 \<le> r" "r < n" "n < (r + 1) * 2 ^ limit"
  shows "\<exists>l. find_share_ring it limit (fst (get_tree n)) (snd (get_tree n)) r = Inr l \<and> ring_list n r l"
  using assms(2-4)
proof (induction limit arbitrary: r)
  case (Suc limit)
  let ?find = "find_share_ring it limit (fst (get_tree n)) (snd (get_tree n))"
  define C where "C = {x. x < n \<and> (x = 2 * r + 1 \<or> x = 2 * r + 2)}"
  have "dict_index (fst (get_tree n)) r = Inr (get_neighbor r n)"
    "dict_index (snd (get_tree n)) r = Inr ((r + 1) div 2 - 1)"
    using Suc.prems by (simp_all add: dict_index_def get_tree_maps)
  moreover have "set (get_neighbor r n) - {(r + 1) div 2 - 1} = C"
    unfolding C_def by (rule get_neighbor_children [OF Suc.prems(1,2)])
  ultimately have eq: "find_share_ring it (Suc limit) (fst (get_tree n)) (snd (get_tree n)) r =
      (if C = {} then Inr [r] else bind_res (map_res ?find (it C)) (\<lambda>vlsts. Inr (join_rings r vlsts)))"
    by (simp only: find_share_ring.simps bind_res_Inr Let_def)
  have union: "(\<Union>v \<in> C. desc n v) = desc n (2 * r + 1) \<union> desc n (2 * r + 2)"
    unfolding C_def by (rule desc_children_union)
  show ?case
  proof (cases "C = {}")
    case True
    then have "desc n r = {r}" using desc_step [OF Suc.prems(1,2)] union by simp
    then show ?thesis unfolding eq using True by (simp add: ring_list_def)
  next
    case False
    have "finite C" by (rule finite_subset [of _ "{2 * r + 1, 2 * r + 2}"]) (auto simp: C_def)
    then have it: "distinct (it C)" "set (it C) = C" using assms(1) by (simp_all add: iter_ok_def)
    have "\<exists>l. ?find v = Inr l \<and> ring_list n v l" if "v \<in> C" for v
    proof (rule Suc.IH)
      have v: "2 * r + 2 \<le> v + 1" "v < n" "0 \<le> v" using that Suc.prems(1) by (auto simp: C_def)
      have "n < (2 * r + 2) * 2 ^ limit" using Suc.prems(3) by (simp add: algebra_simps)
      also have "\<dots> \<le> (v + 1) * 2 ^ limit" using v(1) by (rule mult_right_mono) simp
      finally show "n < (v + 1) * 2 ^ limit" .
      show "0 \<le> v" "v < n" using v by simp_all
    qed
    then obtain F where F: "\<And>v. v \<in> C \<Longrightarrow> ?find v = Inr (F v)" "\<And>v. v \<in> C \<Longrightarrow> ring_list n v (F v)" by metis
    have "map_res ?find (it C) = Inr (map F (it C))"
      by (rule map_res_Inr_map) (simp add: it(2) F(1))
    moreover have "ring_list n r (join_rings r (map F (it C)))"
      using False it F(2) by (intro ring_list_join Suc.prems) (auto simp: C_def)
    ultimately show ?thesis unfolding eq using False by simp
  qed
qed simp

section \<open>The ring as a map and the renumbering\<close>

lemma py_range_rec: "a < b \<Longrightarrow> py_range a b = a # py_range (a + 1) b"
  by (simp add: py_range_def upto_rec1)

lemma py_range_empty: "b \<le> a \<Longrightarrow> py_range a b = []"
  by (simp add: py_range_def)

lemma perm_at:
  assumes "distinct rl" "set rl = {0..<n}"
  shows "int (length rl) = max 0 n"
    and "\<And>i j. 0 \<le> i \<Longrightarrow> i < n \<Longrightarrow> 0 \<le> j \<Longrightarrow> j < n \<Longrightarrow> rl ! nat i = rl ! nat j \<longleftrightarrow> i = j"
    and "\<And>i. 0 \<le> i \<Longrightarrow> i < n \<Longrightarrow> 0 \<le> rl ! nat i \<and> rl ! nat i < n"
    and "\<And>k. 0 \<le> k \<Longrightarrow> k < n \<Longrightarrow> \<exists>i. 0 \<le> i \<and> i < n \<and> rl ! nat i = k"
proof -
  show len: "int (length rl) = max 0 n"
    using distinct_card [OF assms(1)] assms(2) by simp
  show "rl ! nat i = rl ! nat j \<longleftrightarrow> i = j" if "0 \<le> i" "i < n" "0 \<le> j" "j < n" for i j
    using nth_eq_iff_index_eq [OF assms(1), of "nat i" "nat j"] len that by auto
  show "0 \<le> rl ! nat i \<and> rl ! nat i < n" if "0 \<le> i" "i < n" for i
    using nth_mem [of "nat i" rl] len that assms(2) by auto
  show "\<exists>i. 0 \<le> i \<and> i < n \<and> rl ! nat i = k" if "0 \<le> k" "k < n" for k
  proof -
    have "k \<in> set rl" using that assms(2) by simp
    then obtain m where "m < length rl" "rl ! m = k" by (auto simp: in_set_conv_nth)
    then show ?thesis using len that by (intro exI [of _ "int m"]) auto
  qed
qed

lemma map_at_range: "int (length rl) = n \<Longrightarrow> map (\<lambda>i. rl ! nat i) (py_range 0 n) = rl"
  by (intro nth_equalityI) (auto simp: py_range_def)

definition ring_of :: "int list \<Rightarrow> int \<Rightarrow> (int, int \<times> int) dict" where
  "ring_of rl n = map (\<lambda>i. (rl ! nat i, rl ! nat ((i + n - 1) mod n), rl ! nat ((i + 1) mod n))) (py_range 0 n)"

lemma ring_entry_ok:
  assumes "int (length rl) = n" "0 \<le> i" "i < n"
  shows "ring_entry rl n i = Inr (rl ! nat i, rl ! nat ((i + n - 1) mod n), rl ! nat ((i + 1) mod n))"
proof -
  have "py_index rl j = Inr (rl ! nat j)" if "0 \<le> j" "j < n" for j
    using that assms(1) by (auto simp: py_index_Inr)
  with assms show ?thesis by (simp add: ring_entry_def)
qed

lemma get_ring_eq:
  assumes "iter_ok it" "1 \<le> n" "n < 2 ^ limit"
  shows "\<exists>rl. ring_list n 0 rl \<and> get_ring it limit (fst (get_tree n)) (snd (get_tree n)) = Inr (ring_of rl n)"
proof -
  obtain rl where rl: "find_share_ring it limit (fst (get_tree n)) (snd (get_tree n)) 0 = Inr rl" "ring_list n 0 rl"
    using find_share_ring_desc [OF assms(1), of 0 n limit] assms(2,3) by auto
  have d: "distinct rl" "set rl = {0..<n}" using rl(2) by (auto simp: ring_list_def desc_root)
  have len: "int (length rl) = n" "length (fst (get_tree n)) = length rl"
    using perm_at(1) [OF d] assms(2) by (auto simp: get_tree_eq)
  have p0: "dict_index (snd (get_tree n)) 0 = Inr (-1)"
    using assms(2) by (simp add: dict_index_def get_tree_maps)
  have es: "map_res (ring_entry rl n) (py_range 0 n) = Inr (ring_of rl n)"
    unfolding ring_of_def by (rule map_res_Inr_map) (simp add: ring_entry_ok len(1))
  have keys: "map fst (ring_of rl n) = rl"
    using map_at_range [OF len(1)] by (simp add: ring_of_def comp_def)
  then have "dict_update_all [] (ring_of rl n) = ring_of rl n"
    using d(1) by (simp add: dict_update_all_Nil)
  with rl len p0 es show ?thesis by (auto simp: get_ring_def Let_def)
qed

lemma ring_of_next:
  assumes "distinct rl" "set rl = {0..<n}" "0 \<le> i" "i < n"
  shows "dict_get (ring_of rl n) (rl ! nat i) = Some (rl ! nat ((i + n - 1) mod n), rl ! nat ((i + 1) mod n))"
proof -
  have len: "int (length rl) = n" using perm_at(1) [OF assms(1,2)] assms(3,4) by simp
  have "distinct (map fst (ring_of rl n))"
    using map_at_range [OF len] assms(1) by (simp add: ring_of_def comp_def)
  moreover have "(rl ! nat i, rl ! nat ((i + n - 1) mod n), rl ! nat ((i + 1) mod n)) \<in> set (ring_of rl n)"
    using assms(3,4) by (auto simp: ring_of_def)
  ultimately show ?thesis by (rule map_of_is_SomeI)
qed

lemma ring_numbers_eq:
  assumes "distinct rl" "set rl = {0..<n}" "0 \<le> a"
  shows "a < n \<Longrightarrow> ring_numbers (ring_of rl n) (py_range a (n - 1)) (rl ! nat a) rmap =
     Inr (dict_update_all rmap (map (\<lambda>i. (rl ! nat (i + 1), i + 1)) (py_range a (n - 1))))"
  using assms(3)
proof (induction "nat (n - 1 - a)" arbitrary: a rmap)
  case (Suc m)
  then have "(a + 1) mod n = a + 1" "m = nat (n - 1 - (a + 1))" "a < n - 1" by auto
  then show ?case
    using Suc.hyps(1) [of "a + 1" "dict_set rmap (rl ! nat (a + 1)) (a + 1)"] Suc.prems
      ring_of_next [OF assms(1,2), of a]
    by (simp add: py_range_rec dict_index_def)
qed (simp add: py_range_empty)

text \<open>The position of a node in the ring.\<close>

definition pos_in :: "int list \<Rightarrow> int \<Rightarrow> int" where
  "pos_in rl k = int (length (takeWhile (\<lambda>x. x \<noteq> k) rl))"

lemma pos_in_at:
  assumes "distinct rl" "int (length rl) = n" "0 \<le> i" "i < n"
  shows "pos_in rl (rl ! nat i) = i"
proof -
  have "takeWhile (\<lambda>x. x \<noteq> rl ! nat i) rl = take (nat i) rl"
    using assms by (intro takeWhile_eq_take_P_nth) (auto simp: nth_eq_iff_index_eq)
  with assms show ?thesis by (simp add: pos_in_def)
qed

lemma rmap_eq:
  assumes "distinct rl" "set rl = {0..<n}" "rl ! 0 = 0" "1 \<le> n"
  shows "\<exists>rmap. ring_numbers (ring_of rl n) (py_range 0 (n - 1)) 0 [(0, 0)] = Inr rmap
           \<and> (\<forall>k. 0 \<le> k \<and> k < n \<longrightarrow> dict_index rmap k = Inr (pos_in rl k))"
proof -
  let ?es = "map (\<lambda>i. (rl ! nat i, i)) (py_range 0 n)"
  have len: "int (length rl) = n" using perm_at(1) [OF assms(1,2)] assms(4) by simp
  have keys: "map fst ?es = rl" using map_at_range [OF len] by (simp add: comp_def)
  have shift: "map (\<lambda>i. (rl ! nat (i + 1), i + 1)) (py_range 0 (n - 1)) = map (\<lambda>i. (rl ! nat i, i)) (py_range 1 n)"
    by (intro nth_equalityI) (auto simp: py_range_def add.commute)
  have split: "?es = (0, 0) # map (\<lambda>i. (rl ! nat i, i)) (py_range 1 n)"
    using assms(3,4) py_range_rec [of 0 n] by simp
  have "map fst ?es = 0 # map (\<lambda>i. rl ! nat i) (py_range 1 n)" unfolding split by (simp add: comp_def)
  with keys assms(1) have dist: "distinct (0 # map (\<lambda>i. rl ! nat i) (py_range 1 n))" by metis
  have "dict_update_all [(0, 0)] (map (\<lambda>i. (rl ! nat (i + 1), i + 1)) (py_range 0 (n - 1))) = ?es"
    unfolding shift split using dist by (subst dict_update_all_fresh) (auto simp: comp_def)
  then have "ring_numbers (ring_of rl n) (py_range 0 (n - 1)) 0 [(0, 0)] = Inr ?es"
    using ring_numbers_eq [OF assms(1,2), of 0 "[(0, 0)]"] assms(3,4) by simp
  moreover have "dict_index ?es k = Inr (pos_in rl k)" if "0 \<le> k" "k < n" for k
  proof -
    obtain i where i: "0 \<le> i" "i < n" "rl ! nat i = k" using perm_at(4) [OF assms(1,2) \<open>0 \<le> k\<close> \<open>k < n\<close>] by blast
    have "dict_get ?es k = Some i"
    proof (rule map_of_is_SomeI)
      show "distinct (map fst ?es)" using keys assms(1) by metis
      show "(k, i) \<in> set ?es" using i by auto
    qed
    with i pos_in_at [OF assms(1) len i(1,2)] show ?thesis by (simp add: dict_index_def)
  qed
  ultimately show ?thesis by blast
qed

lemma dict_get_relabelled:
  assumes "inj_on f (set (py_range 0 n))" "0 \<le> r" "r < n"
  shows "dict_get (dict_update_all [] (map (\<lambda>r. (f r, g r)) (py_range 0 n))) (f r) = Some (g r)"
proof -
  have "distinct (map fst (map (\<lambda>r. (f r, g r)) (py_range 0 n)))"
    using assms(1) by (simp add: comp_def distinct_map)
  then have "dict_update_all [] (map (\<lambda>r. (f r, g r)) (py_range 0 n)) = map (\<lambda>r. (f r, g r)) (py_range 0 n)"
    by (rule dict_update_all_Nil)
  moreover have "dict_get (map (\<lambda>r. (f r, g r)) (py_range 0 n)) (f r) = Some (g r)"
    using assms by (intro map_of_is_SomeI) (auto simp: comp_def distinct_map)
  ultimately show ?thesis by simp
qed

lemma pos_in_bij:
  assumes "distinct rl" "set rl = {0..<n}"
  shows "bij_betw (pos_in rl) {0..<n} {0..<n}"
proof (cases "1 \<le> n")
  case True
  have len: "int (length rl) = n" using perm_at(1) [OF assms] True by simp
  show ?thesis
  proof (rule bij_betw_byWitness [where f' = "\<lambda>i. rl ! nat i"])
    show "\<forall>a \<in> {0..<n}. rl ! nat (pos_in rl a) = a"
      using perm_at(4) [OF assms] pos_in_at [OF assms(1) len] by fastforce
    show "\<forall>a \<in> {0..<n}. pos_in rl (rl ! nat a) = a" using pos_in_at [OF assms(1) len] by simp
    show "pos_in rl ` {0..<n} \<subseteq> {0..<n}"
      using perm_at(4) [OF assms] pos_in_at [OF assms(1) len] by fastforce
    show "(\<lambda>i. rl ! nat i) ` {0..<n} \<subseteq> {0..<n}" using perm_at(3) [OF assms] by auto
  qed
qed (simp add: bij_betw_def)

lemma get_link_map_eq:
  assumes "iter_ok it" "1 \<le> n" "n < 2 ^ limit"
  shows "\<exists>rl. ring_list n 0 rl \<and> get_link_map it limit n =
     Inr (dict_update_all [] (map (\<lambda>r. (pos_in rl r, map (pos_in rl) (get_neighbor r n))) (py_range 0 n)),
          dict_update_all [] (map (\<lambda>r. (pos_in rl r, if r = 0 then -1 else pos_in rl ((r + 1) div 2 - 1))) (py_range 0 n)),
          dict_update_all [] (map (\<lambda>i. (i, (i + n - 1) mod n, (i + 1) mod n)) (py_range 0 n)))"
proof -
  obtain rl where rl: "ring_list n 0 rl"
      "get_ring it limit (fst (get_tree n)) (snd (get_tree n)) = Inr (ring_of rl n)"
    using get_ring_eq [OF assms] by blast
  have d: "distinct rl" "set rl = {0..<n}" "rl ! 0 = 0"
    using rl(1) by (auto simp: ring_list_def desc_root hd_conv_nth)
  have len: "int (length rl) = n" using perm_at(1) [OF d(1,2)] assms(2) by simp
  obtain rmap where rm: "ring_numbers (ring_of rl n) (py_range 0 (n - 1)) 0 [(0, 0)] = Inr rmap"
      "\<And>k. 0 \<le> k \<Longrightarrow> k < n \<Longrightarrow> dict_index rmap k = Inr (pos_in rl k)"
    using rmap_eq [OF d assms(2)] by blast
  have at: "dict_index rmap (rl ! nat i) = Inr i" if "0 \<le> i" "i < n" for i
    using rm(2) perm_at(3) [OF d(1,2) that] pos_in_at [OF d(1) len that] by simp
  have md: "0 \<le> x mod n" "x mod n < n" for x using assms(2) by simp_all
  have ring: "map_res (\<lambda>(k, v0, v1). bind_res (dict_index rmap k) (\<lambda>k'. bind_res (dict_index rmap v0) (\<lambda>a.
        bind_res (dict_index rmap v1) (\<lambda>b. Inr (k', (a, b)))))) (ring_of rl n) =
      Inr (map (\<lambda>i. (i, (i + n - 1) mod n, (i + 1) mod n)) (py_range 0 n))"
    unfolding ring_of_def map_res_map by (rule map_res_Inr_map) (simp add: at md)
  have nb: "map_res (dict_index rmap) (get_neighbor r n) = Inr (map (pos_in rl) (get_neighbor r n))"
    if "0 \<le> r" "r < n" for r
    by (rule map_res_Inr_map) (use get_neighbor_range [OF that] rm(2) in blast)
  have tree: "map_res (\<lambda>(k, v). bind_res (map_res (dict_index rmap) v) (\<lambda>v'.
        bind_res (dict_index rmap k) (\<lambda>k'. Inr (k', v')))) (fst (get_tree n)) =
      Inr (map (\<lambda>r. (pos_in rl r, map (pos_in rl) (get_neighbor r n))) (py_range 0 n))"
    unfolding get_tree_eq fst_conv map_res_map
    by (rule map_res_Inr_map) (simp add: rm(2) nb)
  have par: "0 \<le> (r + 1) div 2 - 1 \<and> (r + 1) div 2 - 1 < n" if "0 \<le> r" "r < n" "r \<noteq> 0" for r
    using that by presburger
  have parent: "map_res (\<lambda>(k, v). bind_res (if k \<noteq> 0 then dict_index rmap v else Inr (-1)) (\<lambda>v'.
        bind_res (dict_index rmap k) (\<lambda>k'. Inr (k', v')))) (snd (get_tree n)) =
      Inr (map (\<lambda>r. (pos_in rl r, if r = 0 then -1 else pos_in rl ((r + 1) div 2 - 1))) (py_range 0 n))"
    unfolding get_tree_eq snd_conv map_res_map by (rule map_res_Inr_map) (use rm(2) par in auto)
  show ?thesis
    using rl rm(1) ring tree parent
    by (intro exI [of _ rl]) (simp add: get_link_map_def Let_def split_beta)
qed

lemma get_link_map_spec:
  assumes "iter_ok it" "1 \<le> n" "n < 2 ^ limit"
  shows "\<exists>\<sigma> T P R. get_link_map it limit n = Inr (T, P, R) \<and> bij_betw \<sigma> {0..<n} {0..<n} \<and> \<sigma> 0 = 0
     \<and> (\<forall>i. 0 \<le> i \<and> i < n \<longrightarrow>
           dict_get R i = Some ((i + n - 1) mod n, (i + 1) mod n)
           \<and> dict_get T (\<sigma> i) = Some (map \<sigma> (get_neighbor i n))
           \<and> dict_get P (\<sigma> i) = Some (if i = 0 then -1 else \<sigma> ((i + 1) div 2 - 1)))
     \<and> (2 \<le> n \<longrightarrow> n - 1 \<in> set (map \<sigma> (get_neighbor 0 n)))"
proof -
  obtain rl where rl: "ring_list n 0 rl"
    and eq: "get_link_map it limit n =
     Inr (dict_update_all [] (map (\<lambda>r. (pos_in rl r, map (pos_in rl) (get_neighbor r n))) (py_range 0 n)),
          dict_update_all [] (map (\<lambda>r. (pos_in rl r, if r = 0 then -1 else pos_in rl ((r + 1) div 2 - 1))) (py_range 0 n)),
          dict_update_all [] (map (\<lambda>i. (i, (i + n - 1) mod n, (i + 1) mod n)) (py_range 0 n)))"
    using get_link_map_eq [OF assms] by blast
  have d: "distinct rl" "set rl = {0..<n}" "rl ! 0 = 0" "rl \<noteq> []"
    using rl by (auto simp: ring_list_def desc_root hd_conv_nth)
  have len: "int (length rl) = n" using perm_at(1) [OF d(1,2)] assms(2) by simp
  have bij: "bij_betw (pos_in rl) {0..<n} {0..<n}" by (rule pos_in_bij [OF d(1,2)])
  then have inj: "inj_on (pos_in rl) (set (py_range 0 n))" by (simp add: bij_betw_def)
  have zero: "pos_in rl 0 = 0" using pos_in_at [OF d(1) len, of 0] d(3) assms(2) by simp
  have "n - 1 \<in> set (map (pos_in rl) (get_neighbor 0 n))" if "2 \<le> n"
  proof -
    have "rl \<noteq> [0]" using len that by auto
    then have "last rl \<in> set (get_neighbor 0 n)" using rl that by (auto simp: ring_list_def get_neighbor_def)
    moreover have "length rl - 1 = nat (n - 1)" using len by arith
    then have "last rl = rl ! nat (n - 1)" using last_conv_nth [OF d(4)] by simp
    then have "pos_in rl (last rl) = n - 1"
      using pos_in_at [OF d(1) len, of "n - 1"] that by simp
    ultimately show ?thesis by (metis image_eqI set_map)
  qed
  moreover have id: "inj_on (\<lambda>i. i) (set (py_range 0 n))" by simp
  ultimately show ?thesis
    using bij zero
    by (intro exI [of _ "pos_in rl"])
       (simp add: eq dict_get_relabelled [OF inj] dict_get_relabelled [OF id])
qed

text \<open>
  C34. The links the tracker hands out: for n nodes, n at least 1, the tracker computes a renumbering
  of the nodes that keeps the root, such that in the new numbers the ring is the natural order
  0, 1, ..., n - 1 and back to 0, the tree links and parents are those of the binary tree, and the
  link that closes the ring is a tree link. Any iteration order of Python sets gives such a result.
\<close>

theorem get_link_map_correct:
  assumes "iter_ok it" "1 \<le> n" "n < 2 ^ limit"
  shows "\<exists>\<sigma> T P R. get_link_map it limit n = Inr (T, P, R) \<and> bij_betw \<sigma> {0..<n} {0..<n} \<and> \<sigma> 0 = 0
     \<and> (\<forall>i. 0 \<le> i \<and> i < n \<longrightarrow>
           dict_get R i = Some ((i + n - 1) mod n, (i + 1) mod n)
           \<and> dict_get T (\<sigma> i) = Some (map \<sigma> (get_neighbor i n))
           \<and> dict_get P (\<sigma> i) = Some (if i = 0 then -1 else \<sigma> ((i + 1) div 2 - 1)))
     \<and> (2 \<le> n \<longrightarrow> n - 1 \<in> set (map \<sigma> (get_neighbor 0 n)))"
  by (rule get_link_map_spec [OF assms])

theorem get_link_map_correct_witness:
  "\<exists>\<sigma> T P R. get_link_map sorted_list_of_set 4 7 = Inr (T, P, R) \<and> bij_betw \<sigma> {0..<7} {0..<7} \<and> \<sigma> 0 = 0
     \<and> (\<forall>i. 0 \<le> i \<and> i < 7 \<longrightarrow>
           dict_get R i = Some ((i + 7 - 1) mod 7, (i + 1) mod 7)
           \<and> dict_get T (\<sigma> i) = Some (map \<sigma> (get_neighbor i 7))
           \<and> dict_get P (\<sigma> i) = Some (if i = 0 then -1 else \<sigma> ((i + 1) div 2 - 1)))
     \<and> (2 \<le> (7 :: int) \<longrightarrow> 7 - 1 \<in> set (map \<sigma> (get_neighbor 0 7)))"
  by (rule get_link_map_correct) (simp_all add: iter_ok_sorted)

text \<open>With no node at all the tracker fails: the tree has no root.\<close>

lemma get_link_map_zero: "n \<le> 0 \<Longrightarrow> get_link_map it limit n = Inl KeyError"
  by (simp add: get_link_map_def get_tree_def py_range_def get_ring_def dict_index_def Let_def)

end
