(* ===== verification/Tracker.thy ===== *)
theory Tracker
  imports Tracker_Topology Py_Strings "HOL-Library.List_Lexorder" "HOL-Library.Char_ord"
begin

text \<open>
  The tracker protocol, \<^verbatim>\<open>ps-lite/tracker/tracker.py\<close>: the hand-shake that gives a node its rank and
  its links (\<open>SlaveEntry.assign_rank\<close>) and the accept loop (\<open>RabitTracker.accept_slaves\<close>). The
  topology it hands out is in \<open>Tracker_Topology\<close>.

  A connection is the record of what the node says: its entry data and the rounds of replies it will
  give while it sets up its links. Reading from a node that says nothing more never returns; that
  outcome is \<open>Hang\<close>. What the tracker sends is recorded as a list of wire values.
\<close>

datatype 'a outcome = Hang | Raise py_error | Return 'a

fun bind_out :: "'a outcome \<Rightarrow> ('a \<Rightarrow> 'b outcome) \<Rightarrow> 'b outcome" where
  "bind_out Hang f = Hang"
| "bind_out (Raise e) f = Raise e"
| "bind_out (Return x) f = f x"

definition of_res :: "'a res \<Rightarrow> 'a outcome" where
  "of_res r = (case r of Inl e \<Rightarrow> Raise e | Inr x \<Rightarrow> Return x)"

lemma of_res_simps [simp]: "of_res (Inl e) = Raise e" "of_res (Inr x) = Return x"
  by (simp_all add: of_res_def)

datatype wire = SInt int | SStr string

record reply =
  rp_good :: "int list"
  rp_nerr :: int
  rp_port :: int

record slave =
  sl_host :: string
  sl_rank :: int
  sl_world_size :: int
  sl_jobid :: string
  sl_cmd :: string
  sl_replies :: "reply list"

record waiting =
  wt_host :: string
  wt_port :: int
  wt_accept :: int

type_synonym wait_map = "(int, waiting) dict"
type_synonym links = "(int, int list) dict \<times> (int, int) dict \<times> (int, int \<times> int) dict"

section \<open>One node\<close>

definition decide_rank :: "slave \<Rightarrow> (string, int) dict \<Rightarrow> int" where
  "decide_rank s job_map =
     (if sl_rank s \<ge> 0 then sl_rank s
      else if sl_jobid s \<noteq> ''NULL''
      then (case dict_get job_map (sl_jobid s) of Some r \<Rightarrow> r | None \<Rightarrow> -1)
      else -1)"

text \<open>The nodes in the list have accepted one connection each; those that wait no longer are returned.\<close>

fun accept_links :: "wait_map \<Rightarrow> int list \<Rightarrow> wait_map \<times> int list" where
  "accept_links wc [] = (wc, [])"
| "accept_links wc (r # rs) =
     (case dict_get wc r of
        None \<Rightarrow> accept_links wc rs
      | Some w \<Rightarrow>
          let w' = w\<lparr>wt_accept := wt_accept w - 1\<rparr>;
              (wc', rm) = accept_links (dict_set wc r w') rs
          in (wc', if wt_accept w' = 0 then r # rm else rm))"

record assigned =
  as_sent :: "wire list"
  as_wait :: wait_map
  as_accept :: int
  as_port :: int

fun link_rounds ::
    "(int set \<Rightarrow> int list) \<Rightarrow> int set \<Rightarrow> wait_map \<Rightarrow> reply list \<Rightarrow> wire list \<Rightarrow> assigned outcome" where
  "link_rounds it nnset wait_conn [] sent = Hang"
| "link_rounds it nnset wait_conn (rp # rps) sent =
     (let goodset = set (rp_good rp)
      in if \<not> goodset \<subseteq> nnset then Raise AssertionError
         else let badset = nnset - goodset;
                  conset = filter (dict_has wait_conn) (it badset);
                  sent' = sent @ [SInt (int (length conset)), SInt (int (card badset) - int (length conset))]
                            @ concat (map (\<lambda>r. case dict_get wait_conn r of
                                                 None \<Rightarrow> []
                                               | Some w \<Rightarrow> [SStr (wt_host w), SInt (wt_port w), SInt r]) conset)
              in if rp_nerr rp \<noteq> 0 then link_rounds it nnset wait_conn rps sent'
                 else let (wc, rmset) = accept_links wait_conn conset
                      in Return \<lparr>as_sent = sent', as_wait = foldl (\<lambda>m r. AList.delete r m) wc rmset,
                                 as_accept = int (card badset) - int (length conset), as_port = rp_port rp\<rparr>)"

definition link_set :: "links \<Rightarrow> int \<Rightarrow> int set" where
  "link_set maps rank =
     (case maps of (tree_map, _, ring_map) \<Rightarrow>
        (case (dict_get tree_map rank, dict_get ring_map rank) of
           (Some nn, Some (rprev, rnext)) \<Rightarrow>
             set nn \<union> (if rprev \<noteq> -1 \<and> rprev \<noteq> rank then {rprev} else {})
                    \<union> (if rnext \<noteq> -1 \<and> rnext \<noteq> rank then {rnext} else {})
         | _ \<Rightarrow> {}))"

definition assign_rank ::
    "(int set \<Rightarrow> int list) \<Rightarrow> slave \<Rightarrow> int \<Rightarrow> wait_map \<Rightarrow> links \<Rightarrow> assigned outcome" where
  "assign_rank it s rank wait_conn maps =
     (case maps of (tree_map, parent_map, ring_map) \<Rightarrow>
        bind_out (of_res (dict_index tree_map rank)) (\<lambda>nn.
        bind_out (of_res (dict_index ring_map rank)) (\<lambda>(rprev, rnext).
        bind_out (of_res (dict_index parent_map rank)) (\<lambda>parent.
          let sent = [SInt rank, SInt parent, SInt (int (length tree_map)), SInt (int (card (set nn)))]
                       @ map SInt (it (set nn))
                       @ [SInt (if rprev \<noteq> -1 \<and> rprev \<noteq> rank then rprev else -1)]
                       @ [SInt (if rnext \<noteq> -1 \<and> rnext \<noteq> rank then rnext else -1)]
          in link_rounds it (link_set maps rank) wait_conn (sl_replies s) sent))))"

section \<open>The accept loop\<close>

record tracker =
  tr_shutdown :: "int list"
  tr_wait :: wait_map
  tr_jobs :: "(string, int) dict"
  tr_pending :: "slave list"
  tr_links :: "links option"
  tr_todo :: "int list"
  tr_nslave :: int
  tr_log :: "(int \<times> string \<times> wire list) list"

definition tracker_init :: "int \<Rightarrow> tracker" where
  "tracker_init nslave =
     \<lparr>tr_shutdown = [], tr_wait = [], tr_jobs = [], tr_pending = [], tr_links = None, tr_todo = [],
      tr_nslave = nslave, tr_log = []\<rparr>"

definition assign_to :: "(int set \<Rightarrow> int list) \<Rightarrow> links \<Rightarrow> tracker \<Rightarrow> slave \<Rightarrow> int \<Rightarrow> tracker outcome" where
  "assign_to it maps tr s rank =
     bind_out (assign_rank it s rank (tr_wait tr) maps) (\<lambda>a.
       let wc = as_wait a
       in Return (tr\<lparr>tr_wait := (if as_accept a > 0
                                 then dict_set wc rank \<lparr>wt_host = sl_host s, wt_port = as_port a, wt_accept = as_accept a\<rparr>
                                 else wc),
                     tr_log := tr_log tr @ [(rank, sl_host s, as_sent a)]\<rparr>))"

fun assign_pending :: "(int set \<Rightarrow> int list) \<Rightarrow> links \<Rightarrow> tracker \<Rightarrow> slave list \<Rightarrow> tracker outcome" where
  "assign_pending it maps tr [] = Return tr"
| "assign_pending it maps tr (s # ss) =
     (case tr_todo tr of
        [] \<Rightarrow> Raise IndexError
      | rank # rest \<Rightarrow>
          let tr1 = tr\<lparr>tr_todo := rest,
                       tr_jobs := (if sl_jobid s \<noteq> ''NULL'' then dict_set (tr_jobs tr) (sl_jobid s) rank else tr_jobs tr)\<rparr>
          in bind_out (assign_to it maps tr1 s rank) (\<lambda>tr2. assign_pending it maps tr2 ss))"

definition start_links :: "(int set \<Rightarrow> int list) \<Rightarrow> nat \<Rightarrow> tracker \<Rightarrow> slave \<Rightarrow> (tracker \<times> links) res" where
  "start_links it limit tr s =
     (case tr_links tr of
        None \<Rightarrow>
          bind_res (assert_res (sl_cmd s = ''start'')) (\<lambda>_.
            let nslave = (if sl_world_size s > 0 then sl_world_size s else tr_nslave tr)
            in bind_res (get_link_map it limit nslave) (\<lambda>maps.
                 Inr (tr\<lparr>tr_nslave := nslave, tr_links := Some maps, tr_todo := py_range 0 nslave\<rparr>, maps)))
      | Some maps \<Rightarrow>
          bind_res (assert_res (sl_world_size s = -1 \<or> sl_world_size s = tr_nslave tr)) (\<lambda>_. Inr (tr, maps)))"

definition accept_one :: "(int set \<Rightarrow> int list) \<Rightarrow> nat \<Rightarrow> tracker \<Rightarrow> slave \<Rightarrow> tracker outcome" where
  "accept_one it limit tr s =
     (if sl_cmd s = ''print'' then Return tr
      else if sl_cmd s = ''shutdown''
      then bind_out (of_res (assert_res (sl_rank s \<ge> 0 \<and> sl_rank s \<notin> set (tr_shutdown tr)))) (\<lambda>_.
           bind_out (of_res (assert_res (\<not> dict_has (tr_wait tr) (sl_rank s)))) (\<lambda>_.
             Return (tr\<lparr>tr_shutdown := tr_shutdown tr @ [sl_rank s]\<rparr>)))
      else bind_out (of_res (assert_res (sl_cmd s = ''start'' \<or> sl_cmd s = ''recover''))) (\<lambda>_.
           bind_out (of_res (start_links it limit tr s)) (\<lambda>(tr, maps).
           bind_out (of_res (if sl_cmd s = ''recover'' then assert_res (sl_rank s \<ge> 0) else Inr ())) (\<lambda>_.
             let rank = decide_rank s (tr_jobs tr)
             in if rank = -1
                then bind_out (of_res (assert_res (length (tr_todo tr) \<noteq> 0))) (\<lambda>_.
                       let tr = tr\<lparr>tr_pending := tr_pending tr @ [s]\<rparr>
                       in if length (tr_pending tr) = length (tr_todo tr)
                          then let pend = sort_key sl_host (tr_pending tr)
                               in assign_pending it maps (tr\<lparr>tr_pending := pend\<rparr>) pend
                          else Return tr)
                else assign_to it maps tr s rank))))"

fun accept_slaves :: "(int set \<Rightarrow> int list) \<Rightarrow> nat \<Rightarrow> tracker \<Rightarrow> slave list \<Rightarrow> tracker outcome" where
  "accept_slaves it limit tr conns =
     (if int (length (tr_shutdown tr)) = tr_nslave tr then Return tr
      else case conns of
             [] \<Rightarrow> Hang
           | s # ss \<Rightarrow> bind_out (accept_one it limit tr s) (\<lambda>tr'. accept_slaves it limit tr' ss))"

declare accept_slaves.simps [simp del]

section \<open>Waiting nodes\<close>

text \<open>The nodes that wait for connections, by the number of connections they still wait for.\<close>

definition wait_count :: "wait_map \<Rightarrow> int \<Rightarrow> int option" where
  "wait_count wc i = map_option wt_accept (dict_get wc i)"

lemma dict_has_wait_count: "dict_has wc i \<longleftrightarrow> wait_count wc i \<noteq> None"
  by (simp add: dict_has_def wait_count_def)

lemma wait_count_set:
  "wait_count (dict_set wc r w) i = (if i = r then Some (wt_accept w) else wait_count wc i)"
  by (simp add: wait_count_def)

lemma wait_count_delete_all:
  "wait_count (foldl (\<lambda>m r. AList.delete r m) wc rs) i = (if i \<in> set rs then None else wait_count wc i)"
  by (induction rs arbitrary: wc) (auto simp: wait_count_def delete_conv')

lemma accept_links_spec:
  "distinct rs \<Longrightarrow> \<forall>r \<in> set rs. dict_has wc r \<Longrightarrow>
   (\<forall>i. wait_count (fst (accept_links wc rs)) i =
        (if i \<in> set rs then map_option (\<lambda>a. a - 1) (wait_count wc i) else wait_count wc i))
   \<and> snd (accept_links wc rs) = filter (\<lambda>r. wait_count wc r = Some 1) rs"
proof (induction rs arbitrary: wc)
  case (Cons r rs)
  obtain w where w: "dict_get wc r = Some w" using Cons.prems(2) by (auto simp: dict_has_def)
  let ?wc = "dict_set wc r (w\<lparr>wt_accept := wt_accept w - 1\<rparr>)"
  have c: "wait_count ?wc i = (if i = r then Some (wt_accept w - 1) else wait_count wc i)" for i
    by (simp add: wait_count_set)
  have "\<forall>r \<in> set rs. dict_has ?wc r" using Cons.prems(2) by simp
  note IH = Cons.IH [of ?wc, OF _ this]
  have r: "wait_count wc r = Some (wt_accept w)" using w by (simp add: wait_count_def)
  have f: "filter (\<lambda>r. wait_count ?wc r = Some 1) rs = filter (\<lambda>r. wait_count wc r = Some 1) rs"
    using Cons.prems(1) by (intro filter_cong) (auto simp: c)
  show ?case using IH Cons.prems(1) w r c f by (auto simp: Let_def split_beta)
qed simp

text \<open>
  Every node in the map of waiting nodes still waits for at least one connection.
\<close>

definition wait_ok :: "wait_map \<Rightarrow> bool" where
  "wait_ok wc \<longleftrightarrow> (\<forall>i a. wait_count wc i = Some a \<longrightarrow> 0 < a)"

lemma accept_links_wait_ok:
  assumes "wait_ok wc" "distinct rs" "\<forall>r \<in> set rs. dict_has wc r"
  shows "wait_ok (foldl (\<lambda>m r. AList.delete r m) (fst (accept_links wc rs)) (snd (accept_links wc rs)))"
  unfolding wait_ok_def
proof (intro allI impI)
  fix i a
  assume a: "wait_count (foldl (\<lambda>m r. AList.delete r m) (fst (accept_links wc rs)) (snd (accept_links wc rs))) i = Some a"
  note sp = accept_links_spec [OF assms(2,3)]
  show "0 < a"
  proof (cases "i \<in> set rs")
    case True
    then obtain b where b: "wait_count wc i = Some b"
      using assms(3) by (auto simp: dict_has_wait_count)
    with assms(1) have "0 < b" by (simp add: wait_ok_def)
    with a True b sp show ?thesis by (auto simp: wait_count_delete_all split: if_splits)
  next
    case False
    with a sp assms(1) show ?thesis by (auto simp: wait_count_delete_all wait_ok_def split: if_splits)
  qed
qed

lemma link_rounds_wait_ok:
  "iter_ok it \<Longrightarrow> finite nnset \<Longrightarrow> wait_ok wc \<Longrightarrow> link_rounds it nnset wc rps sent = Return a \<Longrightarrow> wait_ok (as_wait a)"
proof (induction rps arbitrary: sent)
  case (Cons rp rps)
  let ?con = "filter (dict_has wc) (it (nnset - set (rp_good rp)))"
  have "wait_ok (foldl (\<lambda>m r. AList.delete r m) (fst (accept_links wc ?con)) (snd (accept_links wc ?con)))"
    using Cons.prems(1-3) by (intro accept_links_wait_ok) (auto simp: iter_ok_def)
  then show ?case
    using Cons by (auto simp: Let_def split_beta split: if_splits)
qed simp

lemma finite_link_set: "finite (link_set maps r)"
  by (auto simp: link_set_def split: prod.splits option.splits)

lemma assign_to_wait_ok:
  assumes "iter_ok it" "wait_ok (tr_wait tr)" "assign_to it maps tr s rank = Return tr'"
  shows "wait_ok (tr_wait tr')"
proof -
  obtain a where a: "assign_rank it s rank (tr_wait tr) maps = Return a"
    using assms(3) by (cases "assign_rank it s rank (tr_wait tr) maps") (auto simp: assign_to_def)
  obtain sent where "link_rounds it (link_set maps rank) (tr_wait tr) (sl_replies s) sent = Return a"
    using a by (cases maps) (auto simp: assign_rank_def Let_def dict_index_def of_option_def split: option.splits prod.splits)
  from link_rounds_wait_ok [OF assms(1) finite_link_set assms(2) this] show ?thesis
    using assms(3) a by (auto simp: assign_to_def Let_def wait_ok_def wait_count_set split: if_splits)
qed

lemma assign_pending_wait_ok:
  "iter_ok it \<Longrightarrow> wait_ok (tr_wait tr) \<Longrightarrow> assign_pending it maps tr ss = Return tr' \<Longrightarrow> wait_ok (tr_wait tr')"
proof (induction ss arbitrary: tr)
  case (Cons s ss)
  obtain rank rest where t: "tr_todo tr = rank # rest" using Cons.prems(3) by (cases "tr_todo tr") auto
  let ?tr = "tr\<lparr>tr_todo := rest, tr_jobs := (if sl_jobid s \<noteq> ''NULL'' then dict_set (tr_jobs tr) (sl_jobid s) rank else tr_jobs tr)\<rparr>"
  obtain tr2 where "assign_to it maps ?tr s rank = Return tr2" "assign_pending it maps tr2 ss = Return tr'"
    using Cons.prems(3) t by (cases "assign_to it maps ?tr s rank") (auto simp: Let_def)
  then show ?case
    using Cons.IH [of tr2] Cons.prems(1,2) assign_to_wait_ok [of it ?tr maps s rank tr2] by simp
qed simp

section \<open>The invariant of the accept loop\<close>

definition tracker_ok :: "tracker \<Rightarrow> bool" where
  "tracker_ok tr \<longleftrightarrow> wait_ok (tr_wait tr) \<and> distinct (tr_shutdown tr) \<and> (\<forall>r \<in> set (tr_shutdown tr). 0 \<le> r)"

lemma tracker_ok_init: "tracker_ok (tracker_init n)"
  by (simp add: tracker_ok_def tracker_init_def wait_ok_def wait_count_def)

lemma assign_to_shutdown: "assign_to it maps tr s rank = Return tr' \<Longrightarrow> tr_shutdown tr' = tr_shutdown tr"
  by (cases "assign_rank it s rank (tr_wait tr) maps") (auto simp: assign_to_def Let_def)

lemma assign_pending_shutdown: "assign_pending it maps tr ss = Return tr' \<Longrightarrow> tr_shutdown tr' = tr_shutdown tr"
proof (induction ss arbitrary: tr)
  case (Cons s ss)
  obtain rank rest where t: "tr_todo tr = rank # rest" using Cons.prems by (cases "tr_todo tr") auto
  let ?tr = "tr\<lparr>tr_todo := rest, tr_jobs := (if sl_jobid s \<noteq> ''NULL'' then dict_set (tr_jobs tr) (sl_jobid s) rank else tr_jobs tr)\<rparr>"
  obtain tr2 where "assign_to it maps ?tr s rank = Return tr2" "assign_pending it maps tr2 ss = Return tr'"
    using Cons.prems t by (cases "assign_to it maps ?tr s rank") (auto simp: Let_def)
  then show ?case using Cons.IH [of tr2] assign_to_shutdown [of it maps ?tr s rank tr2] by simp
qed simp

lemma start_links_keeps:
  "start_links it limit tr s = Inr (tr', maps) \<Longrightarrow> tr_wait tr' = tr_wait tr \<and> tr_shutdown tr' = tr_shutdown tr"
  by (auto simp: start_links_def res_simps Let_def split: option.splits)

lemma bind_out_Return: "bind_out m f = Return y \<longleftrightarrow> (\<exists>x. m = Return x \<and> f x = Return y)"
  by (cases m) auto

lemma of_res_Return: "of_res r = Return x \<longleftrightarrow> r = Inr x"
  by (cases r) auto

lemmas outcome_simps = bind_out_Return of_res_Return

lemma accept_one_ok:
  assumes "iter_ok it" "tracker_ok tr" "accept_one it limit tr s = Return tr'"
  shows "tracker_ok tr'"
proof (cases "sl_cmd s = ''print'' \<or> sl_cmd s = ''shutdown''")
  case True
  with assms(2,3) show ?thesis
    by (auto simp: accept_one_def outcome_simps tracker_ok_def split: if_splits)
next
  case False
  then obtain tr1 maps where l: "start_links it limit tr s = Inr (tr1, maps)"
    using assms(3) by (auto simp: accept_one_def outcome_simps)
  have ok1: "wait_ok (tr_wait tr1)" "tr_shutdown tr1 = tr_shutdown tr"
    using start_links_keeps [OF l] assms(2) by (auto simp: tracker_ok_def)
  let ?tr = "tr1\<lparr>tr_pending := tr_pending tr1 @ [s]\<rparr>"
  let ?pend = "sort_key sl_host (tr_pending ?tr)"
  have "wait_ok (tr_wait tr') \<and> tr_shutdown tr' = tr_shutdown tr"
  proof (cases "decide_rank s (tr_jobs tr1) = -1")
    case True
    show ?thesis
    proof (cases "length (tr_pending ?tr) = length (tr_todo tr1)")
      case all: True
      then have "assign_pending it maps (?tr\<lparr>tr_pending := ?pend\<rparr>) ?pend = Return tr'"
        using assms(3) False l True by (simp add: accept_one_def outcome_simps) (simp add: Let_def)
      with assms(1) ok1 show ?thesis
        using assign_pending_wait_ok [of it "?tr\<lparr>tr_pending := ?pend\<rparr>"]
          assign_pending_shutdown [of it maps "?tr\<lparr>tr_pending := ?pend\<rparr>"] by simp
    next
      case False
      then have "tr' = ?tr"
        using assms(3) \<open>\<not> (sl_cmd s = ''print'' \<or> sl_cmd s = ''shutdown'')\<close> l True
        by (simp add: accept_one_def outcome_simps)
      with ok1 show ?thesis by simp
    qed
  next
    case other: False
    then have "assign_to it maps tr1 s (decide_rank s (tr_jobs tr1)) = Return tr'"
      using assms(3) False l by (simp add: accept_one_def outcome_simps Let_def)
    with assms(1) ok1 show ?thesis using assign_to_wait_ok assign_to_shutdown by metis
  qed
  with assms(2) show ?thesis by (simp add: tracker_ok_def)
qed

text \<open>
  C35. The tracker's bookkeeping stays sound whatever the nodes do: a node is listed as waiting only
  while it waits for at least one connection, and when the accept loop ends, exactly as many
  distinct ranks as there are nodes have signed off.
\<close>

theorem accept_slaves_ok:
  assumes "iter_ok it" "tracker_ok tr" "accept_slaves it limit tr conns = Return tr'"
  shows "tracker_ok tr' \<and> int (card (set (tr_shutdown tr'))) = tr_nslave tr'"
  using assms(2,3)
proof (induction conns arbitrary: tr)
  case Nil
  then show ?case
    by (auto simp: accept_slaves.simps tracker_ok_def distinct_card split: if_splits)
next
  case (Cons s ss)
  show ?case
  proof (cases "int (length (tr_shutdown tr)) = tr_nslave tr")
    case True
    with Cons.prems show ?thesis by (auto simp: accept_slaves.simps [of it limit tr] tracker_ok_def distinct_card)
  next
    case False
    then obtain tr1 where "accept_one it limit tr s = Return tr1" "accept_slaves it limit tr1 ss = Return tr'"
      using Cons.prems(2) by (auto simp: accept_slaves.simps [of it limit tr] outcome_simps)
    with Cons.IH [of tr1] Cons.prems(1) accept_one_ok [OF assms(1)] show ?thesis by blast
  qed
qed

section \<open>Starting all nodes\<close>

text \<open>A link relation as the tracker hands it out for \<open>n\<close> nodes.\<close>

definition links_ok :: "int \<Rightarrow> links \<Rightarrow> bool" where
  "links_ok n maps \<longleftrightarrow>
     (case maps of (T, P, R) \<Rightarrow> \<forall>i. 0 \<le> i \<and> i < n \<longrightarrow>
        (\<exists>nn p r. dict_get T i = Some nn \<and> dict_get P i = Some p \<and> dict_get R i = Some r))
     \<and> (\<forall>i j. 0 \<le> i \<and> i < n \<longrightarrow> j \<in> link_set maps i \<longrightarrow>
          0 \<le> j \<and> j < n \<and> j \<noteq> i \<and> i \<in> link_set maps j)"

text \<open>After ranks below \<open>r\<close> have started, exactly those with a link to a later rank wait, each for
  as many connections as it has such links.\<close>

definition waits_for :: "links \<Rightarrow> int \<Rightarrow> wait_map \<Rightarrow> bool" where
  "waits_for maps r wc \<longleftrightarrow>
     (\<forall>i. wait_count wc i =
        (let later = {j \<in> link_set maps i. r \<le> j}
         in if 0 \<le> i \<and> i < r \<and> later \<noteq> {} then Some (int (card later)) else None))"

text \<open>A node that reports no established link and then sets up all of them without an error.\<close>

definition willing :: "slave \<Rightarrow> bool" where
  "willing s = (case sl_replies s of [] \<Rightarrow> False | rp # _ \<Rightarrow> rp_good rp = [] \<and> rp_nerr rp = 0)"

lemma later_step:
  assumes "finite L"
  shows "{j \<in> L. r + 1 \<le> j} = {j \<in> L. r \<le> j} - {r :: int}"
    "r \<in> L \<Longrightarrow> int (card {j \<in> L. r + 1 \<le> j}) = int (card {j \<in> L. r \<le> j}) - 1"
proof -
  show e: "{j \<in> L. r + 1 \<le> j} = {j \<in> L. r \<le> j} - {r}" by auto
  show "int (card {j \<in> L. r + 1 \<le> j}) = int (card {j \<in> L. r \<le> j}) - 1" if "r \<in> L"
    using that assms card_gt_0_iff [of "{j \<in> L. r \<le> j}"] unfolding e
    by (subst card_Diff_singleton) (auto simp: of_nat_diff Suc_le_eq)
qed

lemma links_okD:
  assumes "links_ok n maps" "0 \<le> i" "i < n" "j \<in> link_set maps i"
  shows "0 \<le> j" "j < n" "j \<noteq> i" "i \<in> link_set maps j"
  using assms unfolding links_ok_def by blast+

lemma links_ok_maps:
  assumes "links_ok n (T, P, R)" "0 \<le> i" "i < n"
  shows "\<exists>nn p rp rn. dict_get T i = Some nn \<and> dict_get P i = Some p \<and> dict_get R i = Some (rp, rn)"
  using assms unfolding links_ok_def prod.case by (metis surj_pair)

lemma connectable:
  assumes "iter_ok it" "links_ok n maps" "0 \<le> r" "r < n" "waits_for maps r wc"
  shows "set (filter (dict_has wc) (it (link_set maps r))) = {i \<in> link_set maps r. i < r}"
    "distinct (filter (dict_has wc) (it (link_set maps r)))"
    "int (card (link_set maps r)) - int (length (filter (dict_has wc) (it (link_set maps r))))
       = int (card {j \<in> link_set maps r. r + 1 \<le> j})"
proof -
  let ?L = "link_set maps r"
  have it: "distinct (it ?L)" "set (it ?L) = ?L"
    using assms(1) finite_link_set by (auto simp: iter_ok_def)
  have mem: "dict_has wc i \<longleftrightarrow> i < r" if "i \<in> ?L" for i
  proof -
    note i = links_okD [OF assms(2-4) that]
    have "{j \<in> link_set maps i. r \<le> j} \<noteq> {}" using i(4) by auto
    with i(1) assms(5) show ?thesis by (simp add: dict_has_wait_count waits_for_def Let_def)
  qed
  show set: "set (filter (dict_has wc) (it ?L)) = {i \<in> ?L. i < r}" using it(2) mem by auto
  show d: "distinct (filter (dict_has wc) (it ?L))" using it(1) by simp
  have split: "?L = {i \<in> ?L. i < r} \<union> {j \<in> ?L. r + 1 \<le> j}" "{i \<in> ?L. i < r} \<inter> {j \<in> ?L. r + 1 \<le> j} = {}"
    using links_okD(3) [OF assms(2-4)] by force+
  have "card ?L = card {i \<in> ?L. i < r} + card {j \<in> ?L. r + 1 \<le> j}"
    using finite_link_set split card_Un_disjoint [of "{i \<in> ?L. i < r}" "{j \<in> ?L. r + 1 \<le> j}"] by simp
  moreover have "length (filter (dict_has wc) (it ?L)) = card {i \<in> ?L. i < r}"
    using distinct_card [OF d] set by simp
  ultimately show "int (card ?L) - int (length (filter (dict_has wc) (it ?L)))
      = int (card {j \<in> ?L. r + 1 \<le> j})" by simp
qed

lemma waits_for_step:
  assumes "iter_ok it" "links_ok n maps" "0 \<le> r" "r < n" "waits_for maps r wc"
  defines "con \<equiv> filter (dict_has wc) (it (link_set maps r))"
  defines "wc1 \<equiv> foldl (\<lambda>m r. AList.delete r m) (fst (accept_links wc con)) (snd (accept_links wc con))"
  defines "left \<equiv> int (card {j \<in> link_set maps r. r + 1 \<le> j})"
  assumes "wt_accept w = left"
  shows "waits_for maps (r + 1) (if left > 0 then dict_set wc1 r w else wc1)"
proof -
  have con: "set con = {i \<in> link_set maps r. i < r}" "distinct con" "\<forall>i \<in> set con. dict_has wc i"
    using connectable [OF assms(1-5)] by (auto simp: con_def)
  note sp = accept_links_spec [OF con(2,3)]
  have old: "wait_count wc i = (let later = {j \<in> link_set maps i. r \<le> j}
      in if 0 \<le> i \<and> i < r \<and> later \<noteq> {} then Some (int (card later)) else None)" for i
    using assms(5) by (simp add: waits_for_def)
  have wc1: "wait_count wc1 i = (let later = {j \<in> link_set maps i. r + 1 \<le> j}
      in if 0 \<le> i \<and> i < r \<and> later \<noteq> {} then Some (int (card later)) else None)" for i
  proof (cases "i \<in> set con")
    case True
    then have i: "0 \<le> i" "i < r" "r \<in> link_set maps i"
      using con(1) links_okD [OF assms(2-4), of i] by auto
    have fin: "finite (link_set maps i)" by (rule finite_link_set)
    have c: "wait_count wc i = Some (int (card {j \<in> link_set maps i. r + 1 \<le> j}) + 1)"
      using old [of i] i later_step(2) [OF fin i(3)] by (auto simp: Let_def)
    show ?thesis
    proof (cases "{j \<in> link_set maps i. r + 1 \<le> j} = {}")
      case True
      then have "wait_count wc i = Some 1" unfolding c True by simp
      then have "i \<in> set (snd (accept_links wc con))" using sp \<open>i \<in> set con\<close> by simp
      then show ?thesis using True by (simp add: wc1_def wait_count_delete_all Let_def)
    next
      case False
      then have "0 < card {j \<in> link_set maps i. r + 1 \<le> j}" using fin by (simp add: card_gt_0_iff)
      then have "i \<notin> set (snd (accept_links wc con))" using sp c by simp
      then show ?thesis
        using sp c False i \<open>i \<in> set con\<close> by (simp add: wc1_def wait_count_delete_all Let_def)
    qed
  next
    case False
    then have "i \<notin> set (snd (accept_links wc con))" using sp by auto
    then have eq: "wait_count wc1 i = wait_count wc i"
      using sp False by (simp add: wc1_def wait_count_delete_all)
    show ?thesis
    proof (cases "0 \<le> i \<and> i < r")
      case True
      with False con(1) links_okD(4) [OF assms(2), of i r] assms(4) have "r \<notin> link_set maps i" by auto
      then have "{j \<in> link_set maps i. r + 1 \<le> j} = {j \<in> link_set maps i. r \<le> j}"
        using later_step(1) [OF finite_link_set, of maps i r] by simp
      with eq old [of i] show ?thesis by simp
    next
      case False
      with eq old [of i] show ?thesis by (auto simp: Let_def)
    qed
  qed
  have pos: "left > 0 \<longleftrightarrow> {j \<in> link_set maps r. r + 1 \<le> j} \<noteq> {}"
    using finite_link_set [of maps r] by (simp add: left_def card_gt_0_iff)
  show ?thesis
    unfolding waits_for_def
  proof
    fix i
    show "wait_count (if left > 0 then dict_set wc1 r w else wc1) i =
        (let later = {j \<in> link_set maps i. r + 1 \<le> j}
         in if 0 \<le> i \<and> i < r + 1 \<and> later \<noteq> {} then Some (int (card later)) else None)"
      using wc1 [of i] pos assms(3,9) by (cases "i = r") (auto simp: wait_count_set Let_def left_def)
  qed
qed

lemma assign_to_start:
  assumes "iter_ok it" "links_ok n maps" "0 \<le> r" "r < n" "waits_for maps r (tr_wait tr)" "willing s"
  shows "\<exists>wc sent. assign_to it maps tr s r = Return (tr\<lparr>tr_wait := wc, tr_log := tr_log tr @ [(r, sl_host s, sent)]\<rparr>)
           \<and> waits_for maps (r + 1) wc"
proof -
  obtain T P R where m: "maps = (T, P, R)" by (cases maps)
  obtain nn p rp rn where l: "dict_get T r = Some nn" "dict_get P r = Some p" "dict_get R r = Some (rp, rn)"
    using links_ok_maps [of n T P R r] assms(2-4) m by blast
  obtain q qs where q: "sl_replies s = q # qs" "rp_good q = []" "rp_nerr q = 0"
    using assms(6) by (auto simp: willing_def split: list.splits)
  let ?con = "filter (dict_has (tr_wait tr)) (it (link_set maps r))"
  let ?left = "int (card {j \<in> link_set maps r. r + 1 \<le> j})"
  let ?wc = "foldl (\<lambda>m r. AList.delete r m) (fst (accept_links (tr_wait tr) ?con)) (snd (accept_links (tr_wait tr) ?con))"
  have left: "int (card (link_set maps r)) - int (length ?con) = ?left"
    by (rule connectable(3) [OF assms(1-5)])
  obtain sent where "assign_rank it s r (tr_wait tr) maps =
      Return \<lparr>as_sent = sent, as_wait = ?wc, as_accept = ?left, as_port = rp_port q\<rparr>"
    using l q left by (simp add: assign_rank_def m dict_index_def Let_def split_beta)
  then have "assign_to it maps tr s r = Return (tr\<lparr>tr_wait :=
      (if ?left > 0 then dict_set ?wc r \<lparr>wt_host = sl_host s, wt_port = rp_port q, wt_accept = ?left\<rparr> else ?wc),
      tr_log := tr_log tr @ [(r, sl_host s, sent)]\<rparr>)"
    by (simp add: assign_to_def Let_def)
  moreover have "waits_for maps (r + 1)
      (if ?left > 0 then dict_set ?wc r \<lparr>wt_host = sl_host s, wt_port = rp_port q, wt_accept = ?left\<rparr> else ?wc)"
    by (rule waits_for_step [OF assms(1-5)]) simp
  ultimately show ?thesis by blast
qed

lemma assign_pending_all:
  assumes "iter_ok it" "links_ok n maps"
  shows "0 \<le> r \<Longrightarrow> int (length ss) = n - r \<Longrightarrow> tr_todo tr = py_range r n \<Longrightarrow> waits_for maps r (tr_wait tr)
    \<Longrightarrow> \<forall>s \<in> set ss. willing s \<Longrightarrow>
    \<exists>tr'. assign_pending it maps tr ss = Return tr' \<and> waits_for maps n (tr_wait tr') \<and> tr_todo tr' = []
      \<and> map (\<lambda>(r, h, _). (r, h)) (tr_log tr') = map (\<lambda>(r, h, _). (r, h)) (tr_log tr) @ zip (py_range r n) (map sl_host ss)
      \<and> tr_shutdown tr' = tr_shutdown tr \<and> tr_nslave tr' = tr_nslave tr \<and> tr_links tr' = tr_links tr"
proof (induction ss arbitrary: r tr)
  case Nil
  then have "r = n" by simp
  with Nil show ?case by (simp add: py_range_empty)
next
  case (Cons s ss)
  then have r: "r < n" by simp
  let ?tr = "tr\<lparr>tr_todo := py_range (r + 1) n,
                tr_jobs := (if sl_jobid s \<noteq> ''NULL'' then dict_set (tr_jobs tr) (sl_jobid s) r else tr_jobs tr)\<rparr>"
  have todo: "tr_todo tr = r # py_range (r + 1) n" using Cons.prems(3) py_range_rec [OF r] by simp
  obtain wc sent where a: "assign_to it maps ?tr s r =
      Return (?tr\<lparr>tr_wait := wc, tr_log := tr_log ?tr @ [(r, sl_host s, sent)]\<rparr>)" "waits_for maps (r + 1) wc"
    using assign_to_start [OF assms Cons.prems(1) r, of ?tr s] Cons.prems(4,5) by auto
  let ?tr2 = "?tr\<lparr>tr_wait := wc, tr_log := tr_log ?tr @ [(r, sl_host s, sent)]\<rparr>"
  have "\<exists>tr'. assign_pending it maps ?tr2 ss = Return tr' \<and> waits_for maps n (tr_wait tr') \<and> tr_todo tr' = []
      \<and> map (\<lambda>(r, h, _). (r, h)) (tr_log tr') = map (\<lambda>(r, h, _). (r, h)) (tr_log ?tr2) @ zip (py_range (r + 1) n) (map sl_host ss)
      \<and> tr_shutdown tr' = tr_shutdown ?tr2 \<and> tr_nslave tr' = tr_nslave ?tr2 \<and> tr_links tr' = tr_links ?tr2"
    by (rule Cons.IH) (use Cons.prems a(2) in auto)
  then show ?case using a(1) todo py_range_rec [OF r] by (simp add: Let_def)
qed

lemma waits_for_all:
  assumes "links_ok n maps" "waits_for maps n wc"
  shows "wc = []"
proof -
  have "wait_count wc i = None" for i
  proof (cases "0 \<le> i \<and> i < n")
    case True
    then have "{j \<in> link_set maps i. n \<le> j} = {}" using links_okD(2) [OF assms(1)] by force
    then show ?thesis using assms(2) by (simp add: waits_for_def)
  next
    case False
    then show ?thesis using assms(2) by (auto simp: waits_for_def Let_def)
  qed
  then have "dict_get wc i = None" for i by (simp add: wait_count_def)
  then show ?thesis by (metis list.set_intros(1) map_of_eq_None_iff image_eqI list.exhaust)
qed

lemma waits_for_none: "waits_for maps 0 []"
  by (auto simp: waits_for_def wait_count_def Let_def)

lemma link_set_new:
  assumes "1 \<le> n" "0 \<le> i" "i < n"
    and "dict_get T i = Some nn" "dict_get R i = Some ((i + n - 1) mod n, (i + 1) mod n)"
  shows "link_set (T, P, R) i = set nn \<union> ({(i + n - 1) mod n, (i + 1) mod n} - {i})"
proof -
  have "(i + n - 1) mod n \<noteq> -1" "(i + 1) mod n \<noteq> -1"
    using pos_mod_sign [of n "i + n - 1"] pos_mod_sign [of n "i + 1"] assms(1) by linarith+
  then show ?thesis using assms(4,5) by (auto simp: link_set_def)
qed

lemma ring_prev_next:
  assumes "0 \<le> i" "i < (n :: int)"
  shows "j = (i + n - 1) mod n \<Longrightarrow> i = (j + 1) mod n" "j = (i + 1) mod n \<Longrightarrow> i = (j + n - 1) mod n"
proof -
  have "((i + n - 1) mod n + 1) mod n = (i + n) mod n" by (simp add: mod_simps)
  also have "\<dots> = i" using assms by simp
  finally show "j = (i + n - 1) mod n \<Longrightarrow> i = (j + 1) mod n" by simp
  have "((i + 1) mod n + n - 1) mod n = ((i + 1) mod n + (n - 1)) mod n" by (simp add: algebra_simps)
  also have "\<dots> = (i + 1 + (n - 1)) mod n" by (rule mod_add_left_eq)
  also have "\<dots> = i" using assms by simp
  finally show "j = (i + 1) mod n \<Longrightarrow> i = (j + n - 1) mod n" by simp
qed

lemma get_link_map_links_ok:
  assumes "iter_ok it" "1 \<le> n" "n < 2 ^ limit" "get_link_map it limit n = Inr maps"
  shows "links_ok n maps"
proof -
  obtain \<sigma> T P R where m: "maps = (T, P, R)" and bij: "bij_betw \<sigma> {0..<n} {0..<n}"
    and R: "\<And>i. 0 \<le> i \<Longrightarrow> i < n \<Longrightarrow> dict_get R i = Some ((i + n - 1) mod n, (i + 1) mod n)"
    and T: "\<And>i. 0 \<le> i \<Longrightarrow> i < n \<Longrightarrow> dict_get T (\<sigma> i) = Some (map \<sigma> (get_neighbor i n))"
    and P: "\<And>i. 0 \<le> i \<Longrightarrow> i < n \<Longrightarrow> dict_get P (\<sigma> i) = Some (if i = 0 then -1 else \<sigma> ((i + 1) div 2 - 1))"
    using get_link_map_spec [OF assms(1-3)] assms(4) by auto
  have onto: "\<exists>k. 0 \<le> k \<and> k < n \<and> i = \<sigma> k" if "0 \<le> i" "i < n" for i
    using bij that unfolding bij_betw_def by (metis atLeastLessThan_iff image_iff)
  have rng: "0 \<le> \<sigma> k \<and> \<sigma> k < n" if "0 \<le> k" "k < n" for k
    using bij that unfolding bij_betw_def by (metis atLeastLessThan_iff imageI)
  have L: "link_set maps (\<sigma> k) = \<sigma> ` set (get_neighbor k n) \<union> ({(\<sigma> k + n - 1) mod n, (\<sigma> k + 1) mod n} - {\<sigma> k})"
    if k: "0 \<le> k" "k < n" for k
    using link_set_new [OF assms(2) _ _ T [OF k] R, of P] rng [OF k] m by simp
  have md: "0 \<le> x mod n \<and> x mod n < n" for x using assms(2) by simp
  have A: "0 \<le> j \<and> j < n \<and> j \<noteq> \<sigma> k \<and> \<sigma> k \<in> link_set maps j" if k: "0 \<le> k" "k < n" and j: "j \<in> link_set maps (\<sigma> k)" for j k
  proof (cases "j \<in> \<sigma> ` set (get_neighbor k n)")
    case True
    then obtain l where l: "l \<in> set (get_neighbor k n)" "j = \<sigma> l" by blast
    have lr: "0 \<le> l" "l < n" using get_neighbor_range [OF k l(1)] by simp_all
    have "k \<in> set (get_neighbor l n)" using l(1) get_neighbor_sym [OF k lr] by simp
    moreover have "l \<noteq> k" using l(1) get_neighbor_irrefl [OF k] by blast
    then have "\<sigma> l \<noteq> \<sigma> k"
      using k lr inj_on_eq_iff [OF bij_betw_imp_inj_on [OF bij], of l k] by simp
    ultimately show ?thesis using rng [OF lr] unfolding l(2) L [OF lr] by blast
  next
    case False
    with j L [OF k] have e: "j = (\<sigma> k + n - 1) mod n \<or> j = (\<sigma> k + 1) mod n" "j \<noteq> \<sigma> k" by blast+
    then have jr: "0 \<le> j" "j < n" using md by blast+
    obtain l where l: "0 \<le> l" "l < n" "j = \<sigma> l" using onto [OF jr] by blast
    have "\<sigma> k = (j + n - 1) mod n \<or> \<sigma> k = (j + 1) mod n"
      using e(1) ring_prev_next [of "\<sigma> k" n j] rng [OF k] by blast
    with e(2) have "\<sigma> k \<in> {(j + n - 1) mod n, (j + 1) mod n} - {j}"
      unfolding Diff_iff insert_iff empty_iff by metis
    then have "\<sigma> k \<in> link_set maps j" using L [OF l(1,2)] l(3) by (metis UnI2)
    with e(2) jr show ?thesis by blast
  qed
  have B: "\<exists>nn p r. dict_get T i = Some nn \<and> dict_get P i = Some p \<and> dict_get R i = Some r"
    if "0 \<le> i" "i < n" for i
    using onto [OF that] R [OF that] T P by blast
  show ?thesis
    unfolding links_ok_def
  proof (rule conjI)
    show "\<forall>i j. 0 \<le> i \<and> i < n \<longrightarrow> j \<in> link_set maps i \<longrightarrow> 0 \<le> j \<and> j < n \<and> j \<noteq> i \<and> i \<in> link_set maps j"
    proof (intro allI impI)
      fix i j assume "0 \<le> i \<and> i < n" and j: "j \<in> link_set maps i"
      then obtain k where "0 \<le> k" "k < n" "i = \<sigma> k" using onto by blast
      with A [of k j] j show "0 \<le> j \<and> j < n \<and> j \<noteq> i \<and> i \<in> link_set maps j" by simp
    qed
  qed (use B m in simp)
qed

section \<open>A complete job\<close>

definition fresh :: "int \<Rightarrow> slave \<Rightarrow> bool" where
  "fresh n s \<longleftrightarrow> sl_cmd s = ''start'' \<and> sl_rank s < 0 \<and> (sl_world_size s = -1 \<or> sl_world_size s = n) \<and> willing s"

lemma decide_rank_fresh: "fresh n s \<Longrightarrow> decide_rank s [] = -1"
  by (simp add: fresh_def decide_rank_def)

lemma accept_one_fresh:
  assumes "fresh n s" "start_links it limit tr s = Inr (tr1, maps)" "tr_jobs tr1 = []" "tr_todo tr1 \<noteq> []"
  shows "accept_one it limit tr s =
    (let tr2 = tr1\<lparr>tr_pending := tr_pending tr1 @ [s]\<rparr>
     in if length (tr_pending tr2) = length (tr_todo tr1)
        then let pend = sort_key sl_host (tr_pending tr2) in assign_pending it maps (tr2\<lparr>tr_pending := pend\<rparr>) pend
        else Return tr2)"
proof -
  have cmd: "sl_cmd s = ''start''" using assms(1) by (simp add: fresh_def)
  have rk: "decide_rank s (tr_jobs tr1) = -1" using decide_rank_fresh [OF assms(1)] assms(3) by simp
  show ?thesis
    using assms(2,4) cmd rk by (simp add: accept_one_def Let_def)
qed

text \<open>The tracker while it collects the nodes of a job.\<close>

definition collecting :: "int \<Rightarrow> links \<Rightarrow> slave list \<Rightarrow> tracker" where
  "collecting n maps ps =
     (tracker_init n)\<lparr>tr_pending := ps, tr_links := Some maps, tr_todo := py_range 0 n\<rparr>"

lemma collecting_sel [simp]:
  "tr_shutdown (collecting n maps ps) = []" "tr_wait (collecting n maps ps) = []" "tr_jobs (collecting n maps ps) = []"
  "tr_pending (collecting n maps ps) = ps" "tr_links (collecting n maps ps) = Some maps"
  "tr_todo (collecting n maps ps) = py_range 0 n" "tr_nslave (collecting n maps ps) = n" "tr_log (collecting n maps ps) = []"
  "(collecting n maps ps)\<lparr>tr_pending := qs\<rparr> = collecting n maps qs"
  by (simp_all add: collecting_def tracker_init_def)

lemma start_links_fresh:
  "fresh n s \<Longrightarrow> start_links it limit (collecting n maps ps) s = Inr (collecting n maps ps, maps)"
  "fresh n s \<Longrightarrow> get_link_map it limit n = Inr maps \<Longrightarrow> start_links it limit (tracker_init n) s = Inr (collecting n maps [], maps)"
  by (auto simp: start_links_def fresh_def Let_def, auto simp: tracker_init_def collecting_def Let_def)

lemma accept_slaves_step:
  "int (length (tr_shutdown tr)) \<noteq> tr_nslave tr \<Longrightarrow>
   accept_slaves it limit tr (s # ss) = bind_out (accept_one it limit tr s) (\<lambda>tr'. accept_slaves it limit tr' ss)"
  by (simp add: accept_slaves.simps [of it limit tr])

lemma collect_all:
  assumes it: "iter_ok it" and maps: "links_ok n maps" and n: "1 \<le> n"
  shows "s0 = collecting n maps ps \<or> (ps = [] \<and> s0 = tracker_init n \<and> get_link_map it limit n = Inr maps) \<Longrightarrow>
    ss \<noteq> [] \<Longrightarrow> int (length ps + length ss) = n \<Longrightarrow> \<forall>s \<in> set (ps @ ss). fresh n s \<Longrightarrow>
    \<exists>tr. accept_slaves it limit s0 (ss @ rest) = accept_slaves it limit tr rest
      \<and> tr_wait tr = [] \<and> tr_todo tr = [] \<and> tr_shutdown tr = [] \<and> tr_nslave tr = n
      \<and> map (\<lambda>(r, h, _). (r, h)) (tr_log tr) = zip (py_range 0 n) (map sl_host (sort_key sl_host (ps @ ss)))"
proof (induction ss arbitrary: ps s0)
  case (Cons s ss)
  have f: "fresh n s" using Cons.prems(4) by simp
  have sl: "start_links it limit s0 s = Inr (collecting n maps ps, maps)"
    using Cons.prems(1) start_links_fresh(1) [OF f, of it limit maps ps] start_links_fresh(2) [OF f, of it limit maps]
    by metis
  have s0: "int (length (tr_shutdown s0)) \<noteq> tr_nslave s0"
    using Cons.prems(1) n by (auto simp: tracker_init_def)
  have todo: "py_range 0 n \<noteq> []" "length (py_range 0 n) = nat n" using n by (auto simp: py_range_rec)
  have one: "accept_one it limit s0 s =
      (if length (ps @ [s]) = nat n
       then let pend = sort_key sl_host (ps @ [s]) in assign_pending it maps (collecting n maps pend) pend
       else Return (collecting n maps (ps @ [s])))"
    using accept_one_fresh [OF f sl] todo by (simp add: Let_def)
  show ?case
  proof (cases "ss = []")
    case True
    let ?pend = "sort_key sl_host (ps @ [s])"
    have "int (length ?pend) = n - 0" "\<forall>q \<in> set ?pend. willing q"
      using Cons.prems(3,4) True by (auto simp: fresh_def)
    then obtain tr' where "assign_pending it maps (collecting n maps ?pend) ?pend = Return tr'"
        "waits_for maps n (tr_wait tr')" "tr_todo tr' = []"
        "map (\<lambda>(r, h, _). (r, h)) (tr_log tr') = zip (py_range 0 n) (map sl_host ?pend)"
        "tr_shutdown tr' = []" "tr_nslave tr' = n"
      using assign_pending_all [OF it maps, of 0 ?pend "collecting n maps ?pend"] waits_for_none by auto
    moreover have "length (ps @ [s]) = nat n" using Cons.prems(3) True by simp
    ultimately show ?thesis
      using one accept_slaves_step [OF s0, of it limit s rest] waits_for_all [OF maps] True
      by (intro exI [of _ tr']) (simp add: Let_def)
  next
    case False
    then have "length (ps @ [s]) \<noteq> nat n" using Cons.prems(3) by (cases ss) auto
    then have "accept_slaves it limit s0 ((s # ss) @ rest) = accept_slaves it limit (collecting n maps (ps @ [s])) (ss @ rest)"
      using one accept_slaves_step [OF s0, of it limit s "ss @ rest"] by simp
    with Cons.IH [of "collecting n maps (ps @ [s])" "ps @ [s]"] Cons.prems(3,4) False show ?thesis by simp
  qed
qed simp

lemma accept_shutdowns:
  "tr_wait tr = [] \<Longrightarrow> \<forall>s \<in> set ss. sl_cmd s = ''shutdown'' \<and> 0 \<le> sl_rank s \<Longrightarrow>
   distinct (tr_shutdown tr @ map sl_rank ss) \<Longrightarrow> int (length (tr_shutdown tr) + length ss) = tr_nslave tr \<Longrightarrow>
   accept_slaves it limit tr ss = Return (tr\<lparr>tr_shutdown := tr_shutdown tr @ map sl_rank ss\<rparr>)"
proof (induction ss arbitrary: tr)
  case (Cons s ss)
  have "accept_one it limit tr s = Return (tr\<lparr>tr_shutdown := tr_shutdown tr @ [sl_rank s]\<rparr>)"
    using Cons.prems(1-3) by (auto simp: accept_one_def dict_has_def)
  then show ?case
    using Cons.IH [of "tr\<lparr>tr_shutdown := tr_shutdown tr @ [sl_rank s]\<rparr>"] Cons.prems
    by (simp add: accept_slaves_step)
qed (simp add: accept_slaves.simps)

text \<open>
  A job runs to its end: when n nodes connect, each ready to set up its links, and later sign
  off, the accept loop returns; it has given the ranks 0, 1, ..., n - 1 in the order of the host
  names, each exactly once, and no node is left waiting for a connection, because the node of the
  larger rank connects to the other end of every link.
\<close>

theorem accept_slaves_job:
  assumes "iter_ok it" "1 \<le> n" "n < 2 ^ limit"
    and "int (length starts) = n" "\<forall>s \<in> set starts. fresh n s"
    and "int (length stops) = n" "distinct (map sl_rank stops)"
    and "\<forall>s \<in> set stops. sl_cmd s = ''shutdown'' \<and> 0 \<le> sl_rank s"
  shows "\<exists>tr. accept_slaves it limit (tracker_init n) (starts @ stops) = Return tr
     \<and> map (\<lambda>(r, h, _). (r, h)) (tr_log tr) = zip (py_range 0 n) (map sl_host (sort_key sl_host starts))
     \<and> tr_wait tr = [] \<and> tr_shutdown tr = map sl_rank stops"
proof -
  obtain maps where m: "get_link_map it limit n = Inr maps"
    using get_link_map_spec [OF assms(1-3)] by blast
  have ne: "starts \<noteq> []" using assms(2,4) by auto
  obtain tr where tr: "accept_slaves it limit (tracker_init n) (starts @ stops) = accept_slaves it limit tr stops"
      "tr_wait tr = []" "tr_shutdown tr = []" "tr_nslave tr = n"
      "map (\<lambda>(r, h, _). (r, h)) (tr_log tr) = zip (py_range 0 n) (map sl_host (sort_key sl_host starts))"
    using collect_all [OF assms(1) get_link_map_links_ok [OF assms(1-3) m] assms(2),
        of "tracker_init n" "[]" limit starts stops] m assms(4,5) ne by auto
  have "accept_slaves it limit tr stops = Return (tr\<lparr>tr_shutdown := tr_shutdown tr @ map sl_rank stops\<rparr>)"
    using accept_shutdowns [of tr stops it limit] tr(2-4) assms(6-8) by simp
  with tr show ?thesis by simp
qed

definition example_slave :: "string \<Rightarrow> string \<Rightarrow> int \<Rightarrow> slave" where
  "example_slave h c r = \<lparr>sl_host = h, sl_rank = r, sl_world_size = -1, sl_jobid = ''NULL'', sl_cmd = c,
                         sl_replies = [\<lparr>rp_good = [], rp_nerr = 0, rp_port = 9000\<rparr>]\<rparr>"

theorem accept_slaves_job_witness:
  "let starts = [example_slave ''10.0.0.2'' ''start'' (-1), example_slave ''10.0.0.1'' ''start'' (-1)];
       stops = [example_slave ''10.0.0.1'' ''shutdown'' 0, example_slave ''10.0.0.2'' ''shutdown'' 1]
   in \<exists>tr. accept_slaves sorted_list_of_set 3 (tracker_init 2) (starts @ stops) = Return tr
     \<and> map (\<lambda>(r, h, _). (r, h)) (tr_log tr) = zip (py_range 0 2) (map sl_host (sort_key sl_host starts))
     \<and> tr_wait tr = [] \<and> tr_shutdown tr = map sl_rank stops"
  unfolding Let_def
  by (rule accept_slaves_job) (simp_all add: iter_ok_sorted fresh_def willing_def example_slave_def)

theorem accept_slaves_ok_witness:
  "case accept_slaves sorted_list_of_set 3 (tracker_init 1) [example_slave ''h'' ''start'' (-1), example_slave ''h'' ''shutdown'' 0] of
     Return tr \<Rightarrow> tracker_ok tr \<and> int (card (set (tr_shutdown tr))) = tr_nslave tr
   | _ \<Rightarrow> False"
proof -
  obtain tr where tr: "accept_slaves sorted_list_of_set 3 (tracker_init 1) ([example_slave ''h'' ''start'' (-1)] @ [example_slave ''h'' ''shutdown'' 0]) = Return tr"
    using collect_all [OF iter_ok_sorted get_link_map_links_ok [OF iter_ok_sorted], of 1 3 _ "tracker_init 1" "[]" 3 "[example_slave ''h'' ''start'' (-1)]" "[example_slave ''h'' ''shutdown'' 0]"]
      get_link_map_spec [OF iter_ok_sorted, of 1 3]
      accept_shutdowns [where ss = "[example_slave ''h'' ''shutdown'' 0]" and it = sorted_list_of_set and limit = 3]
    by (fastforce simp: fresh_def willing_def example_slave_def)
  with accept_slaves_ok [OF iter_ok_sorted tracker_ok_init tr] show ?thesis by simp
qed

end
