(* ===== verification/P4_Control.thy ===== *)
theory P4_Control
  imports Py_Prelude "HOL-Library.Word"
begin

unbundle bit_operations_syntax

text \<open>
  The control plane of the switch, \<^verbatim>\<open>P4/control.py\<close> and \<^verbatim>\<open>P4/setup_ports.py\<close>: port numbers and port
  bit maps, register access, the packet generator and the port set-up.

  The drivers of the switch are not part of the repository. Their calls are recorded in a log, in
  order; a session handle is a number the driver hands out; a register table keeps what was written.
  The conversions of the test library (\<open>hex_to_i16\<close>, \<open>hex_to_i32\<close>, \<open>bytes_to_string\<close>), its minimal
  packet size and the initial contents of a register are parameters.
\<close>

section \<open>Port numbers\<close>

definition make_port :: "int \<Rightarrow> int \<Rightarrow> int res" where
  "make_port pipe local_port =
     bind_res (assert_res (pipe \<ge> 0 \<and> pipe < 4)) (\<lambda>_.
     bind_res (assert_res (local_port \<ge> 0 \<and> local_port < 72)) (\<lambda>_.
       Inr (push_bit 7 pipe OR local_port)))"

definition port_to_pipe :: "int \<Rightarrow> int" where
  "port_to_pipe port = drop_bit 7 port"

definition portToPipe :: "int \<Rightarrow> int" where
  "portToPipe port = drop_bit 7 port"

definition portToPipeLocalId :: "int \<Rightarrow> int" where
  "portToPipeLocalId port = port AND 0x7F"

definition portToBitIdx :: "int \<Rightarrow> int" where
  "portToBitIdx port = 72 * portToPipe port + portToPipeLocalId port"

definition py_set :: "'a list \<Rightarrow> int \<Rightarrow> 'a \<Rightarrow> 'a list res" where
  "py_set xs i v =
     (if i < - int (length xs) \<or> int (length xs) \<le> i then Inl IndexError
      else Inr (xs[nat (if i < 0 then int (length xs) + i else i) := v]))"

definition set_map_bit :: "int list \<Rightarrow> int \<Rightarrow> int list res" where
  "set_map_bit bit_map index =
     bind_res (py_index bit_map (index div 8)) (\<lambda>b.
       py_set bit_map (index div 8) ((b OR push_bit (nat (index mod 8)) 1) AND 0xFF))"

fun set_map_bits :: "int list \<Rightarrow> int list \<Rightarrow> int list res" where
  "set_map_bits bit_map [] = Inr bit_map"
| "set_map_bits bit_map (i # is) = bind_res (set_map_bit bit_map i) (\<lambda>m. set_map_bits m is)"

definition set_port_map :: "(int list \<Rightarrow> 'b) \<Rightarrow> int list \<Rightarrow> 'b res" where
  "set_port_map bytes_to_string indicies =
     bind_res (set_map_bits (replicate ((288 + 7) div 8) 0) (map portToBitIdx indicies)) (\<lambda>m. Inr (bytes_to_string m))"

definition set_lag_map :: "(int list \<Rightarrow> 'b) \<Rightarrow> int list \<Rightarrow> 'b res" where
  "set_lag_map bytes_to_string indicies =
     bind_res (set_map_bits (replicate ((256 + 7) div 8) 0) indicies) (\<lambda>m. Inr (bytes_to_string m))"

section \<open>Packets\<close>

record eth_packet =
  eth_dst :: string
  eth_src :: string
  eth_type :: int
  eth_padding :: nat

definition eth_length :: "eth_packet \<Rightarrow> int" where
  "eth_length p = 14 + int (eth_padding p)"

definition rd_hash_pkt :: "int \<Rightarrow> int \<Rightarrow> string \<Rightarrow> string \<Rightarrow> int \<Rightarrow> eth_packet" where
  "rd_hash_pkt minsize pktlen dst src ty =
     (let pktlen = (if minsize > pktlen then minsize else pktlen)
      in \<lparr>eth_dst = dst, eth_src = src, eth_type = ty, eth_padding = nat (pktlen - 14)\<rparr>)"

section \<open>The switch\<close>

record app_cfg =
  trigger_type :: string
  batch_count :: int
  pkt_count :: int
  pattern_key :: "int option"
  pattern_msk :: "int option"
  timer :: int
  ibg :: int
  ipg :: int
  src_port :: int
  src_port_inc :: int
  buffer_offset :: int
  cfg_length :: int

datatype field_val = FInt int | FInts "int list" | FBools "bool list" | FStr string | FBool bool

datatype drv =
    Pktgen_enable int int
  | Pktgen_disable int int
  | Pktgen_cfg_app int int int app_cfg
  | Pktgen_write_buffer int int int int eth_packet
  | Pktgen_recirc_matching int int
  | App_enable int int int
  | App_disable int int int
  | Complete_operations int
  | Port_add int string string
  | Port_an_set int string
  | Port_enable int
  | Table_add string "(string \<times> int) list" "string option" "(string \<times> field_val) list"
  | Table_del string "(string \<times> int) list"

record switch =
  sw_next :: int
  sw_open :: "int list"
  sw_log :: "drv list"
  sw_regs :: "(string \<times> int, int) dict"

definition drive :: "drv list \<Rightarrow> switch \<Rightarrow> switch" where
  "drive cs sw = sw\<lparr>sw_log := sw_log sw @ cs\<rparr>"

definition client_init :: "switch \<Rightarrow> int \<times> switch" where
  "client_init sw = (sw_next sw, sw\<lparr>sw_next := sw_next sw + 1, sw_open := sw_open sw @ [sw_next sw]\<rparr>)"

definition client_cleanup :: "int \<Rightarrow> switch \<Rightarrow> switch" where
  "client_cleanup h sw = sw\<lparr>sw_open := removeAll h (sw_open sw)\<rparr>"

subsection \<open>Registers\<close>

definition read_registers :: "(string \<Rightarrow> int \<Rightarrow> int) \<Rightarrow> switch \<Rightarrow> string \<Rightarrow> int \<Rightarrow> int" where
  "read_registers power_on sw table reg_index = dict_get_or (sw_regs sw) (table, reg_index) (power_on table reg_index)"

definition write_registers :: "string \<Rightarrow> int \<Rightarrow> int \<Rightarrow> switch \<Rightarrow> switch" where
  "write_registers table reg_index reg_val sw = sw\<lparr>sw_regs := dict_set (sw_regs sw) (table, reg_index) reg_val\<rparr>"

definition set_hash_tables :: "switch \<Rightarrow> switch" where
  "set_hash_tables sw =
     fold (\<lambda>reg_index s. write_registers ''val_hash_table0'' reg_index (reg_index + 100)
                           (write_registers ''key_0_32_hash_table0'' reg_index (reg_index + 1) s))
          (py_range 0 2048) sw"

definition set_collision_buffer :: "switch \<Rightarrow> switch" where
  "set_collision_buffer sw =
     (let s = write_registers ''wr_ptr_ring0'' 1 10 (write_registers ''wr_ptr_ring0'' 0 10 sw)
      in fold (\<lambda>reg_index s. write_registers ''key_0_32_ring'' (512 + reg_index) (reg_index + 1)
                               (write_registers ''key_0_32_ring'' reg_index (reg_index + 1) s))
              (py_range 0 10) s)"

definition get_collision_buffers :: "(string \<Rightarrow> int \<Rightarrow> int) \<Rightarrow> switch \<Rightarrow> int list" where
  "get_collision_buffers power_on sw =
     map (\<lambda>(t, i). read_registers power_on sw t i)
       [(''key_0_32_ring'', 0), (''val_ring'', 0), (''key_0_32_ring'', 512), (''val_ring'', 0),
        (''wr_ptr_ring0'', 0), (''wr_ptr_ring0'', 1)]"

definition hash_rows :: "(string \<Rightarrow> int \<Rightarrow> int) \<Rightarrow> switch \<Rightarrow> string \<Rightarrow> (int \<times> int \<times> int \<times> int \<times> int \<times> int) list" where
  "hash_rows power_on sw stream =
     (let rd = (\<lambda>t. read_registers power_on sw (stream @ t))
      in filter (\<lambda>(_, value, _). value > 0)
           (map (\<lambda>i. (i, rd ''val_hash_table'' i, rd ''key_64_80_hash_table'' i, rd ''key_80_96_hash_table'' i,
                         rd ''key_0_32_hash_table'' i, rd ''key_32_64_hash_table'' i))
                (py_range 0 2048)))"

definition get_hash_tables ::
    "(string \<Rightarrow> int \<Rightarrow> int) \<Rightarrow> switch \<Rightarrow> (int \<times> int \<times> int \<times> int \<times> int \<times> int) list \<times> (int \<times> int \<times> int \<times> int \<times> int \<times> int) list" where
  "get_hash_tables power_on sw =
     (hash_rows power_on sw ''pipe0.UpstreamIngress.'', hash_rows power_on sw ''pipe1.DownstreamIngress.'')"

definition get_stack :: "(string \<Rightarrow> int \<Rightarrow> int) \<Rightarrow> switch \<Rightarrow> int list" where
  "get_stack power_on sw =
     [read_registers power_on sw ''pipe0.UpstreamIngress.wr_ptr_stack'' 0,
      read_registers power_on sw ''pipe0.UpstreamIngress.key_96_128_stack'' 0]"

definition get_rerouting_table :: "(string \<Rightarrow> int \<Rightarrow> int) \<Rightarrow> switch \<Rightarrow> (int \<times> int) list" where
  "get_rerouting_table power_on sw =
     concat (map (\<lambda>i. map (\<lambda>t. (i, read_registers power_on sw (''pipe0.UpstreamIngress.'' @ t) i))
                        [''key_0_32_rerouting_table'', ''key_32_64_rerouting_table'',
                         ''key_64_96_rerouting_table'', ''key_96_112_rerouting_table''])
                 (py_range 0 8))"

subsection \<open>The packet generator\<close>

definition app_cfg1 :: app_cfg where
  "app_cfg1 = \<lparr>trigger_type = ''TIMER_PERIODIC'', batch_count = 0, pkt_count = 0, pattern_key = None, pattern_msk = None,
               timer = push_bit 14 1, ibg = 0, ipg = 0, src_port = 68, src_port_inc = 0, buffer_offset = 144, cfg_length = 128\<rparr>"

definition app_cfg2 :: "(int \<Rightarrow> int) \<Rightarrow> app_cfg" where
  "app_cfg2 hex_to_i32 =
     \<lparr>trigger_type = ''RECIRC_PATTERN'', batch_count = 0, pkt_count = 1024 div 64 - 1,
      pattern_key = Some (hex_to_i32 0x05000000), pattern_msk = Some (hex_to_i32 0xF7FFFFFF),
      timer = hex_to_i32 0, ibg = 0, ipg = push_bit 10 1, src_port = 68, src_port_inc = 0, buffer_offset = 544, cfg_length = 128\<rparr>"

definition dev_targets :: "(int \<Rightarrow> int) \<Rightarrow> int list" where
  "dev_targets hex_to_i16 = map hex_to_i16 (py_range 0 2)"

definition pktgen_ports :: "int list res" where
  "pktgen_ports = map_res (\<lambda>pipe. make_port pipe 68) (py_range 0 2)"

definition enable_pkt_gen :: "(int \<Rightarrow> int) \<Rightarrow> (int \<Rightarrow> int) \<Rightarrow> int \<Rightarrow> switch \<Rightarrow> switch res" where
  "enable_pkt_gen hex_to_i16 hex_to_i32 minsize sw0 =
     (let (h, sw) = client_init sw0;
          tgt = dev_targets hex_to_i16;
          pktlen = 128
      in bind_res pktgen_ports (\<lambda>ports.
         bind_res (py_index tgt 0) (\<lambda>t0.
         bind_res (py_index tgt 1) (\<lambda>t1.
           let fpga = ''11:22:33:44:55:66''; me = ''aa:bb:cc:dd:ee:ff'';
               p_hash = rd_hash_pkt minsize pktlen fpga me 0x1122;
               p_coll = rd_hash_pkt minsize pktlen fpga me 0x2233;
               sw = drive (map (Pktgen_enable h) ports) sw;
               sw = drive [Pktgen_cfg_app h t0 1 app_cfg1, Pktgen_cfg_app h t0 2 (app_cfg2 hex_to_i32),
                           Pktgen_cfg_app h t1 1 app_cfg1, Pktgen_cfg_app h t1 2 (app_cfg2 hex_to_i32)] sw;
               sw = drive [Pktgen_write_buffer h t0 144 pktlen p_coll, Pktgen_write_buffer h t0 544 pktlen p_hash,
                           Pktgen_write_buffer h t1 144 pktlen p_coll, Pktgen_write_buffer h t1 544 pktlen p_hash] sw;
               sw = drive [Pktgen_recirc_matching h 68, Pktgen_recirc_matching h 196] sw;
               sw = drive [App_enable h t0 1, App_enable h t1 1, App_enable h t0 2, App_enable h t1 2] sw;
               sw = drive [Complete_operations h] sw
           in Inr (client_cleanup h sw)))))"

definition disable_pkt_gen :: "(int \<Rightarrow> int) \<Rightarrow> switch \<Rightarrow> switch res" where
  "disable_pkt_gen hex_to_i16 sw0 =
     (let (_, sw) = client_init sw0;
          tgt = dev_targets hex_to_i16;
          (h, sw) = client_init sw
      in bind_res (py_index tgt 0) (\<lambda>t0.
         bind_res (py_index tgt 1) (\<lambda>t1.
         bind_res pktgen_ports (\<lambda>ports.
           let sw = drive [App_disable h t0 1, App_disable h t0 2, App_disable h t1 1, App_disable h t1 2] sw;
               sw = drive (map (Pktgen_disable h) ports) sw
           in Inr (client_cleanup h sw)))))"

subsection \<open>Ports and tables\<close>

definition add_port :: "string \<Rightarrow> int \<Rightarrow> drv list" where
  "add_port speed port = [Port_add port speed ''BF_FEC_TYP_NONE'', Port_an_set port ''BF_AN_FORCE_DISABLE'', Port_enable port]"

definition enable_ports :: "switch \<Rightarrow> switch" where
  "enable_ports sw =
     (let inner_connect_port = [0, 8, 16, 24, 148, 156, 132, 140];
          dori_port = [48]
      in drive (concat (map (add_port ''BF_SPEED_40G'') ([52, 128] @ dori_port)))
           (drive (concat (map (add_port ''BF_SPEED_100G'') ([20, 28] @ inner_connect_port))) sw))"

definition loss_key :: "(string \<times> int) list" where
  "loss_key = [(''hdr.info_hdr.path_id'', 1), (''hdr.ipv4.src_addr'', 0xc0a8010a), (''hdr.ipv4.dst_addr'', 0xc0a8010b),
               (''meta.src_port'', 1234), (''meta.dst_port'', 4321), (''hdr.ipv4.protocol'', 0x6)]"

definition inject_loss :: "switch \<Rightarrow> (string \<times> (string \<times> int) list) \<times> switch" where
  "inject_loss sw =
     ((''pipe0.UpstreamEgress.inject_loss'', loss_key),
      drive [Table_add ''pipe0.UpstreamEgress.inject_loss'' loss_key (Some ''UpstreamEgress.drop_packet'') []] sw)"

definition remove_inject_loss :: "string \<Rightarrow> (string \<times> int) list \<Rightarrow> switch \<Rightarrow> switch" where
  "remove_inject_loss tbl key sw = drive [Table_del tbl key] sw"

text \<open>The script itself; the waiting time between its two connections is left out.\<close>

definition control_main :: "switch \<Rightarrow> switch" where
  "control_main sw = enable_ports sw"

section \<open>The slim set-up\<close>

definition slim_enable_ports :: "switch \<Rightarrow> switch" where
  "slim_enable_ports sw = drive (concat (map (add_port ''BF_SPEED_100G'') [168, 184, 192])) sw"

definition loopback_ports :: "switch \<Rightarrow> switch" where
  "loopback_ports sw =
     drive (map (\<lambda>port. Table_add ''$PORT'' [(''$DEV_PORT'', port)] None
                          [(''$SPEED'', FStr ''BF_SPEED_100G''), (''$FEC'', FStr ''BF_FEC_TYP_NONE''),
                           (''$LOOPBACK_MODE'', FStr ''BF_LPBK_MAC_NEAR''), (''$PORT_ENABLE'', FBool True)]) [168]) sw"

definition set_multicast :: "switch \<Rightarrow> switch" where
  "set_multicast sw =
     drive [Table_add ''$pre.node'' [(''$MULTICAST_NODE_ID'', 1)] None
              [(''$MULTICAST_RID'', FInt 0), (''$MULTICAST_LAG_ID'', FInts []), (''$DEV_PORT'', FInts [168, 184])],
            Table_add ''$pre.mgid'' [(''$MGID'', 1)] None
              [(''$MULTICAST_NODE_ID'', FInts [1]), (''$MULTICAST_NODE_L1_XID_VALID'', FBools [False]),
               (''$MULTICAST_NODE_L1_XID'', FInts [0])]] sw"

definition set_dmac_forward :: "switch \<Rightarrow> switch" where
  "set_dmac_forward sw = sw"

definition sec_recirc_ports :: "switch \<Rightarrow> switch" where
  "sec_recirc_ports sw =
     drive (map (\<lambda>i. Table_add ''SwitchIngress.appid_seq.recirc_port'' [(''p4ml.recirc_time'', i)]
                       (Some ''SwitchIngress.appid_seq.set_recirc_port'') [(''recirc_port'', FInt 128)])
                [1, 2, 3, 4, 5, 6, 7]) sw"

definition slim_main :: "string list \<Rightarrow> switch \<Rightarrow> switch res" where
  "slim_main argv sw =
     bind_res (if length argv > 1 then Inr (argv ! 1) else Inl NameError) (\<lambda>p4program.
       Inr (sec_recirc_ports (set_dmac_forward (set_multicast (slim_enable_ports sw)))))"

section \<open>Port numbers: behaviour\<close>

lemma make_port_Inr:
  "make_port p l = Inr x \<longleftrightarrow> 0 \<le> p \<and> p < 4 \<and> 0 \<le> l \<and> l < 72 \<and> x = push_bit 7 p OR l"
  by (auto simp: make_port_def res_simps)

lemma low_bits: "0 \<le> (l :: int) \<Longrightarrow> l < 128 \<Longrightarrow> \<not> bit l (7 + n)"
proof -
  assume "0 \<le> l" "l < 128"
  then have "take_bit 7 l = l" by (simp add: take_bit_int_eq_self)
  then show ?thesis by (metis bit_take_bit_iff less_add_same_cancel1 not_add_less1)
qed

lemma port_fields:
  assumes "0 \<le> l" "l < 128"
  shows "drop_bit 7 (push_bit 7 p OR l) = p" "(push_bit 7 p OR l) AND 0x7F = (l :: int)"
proof -
  show "drop_bit 7 (push_bit 7 p OR l) = p"
    by (rule bit_eqI) (simp add: bit_drop_bit_eq bit_or_iff bit_push_bit_iff low_bits [OF assms])
  have m: "(0x7F :: int) = mask 7" by (simp add: mask_eq_exp_minus_1)
  have "take_bit 7 (push_bit 7 p OR l) = take_bit 7 l"
    by (simp add: take_bit_or take_bit_push_bit)
  then show "(push_bit 7 p OR l) AND 0x7F = l"
    unfolding m take_bit_eq_mask [symmetric] using assms by (simp add: take_bit_int_eq_self)
qed

text \<open>
  Port numbers: the number built from a pipe and a local port gives both back, lies in the
  device's bit map of 288 ports, and its position there is 72 times the pipe plus the local port, so
  that different ports never share a position.
\<close>

theorem make_port_roundtrip:
  assumes "make_port pipe local_port = Inr x"
  shows "port_to_pipe x = pipe \<and> portToPipe x = pipe \<and> portToPipeLocalId x = local_port
    \<and> portToBitIdx x = 72 * pipe + local_port \<and> 0 \<le> portToBitIdx x \<and> portToBitIdx x < 288"
  using assms port_fields [of local_port pipe]
  by (auto simp: make_port_Inr port_to_pipe_def portToPipe_def portToPipeLocalId_def portToBitIdx_def)

theorem make_port_roundtrip_witness:
  "port_to_pipe 196 = 1 \<and> portToPipe 196 = 1 \<and> portToPipeLocalId 196 = 68
    \<and> portToBitIdx 196 = 72 * 1 + 68 \<and> 0 \<le> portToBitIdx 196 \<and> portToBitIdx 196 < 288"
  by (rule make_port_roundtrip) (simp add: make_port_def)

section \<open>Port maps: behaviour\<close>

lemma diff_mult_72:
  fixes p l p' l' :: int
  assumes "72 * p + l = 72 * p' + l'" "0 \<le> l" "l < 72" "0 \<le> l'" "l' < 72"
  shows "p = p' \<and> l = l'"
proof -
  have "p = p'" using assms by linarith
  with assms show ?thesis by simp
qed

definition byte_map :: "int list \<Rightarrow> bool" where
  "byte_map m \<longleftrightarrow> (\<forall>b \<in> set m. 0 \<le> b \<and> b < 256)"

definition map_bit :: "int list \<Rightarrow> int \<Rightarrow> bool" where
  "map_bit m i \<longleftrightarrow> 0 \<le> i \<and> nat (i div 8) < length m \<and> bit (m ! nat (i div 8)) (nat (i mod 8))"

lemma byte_and: "(b :: int) AND 0xFF = take_bit 8 b"
proof -
  have "(0xFF :: int) = mask 8" by (simp add: mask_eq_exp_minus_1)
  then show ?thesis by (simp add: take_bit_eq_mask)
qed

lemma set_map_bit_spec:
  assumes "byte_map m" "0 \<le> i" "i < 8 * int (length m)"
  shows "\<exists>m'. set_map_bit m i = Inr m' \<and> length m' = length m \<and> byte_map m' \<and> (\<forall>j. map_bit m' j \<longleftrightarrow> j = i \<or> map_bit m j)"
proof -
  let ?k = "nat (i div 8)" let ?r = "nat (i mod 8)"
  let ?v = "take_bit 8 (m ! ?k OR push_bit ?r 1)"
  have k: "0 \<le> i div 8" "i div 8 < int (length m)" "?k < length m" using assms(2,3) by auto
  have b: "take_bit 8 (m ! ?k) = m ! ?k"
    using assms(1) k(3) nth_mem [of ?k m] by (simp add: byte_map_def take_bit_int_eq_self)
  have v: "bit ?v n \<longleftrightarrow> bit (m ! ?k) n \<or> n = ?r" if "n < 8" for n
    using that by (auto simp: bit_take_bit_iff bit_or_iff bit_exp_iff)
  have "set_map_bit m i = Inr (m[?k := ?v])"
    using k by (simp add: set_map_bit_def py_index_def py_set_def byte_and)
  moreover have "byte_map (m[?k := ?v])"
    using assms(1) k(3) take_bit_nonnegative [of 8 "m ! ?k OR push_bit ?r 1"]
      take_bit_int_less_exp [of 8 "m ! ?k OR push_bit ?r 1"]
    by (auto simp: byte_map_def dest!: set_update_subset_insert [THEN subsetD])
  moreover have "map_bit (m[?k := ?v]) j \<longleftrightarrow> j = i \<or> map_bit m j" for j
  proof (cases "0 \<le> j \<and> nat (j div 8) = ?k")
    case True
    then have "j div 8 = i div 8" using k(1) by (auto simp: nat_eq_iff pos_imp_zdiv_nonneg_iff)
    then have "j = i \<longleftrightarrow> nat (j mod 8) = ?r" using mult_div_mod_eq [of 8 i] mult_div_mod_eq [of 8 j] by (auto simp: nat_eq_iff)
    then show ?thesis using True k(3) v [of "nat (j mod 8)"] by (auto simp: map_bit_def nat_less_iff)
  next
    case False
    with assms(2) have "j \<noteq> i" by auto
    with False show ?thesis by (auto simp: map_bit_def nth_list_update)
  qed
  ultimately show ?thesis by auto
qed

lemma set_map_bits_spec:
  "byte_map m \<Longrightarrow> \<forall>i \<in> set is. 0 \<le> i \<and> i < 8 * int (length m) \<Longrightarrow>
   \<exists>m'. set_map_bits m is = Inr m' \<and> length m' = length m \<and> byte_map m' \<and> (\<forall>j. map_bit m' j \<longleftrightarrow> j \<in> set is \<or> map_bit m j)"
proof (induction "is" arbitrary: m)
  case (Cons i "is")
  obtain m1 where m1: "set_map_bit m i = Inr m1" "length m1 = length m" "byte_map m1" "\<forall>j. map_bit m1 j \<longleftrightarrow> j = i \<or> map_bit m j"
    using set_map_bit_spec [of m i] Cons.prems by auto
  then obtain m2 where "set_map_bits m1 is = Inr m2" "length m2 = length m" "byte_map m2" "\<forall>j. map_bit m2 j \<longleftrightarrow> j \<in> set is \<or> map_bit m1 j"
    using Cons.IH [of m1] Cons.prems by auto
  with m1 show ?case by auto
qed simp

lemma map_bit_zero: "\<not> map_bit (replicate n 0) j"
  by (simp add: map_bit_def)

text \<open>
  A port map has exactly the bits of its ports: for ports that are valid numbers, the map is 36
  bytes whose bit at a position is set if and only if the position belongs to one of the ports.
\<close>

theorem set_port_map_bits:
  assumes "\<forall>x \<in> set ports. \<exists>p l. make_port p l = Inr x"
  shows "\<exists>m. set_port_map f ports = Inr (f m) \<and> length m = 36 \<and> (\<forall>b \<in> set m. 0 \<le> b \<and> b < 256)
     \<and> (\<forall>p l x. make_port p l = Inr x \<longrightarrow>
          (bit (m ! nat ((72 * p + l) div 8)) (nat ((72 * p + l) mod 8)) \<longleftrightarrow> x \<in> set ports))"
proof -
  have idx: "portToBitIdx x = 72 * p + l \<and> 0 \<le> 72 * p + l \<and> 72 * p + l < 288" if "make_port p l = Inr x" for p l x
    using that port_fields [of l p] by (auto simp: make_port_Inr portToPipe_def portToPipeLocalId_def portToBitIdx_def)
  have inj: "x = y" if x: "make_port p l = Inr x" and m: "y \<in> set ports" and e: "portToBitIdx y = 72 * p + l" for p l x y
  proof -
    obtain p' l' where y: "make_port p' l' = Inr y" using assms m by blast
    with idx [OF y] e have "72 * p' + l' = 72 * p + l" by simp
    moreover have "0 \<le> l" "l < 72" "0 \<le> l'" "l' < 72" using x y by (auto simp: make_port_Inr)
    ultimately have "p' = p \<and> l' = l" using diff_mult_72 [of p' l' p l] by simp
    with x y show ?thesis by (auto simp: make_port_Inr)
  qed
  have "\<forall>i \<in> set (map portToBitIdx ports). 0 \<le> i \<and> i < 8 * int (length (replicate 36 (0 :: int)))"
    using assms idx by fastforce
  then obtain m where m: "set_map_bits (replicate 36 0) (map portToBitIdx ports) = Inr m" "length m = 36" "byte_map m"
      "\<forall>j. map_bit m j \<longleftrightarrow> j \<in> set (map portToBitIdx ports)"
    using set_map_bits_spec [of "replicate 36 0" "map portToBitIdx ports"] map_bit_zero by (auto simp: byte_map_def)
  have "bit (m ! nat ((72 * p + l) div 8)) (nat ((72 * p + l) mod 8)) \<longleftrightarrow> x \<in> set ports" if x: "make_port p l = Inr x" for p l x
  proof -
    have "map_bit m (72 * p + l) \<longleftrightarrow> x \<in> set ports"
      using m(4) idx [OF x] inj [OF x] by (metis image_iff list.set_map)
    moreover have "0 \<le> 72 * p + l" "nat ((72 * p + l) div 8) < 36" using idx [OF x] by linarith+
    ultimately show ?thesis using m(2) by (simp add: map_bit_def)
  qed
  with m show ?thesis by (auto simp: set_port_map_def byte_map_def)
qed

theorem set_port_map_bits_witness:
  "\<exists>m. set_port_map id [68, 196] = Inr (id m) \<and> length m = 36 \<and> (\<forall>b \<in> set m. 0 \<le> b \<and> b < 256)
     \<and> (\<forall>p l x. make_port p l = Inr x \<longrightarrow>
          (bit (m ! nat ((72 * p + l) div 8)) (nat ((72 * p + l) mod 8)) \<longleftrightarrow> x \<in> set [68, 196]))"
proof (rule set_port_map_bits)
  have "make_port 0 68 = Inr 68" "make_port 1 68 = Inr 196" by code_simp+
  then show "\<forall>x \<in> set [68, 196]. \<exists>p l. make_port p l = Inr x" by auto
qed

section \<open>Registers: behaviour\<close>

lemma read_write_registers:
  "read_registers po (write_registers t i v sw) t' i' = (if t' = t \<and> i' = i then v else read_registers po sw t' i')"
  by (simp add: read_registers_def write_registers_def)

lemma read_fold_write:
  "distinct is \<Longrightarrow> t1 \<noteq> t2 \<Longrightarrow>
   read_registers po (fold (\<lambda>i s. write_registers t2 i (g i) (write_registers t1 i (f i) s)) is sw) t j =
     (if j \<in> set is \<and> t = t1 then f j else if j \<in> set is \<and> t = t2 then g j else read_registers po sw t j)"
  by (induction "is" arbitrary: sw) (auto simp: read_write_registers)

text \<open>
  Initialising the hash tables: afterwards entry i of the key table holds i + 1 and entry i of
  the value table i + 100, for the 2048 entries and no others; all other registers are untouched.
\<close>

theorem set_hash_tables_read:
  "read_registers po (set_hash_tables sw) t j =
     (if 0 \<le> j \<and> j < 2048 \<and> t = ''key_0_32_hash_table0'' then j + 1
      else if 0 \<le> j \<and> j < 2048 \<and> t = ''val_hash_table0'' then j + 100
      else read_registers po sw t j)"
  unfolding set_hash_tables_def by (subst read_fold_write) auto

section \<open>Packet generator: behaviour\<close>

lemma pktgen_ports_eq: "pktgen_ports = Inr [68, 196]"
  by code_simp

lemma dev_targets_index: "py_index (dev_targets f) 0 = Inr (f 0)" "py_index (dev_targets f) 1 = Inr (f 1)"
  by (simp_all add: dev_targets_def py_range_def py_index_def upto.simps)

lemmas pktgen_simps = pktgen_ports_eq dev_targets_index client_init_def client_cleanup_def drive_def Let_def

definition enabled_apps :: "drv list \<Rightarrow> (int \<times> int) set" where
  "enabled_apps cs = {(t, a). \<exists>h. App_enable h t a \<in> set cs}"

definition disabled_apps :: "drv list \<Rightarrow> (int \<times> int) set" where
  "disabled_apps cs = {(t, a). \<exists>h. App_disable h t a \<in> set cs}"

text \<open>
  Switching the packet generator off undoes what switching it on did, application by
  application and port by port, but leaves one driver session open each time, because the session of
  the first of its two initialisations is never cleaned up.
\<close>

theorem disable_pkt_gen_session:
  assumes "sw_log sw = []" "\<forall>h \<in> set (sw_open sw). h < sw_next sw"
  shows "\<exists>sw1 sw2. enable_pkt_gen i16 i32 ms sw = Inr sw1 \<and> disable_pkt_gen i16 (sw1\<lparr>sw_log := []\<rparr>) = Inr sw2
    \<and> disabled_apps (sw_log sw2) = enabled_apps (sw_log sw1)
    \<and> {p. \<exists>h. Pktgen_disable h p \<in> set (sw_log sw2)} = {p. \<exists>h. Pktgen_enable h p \<in> set (sw_log sw1)}
    \<and> sw_open sw1 = sw_open sw \<and> sw_open sw2 = sw_open sw @ [sw_next sw + 1]"
proof -
  have "sw_next sw \<notin> set (sw_open sw)" "2 + sw_next sw \<notin> set (sw_open sw)" using assms(2) by force+
  then show ?thesis
    using assms(1)
    by (simp add: enable_pkt_gen_def disable_pkt_gen_def pktgen_simps enabled_apps_def disabled_apps_def removeAll_id) auto
qed

theorem disable_pkt_gen_session_witness:
  "\<exists>sw1 sw2. enable_pkt_gen id id 60 \<lparr>sw_next = 0, sw_open = [], sw_log = [], sw_regs = []\<rparr> = Inr sw1
    \<and> disable_pkt_gen id (sw1\<lparr>sw_log := []\<rparr>) = Inr sw2
    \<and> disabled_apps (sw_log sw2) = enabled_apps (sw_log sw1)
    \<and> {p. \<exists>h. Pktgen_disable h p \<in> set (sw_log sw2)} = {p. \<exists>h. Pktgen_enable h p \<in> set (sw_log sw1)}
    \<and> sw_open sw1 = [] \<and> sw_open sw2 = [1]"
  using disable_pkt_gen_session [of "\<lparr>sw_next = 0, sw_open = [], sw_log = [], sw_regs = []\<rparr>" id id 60] by simp

text \<open>The slim set-up stops at once when it is started without the name of a program.\<close>

lemma slim_main_no_program: "slim_main [prog] sw = Inl NameError"
  by (simp add: slim_main_def)

lemma rd_hash_pkt_length: "14 \<le> pktlen \<Longrightarrow> eth_length (rd_hash_pkt ms pktlen d s t) = max pktlen ms"
  by (simp add: rd_hash_pkt_def eth_length_def)

end
