(* ===== verification/Collective.thy ===== *)
theory Collective
  imports Tensor
begin

text \<open>
  The push-pull service as its clients see it. Every worker runs a program that issues requests under
  a key and waits for their results; the r-th request of each worker under one key forms round r of
  that key. When every worker has issued its request of a round, the server adds the contributions in
  the order in which they arrive (\<^verbatim>\<open>server.cc\<close>, \<open>COPY_FIRST\<close> and \<open>SUM_RECV\<close>), and each worker divides the
  sum if it asked for an average (\<^verbatim>\<open>torch/ops.cc\<close>, \<open>StartTask\<close>).

  A program is a value of type \<open>proc\<close>: it returns, or it issues a request and goes on with the handle,
  or it waits for a handle and goes on with the tensor. Several programs run interleaved, one step of
  one worker at a time. A request holds the contents of its tensor at the time of the call; the clients
  modelled here do not touch a tensor between the call and the wait.

  The storage of sums and quotients and the order of arrival are parameters, collected in \<open>net\<close>. The order is any function of key and
  round, and the theorems hold for all of them, so for whatever order occurs in a run. The buffer of a key has the size of its first round
  on the server; that all rounds of a key have one size, as the clients see to, is a condition of the detailed model of the server in
  \<open>Ps_Rounds\<close>, while the service here looks at one round at a time.
  Version, priority, norm and compressor name travel with a request and do not change what the default
  server computes (\<^verbatim>\<open>BytePSHandler\<close> only prints a line for a TopK request and goes on as for any other).
\<close>

section \<open>The service\<close>

record req =
  rq_key :: string
  rq_average :: bool
  rq_version :: int
  rq_priority :: int
  rq_norm :: rat
  rq_compressor :: string
  rq_input :: tensor

record net =
  n_size :: nat
  n_store :: storage
  n_arrive :: "string \<Rightarrow> nat \<Rightarrow> nat list"

definition net_ok :: "net \<Rightarrow> bool" where
  "net_ok net \<longleftrightarrow> 0 < n_size net \<and> (\<forall>k r. distinct (n_arrive net k r) \<and> set (n_arrive net k r) = {..<n_size net})"

definition reducer_sum :: "storage \<Rightarrow> tensor \<Rightarrow> tensor \<Rightarrow> tensor option" where
  "reducer_sum c dst src =
     (if t_dtype dst = t_dtype src \<and> length (t_data dst) = length (t_data src)
      then Some (dst\<lparr>t_data := map (c (t_dtype dst)) (vadd (t_data dst) (t_data src))\<rparr>)
      else None)"

fun sum_recv :: "storage \<Rightarrow> tensor \<Rightarrow> tensor list \<Rightarrow> tensor option" where
  "sum_recv c stored [] = Some stored"
| "sum_recv c stored (t # ts) =
     (case reducer_sum c stored t of None \<Rightarrow> None | Some s \<Rightarrow> sum_recv c s ts)"

fun server_round :: "storage \<Rightarrow> tensor list \<Rightarrow> tensor option" where
  "server_round c [] = None"
| "server_round c (t # ts) = sum_recv c t ts"

definition finish_output :: "net \<Rightarrow> bool \<Rightarrow> tensor \<Rightarrow> tensor" where
  "finish_output net average t =
     (if average
      then let n = of_nat (n_size net)
           in if is_floating_point (t_dtype t)
              then t\<lparr>t_data := map (\<lambda>x. n_store net (t_dtype t) (x / n)) (t_data t)\<rparr>
              else t\<lparr>t_data := map (\<lambda>x. of_int \<lfloor>x / n\<rfloor>) (t_data t)\<rparr>
      else t)"

text \<open>Requests of a worker, its handles, and the answer to a handle once its round is complete.\<close>

definition nth_req :: "string \<Rightarrow> nat \<Rightarrow> req list \<Rightarrow> req option" where
  "nth_req k r l =
     (let qs = filter (\<lambda>q. rq_key q = k) l in if r < length qs then Some (qs ! r) else None)"

definition allocate_handle :: "req list \<Rightarrow> nat" where
  "allocate_handle l = Suc (length l)"

definition round_of :: "req list \<Rightarrow> nat \<Rightarrow> (req \<times> nat) option" where
  "round_of l h =
     (if 0 < h \<and> h \<le> length l
      then Some (l ! (h - 1), length (filter (\<lambda>q. rq_key q = rq_key (l ! (h - 1))) (take (h - 1) l)))
      else None)"

definition round_inputs :: "net \<Rightarrow> (nat \<Rightarrow> req list) \<Rightarrow> string \<Rightarrow> nat \<Rightarrow> tensor list option" where
  "round_inputs net L k r =
     (if list_all (\<lambda>j. nth_req k r (L j) \<noteq> None) [0..<n_size net]
      then Some (map (\<lambda>j. rq_input (the (nth_req k r (L j)))) (n_arrive net k r))
      else None)"

definition answer :: "net \<Rightarrow> (nat \<Rightarrow> req list) \<Rightarrow> nat \<Rightarrow> nat \<Rightarrow> tensor option" where
  "answer net L i h =
     (case round_of (L i) h of
        None \<Rightarrow> None
      | Some (q, r) \<Rightarrow>
          (case round_inputs net L (rq_key q) r of
             None \<Rightarrow> None
           | Some ts \<Rightarrow> map_option (finish_output net (rq_average q)) (server_round (n_store net) ts)))"

section \<open>Programs and their joint runs\<close>

datatype 'a proc = Ret 'a | Issue req "nat \<Rightarrow> 'a proc" | Wait nat "tensor \<Rightarrow> 'a proc"

primrec bind_proc :: "'a proc \<Rightarrow> ('a \<Rightarrow> 'b proc) \<Rightarrow> 'b proc" where
  "bind_proc (Ret x) g = g x"
| "bind_proc (Issue q f) g = Issue q (\<lambda>h. bind_proc (f h) g)"
| "bind_proc (Wait h f) g = Wait h (\<lambda>t. bind_proc (f t) g)"

type_synonym 'a sys = "nat \<Rightarrow> 'a proc \<times> req list"

definition logs :: "'a sys \<Rightarrow> nat \<Rightarrow> req list" where
  "logs S i = snd (S i)"

definition worker_step :: "net \<Rightarrow> nat \<Rightarrow> 'a sys \<Rightarrow> 'a sys option" where
  "worker_step net i S =
     (if i < n_size net
      then (case S i of
              (Ret _, _) \<Rightarrow> None
            | (Issue q f, l) \<Rightarrow> Some (S(i := (f (allocate_handle l), l @ [q])))
            | (Wait h f, l) \<Rightarrow> (case answer net (logs S) i h of None \<Rightarrow> None | Some t \<Rightarrow> Some (S(i := (f t, l)))))
      else None)"

definition sys_step :: "net \<Rightarrow> 'a sys \<Rightarrow> 'a sys \<Rightarrow> bool" where
  "sys_step net S S' \<longleftrightarrow> (\<exists>i. worker_step net i S = Some S')"

fun run_schedule :: "net \<Rightarrow> nat list \<Rightarrow> 'a sys \<Rightarrow> 'a sys option" where
  "run_schedule net [] S = Some S"
| "run_schedule net (i # is) S = (case worker_step net i S of None \<Rightarrow> None | Some S' \<Rightarrow> run_schedule net is S')"

definition all_done :: "net \<Rightarrow> (nat \<Rightarrow> 'a) \<Rightarrow> 'a sys \<Rightarrow> bool" where
  "all_done net x S \<longleftrightarrow> (\<forall>i < n_size net. fst (S i) = Ret (x i))"

section \<open>Interleavings do not matter\<close>

text \<open>
  A relation whose steps commute in one step each: all runs that end, end in the same state after the
  same number of steps, and every run can be continued to that end.
\<close>

locale commuting =
  fixes R :: "'s \<Rightarrow> 's \<Rightarrow> bool"
  assumes commute: "R x y \<Longrightarrow> R x z \<Longrightarrow> y = z \<or> (\<exists>w. R y w \<and> R z w)"
begin

lemma shift:
  "(R ^^ n) x f \<Longrightarrow> (\<And>g. \<not> R f g) \<Longrightarrow> R x y \<Longrightarrow> \<exists>k. n = Suc k \<and> (R ^^ k) y f"
proof (induction n arbitrary: x y)
  case 0
  then show ?case by auto
next
  case (Suc n)
  obtain z where z: "R x z" "(R ^^ n) z f" using Suc.prems(1) by (meson relpowp_Suc_D2)
  show ?case
  proof (cases "y = z")
    case True
    with z show ?thesis by auto
  next
    case False
    then obtain w where w: "R y w" "R z w" using commute Suc.prems(3) z(1) by blast
    obtain k where "n = Suc k" "(R ^^ k) w f" using Suc.IH [OF z(2) Suc.prems(2) w(2)] by auto
    with w show ?thesis by (metis relpowp_Suc_I2)
  qed
qed

lemma random_descent:
  "(R ^^ n) x f \<Longrightarrow> (\<And>g. \<not> R f g) \<Longrightarrow> (R ^^ m) x y \<Longrightarrow> m \<le> n \<and> (R ^^ (n - m)) y f"
proof (induction m arbitrary: n x)
  case (Suc m)
  obtain z where z: "R x z" "(R ^^ m) z y" using Suc.prems(3) by (meson relpowp_Suc_D2)
  obtain k where k: "n = Suc k" "(R ^^ k) z f" using shift [OF Suc.prems(1,2) z(1)] by auto
  then show ?case using Suc.IH [OF k(2) Suc.prems(2) z(2)] by simp
qed simp

lemma unique_end:
  assumes "R\<^sup>*\<^sup>* x f" "\<And>g. \<not> R f g" "R\<^sup>*\<^sup>* x y"
  shows "R\<^sup>*\<^sup>* y f"
proof -
  obtain n m where "(R ^^ n) x f" "(R ^^ m) x y" using assms(1,3) by (auto simp: rtranclp_power)
  with random_descent [OF this(1) assms(2) this(2)] show ?thesis by (auto simp: rtranclp_power)
qed

end

lemma nth_req_append: "nth_req k r l = Some q \<Longrightarrow> nth_req k r (l @ s) = Some q"
  by (auto simp: nth_req_def Let_def nth_append split: if_splits)

lemma round_of_append: "round_of l h = Some x \<Longrightarrow> round_of (l @ s) h = Some x"
  by (auto simp: round_of_def nth_append split: if_splits)

lemma round_inputs_Some:
  "round_inputs net L k r = Some ts \<longleftrightarrow>
     (\<forall>j < n_size net. \<exists>q. nth_req k r (L j) = Some q)
     \<and> ts = map (\<lambda>j. rq_input (the (nth_req k r (L j)))) (n_arrive net k r)"
  by (auto simp: round_inputs_def list_all_iff)

lemma round_inputs_mono:
  assumes "net_ok net" "round_inputs net L k r = Some ts" "\<And>j. \<exists>s. L' j = L j @ s"
  shows "round_inputs net L' k r = Some ts"
proof -
  have same: "nth_req k r (L' j) = nth_req k r (L j)" if j: "j < n_size net" for j
  proof -
    obtain q where "nth_req k r (L j) = Some q"
      using assms(2) j unfolding round_inputs_Some by blast
    moreover obtain s where "L' j = L j @ s" using assms(3) by blast
    ultimately show ?thesis using nth_req_append [of k r "L j" q s] by simp
  qed
  then have "map (\<lambda>j. rq_input (the (nth_req k r (L' j)))) (n_arrive net k r)
           = map (\<lambda>j. rq_input (the (nth_req k r (L j)))) (n_arrive net k r)"
    using assms(1) by (auto simp: net_ok_def)
  then show ?thesis using assms(2) same by (simp add: round_inputs_Some)
qed

lemma answer_mono:
  assumes "net_ok net" "answer net L i h = Some t" "\<And>j. \<exists>s. L' j = L j @ s"
  shows "answer net L' i h = Some t"
proof -
  obtain q r ts where r: "round_of (L i) h = Some (q, r)" "round_inputs net L (rq_key q) r = Some ts"
    using assms(2) by (auto simp: answer_def split: option.splits)
  obtain s where "L' i = L i @ s" using assms(3) by blast
  with r(1) have "round_of (L' i) h = Some (q, r)" by (simp add: round_of_append)
  then show ?thesis using assms(2) r round_inputs_mono [OF assms(1) r(2) assms(3)] by (simp add: answer_def)
qed

lemma worker_step_other:
  assumes "net_ok net" "worker_step net i S = Some A" "worker_step net j S = Some B" "i \<noteq> j"
  shows "worker_step net j A = Some (A(j := B j))"
proof -
  have ext: "\<exists>s. logs A k = logs S k @ s" for k
    using assms(2) by (auto simp: worker_step_def logs_def split: if_splits prod.splits proc.splits option.splits)
  have same: "A j = S j"
    using assms(2,4) by (auto simp: worker_step_def split: if_splits prod.splits proc.splits option.splits)
  show ?thesis
    using assms(3) same answer_mono [OF assms(1) _ ext]
    by (auto simp: worker_step_def split: if_splits prod.splits proc.splits option.splits)
qed

lemma worker_step_upd: "worker_step net i S = Some A \<Longrightarrow> A = S(i := A i)"
  by (auto simp: worker_step_def split: if_splits prod.splits proc.splits option.splits)

lemma sys_step_commute:
  assumes "net_ok net" "sys_step net S A" "sys_step net S B"
  shows "A = B \<or> (\<exists>C. sys_step net A C \<and> sys_step net B C)"
proof -
  obtain i j where s: "worker_step net i S = Some A" "worker_step net j S = Some B"
    using assms(2,3) by (auto simp: sys_step_def)
  show ?thesis
  proof (cases "i = j")
    case True
    with s show ?thesis by simp
  next
    case False
    have "A(j := B j) = B(i := A i)"
      using False worker_step_upd [OF s(1)] worker_step_upd [OF s(2)] by (metis fun_upd_twist)
    then show ?thesis
      using worker_step_other [OF assms(1) s False] worker_step_other [OF assms(1) s(2,1)] False
      by (metis sys_step_def)
  qed
qed

definition ok_step :: "net \<Rightarrow> 'a sys \<Rightarrow> 'a sys \<Rightarrow> bool" where
  "ok_step net S S' \<longleftrightarrow> net_ok net \<and> sys_step net S S'"

interpretation sched: commuting "ok_step net" for net
  by unfold_locales (metis ok_step_def sys_step_commute)

lemma ok_step_eq: "net_ok net \<Longrightarrow> ok_step net = sys_step net"
  by (simp add: ok_step_def fun_eq_iff)

lemma all_done_stuck: "all_done net x S \<Longrightarrow> \<not> sys_step net S T"
  by (auto simp: all_done_def sys_step_def worker_step_def split: prod.splits if_splits)

lemma run_schedule_steps: "run_schedule net is S = Some S' \<Longrightarrow> (sys_step net ^^ length is) S S'"
proof (induction "is" arbitrary: S)
  case (Cons i "is")
  then obtain S1 where "worker_step net i S = Some S1" "run_schedule net is S1 = Some S'"
    by (auto split: option.splits)
  with Cons.IH show ?case by (metis length_Cons relpowp_Suc_I2 sys_step_def)
qed simp

lemma steps_schedule:
  "(sys_step net ^^ n) S S' \<Longrightarrow> \<exists>is. length is = n \<and> run_schedule net is S = Some S'"
proof (induction n arbitrary: S)
  case 0
  then show ?case by (simp add: exI [of _ "[]"])
next
  case (Suc n)
  obtain S1 where s: "sys_step net S S1" "(sys_step net ^^ n) S1 S'" using relpowp_Suc_D2 [OF Suc.prems] by blast
  obtain i where "worker_step net i S = Some S1" using s(1) by (auto simp: sys_step_def)
  moreover obtain "is" where "length is = n" "run_schedule net is S1 = Some S'" using Suc.IH [OF s(2)] by blast
  ultimately have "length (i # is) = Suc n \<and> run_schedule net (i # is) S = Some S'" by simp
  then show ?case by blast
qed

text \<open>
  The order in which the workers run does not matter, so a theorem on one complete run holds of all: if one schedule brings every worker to its
  result, then no schedule is longer, every schedule can be continued to the same end, and a schedule
  of the same length has reached it.
\<close>

lemma schedules_agree:
  assumes "net_ok net" "run_schedule net is S = Some F" "all_done net x F" "run_schedule net js S = Some T"
  shows "length js \<le> length is \<and> (\<exists>ks. run_schedule net ks T = Some F \<and> length js + length ks = length is)"
proof -
  have "(ok_step net ^^ length is) S F" "(ok_step net ^^ length js) S T"
    using assms by (simp_all add: ok_step_eq run_schedule_steps)
  moreover have "\<not> ok_step net F g" for g using assms(3) by (simp add: ok_step_def all_done_stuck)
  ultimately have "length js \<le> length is" "(ok_step net ^^ (length is - length js)) T F"
    using sched.random_descent by blast+
  then show ?thesis using steps_schedule assms(1) by (fastforce simp: ok_step_eq)
qed

text \<open>A net of two workers for examples; the second one is the first in the order of arrival.\<close>

definition net2 :: net where
  "net2 = \<lparr>n_size = 2, n_store = exact, n_arrive = (\<lambda>k r. [1, 0])\<rparr>"

lemma net2_ok [simp]: "net_ok net2"
  by (auto simp: net_ok_def net2_def)

lemma net2_sel [simp]: "n_size net2 = 2" "n_store net2 = exact"
  by (simp_all add: net2_def)

section \<open>Joint runs by parts\<close>

text \<open>
  Because the schedule does not matter, a joint run may be put together from convenient pieces:
  \<open>reach\<close> says that some schedule leads from one state to another, as far as the workers go.
\<close>

definition reach :: "net \<Rightarrow> 'a sys \<Rightarrow> 'a sys \<Rightarrow> bool" where
  "reach net S T \<longleftrightarrow> (\<exists>S'. (sys_step net)\<^sup>*\<^sup>* S S' \<and> (\<forall>i < n_size net. S' i = T i))"

lemma answer_cong:
  assumes "net_ok net" "\<And>j. j < n_size net \<Longrightarrow> L j = L' j" "i < n_size net"
  shows "answer net L i h = answer net L' i h"
proof -
  have "round_inputs net L k r = round_inputs net L' k r" for k r
  proof -
    have "map (\<lambda>j. rq_input (the (nth_req k r (L j)))) (n_arrive net k r)
        = map (\<lambda>j. rq_input (the (nth_req k r (L' j)))) (n_arrive net k r)"
      using assms(1,2) by (auto simp: net_ok_def)
    moreover have "list_all (\<lambda>j. nth_req k r (L j) \<noteq> None) [0..<n_size net]
               = list_all (\<lambda>j. nth_req k r (L' j) \<noteq> None) [0..<n_size net]"
      using assms(2) by (auto simp: list_all_iff)
    ultimately show ?thesis by (simp add: round_inputs_def)
  qed
  then show ?thesis using assms(2,3) by (simp add: answer_def split: option.splits)
qed

lemma worker_step_cong:
  assumes "net_ok net" "\<forall>j < n_size net. S j = T j" "worker_step net i S = Some S'"
  shows "\<exists>T'. worker_step net i T = Some T' \<and> (\<forall>j < n_size net. S' j = T' j)"
proof -
  have i: "i < n_size net" using assms(3) by (auto simp: worker_step_def split: if_splits)
  have "answer net (logs S) i h = answer net (logs T) i h" for h
    using assms(1,2) i by (intro answer_cong) (auto simp: logs_def)
  moreover have "S i = T i" using assms(2) i by blast
  ultimately have "worker_step net i T = Some (T(i := S' i))"
    using assms(3) by (auto simp: worker_step_def split: if_splits prod.splits proc.splits option.splits)
  then show ?thesis using assms(2) worker_step_upd [OF assms(3)] by (metis fun_upd_apply)
qed

lemma steps_cong:
  assumes "net_ok net" "(sys_step net)\<^sup>*\<^sup>* S S'"
  shows "\<forall>j < n_size net. S j = T j \<Longrightarrow> \<exists>T'. (sys_step net)\<^sup>*\<^sup>* T T' \<and> (\<forall>j < n_size net. S' j = T' j)"
  using assms(2)
proof (induction arbitrary: T rule: converse_rtranclp_induct)
  case (step S S1)
  obtain i where i: "worker_step net i S = Some S1" using step.hyps(1) by (auto simp: sys_step_def)
  obtain T1 where T1: "worker_step net i T = Some T1" "\<forall>j < n_size net. S1 j = T1 j"
    using worker_step_cong [OF assms(1) step.prems i] by blast
  obtain T' where "(sys_step net)\<^sup>*\<^sup>* T1 T'" "\<forall>j < n_size net. S' j = T' j" using step.IH [OF T1(2)] by blast
  with T1(1) show ?case by (meson converse_rtranclp_into_rtranclp sys_step_def)
qed auto

lemma reach_same: "\<forall>i < n_size net. S i = T i \<Longrightarrow> reach net S T"
  by (auto simp: reach_def)

lemma reach_trans:
  assumes "net_ok net" "reach net S T" "reach net T U"
  shows "reach net S U"
proof -
  obtain S' where S': "(sys_step net)\<^sup>*\<^sup>* S S'" "\<forall>i < n_size net. T i = S' i" using assms(2) by (auto simp: reach_def)
  obtain T' where T': "(sys_step net)\<^sup>*\<^sup>* T T'" "\<forall>i < n_size net. T' i = U i" using assms(3) by (auto simp: reach_def)
  obtain S'' where "(sys_step net)\<^sup>*\<^sup>* S' S''" "\<forall>j < n_size net. T' j = S'' j" using steps_cong [OF assms(1) T'(1) S'(2)] by blast
  with S' T' show ?thesis unfolding reach_def by (metis rtranclp_trans)
qed

lemma reach_step: "worker_step net i S = Some T \<Longrightarrow> reach net S T"
  unfolding reach_def by (metis r_into_rtranclp sys_step_def)

text \<open>If every worker can go from its own state to its next one whatever the others did, all can.\<close>

lemma reach_all:
  assumes ok: "net_ok net"
    and solo: "\<And>i S. i < n_size net \<Longrightarrow> (\<forall>j < n_size net. S j = A j \<or> S j = B j) \<Longrightarrow> S i = A i \<Longrightarrow> reach net S (S(i := B i))"
  shows "reach net A B"
proof -
  have "m \<le> n_size net \<Longrightarrow> reach net A (\<lambda>j. if j < m then B j else A j)" for m
  proof (induction m)
    case (Suc m)
    let ?S = "\<lambda>j. if j < m then B j else A j"
    have "reach net A ?S" using Suc by simp
    moreover have "reach net ?S (?S(m := B m))" using Suc.prems by (intro solo) auto
    moreover have "?S(m := B m) = (\<lambda>j. if j < Suc m then B j else A j)" by (auto simp: fun_eq_iff less_Suc_eq)
    ultimately show ?case using reach_trans [OF ok] by fastforce
  qed (simp add: reach_same)
  from this [of "n_size net"] have "reach net A (\<lambda>j. if j < n_size net then B j else A j)" by simp
  moreover have "reach net (\<lambda>j. if j < n_size net then B j else A j) B" by (simp add: reach_same)
  ultimately show ?thesis using reach_trans [OF ok] by blast
qed

definition runs :: "net \<Rightarrow> (nat \<Rightarrow> req list) \<Rightarrow> (nat \<Rightarrow> 'a proc) \<Rightarrow> (nat \<Rightarrow> req list) \<Rightarrow> (nat \<Rightarrow> 'a) \<Rightarrow> bool" where
  "runs net L P L' x \<longleftrightarrow> reach net (\<lambda>i. (P i, L i)) (\<lambda>i. (Ret (x i), L' i))"

lemma runs_Ret: "\<forall>i < n_size net. P i = Ret (x i) \<Longrightarrow> runs net L P L x"
  by (simp add: runs_def reach_same)

lemma runs_cong:
  assumes "net_ok net" "runs net L P L' x"
    "\<And>i. i < n_size net \<Longrightarrow> P i = Q i" "\<And>i. i < n_size net \<Longrightarrow> L' i = M i" "\<And>i. i < n_size net \<Longrightarrow> x i = y i"
  shows "runs net L Q M y"
proof -
  have "reach net (\<lambda>i. (Q i, L i)) (\<lambda>i. (P i, L i))" "reach net (\<lambda>i. (Ret (x i), L' i)) (\<lambda>i. (Ret (y i), M i))"
    using assms(3-5) by (auto intro!: reach_same)
  then show ?thesis using assms(2) unfolding runs_def by (meson assms(1) reach_trans)
qed

definition bind_sys :: "'a sys \<Rightarrow> (nat \<Rightarrow> 'a \<Rightarrow> 'b proc) \<Rightarrow> 'b sys" where
  "bind_sys S g = (\<lambda>i. (bind_proc (fst (S i)) (g i), snd (S i)))"

lemma worker_step_bind:
  assumes "worker_step net i S = Some S'"
  shows "worker_step net i (bind_sys S g) = Some (bind_sys S' g)"
proof -
  have l: "logs (bind_sys S g) = logs S" by (simp add: logs_def bind_sys_def fun_eq_iff)
  have u: "bind_sys (S(i := (p, l))) g = (bind_sys S g)(i := (bind_proc p (g i), l))" for p l
    by (simp add: bind_sys_def fun_eq_iff)
  obtain p l where "S i = (p, l)" by fastforce
  then show ?thesis using assms l
    by (cases p) (auto simp: worker_step_def u bind_sys_def [of S g] split: if_splits option.splits)
qed

lemma steps_bind: "(sys_step net)\<^sup>*\<^sup>* S S' \<Longrightarrow> (sys_step net)\<^sup>*\<^sup>* (bind_sys S g) (bind_sys S' g)"
proof (induction rule: rtranclp_induct)
  case (step T U)
  then show ?case by (meson rtranclp.rtrancl_into_rtrancl sys_step_def worker_step_bind)
qed simp

lemma runs_bind:
  assumes "net_ok net" "runs net L P L1 x" "runs net L1 (\<lambda>i. g i (x i)) L2 y"
  shows "runs net L (\<lambda>i. bind_proc (P i) (g i)) L2 y"
proof -
  obtain S where S: "(sys_step net)\<^sup>*\<^sup>* (\<lambda>i. (P i, L i)) S" "\<forall>i < n_size net. S i = (Ret (x i), L1 i)"
    using assms(2) by (auto simp: runs_def reach_def)
  then have "reach net (\<lambda>i. (bind_proc (P i) (g i), L i)) (\<lambda>i. (g i (x i), L1 i))"
    using steps_bind [OF S(1), of g] unfolding reach_def by (force simp: bind_sys_def)
  then show ?thesis using assms(3) reach_trans [OF assms(1)] unfolding runs_def by blast
qed

text \<open>A worker that only issues, and a worker that only waits for rounds that are complete.\<close>

inductive issues :: "'a proc \<Rightarrow> req list \<Rightarrow> 'a \<Rightarrow> req list \<Rightarrow> bool" where
  issues_Ret: "issues (Ret x) l x l"
| issues_Issue: "issues (f (allocate_handle l)) (l @ [q]) x l' \<Longrightarrow> issues (Issue q f) l x l'"

inductive waits :: "net \<Rightarrow> (nat \<Rightarrow> req list) \<Rightarrow> nat \<Rightarrow> 'a proc \<Rightarrow> 'a \<Rightarrow> bool" for net L i where
  waits_Ret: "waits net L i (Ret x) x"
| waits_Wait: "answer net L i h = Some t \<Longrightarrow> waits net L i (f t) x \<Longrightarrow> waits net L i (Wait h f) x"

lemma issues_bind: "issues p l x l1 \<Longrightarrow> issues (g x) l1 y l2 \<Longrightarrow> issues (bind_proc p g) l y l2"
  by (induction rule: issues.induct) (auto intro: issues.intros)

lemma waits_bind: "waits net L i p x \<Longrightarrow> waits net L i (g x) y \<Longrightarrow> waits net L i (bind_proc p g) y"
  by (induction rule: waits.induct) (auto intro: waits.intros)

lemma reach_issues:
  assumes "net_ok net" "i < n_size net"
  shows "issues p l x l' \<Longrightarrow> S i = (p, l) \<Longrightarrow> reach net S (S(i := (Ret x, l')))"
proof (induction arbitrary: S rule: issues.induct)
  case (issues_Ret x l)
  then show ?case by (auto intro: reach_same)
next
  case (issues_Issue f l q x l')
  let ?T = "S(i := (f (allocate_handle l), l @ [q]))"
  have "reach net S ?T" using issues_Issue.prems assms(2) by (intro reach_step [of net i]) (simp add: worker_step_def)
  then show ?case using issues_Issue.IH [of ?T] reach_trans [OF assms(1)] by fastforce
qed

lemma runs_issues:
  assumes "net_ok net" "\<And>i. i < n_size net \<Longrightarrow> issues (P i) (L i) (x i) (L' i)"
  shows "runs net L P L' x"
  unfolding runs_def
proof (rule reach_all [OF assms(1)])
  fix i S
  assume "i < n_size net" "S i = (P i, L i)"
  then show "reach net S (S(i := (Ret (x i), L' i)))" 
    using reach_issues [OF assms(1), of i "P i" "L i" "x i" "L' i" S] assms(2) [of i] by blast
qed

lemma reach_waits:
  assumes "net_ok net" "i < n_size net"
  shows "waits net L i p x \<Longrightarrow> \<forall>j < n_size net. logs S j = L j \<Longrightarrow> S i = (p, L i) \<Longrightarrow> reach net S (S(i := (Ret x, L i)))"
proof (induction arbitrary: S rule: waits.induct)
  case (waits_Ret x)
  then show ?case by (auto intro: reach_same)
next
  case (waits_Wait h t f x)
  let ?T = "S(i := (f t, L i))"
  have "answer net (logs S) i h = Some t"
    using waits_Wait.hyps(1) waits_Wait.prems(1) answer_cong [OF assms(1) _ assms(2), of "logs S" L h] by simp
  then have "reach net S ?T"
    using waits_Wait.prems(2) assms(2) by (intro reach_step [of net i]) (simp add: worker_step_def)
  moreover have "\<forall>j < n_size net. logs ?T j = L j" using waits_Wait.prems by (auto simp: logs_def)
  ultimately show ?case using waits_Wait.IH [of ?T] reach_trans [OF assms(1)] by fastforce
qed

lemma runs_waits:
  assumes "net_ok net" "\<And>i. i < n_size net \<Longrightarrow> waits net L i (P i) (x i)"
  shows "runs net L P L x"
  unfolding runs_def
proof (rule reach_all [OF assms(1)])
  fix i S
  assume *: "i < n_size net" "\<forall>j < n_size net. S j = (P j, L j) \<or> S j = (Ret (x j), L j)" "S i = (P i, L i)"
  then have "\<forall>j < n_size net. logs S j = L j" by (auto simp: logs_def)
  then show "reach net S (S(i := (Ret (x i), L i)))"
    using reach_waits [OF assms(1), of i L "P i" "x i" S] assms(2) [of i] * by blast
qed

section \<open>Rounds\<close>

definition key_count :: "string \<Rightarrow> req list \<Rightarrow> nat" where
  "key_count k l = length (filter (\<lambda>q. rq_key q = k) l)"

definition key_input :: "string \<Rightarrow> req list \<Rightarrow> tensor" where
  "key_input k qs = rq_input (the (find (\<lambda>q. rq_key q = k) qs))"

text \<open>The workers are balanced when each key has been used equally often by all of them.\<close>

definition balanced :: "net \<Rightarrow> (nat \<Rightarrow> req list) \<Rightarrow> bool" where
  "balanced net L \<longleftrightarrow> (\<forall>k. \<forall>i < n_size net. \<forall>j < n_size net. key_count k (L i) = key_count k (L j))"

lemma key_count_append [simp]: "key_count k (l @ m) = key_count k l + key_count k m"
  by (simp add: key_count_def)

lemma balanced_Nil [simp]: "balanced net (\<lambda>_. [])"
  by (simp add: balanced_def)

lemma key_count_distinct:
  "distinct (map rq_key qs) \<Longrightarrow> key_count k qs = (if k \<in> rq_key ` set qs then 1 else 0)"
  by (induction qs) (auto simp: key_count_def)

lemma balanced_append:
  assumes "balanced net L" "\<And>i. i < n_size net \<Longrightarrow> distinct (map rq_key (qs i))"
    "\<And>i. i < n_size net \<Longrightarrow> rq_key ` set (qs i) = K"
  shows "balanced net (\<lambda>i. L i @ qs i)"
  unfolding balanced_def
proof (intro allI impI)
  fix k i j
  assume ij: "i < n_size net" "j < n_size net"
  then have "key_count k (L i) = key_count k (L j)" using assms(1) unfolding balanced_def by blast
  with ij show "key_count k (L i @ qs i) = key_count k (L j @ qs j)"
    by (simp add: key_count_distinct assms(2,3))
qed

lemma find_key:
  "distinct (map rq_key qs) \<Longrightarrow> q \<in> set qs \<Longrightarrow> find (\<lambda>q'. rq_key q' = rq_key q) qs = Some q"
  by (induction qs) auto

lemma filter_key:
  "distinct (map rq_key qs) \<Longrightarrow> q \<in> set qs \<Longrightarrow> filter (\<lambda>q'. rq_key q' = rq_key q) qs = [q]"
proof (induction qs)
  case (Cons a qs)
  then show ?case by (auto simp: filter_empty_conv) (metis image_eqI)
qed simp

lemma nth_req_batch:
  assumes "distinct (map rq_key qs)" "q \<in> set qs" "rq_key q = k" "key_count k l = r"
  shows "nth_req k r (l @ qs) = Some q"
  using assms filter_key [OF assms(1,2)] by (simp add: nth_req_def key_count_def nth_append)

lemma nth_notin_take:
  assumes "distinct xs" "m < length xs"
  shows "xs ! m \<notin> set (take m xs)"
proof -
  have "distinct (take m xs @ xs ! m # drop (Suc m) xs)" using assms by (simp add: id_take_nth_drop [symmetric])
  then show ?thesis by auto
qed

lemma answer_batch:
  assumes ok: "net_ok net" and i: "i < n_size net" and m: "m < length (qs i)" and bal: "balanced net L"
    and dist: "\<And>j. j < n_size net \<Longrightarrow> distinct (map rq_key (qs j))"
    and keys: "\<And>j. j < n_size net \<Longrightarrow> rq_key ` set (qs j) = K"
    and k: "k = rq_key (qs i ! m)"
  shows "answer net (\<lambda>j. L j @ qs j) i (Suc (length (L i) + m)) =
    map_option (finish_output net (rq_average (qs i ! m)))
      (server_round (n_store net) (map (\<lambda>j. key_input k (qs j)) (n_arrive net k (key_count k (L i)))))"
proof -
  let ?r = "key_count k (L i)"
  have kK: "k \<in> K" using keys [OF i] m k by force
  have "filter (\<lambda>q. rq_key q = k) (take m (qs i)) = []"
  proof -
    have "rq_key (qs i ! m) \<notin> set (take m (map rq_key (qs i)))"
      using nth_notin_take [OF dist [OF i], of m] m by simp
    then show ?thesis unfolding k filter_empty_conv by (auto simp: take_map dest: sym)
  qed
  then have r: "round_of (L i @ qs i) (Suc (length (L i) + m)) = Some (qs i ! m, ?r)"
    using m k by (simp add: round_of_def nth_append key_count_def)
  have nr: "nth_req k ?r (L j @ qs j) = Some (the (find (\<lambda>q. rq_key q = k) (qs j)))" if j: "j < n_size net" for j
  proof -
    obtain q where q: "q \<in> set (qs j)" "rq_key q = k" using kK keys [OF j] by auto
    have "key_count k (L j) = ?r" using bal i j unfolding balanced_def by blast
    with nth_req_batch [OF dist [OF j] q, of "L j" ?r] find_key [OF dist [OF j] q(1)] q(2) show ?thesis by simp
  qed
  then have "round_inputs net (\<lambda>j. L j @ qs j) k ?r = Some (map (\<lambda>j. key_input k (qs j)) (n_arrive net k ?r))"
    using ok by (auto simp: round_inputs_Some key_input_def net_ok_def)
  with r k show ?thesis by (simp add: answer_def)
qed

section \<open>What a round computes\<close>

text \<open>In exact arithmetic a round is the sum of the contributions, whatever the order of arrival.\<close>

definition same_form :: "dtype \<Rightarrow> nat list \<Rightarrow> tensor \<Rightarrow> bool" where
  "same_form dt sz t \<longleftrightarrow> t_dtype t = dt \<and> t_size t = sz \<and> length (t_data t) = numel sz"

lemma sum_recv_exact:
  "same_form dt sz s \<Longrightarrow> list_all (same_form dt sz) ts \<Longrightarrow>
   sum_recv exact s ts = Some (s\<lparr>t_data := vadd (t_data s) (vsum (numel sz) (map t_data ts))\<rparr>)"
proof (induction ts arbitrary: s)
  case (Cons t ts)
  have t: "same_form dt sz t" "list_all (same_form dt sz) ts" using Cons.prems(2) by simp_all
  let ?s = "s\<lparr>t_data := vadd (t_data s) (t_data t)\<rparr>"
  have "same_form dt sz ?s" "reducer_sum exact s t = Some ?s"
    using Cons.prems(1) t(1) by (simp_all add: reducer_sum_def same_form_def)
  then show ?case using Cons.IH [of ?s] t(2) by (simp add: vadd_assoc del: exact_eq)
qed (simp add: same_form_def)

lemma sum_list_reorder:
  fixes f :: "nat \<Rightarrow> 'b::comm_monoid_add"
  assumes "distinct xs" "set xs = {..<n}"
  shows "sum_list (map f xs) = sum_list (map f [0..<n])"
  using assms by (simp add: sum_list_distinct_conv_sum_set atLeast0LessThan)

lemma vsum_reorder:
  assumes "distinct xs" "set xs = {..<n}" "\<And>j. j < n \<Longrightarrow> length (f j) = d"
  shows "vsum d (map f xs) = vsum d (map f [0..<n])"
proof (rule nth_equalityI)
  have l: "\<forall>x \<in> set (map f xs). length x = d" "\<forall>x \<in> set (map f [0..<n]). length x = d" using assms by auto
  then show "length (vsum d (map f xs)) = length (vsum d (map f [0..<n]))" by simp
  fix k assume "k < length (vsum d (map f xs))"
  with l show "vsum d (map f xs) ! k = vsum d (map f [0..<n]) ! k"
    using sum_list_reorder [OF assms(1,2), of "\<lambda>j. f j ! k"] by (simp add: nth_vsum o_def del: upt_Suc)
qed

lemma server_round_exact:
  assumes "net_ok net" "\<And>j. j < n_size net \<Longrightarrow> same_form dt sz (f j)"
  shows "server_round exact (map f (n_arrive net k r)) =
    Some \<lparr>t_dtype = dt, t_size = sz, t_data = vsum (numel sz) (map (\<lambda>j. t_data (f j)) [0..<n_size net])\<rparr>"
proof -
  have arr: "distinct (n_arrive net k r)" "set (n_arrive net k r) = {..<n_size net}" "0 < n_size net"
    using assms(1) by (auto simp: net_ok_def)
  then obtain a as where as: "n_arrive net k r = a # as" by (cases "n_arrive net k r") auto
  have sf: "same_form dt sz (f j)" if "j \<in> set (a # as)" for j using assms(2) arr(2) that as by auto
  have "server_round exact (map f (n_arrive net k r)) =
      Some ((f a)\<lparr>t_data := vsum (numel sz) (map (\<lambda>j. t_data (f j)) (a # as))\<rparr>)"
    using sf by (simp add: as sum_recv_exact [of dt sz] list_all_iff o_def del: exact_eq)
  moreover have "vsum (numel sz) (map (\<lambda>j. t_data (f j)) (a # as)) = vsum (numel sz) (map (\<lambda>j. t_data (f j)) [0..<n_size net])"
    using arr assms(2) unfolding as by (intro vsum_reorder) (auto simp: same_form_def)
  moreover have "same_form dt sz (f a)" using sf by simp
  ultimately show ?thesis by (auto simp: same_form_def intro: tensor.equality)
qed

text \<open>
  A round in which one worker contributes a tensor of representable numbers and the others zeros gives
  that tensor, also when sums are rounded.
\<close>

definition stored :: "storage \<Rightarrow> tensor \<Rightarrow> bool" where
  "stored c t \<longleftrightarrow> (\<forall>x \<in> set (t_data t). c (t_dtype t) x = x) \<and> c (t_dtype t) 0 = 0"

definition zeroed :: "tensor \<Rightarrow> tensor" where
  "zeroed t = t\<lparr>t_data := vzero (length (t_data t))\<rparr>"

lemma map_stored: "stored c t \<Longrightarrow> map (c (t_dtype t)) (t_data t) = t_data t"
  by (simp add: stored_def map_idI)

lemma same_form_zeroed [simp]: "same_form dt sz (zeroed t) \<longleftrightarrow> same_form dt sz t"
  by (simp add: same_form_def zeroed_def)

lemma reducer_sum_zero:
  assumes "same_form dt sz s" "same_form dt sz z" "t_data z = vzero (numel sz)" "stored c s"
  shows "reducer_sum c s z = Some s"
  using assms map_stored [OF assms(4)] by (simp add: reducer_sum_def same_form_def)

lemma sum_recv_zeros:
  "same_form dt sz s \<Longrightarrow> stored c s \<Longrightarrow> \<forall>z \<in> set ts. same_form dt sz z \<and> t_data z = vzero (numel sz) \<Longrightarrow>
   sum_recv c s ts = Some s"
proof (induction ts)
  case (Cons z ts)
  then have "reducer_sum c s z = Some s" using reducer_sum_zero [of dt sz s z c] by simp
  with Cons show ?case by simp
qed simp

lemma sum_recv_one:
  "same_form dt sz z \<Longrightarrow> t_data z = vzero (numel sz) \<Longrightarrow> stored c t \<Longrightarrow> same_form dt sz t \<Longrightarrow>
   \<forall>u \<in> set us \<union> set vs. same_form dt sz u \<and> t_data u = vzero (numel sz) \<Longrightarrow>
   sum_recv c z (us @ t # vs) = Some t"
proof (induction us)
  case Nil
  then have "reducer_sum c z t = Some t"
    using map_stored [of c t] by (auto simp: reducer_sum_def same_form_def intro: tensor.equality)
  with Nil show ?case using sum_recv_zeros [of dt sz t c vs] by auto
next
  case (Cons u us)
  have "stored c z" using Cons.prems(1-4) by (simp add: stored_def same_form_def vzero_def)
  then have "reducer_sum c z u = Some z" using Cons.prems(1,5) reducer_sum_zero [of dt sz z u c] by simp
  with Cons show ?case by simp
qed

lemma server_round_one:
  assumes "net_ok net" "rt < n_size net" "same_form dt sz t" "stored c t" "f rt = t"
    "\<And>j. j < n_size net \<Longrightarrow> j \<noteq> rt \<Longrightarrow> same_form dt sz (f j) \<and> t_data (f j) = vzero (numel sz)"
  shows "server_round c (map f (n_arrive net k r)) = Some t"
proof -
  have arr: "distinct (n_arrive net k r)" "set (n_arrive net k r) = {..<n_size net}"
    using assms(1) by (auto simp: net_ok_def)
  with assms(2) obtain us vs where s: "n_arrive net k r = us @ rt # vs" by (metis lessThan_iff split_list)
  have z: "\<forall>j \<in> set us \<union> set vs. same_form dt sz (f j) \<and> t_data (f j) = vzero (numel sz)"
    using arr assms(6) unfolding s by auto
  show ?thesis
  proof (cases us)
    case Nil
    then show ?thesis using z assms(3-5) by (auto simp: s intro!: sum_recv_zeros)
  next
    case (Cons u us')
    then show ?thesis using z assms(3-5) sum_recv_one [of dt sz "f u" c t "map f us'" "map f vs"] by (auto simp: s)
  qed
qed

text \<open>All workers issue one request under the same key and wait for it.\<close>

lemma runs_collective:
  assumes ok: "net_ok net" and bal: "balanced net L" and key: "\<And>i. i < n_size net \<Longrightarrow> rq_key (q i) = k"
    and sum: "\<And>r. server_round (n_store net) (map (\<lambda>j. rq_input (q j)) (n_arrive net k r)) = Some t"
  shows "runs net L (\<lambda>i. Issue (q i) (\<lambda>h. Wait h (\<lambda>u. Ret (g i h u)))) (\<lambda>i. L i @ [q i])
           (\<lambda>i. g i (Suc (length (L i))) (finish_output net (rq_average (q i)) t))"
proof -
  have "runs net L (\<lambda>i. Issue (q i) Ret) (\<lambda>i. L i @ [q i]) (\<lambda>i. Suc (length (L i)))"
    by (rule runs_issues [OF ok]) (auto intro!: issues.intros simp: allocate_handle_def)
  moreover have "runs net (\<lambda>i. L i @ [q i]) (\<lambda>i. Wait (Suc (length (L i))) (\<lambda>u. Ret (g i (Suc (length (L i))) u)))
     (\<lambda>i. L i @ [q i]) (\<lambda>i. g i (Suc (length (L i))) (finish_output net (rq_average (q i)) t))"
  proof (rule runs_waits [OF ok])
    fix i assume i: "i < n_size net"
    have "map (\<lambda>j. key_input k [q j]) (n_arrive net k r) = map (\<lambda>j. rq_input (q j)) (n_arrive net k r)" for r
      using ok key by (auto simp: net_ok_def key_input_def)
    moreover have "answer net (\<lambda>j. L j @ [q j]) i (Suc (length (L i) + 0)) =
      map_option (finish_output net (rq_average ([q i] ! 0)))
        (server_round (n_store net) (map (\<lambda>j. key_input k [q j]) (n_arrive net k (key_count k (L i)))))"
      by (rule answer_batch [OF ok i _ bal, where K = "{k}"]) (simp_all add: key i)
    ultimately have "answer net (\<lambda>j. L j @ [q j]) i (Suc (length (L i))) = Some (finish_output net (rq_average (q i)) t)"
      by (simp add: sum del: map_eq_conv)
    then show "waits net (\<lambda>j. L j @ [q j]) i (Wait (Suc (length (L i))) (\<lambda>u. Ret (g i (Suc (length (L i))) u)))
       (g i (Suc (length (L i))) (finish_output net (rq_average (q i)) t))"
      by (auto intro!: waits.intros)
  qed
  ultimately have "runs net L (\<lambda>i. bind_proc (Issue (q i) Ret) (\<lambda>h. Wait h (\<lambda>u. Ret (g i h u)))) (\<lambda>i. L i @ [q i])
     (\<lambda>i. g i (Suc (length (L i))) (finish_output net (rq_average (q i)) t))"
    by (rule runs_bind [OF ok])
  then show ?thesis by simp
qed

lemma balanced_snoc:
  "balanced net L \<Longrightarrow> (\<And>i. i < n_size net \<Longrightarrow> rq_key (q i) = k) \<Longrightarrow> balanced net (\<lambda>i. L i @ [q i])"
  by (rule balanced_append [of net L "\<lambda>i. [q i]" "{k}"]) auto

end
