(* ===== verification/Torch_Ops.thy ===== *)
theory Torch_Ops
  imports Collective Py_Strings
begin

text \<open>
  \<^verbatim>\<open>byteps/torch/ops.py\<close>: the push-pull operations of the torch front end, over the push-pull service.

  The Python state of a worker is a record: the tensors live in a heap, because the in-place operations
  return their argument and several names may refer to one tensor; the module's dictionaries are fields.
  An operation takes the state and is a program of \<open>Collective\<close> that returns a result or an exception
  together with the new state. The compiled extension \<open>c_lib\<close> is modelled from \<^verbatim>\<open>byteps/torch/ops.cc\<close>: the
  names it exports, the key of a request, and the number of arguments of its functions. The Euclidean
  norm is a parameter; \<open>poll\<close> is left out.
\<close>

section \<open>State and sequencing\<close>

type_synonym addr = nat

record world =
  w_rank :: int
  w_heap :: "addr \<Rightarrow> tensor"
  w_next :: addr
  w_cuda :: "addr \<Rightarrow> bool"
  w_contiguous :: "addr \<Rightarrow> bool"
  w_declared :: "string list"
  w_handle_map :: "(nat, addr \<times> addr \<times> string option) dict"
  w_name_to_norm :: "(string, rat) dict"
  w_name_to_next :: "(string, string) dict"
  w_max_norm :: rat
  w_num_grads :: int
  w_grad_count :: int

type_synonym ('w, 'a) io = "'w \<Rightarrow> ('a res \<times> 'w) proc"

definition ret_io :: "'a \<Rightarrow> ('w, 'a) io" where
  "ret_io x w = Ret (Inr x, w)"

definition raise_io :: "py_error \<Rightarrow> ('w, 'a) io" where
  "raise_io e w = Ret (Inl e, w)"

definition lift_io :: "'a res \<Rightarrow> ('w, 'a) io" where
  "lift_io r w = Ret (r, w)"

definition get_io :: "('w \<Rightarrow> 'a) \<Rightarrow> ('w, 'a) io" where
  "get_io f w = Ret (Inr (f w), w)"

definition modify_io :: "('w \<Rightarrow> 'w) \<Rightarrow> ('w, unit) io" where
  "modify_io g w = Ret (Inr (), g w)"

definition bind_io :: "('w, 'a) io \<Rightarrow> ('a \<Rightarrow> ('w, 'b) io) \<Rightarrow> ('w, 'b) io" where
  "bind_io m f w =
     bind_proc (m w) (\<lambda>(r, w'). case r of Inl e \<Rightarrow> Ret (Inl e, w') | Inr x \<Rightarrow> f x w')"

fun for_io :: "('a \<Rightarrow> ('w, 'b) io) \<Rightarrow> 'a list \<Rightarrow> ('w, unit) io" where
  "for_io f [] = ret_io ()"
| "for_io f (x # xs) = bind_io (f x) (\<lambda>_. for_io f xs)"

definition alloc_io :: "tensor \<Rightarrow> bool \<Rightarrow> ('z world_scheme, addr) io" where
  "alloc_io t cuda w =
     (let a = w_next w
      in Ret (Inr a, w\<lparr>w_heap := (w_heap w)(a := t), w_next := Suc a, w_cuda := (w_cuda w)(a := cuda),
                        w_contiguous := (w_contiguous w)(a := True)\<rparr>))"

section \<open>The compiled extension\<close>

fun legacy_type :: "dtype \<Rightarrow> string" where
  "legacy_type Uint8 = ''ByteTensor''"
| "legacy_type Int32 = ''IntTensor''"
| "legacy_type Int64 = ''LongTensor''"
| "legacy_type Float16 = ''HalfTensor''"
| "legacy_type Float32 = ''FloatTensor''"
| "legacy_type Float64 = ''DoubleTensor''"

definition tensor_type :: "bool \<Rightarrow> dtype \<Rightarrow> string" where
  "tensor_type cuda dt = ''torch.'' @ (if cuda then ''cuda.'' else '''') @ legacy_type dt"

definition c_lib_functions :: "bool \<Rightarrow> string list" where
  "c_lib_functions have_cuda =
     [f @ d @ t. d \<leftarrow> (if have_cuda then [''torch_'', ''torch_cuda_''] else [''torch_'']),
        f \<leftarrow> [''byteps_torch_push_pull_async_'', ''byteps_torch_push_pull_group_sync_''],
        t \<leftarrow> [''ByteTensor'', ''IntTensor'', ''LongTensor'', ''HalfTensor'', ''FloatTensor'', ''DoubleTensor'']]"

definition op_name :: "string \<Rightarrow> string" where
  "op_name name = (if name \<noteq> '''' then ''byteps.'' @ name else ''byteps.noname.'' @ nat_str 0)"

definition group_sync_arity :: nat where
  "group_sync_arity = 8"

definition declare_tensor :: "string \<Rightarrow> 'z world_scheme \<Rightarrow> 'z world_scheme" where
  "declare_tensor name w =
     (if op_name name \<in> set (w_declared w) then w else w\<lparr>w_declared := w_declared w @ [op_name name]\<rparr>)"

section \<open>Operations\<close>

definition encode_name :: "string option \<Rightarrow> string" where
  "encode_name name = (case name of None \<Rightarrow> '''' | Some s \<Rightarrow> s)"

definition replace_dots :: "string \<Rightarrow> string" where
  "replace_dots s = map (\<lambda>ch. if ch = CHR ''.'' then CHR ''_'' else ch) s"

definition push_pull_function_factory :: "string \<Rightarrow> string" where
  "push_pull_function_factory ty = ''byteps_torch_push_pull_async_'' @ replace_dots ty"

definition push_pull_group_function_factory :: "string \<Rightarrow> string" where
  "push_pull_group_function_factory ty = ''byteps_torch_push_pull_group_sync_'' @ replace_dots ty"

definition check_function :: "bool \<Rightarrow> (string \<Rightarrow> string) \<Rightarrow> addr \<Rightarrow> ('z world_scheme, string) io" where
  "check_function have_cuda function_factory tensor w =
     (let function = function_factory (tensor_type (w_cuda w tensor) (t_dtype (w_heap w tensor)))
      in if function \<notin> set (c_lib_functions have_cuda) then raise_io ValueError w
         else if \<not> w_contiguous w tensor then raise_io ValueError w
         else ret_io function w)"

definition do_push_pull_async ::
    "bool \<Rightarrow> addr \<Rightarrow> addr \<Rightarrow> bool \<Rightarrow> string option \<Rightarrow> int \<Rightarrow> int \<Rightarrow> rat \<Rightarrow> string \<Rightarrow> ('z world_scheme, nat) io" where
  "do_push_pull_async have_cuda tensor output average name version priority nrm compressor_name =
     bind_io (modify_io (declare_tensor (encode_name name))) (\<lambda>_.
     bind_io (check_function have_cuda push_pull_function_factory tensor) (\<lambda>function.
     (\<lambda>w. Issue \<lparr>rq_key = op_name (encode_name name), rq_average = average, rq_version = version,
                 rq_priority = priority, rq_norm = nrm, rq_compressor = compressor_name,
                 rq_input = w_heap w tensor\<rparr>
        (\<lambda>handle. Ret (Inr handle,
           w\<lparr>w_handle_map := dict_set (w_handle_map w) handle (tensor, output, name)\<rparr>)))))"

definition do_push_pull_group_sync ::
    "(rat list \<Rightarrow> rat) \<Rightarrow> bool \<Rightarrow> addr \<Rightarrow> addr \<Rightarrow> bool \<Rightarrow> string option \<Rightarrow> int \<Rightarrow> int \<Rightarrow> ('z world_scheme, nat \<times> int) io" where
  "do_push_pull_group_sync norm2 have_cuda tensor output average name version priority =
     bind_io (modify_io (declare_tensor (encode_name name))) (\<lambda>_.
     bind_io (check_function have_cuda push_pull_group_function_factory tensor) (\<lambda>function.
     bind_io (get_io (\<lambda>w. norm2 (t_data (w_heap w tensor)))) (\<lambda>nrm.
       let args = 7
       in if args \<noteq> group_sync_arity then raise_io TypeError
          else (\<lambda>w. Issue \<lparr>rq_key = op_name (encode_name name), rq_average = average, rq_version = version,
                 rq_priority = priority, rq_norm = nrm, rq_compressor = '''', rq_input = w_heap w tensor\<rparr>
               (\<lambda>handle. let curr_count = w_grad_count w + 1
                  in Ret (Inr (handle, curr_count),
                       w\<lparr>w_grad_count := (if curr_count = w_num_grads w then 0 else curr_count),
                         w_handle_map := dict_set (w_handle_map w) handle (tensor, output, name)\<rparr>))))))"

definition push_pull_async ::
    "bool \<Rightarrow> (tensor \<Rightarrow> tensor) \<Rightarrow> addr \<Rightarrow> bool \<Rightarrow> string option \<Rightarrow> int \<Rightarrow> int \<Rightarrow> string \<Rightarrow> ('z world_scheme, nat) io" where
  "push_pull_async have_cuda empty_like tensor average name version priority compressor_name =
     bind_io (get_io (\<lambda>w. (empty_like (w_heap w tensor), w_cuda w tensor))) (\<lambda>(t, cuda).
     bind_io (alloc_io t cuda) (\<lambda>output.
     bind_io (get_io w_max_norm) (\<lambda>max_norm.
       do_push_pull_async have_cuda tensor output average name version priority max_norm compressor_name)))"

definition push_pull_async_inplace ::
    "bool \<Rightarrow> addr \<Rightarrow> bool \<Rightarrow> string option \<Rightarrow> int \<Rightarrow> int \<Rightarrow> string \<Rightarrow> ('z world_scheme, nat) io" where
  "push_pull_async_inplace have_cuda tensor average name version priority compressor_name =
     bind_io (get_io w_max_norm) (\<lambda>max_norm.
       do_push_pull_async have_cuda tensor tensor average name version priority max_norm compressor_name)"

definition push_pull_group_sync_inplace ::
    "(rat list \<Rightarrow> rat) \<Rightarrow> bool \<Rightarrow> addr \<Rightarrow> bool \<Rightarrow> string option \<Rightarrow> int \<Rightarrow> int \<Rightarrow> ('z world_scheme, nat \<times> int) io" where
  "push_pull_group_sync_inplace norm2 have_cuda tensor average name version priority =
     do_push_pull_group_sync norm2 have_cuda tensor tensor average name version priority"

text \<open>Waiting for a handle writes the result into the output tensor; an unknown handle is ignored.\<close>

definition synchronize :: "nat option \<Rightarrow> ('z world_scheme, addr option) io" where
  "synchronize handle w =
     (case handle of
        None \<Rightarrow> Ret (Inr None, w)
      | Some h \<Rightarrow>
          (case dict_get (w_handle_map w) h of
             None \<Rightarrow> Ret (Inr None, w)
           | Some (_, output, _) \<Rightarrow>
               Wait h (\<lambda>t. Ret (Inr (Some output),
                 w\<lparr>w_heap := (w_heap w)(output := (w_heap w output)\<lparr>t_data := t_data t\<rparr>),
                   w_handle_map := AList.delete h (w_handle_map w)\<rparr>))))"

definition push_pull_forward ::
    "bool \<Rightarrow> (tensor \<Rightarrow> tensor) \<Rightarrow> addr \<Rightarrow> bool \<Rightarrow> string option \<Rightarrow> int \<Rightarrow> int \<Rightarrow> ('z world_scheme, addr option) io" where
  "push_pull_forward have_cuda empty_like tensor average name version priority =
     bind_io (push_pull_async have_cuda empty_like tensor average name version priority '''') (\<lambda>handle.
       synchronize (Some handle))"

definition push_pull ::
    "bool \<Rightarrow> (tensor \<Rightarrow> tensor) \<Rightarrow> (addr \<Rightarrow> ('z world_scheme, addr \<times> 'c) io) \<Rightarrow> (addr option \<Rightarrow> 'c \<Rightarrow> ('z world_scheme, 'r) io) \<Rightarrow>
     addr \<Rightarrow> bool \<Rightarrow> string option \<Rightarrow> int \<Rightarrow> int \<Rightarrow> ('z world_scheme, 'r) io" where
  "push_pull have_cuda empty_like compress decompress tensor average name version priority =
     (if name = None then raise_io AssertionError
      else bind_io (compress tensor) (\<lambda>(tensor_compressed, ctx).
           bind_io (push_pull_forward have_cuda empty_like tensor_compressed average name version priority) (\<lambda>summed.
             decompress summed ctx)))"

definition push_pull_inplace ::
    "bool \<Rightarrow> addr \<Rightarrow> bool \<Rightarrow> string option \<Rightarrow> int \<Rightarrow> int \<Rightarrow> ('z world_scheme, addr option) io" where
  "push_pull_inplace have_cuda tensor average name version priority =
     bind_io (push_pull_async_inplace have_cuda tensor average name version priority '''') (\<lambda>handle.
       synchronize (Some handle))"

definition declare_op :: "string \<Rightarrow> ('z world_scheme, int) io" where
  "declare_op name = bind_io (modify_io (declare_tensor name)) (\<lambda>_. ret_io 0)"

definition byteps_torch_set_num_grads :: "int \<Rightarrow> ('z world_scheme, int) io" where
  "byteps_torch_set_num_grads num_grads = bind_io (modify_io (\<lambda>w. w\<lparr>w_num_grads := num_grads, w_grad_count := 0\<rparr>)) (\<lambda>_. ret_io 0)"

definition send_norm :: "(string \<Rightarrow> rat \<Rightarrow> rat) \<Rightarrow> string option \<Rightarrow> rat \<Rightarrow> ('z world_scheme, rat) io" where
  "send_norm c_send_norm name max_norm =
     bind_io (modify_io (declare_tensor (encode_name name))) (\<lambda>_.
       case name of None \<Rightarrow> raise_io AttributeError | Some s \<Rightarrow> ret_io (c_send_norm s max_norm))"

definition write_norm :: "string \<Rightarrow> rat \<Rightarrow> 'z world_scheme \<Rightarrow> 'z world_scheme" where
  "write_norm name nrm w = w\<lparr>w_name_to_norm := dict_set (w_name_to_norm w) name nrm\<rparr>"

definition write_next :: "string \<Rightarrow> string \<Rightarrow> 'z world_scheme \<Rightarrow> 'z world_scheme" where
  "write_next name nxt w = w\<lparr>w_name_to_next := dict_set (w_name_to_next w) name nxt\<rparr>"

definition clean_records :: "'z world_scheme \<Rightarrow> 'z world_scheme" where
  "clean_records w = w\<lparr>w_name_to_next := [], w_name_to_norm := []\<rparr>"

definition write_max_norm :: "rat \<Rightarrow> 'z world_scheme \<Rightarrow> 'z world_scheme" where
  "write_max_norm nrm w = w"

definition none_compress_io :: "addr \<Rightarrow> ('w, addr \<times> unit option) io" where
  "none_compress_io tensor = ret_io (tensor, None)"

definition none_decompress_io :: "addr option \<Rightarrow> unit option \<Rightarrow> ('w, addr option) io" where
  "none_decompress_io tensor ctx = ret_io tensor"

text \<open>The gradient of a push-pull is the push-pull of the gradient, with the arguments of the forward call.\<close>

definition push_pull_backward ::
    "bool \<Rightarrow> (tensor \<Rightarrow> tensor) \<Rightarrow> addr \<Rightarrow> bool \<Rightarrow> string option \<Rightarrow> int \<Rightarrow> int \<Rightarrow> ('z world_scheme, addr option) io" where
  "push_pull_backward have_cuda empty_like grad_output ctx_average ctx_name ctx_version ctx_priority =
     push_pull have_cuda empty_like none_compress_io none_decompress_io grad_output ctx_average ctx_name ctx_version ctx_priority"

section \<open>Single-worker behaviour\<close>

named_theorems io_simps \<open>running the sequencing combinators\<close>

lemma io_run [io_simps]:
  "ret_io x w = Ret (Inr x, w)" "raise_io e w = Ret (Inl e, w)" "lift_io r w = Ret (r, w)"
  "get_io f w = Ret (Inr (f w), w)" "modify_io g w = Ret (Inr (), g w)"
  by (simp_all add: ret_io_def raise_io_def lift_io_def get_io_def modify_io_def)

lemma bind_io_basic [io_simps]:
  "bind_io (ret_io x) f w = f x w" "bind_io (get_io h) f w = f (h w) w" "bind_io (modify_io g) f' w = f' () (g w)"
  "bind_io (lift_io (Inr x)) f w = f x w" "bind_io (lift_io (Inl e)) f w = Ret (Inl e, w)"
  "bind_io (raise_io e) f w = Ret (Inl e, w)"
  by (simp_all add: bind_io_def io_run)

lemma bind_io_Ret [io_simps]:
  "m w = Ret (Inr x, w') \<Longrightarrow> bind_io m f w = f x w'"
  "m w = Ret (Inl e, w') \<Longrightarrow> bind_io m f w = Ret (Inl e, w')"
  by (simp_all add: bind_io_def)

lemma bind_io_Issue [io_simps]: "m w = Issue q g \<Longrightarrow> bind_io m f w = Issue q (\<lambda>h. bind_io (\<lambda>_. g h) f w)"
  by (simp add: bind_io_def)

lemma bind_io_Wait [io_simps]: "m w = Wait h g \<Longrightarrow> bind_io m f w = Wait h (\<lambda>t. bind_io (\<lambda>_. g t) f w)"
  by (simp add: bind_io_def)

lemma bind_proc_assoc: "bind_proc (bind_proc p f) g = bind_proc p (\<lambda>x. bind_proc (f x) g)"
  by (induction p) auto

lemma bind_io_assoc: "bind_io (bind_io m f) g = bind_io m (\<lambda>x. bind_io (f x) g)"
proof
  fix w
  have "(\<lambda>y. bind_proc (case y of (Inl e, w') \<Rightarrow> Ret (Inl e, w') | (Inr x, w') \<Rightarrow> f x w')
            (\<lambda>(r, w'). case r of Inl e \<Rightarrow> Ret (Inl e, w') | Inr x \<Rightarrow> g x w'))
      = (\<lambda>(r, w'). case r of Inl e \<Rightarrow> Ret (Inl e, w')
           | Inr x \<Rightarrow> bind_proc (f x w') (\<lambda>(r, w'). case r of Inl e \<Rightarrow> Ret (Inl e, w') | Inr x \<Rightarrow> g x w'))"
    by (auto simp: fun_eq_iff split: sum.splits)
  then show "bind_io (bind_io m f) g w = bind_io m (\<lambda>x. bind_io (f x) g) w"
    by (simp add: bind_io_def [abs_def] bind_proc_assoc)
qed

lemma declare_tensor_sel [simp]:
  "w_heap (declare_tensor n w) = w_heap w" "w_rank (declare_tensor n w) = w_rank w"
  "w_next (declare_tensor n w) = w_next w" "w_cuda (declare_tensor n w) = w_cuda w"
  "w_contiguous (declare_tensor n w) = w_contiguous w" "w_handle_map (declare_tensor n w) = w_handle_map w"
  "w_max_norm (declare_tensor n w) = w_max_norm w" "world.more (declare_tensor n w) = world.more w"
  by (simp_all add: declare_tensor_def)

lemma declare_tensor_declared: "op_name n \<in> set (w_declared (declare_tensor n w))"
  by (simp add: declare_tensor_def)

text \<open>The types torch reports are exactly the ones the extension exports, given a build for the device.\<close>

definition pushable :: "bool \<Rightarrow> addr \<Rightarrow> 'z world_scheme \<Rightarrow> bool" where
  "pushable have_cuda a w \<longleftrightarrow> (w_cuda w a \<longrightarrow> have_cuda) \<and> w_contiguous w a"

lemma async_function: "push_pull_function_factory (tensor_type cuda dt) \<in> set (c_lib_functions hc) \<longleftrightarrow> (cuda \<longrightarrow> hc)"
proof -
  have "list_all (\<lambda>(dt, cuda, hc). (push_pull_function_factory (tensor_type cuda dt) \<in> set (c_lib_functions hc)) = (cuda \<longrightarrow> hc))
      [(dt, cuda, hc). dt \<leftarrow> [Float16, Float32, Float64, Uint8, Int32, Int64], cuda \<leftarrow> [False, True], hc \<leftarrow> [False, True]]"
    by code_simp
  then show ?thesis by (cases dt; cases cuda; cases hc; simp)
qed

lemma check_function_async:
  "check_function hc push_pull_function_factory a w =
     Ret (if pushable hc a w then Inr (push_pull_function_factory (tensor_type (w_cuda w a) (t_dtype (w_heap w a))))
          else Inl ValueError, w)"
  by (auto simp: check_function_def async_function pushable_def io_simps Let_def)

definition pp_req :: "addr \<Rightarrow> bool \<Rightarrow> string option \<Rightarrow> int \<Rightarrow> int \<Rightarrow> rat \<Rightarrow> string \<Rightarrow> 'z world_scheme \<Rightarrow> req" where
  "pp_req tensor average name version priority nrm compressor_name w =
     \<lparr>rq_key = op_name (encode_name name), rq_average = average, rq_version = version, rq_priority = priority,
      rq_norm = nrm, rq_compressor = compressor_name, rq_input = w_heap w tensor\<rparr>"

lemma pp_req_sel [simp]:
  "rq_key (pp_req a av n v p nm cn w) = op_name (encode_name n)" "rq_average (pp_req a av n v p nm cn w) = av"
  "rq_input (pp_req a av n v p nm cn w) = w_heap w a"
  by (simp_all add: pp_req_def)

lemma pp_req_declare [simp]: "pp_req a av n v p nm cn (declare_tensor m w) = pp_req a av n v p nm cn w"
  by (simp add: pp_req_def)

definition with_handle :: "nat \<Rightarrow> addr \<Rightarrow> addr \<Rightarrow> string option \<Rightarrow> 'z world_scheme \<Rightarrow> 'z world_scheme" where
  "with_handle h tensor output name w = w\<lparr>w_handle_map := dict_set (w_handle_map w) h (tensor, output, name)\<rparr>"

lemma do_push_pull_async_run:
  "do_push_pull_async hc a b av n v p nm cn w =
     (let w1 = declare_tensor (encode_name n) w
      in if pushable hc a w then Issue (pp_req a av n v p nm cn w) (\<lambda>h. Ret (Inr h, with_handle h a b n w1))
         else Ret (Inl ValueError, w1))"
  by (simp add: do_push_pull_async_def io_simps check_function_async pushable_def pp_req_def with_handle_def Let_def)

lemma push_pull_async_inplace_run:
  "push_pull_async_inplace hc a av n v p cn w = do_push_pull_async hc a a av n v p (w_max_norm w) cn w"
  by (simp add: push_pull_async_inplace_def io_simps)

text \<open>What waiting for a handle of the map does to the state.\<close>

definition filled :: "nat \<Rightarrow> addr \<Rightarrow> tensor \<Rightarrow> 'z world_scheme \<Rightarrow> 'z world_scheme" where
  "filled h b t w =
     w\<lparr>w_heap := (w_heap w)(b := (w_heap w b)\<lparr>t_data := t_data t\<rparr>), w_handle_map := AList.delete h (w_handle_map w)\<rparr>"

lemma synchronize_run:
  "synchronize None w = Ret (Inr None, w)"
  "dict_get (w_handle_map w) h = None \<Longrightarrow> synchronize (Some h) w = Ret (Inr None, w)"
  "dict_get (w_handle_map w) h = Some (a, b, n) \<Longrightarrow> synchronize (Some h) w = Wait h (\<lambda>t. Ret (Inr (Some b), filled h b t w))"
  by (simp_all add: synchronize_def filled_def)

definition fresh_handles :: "req list \<Rightarrow> 'z world_scheme \<Rightarrow> bool" where
  "fresh_handles l w \<longleftrightarrow> (\<forall>h \<in> fst ` set (w_handle_map w). h \<le> length l)"

lemma filled_with_handle:
  assumes "fresh_handles l w"
  shows "filled (Suc (length l)) b t (with_handle (Suc (length l)) a b n w) =
     w\<lparr>w_heap := (w_heap w)(b := (w_heap w b)\<lparr>t_data := t_data t\<rparr>)\<rparr>"
proof -
  have "Suc (length l) \<notin> fst ` set (w_handle_map w)" using assms by (force simp: fresh_handles_def)
  then have "AList.delete (Suc (length l)) (dict_set (w_handle_map w) (Suc (length l)) (a, b, n)) = w_handle_map w"
    by (simp add: delete_update_same delete_id)
  then show ?thesis by (simp add: filled_def with_handle_def)
qed

lemma push_pull_inplace_run:
  "pushable hc a w \<Longrightarrow>
   push_pull_inplace hc a av n v p w =
     Issue (pp_req a av n v p (w_max_norm w) '''' w)
       (\<lambda>h. Wait h (\<lambda>t. Ret (Inr (Some a), filled h a t (with_handle h a a n (declare_tensor (encode_name n) w)))))"
  by (simp add: push_pull_inplace_def push_pull_async_inplace_run do_push_pull_async_run io_simps
      synchronize_run with_handle_def Let_def)

section \<open>Joint behaviour\<close>

lemma runs_bind_io:
  assumes "net_ok net" "runs net L (\<lambda>i. m i (w i)) L1 (\<lambda>i. (Inr (x i), w1 i))" "runs net L1 (\<lambda>i. f i (x i) (w1 i)) L2 y"
  shows "runs net L (\<lambda>i. bind_io (m i) (f i) (w i)) L2 y"
proof -
  have "runs net L (\<lambda>i. bind_proc (m i (w i)) (\<lambda>(r, w'). case r of Inl e \<Rightarrow> Ret (Inl e, w') | Inr x \<Rightarrow> f i x w')) L2 y"
    by (rule runs_bind [OF assms(1,2)]) (simp add: assms(3))
  then show ?thesis by (simp add: bind_io_def [abs_def])
qed

text \<open>
  A loop in which all workers run the same operation on one item after the other. What an operation
  promises of one item is its effect on the states of all workers, which may depend on all of them, and
  that the remaining items can follow.
\<close>

locale joint_loop =
  fixes net :: net
    and body :: "nat \<Rightarrow> 'a \<Rightarrow> ('w, 'b) io"
    and eff :: "'a \<Rightarrow> (nat \<Rightarrow> 'w) \<Rightarrow> nat \<Rightarrow> 'w"
    and ready :: "'a list \<Rightarrow> (nat \<Rightarrow> 'w) \<Rightarrow> bool"
  assumes step: "net_ok net \<Longrightarrow> balanced net L \<Longrightarrow> ready (x # xs) w \<Longrightarrow>
      \<exists>L' y. runs net L (\<lambda>i. body i x (w i)) L' (\<lambda>i. (Inr (y i), eff x w i)) \<and> balanced net L'"
    and next_ready: "net_ok net \<Longrightarrow> ready (x # xs) w \<Longrightarrow> ready xs (eff x w)"
begin

lemma loop:
  "net_ok net \<Longrightarrow> balanced net L \<Longrightarrow> ready xs w \<Longrightarrow>
   \<exists>L'. runs net L (\<lambda>i. for_io (body i) xs (w i)) L' (\<lambda>i. (Inr (), fold eff xs w i)) \<and> balanced net L'"
proof (induction xs arbitrary: L w)
  case Nil
  have "runs net L (\<lambda>i. for_io (body i) [] (w i)) L (\<lambda>i. (Inr (), w i))" by (rule runs_Ret) (simp add: io_run)
  with Nil.prems(2) show ?case by auto
next
  case (Cons x xs)
  obtain L1 y where r1: "runs net L (\<lambda>i. body i x (w i)) L1 (\<lambda>i. (Inr (y i), eff x w i))" "balanced net L1"
    using step [OF Cons.prems] by blast
  obtain L2 where r2: "runs net L1 (\<lambda>i. for_io (body i) xs (eff x w i)) L2 (\<lambda>i. (Inr (), fold eff xs (eff x w) i))" "balanced net L2"
    using Cons.IH [OF Cons.prems(1) r1(2) next_ready [OF Cons.prems(1,3)]] by blast
  have "runs net L (\<lambda>i. bind_io (body i x) (\<lambda>_. for_io (body i) xs) (w i)) L2 (\<lambda>i. (Inr (), fold eff xs (eff x w) i))"
    by (rule runs_bind_io [where m = "\<lambda>i. body i x" and w = w and x = y and ?w1.0 = "eff x w", OF Cons.prems(1) r1(1)]) (rule r2(1))
  with r2(2) show ?case by auto
qed

end

definition after_inplace :: "string option \<Rightarrow> addr \<Rightarrow> tensor \<Rightarrow> 'z world_scheme \<Rightarrow> 'z world_scheme" where
  "after_inplace name a t w =
     (declare_tensor (encode_name name) w)\<lparr>w_heap := (w_heap w)(a := (w_heap w a)\<lparr>t_data := t_data t\<rparr>)\<rparr>"

lemma after_inplace_sel [simp]:
  "w_heap (after_inplace n a t w) = (w_heap w)(a := (w_heap w a)\<lparr>t_data := t_data t\<rparr>)"
  "w_rank (after_inplace n a t w) = w_rank w" "w_next (after_inplace n a t w) = w_next w"
  "w_cuda (after_inplace n a t w) = w_cuda w" "w_contiguous (after_inplace n a t w) = w_contiguous w"
  "w_handle_map (after_inplace n a t w) = w_handle_map w" "w_max_norm (after_inplace n a t w) = w_max_norm w"
  "world.more (after_inplace n a t w) = world.more w"
  by (simp_all add: after_inplace_def)

lemma fresh_handles_after [simp]: "fresh_handles l (after_inplace n a t w) = fresh_handles l w"
  by (simp add: fresh_handles_def)

lemma fresh_handles_snoc: "fresh_handles l w \<Longrightarrow> fresh_handles (l @ m) w"
  by (force simp: fresh_handles_def)

lemma pushable_after [simp]: "pushable hc a (after_inplace n b t w) = pushable hc a w"
  by (simp add: pushable_def)

lemma runs_inplace:
  assumes ok: "net_ok net" and bal: "balanced net L"
    and p: "\<And>i. i < n_size net \<Longrightarrow> pushable hc (a i) (w i)" "\<And>i. i < n_size net \<Longrightarrow> fresh_handles (L i) (w i)"
    and sum: "\<And>r. server_round (n_store net) (map (\<lambda>j. w_heap (w j) (a j)) (n_arrive net (op_name (encode_name n)) r)) = Some t"
  shows "runs net L (\<lambda>i. push_pull_inplace hc (a i) av n v pr (w i))
    (\<lambda>i. L i @ [pp_req (a i) av n v pr (w_max_norm (w i)) '''' (w i)])
    (\<lambda>i. (Inr (Some (a i)), after_inplace n (a i) (finish_output net av t) (w i)))"
proof -
  let ?q = "\<lambda>i. pp_req (a i) av n v pr (w_max_norm (w i)) '''' (w i)"
  let ?g = "\<lambda>i h t. (Inr (Some (a i)), filled h (a i) t (with_handle h (a i) (a i) n (declare_tensor (encode_name n) (w i))))"
  have "runs net L (\<lambda>i. Issue (?q i) (\<lambda>h. Wait h (\<lambda>u. Ret (?g i h u)))) (\<lambda>i. L i @ [?q i])
      (\<lambda>i. ?g i (Suc (length (L i))) (finish_output net (rq_average (?q i)) t))"
    using sum by (intro runs_collective [OF ok bal]) auto
  then show ?thesis
  proof (rule runs_cong [OF ok])
    fix i assume i: "i < n_size net"
    show "Issue (?q i) (\<lambda>h. Wait h (\<lambda>u. Ret (?g i h u))) = push_pull_inplace hc (a i) av n v pr (w i)"
      using p(1) [OF i] by (simp add: push_pull_inplace_run)
    have "fresh_handles (L i) (declare_tensor (encode_name n) (w i))" using p(2) [OF i] by (simp add: fresh_handles_def)
    then show "?g i (Suc (length (L i))) (finish_output net (rq_average (?q i)) t) =
      (Inr (Some (a i)), after_inplace n (a i) (finish_output net av t) (w i))"
      by (simp add: filled_with_handle after_inplace_def)
  qed simp
qed

lemma balanced_pp:
  "balanced net L \<Longrightarrow> balanced net (\<lambda>i. L i @ [pp_req (a i) av n v pr (nm i) cn (w i)])"
  by (rule balanced_snoc) auto

definition allocated :: "(tensor \<Rightarrow> tensor) \<Rightarrow> addr \<Rightarrow> 'z world_scheme \<Rightarrow> 'z world_scheme" where
  "allocated empty_like a w =
     w\<lparr>w_heap := (w_heap w)(w_next w := empty_like (w_heap w a)), w_next := Suc (w_next w),
       w_cuda := (w_cuda w)(w_next w := w_cuda w a), w_contiguous := (w_contiguous w)(w_next w := True)\<rparr>"

lemma push_pull_none_run:
  assumes "pushable hc a w" "a < w_next w"
  shows "push_pull hc el none_compress_io none_decompress_io a av (Some s) v p w =
     (let w1 = allocated el a w; b = w_next w
      in Issue (pp_req a av (Some s) v p (w_max_norm w) '''' w)
        (\<lambda>h. Wait h (\<lambda>t. Ret (Inr (Some b), filled h b t (with_handle h a b (Some s) (declare_tensor s w1))))))"
proof -
  have "pushable hc a (allocated el a w)" "w_max_norm (allocated el a w) = w_max_norm w" "pp_req a av (Some s) v p (w_max_norm w) '''' (allocated el a w) = pp_req a av (Some s) v p (w_max_norm w) '''' w"
    using assms by (simp_all add: pushable_def allocated_def pp_req_def)
  then show ?thesis
    by (simp add: push_pull_def none_compress_io_def none_decompress_io_def push_pull_forward_def push_pull_async_def
        io_simps alloc_io_def do_push_pull_async_run allocated_def [symmetric] synchronize_run with_handle_def
        encode_name_def Let_def)
qed

text \<open>
  C17. Averaging a tensor: when every worker calls \<open>push_pull\<close> under one name on a tensor of one
  floating point type and size, then in exact arithmetic every worker receives a new tensor that holds
  the mean of all contributions; the input tensor, all other tensors and the table of open handles are
  as before.
\<close>

theorem push_pull_mean:
  assumes "net_ok net" "n_store net = exact" "balanced net L" "is_floating_point dt"
    and w: "\<And>i. i < n_size net \<Longrightarrow> pushable hc (a i) (w i)" "\<And>i. i < n_size net \<Longrightarrow> fresh_handles (L i) (w i)"
      "\<And>i. i < n_size net \<Longrightarrow> a i < w_next (w i)" "\<And>i. i < n_size net \<Longrightarrow> same_form dt sz (w_heap (w i) (a i))"
    and el: "\<And>t. empty_like t = t\<lparr>t_data := junk t\<rparr>"
  shows "\<exists>L' w'. runs net L (\<lambda>i. push_pull hc empty_like none_compress_io none_decompress_io (a i) True (Some name) v p (w i))
      L' (\<lambda>i. (Inr (Some (w_next (w i))), w' i)) \<and> balanced net L'
    \<and> (\<forall>i. w_heap (w' i) (w_next (w i)) = (w_heap (w i) (a i))\<lparr>t_data :=
           vscale (1 / of_nat (n_size net)) (vsum (numel sz) (map (\<lambda>j. t_data (w_heap (w j) (a j))) [0..<n_size net]))\<rparr>
       \<and> (\<forall>b. b \<noteq> w_next (w i) \<longrightarrow> w_heap (w' i) b = w_heap (w i) b)
       \<and> w_handle_map (w' i) = w_handle_map (w i))"
proof -
  let ?q = "\<lambda>i. pp_req (a i) True (Some name) v p (w_max_norm (w i)) '''' (w i)"
  let ?w1 = "\<lambda>i. declare_tensor name (allocated empty_like (a i) (w i))"
  let ?b = "\<lambda>i. w_next (w i)"
  let ?s = "vsum (numel sz) (map (\<lambda>j. t_data (w_heap (w j) (a j))) [0..<n_size net])"
  let ?t = "\<lparr>t_dtype = dt, t_size = sz, t_data = ?s\<rparr>"
  let ?g = "\<lambda>i h t. (Inr (Some (?b i)), filled h (?b i) t (with_handle h (a i) (?b i) (Some name) (?w1 i)))"
  let ?w' = "\<lambda>i. (?w1 i)\<lparr>w_heap := (w_heap (?w1 i))(?b i := (w_heap (?w1 i) (?b i))\<lparr>t_data := t_data (finish_output net True ?t)\<rparr>)\<rparr>"
  have "runs net L (\<lambda>i. Issue (?q i) (\<lambda>h. Wait h (\<lambda>u. Ret (?g i h u)))) (\<lambda>i. L i @ [?q i])
      (\<lambda>i. ?g i (Suc (length (L i))) (finish_output net (rq_average (?q i)) ?t))"
    using server_round_exact [OF assms(1) w(4)] assms(2) by (intro runs_collective [OF assms(1,3)]) auto
  then have "runs net L (\<lambda>i. push_pull hc empty_like none_compress_io none_decompress_io (a i) True (Some name) v p (w i))
      (\<lambda>i. L i @ [?q i]) (\<lambda>i. (Inr (Some (?b i)), ?w' i))"
  proof (rule runs_cong [OF assms(1)])
    fix i assume i: "i < n_size net"
    show "Issue (?q i) (\<lambda>h. Wait h (\<lambda>u. Ret (?g i h u))) =
        push_pull hc empty_like none_compress_io none_decompress_io (a i) True (Some name) v p (w i)"
      using push_pull_none_run [OF w(1) [OF i] w(3) [OF i]] by (simp add: Let_def)
    have "fresh_handles (L i) (?w1 i)" using w(2) [OF i] by (simp add: fresh_handles_def allocated_def)
    then show "?g i (Suc (length (L i))) (finish_output net (rq_average (?q i)) ?t) = (Inr (Some (?b i)), ?w' i)"
      by (simp add: filled_with_handle)
  qed simp
  moreover have "t_data (finish_output net True ?t) = vscale (1 / of_nat (n_size net)) ?s"
    using assms(2,4) by (simp add: finish_output_def vscale_def Let_def)
  ultimately show ?thesis
    using balanced_pp [OF assms(3)]
    by (intro exI [of _ "\<lambda>i. L i @ [?q i]"] exI [of _ ?w']) (simp add: allocated_def el)
qed

definition vec_of :: "rat list \<Rightarrow> tensor" where
  "vec_of xs = \<lparr>t_dtype = Float32, t_size = [length xs], t_data = xs\<rparr>"

definition start_world :: "int \<Rightarrow> tensor list \<Rightarrow> world" where
  "start_world rnk ts =
     \<lparr>w_rank = rnk, w_heap = (\<lambda>a. if a < length ts then ts ! a else vec_of []), w_next = length ts,
      w_cuda = (\<lambda>_. True), w_contiguous = (\<lambda>_. True), w_declared = [], w_handle_map = [], w_name_to_norm = [],
      w_name_to_next = [], w_max_norm = 0, w_num_grads = 0, w_grad_count = 0\<rparr>"

lemma start_world_sel [simp]:
  "w_rank (start_world r ts) = r" "w_heap (start_world r ts) a = (if a < length ts then ts ! a else vec_of [])"
  "w_next (start_world r ts) = length ts" "w_handle_map (start_world r ts) = []"
  "pushable True a (start_world r ts)" "fresh_handles l (start_world r ts)"
  by (simp_all add: start_world_def pushable_def fresh_handles_def)

lemma same_form_vec_of [simp]: "same_form dt sz (vec_of xs) \<longleftrightarrow> dt = Float32 \<and> sz = [length xs]"
  by (auto simp: same_form_def vec_of_def numel_def)

lemma t_data_vec_of [simp]: "t_data (vec_of xs) = xs"
  by (simp add: vec_of_def)

theorem push_pull_mean_witness:
  "\<exists>L' w'. runs net2 (\<lambda>_. []) (\<lambda>i. push_pull True (\<lambda>t. t\<lparr>t_data := []\<rparr>) none_compress_io none_decompress_io 0 True (Some ''g'') 0 0
        (start_world (int i) [vec_of [of_nat i + 1]])) L' (\<lambda>i. (Inr (Some 1), w' i)) \<and> balanced net2 L'
     \<and> (\<forall>i. w_heap (w' i) 1 = (vec_of [of_nat i + 1])\<lparr>t_data := [3 / 2]\<rparr>
         \<and> (\<forall>b. b \<noteq> 1 \<longrightarrow> w_heap (w' i) b = w_heap (start_world (int i) [vec_of [of_nat i + 1]]) b)
         \<and> w_handle_map (w' i) = [])"
  using push_pull_mean [of net2 "\<lambda>_. []" Float32 True "\<lambda>_. 0" "\<lambda>i. start_world (int i) [vec_of [of_nat i + 1]]" "[1]"
      "\<lambda>t. t\<lparr>t_data := []\<rparr>" "\<lambda>_. []" "''g''" 0 0]
  by (simp add: numel_def vscale_def vadd_def vzero_def numeral_2_eq_2)

lemma group_function: "push_pull_group_function_factory (tensor_type cuda dt) \<in> set (c_lib_functions hc) \<longleftrightarrow> (cuda \<longrightarrow> hc)"
proof -
  have "list_all (\<lambda>(dt, cuda, hc). (push_pull_group_function_factory (tensor_type cuda dt) \<in> set (c_lib_functions hc)) = (cuda \<longrightarrow> hc))
      [(dt, cuda, hc). dt \<leftarrow> [Float16, Float32, Float64, Uint8, Int32, Int64], cuda \<leftarrow> [False, True], hc \<leftarrow> [False, True]]"
    by code_simp
  then show ?thesis by (cases dt; cases cuda; cases hc; simp)
qed

text \<open>
  The grouped operation never succeeds: on a tensor the extension supports it raises TypeError,
  because the compiled function takes one argument more than it is given, and on any other tensor
  ValueError. The name has been declared by then; nothing is sent.
\<close>

lemma group_sync_raises:
  "push_pull_group_sync_inplace norm2 have_cuda a average name version priority w =
     Ret (Inl (if pushable have_cuda a w then TypeError else ValueError), declare_tensor (encode_name name) w)"
  by (auto simp: pushable_def push_pull_group_sync_inplace_def do_push_pull_group_sync_def io_simps check_function_def group_function
      group_sync_arity_def Let_def)

end
