(* ===== verification/Basics.thy ===== *)
theory Basics
  imports Py_Strings
begin

text \<open>
  \<^verbatim>\<open>byteps/common/__init__.py\<close>: where the compiled extension of a framework is found, and the class
  \<open>BytePSBasics\<close> that wraps its C functions. The interpreter's configuration variables, the file system
  and the results of the C functions are parameters. The process state is what the calls change: the
  environment, the functions registered to run at exit, and whether the library is running.
\<close>

section \<open>Locating the extension\<close>

definition truthy :: "string option \<Rightarrow> bool" where
  "truthy s \<longleftrightarrow> s \<noteq> None \<and> s \<noteq> Some []"

definition get_ext_suffix :: "(string \<Rightarrow> string option) \<Rightarrow> string" where
  "get_ext_suffix get_config_var =
     (if truthy (get_config_var ''EXT_SUFFIX'') then the (get_config_var ''EXT_SUFFIX'')
      else if truthy (get_config_var ''SO'') then the (get_config_var ''SO'')
      else ''.so'')"

fun path_join :: "string \<Rightarrow> string list \<Rightarrow> string" where
  "path_join p [] = p"
| "path_join p (x # xs) =
     path_join (if py_startswith x ''/'' then x
                else if p = [] \<or> last p = CHR ''/'' then p @ x
                else p @ ''/'' @ x) xs"

definition dirname :: "string \<Rightarrow> string" where
  "dirname p =
     (let h = rev (dropWhile (\<lambda>c. c \<noteq> CHR ''/'') (rev p))
      in if list_all (\<lambda>c. c = CHR ''/'') h then h else rev (dropWhile (\<lambda>c. c = CHR ''/'') (rev h)))"

definition get_extension_full_path :: "(string \<Rightarrow> string option) \<Rightarrow> string \<Rightarrow> string list \<Rightarrow> string res" where
  "get_extension_full_path get_config_var pkg_path args =
     bind_res (assert_res (length args \<ge> 1)) (\<lambda>_.
       let dir_path = path_join (dirname pkg_path) (butlast args)
       in Inr (path_join dir_path [last args @ get_ext_suffix get_config_var]))"

definition check_extension ::
    "(string \<Rightarrow> string option) \<Rightarrow> (string \<Rightarrow> bool) \<Rightarrow> string \<Rightarrow> string \<Rightarrow> string \<Rightarrow> string list \<Rightarrow> unit res" where
  "check_extension get_config_var exists ext_name ext_env_var pkg_path args =
     bind_res (get_extension_full_path get_config_var pkg_path args) (\<lambda>full_path.
       if exists full_path then Inr () else Inl ImportError)"

section \<open>The library\<close>

datatype c_call = Byteps_lazy_init | Byteps_init | Byteps_shutdown | Byteps_suspend | Byteps_resume int int

record process =
  ps_env :: "(string, string) dict"
  ps_atexit :: nat
  ps_calls :: "c_call list"

definition c_call :: "c_call \<Rightarrow> process \<Rightarrow> process" where
  "c_call c p = p\<lparr>ps_calls := ps_calls p @ [c]\<rparr>"

definition init :: "bool \<Rightarrow> process \<Rightarrow> process" where
  "init lazy p =
     (let p = p\<lparr>ps_atexit := Suc (ps_atexit p)\<rparr>
      in if lazy then c_call Byteps_lazy_init p else c_call Byteps_init p)"

definition shutdown :: "process \<Rightarrow> process" where
  "shutdown p = c_call Byteps_shutdown p"

definition suspend :: "process \<Rightarrow> process" where
  "suspend p = c_call Byteps_suspend p"

definition resume :: "int \<Rightarrow> int \<Rightarrow> int \<Rightarrow> process \<Rightarrow> process" where
  "resume num_workers num_servers global_rank p =
     (let env = dict_set (ps_env p) ''DMLC_NUM_WORKER'' (py_str num_workers);
          env = dict_set env ''DMLC_NUM_SERVER'' (py_str num_servers);
          env = dict_set env ''BYTEPS_GLOBAL_RANK'' (py_str global_rank)
      in c_call (Byteps_resume num_workers num_servers) (p\<lparr>ps_env := env\<rparr>))"

definition c_query :: "int \<Rightarrow> int res" where
  "c_query v = (if v = -1 then Inl ValueError else Inr v)"

definition size_query :: "int \<Rightarrow> int res" where
  "size_query byteps_size = c_query byteps_size"

definition local_size_query :: "int \<Rightarrow> int res" where
  "local_size_query byteps_local_size = c_query byteps_local_size"

definition rank_query :: "int \<Rightarrow> int res" where
  "rank_query byteps_rank = c_query byteps_rank"

definition local_rank_query :: "int \<Rightarrow> int res" where
  "local_rank_query byteps_local_rank = c_query byteps_local_rank"

section \<open>Behaviour\<close>

text \<open>A path built by joining plain names to a directory has that directory as its dirname.\<close>

lemma dropWhile_plain: "CHR ''/'' \<notin> set x \<Longrightarrow> dropWhile (\<lambda>c. c \<noteq> CHR ''/'') (rev x @ CHR ''/'' # y) = CHR ''/'' # y"
  by (subst dropWhile_append2) auto

lemma startswith_slash: "CHR ''/'' \<notin> set x \<Longrightarrow> \<not> py_startswith x ''/''"
  by (cases x) (auto simp: py_startswith_def)

lemma dirname_join:
  assumes "p \<noteq> []" "last p \<noteq> CHR ''/''" "CHR ''/'' \<notin> set x"
  shows "dirname (path_join p [x]) = p"
proof -
  obtain q l where p: "p = q @ [l]" "l \<noteq> CHR ''/''" using assms(1,2) by (metis append_butlast_last_id)
  have "path_join p [x] = p @ CHR ''/'' # x" using assms startswith_slash by simp
  then show ?thesis using p dropWhile_plain [OF assms(3), of "rev p"] by (simp add: dirname_def Let_def)
qed

lemma resume_env:
  "dict_get (ps_env (resume w s r p)) k =
     (if k = ''BYTEPS_GLOBAL_RANK'' then Some (py_str r)
      else if k = ''DMLC_NUM_SERVER'' then Some (py_str s)
      else if k = ''DMLC_NUM_WORKER'' then Some (py_str w)
      else dict_get (ps_env p) k)"
  by (simp add: resume_def c_call_def Let_def)

text \<open>
  After a resume the numbers of workers and servers and the rank read back from the environment
  are the ones passed, the other variables are as before, and the C library is called with the same
  numbers once.
\<close>

theorem resume_roundtrip:
  "bind_res (dict_index (ps_env (resume w s r p)) ''DMLC_NUM_WORKER'') py_int = Inr w
   \<and> bind_res (dict_index (ps_env (resume w s r p)) ''DMLC_NUM_SERVER'') py_int = Inr s
   \<and> bind_res (dict_index (ps_env (resume w s r p)) ''BYTEPS_GLOBAL_RANK'') py_int = Inr r
   \<and> ps_calls (resume w s r p) = ps_calls p @ [Byteps_resume w s]
   \<and> {k. dict_get (ps_env (resume w s r p)) k \<noteq> dict_get (ps_env p) k}
       \<subseteq> {''DMLC_NUM_WORKER'', ''DMLC_NUM_SERVER'', ''BYTEPS_GLOBAL_RANK''}"
  by (auto simp: dict_index_def resume_env) (simp add: resume_def c_call_def Let_def)

end
