(* ===== verification/Torch_Broadcast.thy ===== *)
theory Torch_Broadcast
  imports Torch_Ops Basics "HOL-Library.List_Lexorder" "HOL-Library.Char_ord"
begin

text \<open>
  The broadcasts of \<^verbatim>\<open>byteps/torch/__init__.py\<close>: parameters, objects and the state of an optimizer are
  sent from a root worker to all others. A broadcast is a push-pull sum to which every worker but the
  root contributes zeros.

  The serialisation library is a parameter (\<open>dump\<close> and \<open>load\<close>), as are the contents of a tensor that torch
  allocates without initialising it.
\<close>

section \<open>Parameters\<close>

datatype bc_item = Named "string option" addr | Bare addr

datatype bc_params = Dict_params "(string, addr) dict" | List_params "bc_item list" | Other_params

fun bc_pair :: "bc_item \<Rightarrow> string option \<times> addr" where
  "bc_pair (Named name p) = (name, p)"
| "bc_pair (Bare p) = (None, p)"

fun bc_pairs :: "bc_params \<Rightarrow> (string option \<times> addr) list res" where
  "bc_pairs (Dict_params d) = Inr (map (\<lambda>(n, a). (Some n, a)) (sort_key fst d))"
| "bc_pairs (List_params items) = Inr (map bc_pair items)"
| "bc_pairs Other_params = Inl ValueError"

definition rank_io :: "('z world_scheme, int) io" where
  "rank_io = bind_io (get_io w_rank) (\<lambda>r. lift_io (rank_query r))"

definition fill_zero :: "addr \<Rightarrow> ('z world_scheme, unit) io" where
  "fill_zero p = modify_io (\<lambda>w. w\<lparr>w_heap := (w_heap w)(p := zeroed (w_heap w p))\<rparr>)"

definition bc_name :: "string \<Rightarrow> string option \<Rightarrow> string option" where
  "bc_name prefix name = (if truthy name then Some (prefix @ the name) else None)"

definition broadcast_one :: "bool \<Rightarrow> int \<Rightarrow> string \<Rightarrow> string option \<times> addr \<Rightarrow> ('z world_scheme, addr option) io" where
  "broadcast_one have_cuda root_rank prefix = (\<lambda>(name, p).
     bind_io rank_io (\<lambda>r.
     bind_io (if r \<noteq> root_rank then fill_zero p else ret_io ()) (\<lambda>_.
     bind_io (push_pull_async_inplace have_cuda p False (bc_name prefix name) 0 0 '''') (\<lambda>handle.
       synchronize (Some handle)))))"

definition broadcast_parameters :: "bool \<Rightarrow> bc_params \<Rightarrow> int \<Rightarrow> string \<Rightarrow> ('z world_scheme, unit) io" where
  "broadcast_parameters have_cuda params root_rank prefix =
     bind_io (lift_io (bc_pairs params)) (\<lambda>ps. for_io (broadcast_one have_cuda root_rank prefix) ps)"

section \<open>Objects\<close>

definition byte_tensor :: "nat list \<Rightarrow> tensor" where
  "byte_tensor bs = \<lparr>t_dtype = Uint8, t_size = [length bs], t_data = map of_nat bs\<rparr>"

definition int_tensor :: "storage \<Rightarrow> nat \<Rightarrow> tensor" where
  "int_tensor c n = \<lparr>t_dtype = Int32, t_size = [1], t_data = [c Int32 (of_nat n)]\<rparr>"

definition empty_byte_tensor :: "(nat \<Rightarrow> nat list) \<Rightarrow> int \<Rightarrow> tensor res" where
  "empty_byte_tensor uninit n = (if n < 0 then Inl RuntimeError else Inr (byte_tensor (take (nat n) (uninit (nat n)))))"

definition tensor_bytes :: "tensor \<Rightarrow> nat list" where
  "tensor_bytes t = map (\<lambda>x. nat (trunc x)) (t_data t)"

definition broadcast_object ::
    "storage \<Rightarrow> (nat \<Rightarrow> nat list) \<Rightarrow> ('o \<Rightarrow> nat list) \<Rightarrow> (nat list \<Rightarrow> 'o res) \<Rightarrow> ('o \<Rightarrow> string) \<Rightarrow>
     bool \<Rightarrow> 'o \<Rightarrow> int \<Rightarrow> string option \<Rightarrow> ('z world_scheme, 'o) io" where
  "broadcast_object c uninit dump load type_name have_cuda obj root_rank name0 =
     (let name = (case name0 of None \<Rightarrow> type_name obj | Some s \<Rightarrow> s)
      in bind_io rank_io (\<lambda>r.
         bind_io
           (if r = root_rank
            then bind_io (alloc_io (byte_tensor (dump obj)) False) (\<lambda>t.
                 bind_io (alloc_io (int_tensor c (length (dump obj))) False) (\<lambda>sz.
                 bind_io (broadcast_parameters have_cuda (List_params [Named (Some (name @ ''.sz'')) sz]) root_rank ''Size.'') (\<lambda>_.
                   ret_io t)))
            else bind_io (alloc_io (int_tensor c 0) False) (\<lambda>sz.
                 bind_io (broadcast_parameters have_cuda (List_params [Named (Some (name @ ''.sz'')) sz]) root_rank ''Size.'') (\<lambda>_.
                 bind_io (get_io (\<lambda>w. trunc (hd (t_data (w_heap w sz))))) (\<lambda>n.
                 bind_io (lift_io (empty_byte_tensor uninit n)) (\<lambda>t. alloc_io t False))))) (\<lambda>t.
         bind_io (broadcast_parameters have_cuda (List_params [Named (Some (name @ ''.t'')) t]) root_rank ''Parameter.'') (\<lambda>_.
         bind_io rank_io (\<lambda>r'.
           if r' \<noteq> root_rank
           then bind_io (get_io (\<lambda>w. tensor_bytes (w_heap w t))) (\<lambda>buf. lift_io (load buf))
           else ret_io obj)))))"

section \<open>Broadcasting parameters: behaviour\<close>

definition zero_unless :: "bool \<Rightarrow> addr \<Rightarrow> 'z world_scheme \<Rightarrow> 'z world_scheme" where
  "zero_unless b a w = (if b then w else w\<lparr>w_heap := (w_heap w)(a := zeroed (w_heap w a))\<rparr>)"

lemma zero_unless_sel [simp]:
  "w_heap (zero_unless b a w) = (if b then w_heap w else (w_heap w)(a := zeroed (w_heap w a)))"
  "w_rank (zero_unless b a w) = w_rank w" "w_next (zero_unless b a w) = w_next w"
  "w_handle_map (zero_unless b a w) = w_handle_map w" "w_max_norm (zero_unless b a w) = w_max_norm w"
  "fresh_handles l (zero_unless b a w) = fresh_handles l w" "pushable hc a' (zero_unless b a w) = pushable hc a' w"
  by (simp_all add: zero_unless_def fresh_handles_def pushable_def)

lemma broadcast_one_run:
  assumes "w_rank w \<noteq> -1"
  shows "broadcast_one hc rt prefix (name, a) w =
    push_pull_inplace hc a False (bc_name prefix name) 0 0 (zero_unless (w_rank w = rt) a w)"
proof -
  have r: "rank_io w = Ret (Inr (w_rank w), w)"
    using assms by (simp add: rank_io_def rank_query_def c_query_def io_simps)
  show ?thesis
    by (cases "w_rank w = rt")
       (simp_all add: broadcast_one_def push_pull_inplace_def fill_zero_def zero_unless_def r io_simps)
qed

definition received :: "string option \<Rightarrow> addr \<Rightarrow> rat list \<Rightarrow> 'z world_scheme \<Rightarrow> 'z world_scheme" where
  "received name a xs w =
     (declare_tensor (encode_name name) w)\<lparr>w_heap := (w_heap w)(a := (w_heap w a)\<lparr>t_data := xs\<rparr>)\<rparr>"

lemma received_sel [simp]:
  "w_heap (received n a t w) = (w_heap w)(a := (w_heap w a)\<lparr>t_data := t\<rparr>)"
  "w_rank (received n a t w) = w_rank w" "w_next (received n a t w) = w_next w"
  "w_cuda (received n a t w) = w_cuda w" "w_contiguous (received n a t w) = w_contiguous w"
  "w_handle_map (received n a t w) = w_handle_map w" "w_max_norm (received n a t w) = w_max_norm w"
  "world.more (received n a t w) = world.more w"
  "fresh_handles l (received n a t w) = fresh_handles l w" "pushable hc b (received n a t w) = pushable hc b w"
  by (simp_all add: received_def fresh_handles_def pushable_def)

lemma after_zero_received:
  "after_inplace n a t (zero_unless b a w) = received n a (t_data t) w"
proof (cases b)
  case False
  have "declare_tensor m (w\<lparr>w_heap := h\<rparr>) = (declare_tensor m w)\<lparr>w_heap := h\<rparr>" for m h
    by (simp add: declare_tensor_def)
  with False show ?thesis by (simp add: after_inplace_def received_def zero_unless_def zeroed_def)
qed (simp add: after_inplace_def received_def zero_unless_def)

text \<open>The workers' ranks are their numbers, and each is ready to send.\<close>

definition worker_ok :: "nat \<Rightarrow> req list \<Rightarrow> 'z world_scheme \<Rightarrow> bool" where
  "worker_ok i l w \<longleftrightarrow> w_rank w = int i \<and> fresh_handles l w"

lemma worker_ok_received [simp]: "worker_ok i l (received n a t w) = worker_ok i l w"
  by (simp add: worker_ok_def)

lemma worker_ok_snoc: "worker_ok i l w \<Longrightarrow> worker_ok i (l @ m) w"
  by (simp add: worker_ok_def fresh_handles_snoc)

lemma runs_broadcast_one:
  assumes ok: "net_ok net" and bal: "balanced net L" and rt: "rt < n_size net"
    and w: "\<And>i. i < n_size net \<Longrightarrow> worker_ok i (L i) (w i)" "\<And>i. i < n_size net \<Longrightarrow> pushable hc (a i) (w i)"
      "\<And>i. i < n_size net \<Longrightarrow> same_form dt sz (w_heap (w i) (a i))"
    and st: "stored (n_store net) (w_heap (w rt) (a rt))"
  shows "\<exists>L'. runs net L (\<lambda>i. broadcast_one hc (int rt) prefix (name, a i) (w i)) L'
       (\<lambda>i. (Inr (Some (a i)), received (bc_name prefix name) (a i) (t_data (w_heap (w rt) (a rt))) (w i)))
     \<and> balanced net L' \<and> (\<forall>i < n_size net. \<exists>m. L' i = L i @ m)"
proof -
  let ?n = "bc_name prefix name" and ?t = "w_heap (w rt) (a rt)"
  let ?z = "\<lambda>i. zero_unless (w_rank (w i) = int rt) (a i) (w i)"
  let ?L' = "\<lambda>i. L i @ [pp_req (a i) False ?n 0 0 (w_max_norm (?z i)) '''' (?z i)]"
  have rk: "w_rank (w i) = int rt \<longleftrightarrow> i = rt" if "i < n_size net" for i using w(1) [OF that] by (simp add: worker_ok_def)
  have "server_round (n_store net) (map (\<lambda>j. w_heap (?z j) (a j)) (n_arrive net (op_name (encode_name ?n)) r)) = Some ?t" for r
    using rk rt w(3) st by (intro server_round_one [OF ok rt, where dt = dt and sz = sz]) (auto simp: zeroed_def same_form_def)
  then have "runs net L (\<lambda>i. push_pull_inplace hc (a i) False ?n 0 0 (?z i)) ?L'
      (\<lambda>i. (Inr (Some (a i)), after_inplace ?n (a i) (finish_output net False ?t) (?z i)))"
    using w by (intro runs_inplace [OF ok bal]) (auto simp: worker_ok_def)
  then have "runs net L (\<lambda>i. broadcast_one hc (int rt) prefix (name, a i) (w i)) ?L'
      (\<lambda>i. (Inr (Some (a i)), received ?n (a i) (t_data ?t) (w i)))"
    by (rule runs_cong [OF ok])
       (use w(1) in \<open>auto simp: broadcast_one_run worker_ok_def after_zero_received finish_output_def\<close>)
  moreover have "balanced net ?L'" by (rule balanced_pp [OF bal])
  ultimately show ?thesis by (intro exI [of _ ?L']) auto
qed

text \<open>The heap of a worker after it received a list of tensors, in order.\<close>

fun overwrite :: "(addr \<Rightarrow> tensor) \<Rightarrow> (addr \<times> rat list) list \<Rightarrow> addr \<Rightarrow> tensor" where
  "overwrite h [] = h"
| "overwrite h ((a, xs) # axs) = overwrite (h(a := (h a)\<lparr>t_data := xs\<rparr>)) axs"

lemma overwrite_other: "b \<notin> fst ` set axs \<Longrightarrow> overwrite h axs b = h b"
  by (induction h axs rule: overwrite.induct) auto

lemma overwrite_nth:
  "distinct (map fst axs) \<Longrightarrow> k < length axs \<Longrightarrow> axs ! k = (a, xs) \<Longrightarrow> overwrite h axs a = (h a)\<lparr>t_data := xs\<rparr>"
proof (induction h axs arbitrary: k rule: overwrite.induct)
  case (2 h b ys axs)
  show ?case
  proof (cases k)
    case 0
    with 2 show ?thesis by (simp add: overwrite_other)
  next
    case (Suc m)
    then have "a \<noteq> b" using "2.prems" by (metis fst_conv length_Cons list.set_map nth_Cons_Suc nth_mem distinct.simps(2) list.simps(9) image_eqI Suc_less_eq)
    moreover have "overwrite (h(b := (h b)\<lparr>t_data := ys\<rparr>)) axs a = ((h(b := (h b)\<lparr>t_data := ys\<rparr>)) a)\<lparr>t_data := xs\<rparr>"
      using "2.prems" Suc by (intro "2.IH" [of m]) auto
    ultimately show ?thesis by simp
  qed
qed simp

definition same_env :: "'z world_scheme \<Rightarrow> 'z world_scheme \<Rightarrow> bool" where
  "same_env w w' \<longleftrightarrow> w_rank w' = w_rank w \<and> w_next w' = w_next w \<and> w_cuda w' = w_cuda w \<and> w_contiguous w' = w_contiguous w
     \<and> w_handle_map w' = w_handle_map w \<and> world.more w' = world.more w"

lemma same_env_received: "same_env w w' \<Longrightarrow> same_env w (received n a t w')"
  by (simp add: same_env_def)

lemma same_env_trans: "same_env u v \<Longrightarrow> same_env v w \<Longrightarrow> same_env u w"
  by (simp add: same_env_def)

lemma worker_ok_same_env: "same_env w w' \<Longrightarrow> worker_ok i l w' = worker_ok i l w"
  by (simp add: same_env_def worker_ok_def fresh_handles_def)

text \<open>
  One list of names for all workers; the addresses may differ. The forms of the tensors agree, and the
  numbers of the root are representable.
\<close>

definition bc_ok :: "net \<Rightarrow> bool \<Rightarrow> nat \<Rightarrow> (nat \<Rightarrow> 'z world_scheme) \<Rightarrow> (dtype \<times> nat list) list \<Rightarrow> (nat \<Rightarrow> addr list) \<Rightarrow> bool" where
  "bc_ok net hc rt w forms as \<longleftrightarrow>
     (\<forall>i < n_size net. length (as i) = length forms \<and> distinct (as i) \<and> (\<forall>k < length forms. pushable hc (as i ! k) (w i)
        \<and> same_form (fst (forms ! k)) (snd (forms ! k)) (w_heap (w i) (as i ! k))))
     \<and> (\<forall>k < length forms. stored (n_store net) (w_heap (w rt) (as rt ! k)))"

lemma bc_okD:
  assumes "bc_ok net hc rt w forms as" "k < length forms"
  shows "i < n_size net \<Longrightarrow> pushable hc (as i ! k) (w i) \<and> same_form (fst (forms ! k)) (snd (forms ! k)) (w_heap (w i) (as i ! k))"
    "stored (n_store net) (w_heap (w rt) (as rt ! k))"
  using assms unfolding bc_ok_def by blast+

lemma bc_ok_Cons:
  assumes "bc_ok net hc rt w ((dt, sz) # forms) as" "rt < n_size net" "i < n_size net"
  shows "as i = hd (as i) # tl (as i)" "pushable hc (hd (as i)) (w i)" "same_form dt sz (w_heap (w i) (hd (as i)))"
    "stored (n_store net) (w_heap (w rt) (hd (as rt)))" "hd (as i) \<notin> set (tl (as i))" "distinct (tl (as i))"
    "length (tl (as i)) = length forms"
proof -
  have l: "length (as j) = Suc (length forms) \<and> distinct (as j)" if "j < n_size net" for j
    using assms(1) that by (simp add: bc_ok_def)
  have h: "as j = hd (as j) # tl (as j)" "hd (as j) = as j ! 0" if "j < n_size net" for j
    using l [OF that] by (metis hd_Cons_tl list.size(3) nat.distinct(1), metis hd_conv_nth list.size(3) nat.distinct(1))
  show "as i = hd (as i) # tl (as i)" by (rule h(1) [OF assms(3)])
  show "length (tl (as i)) = length forms" using l [OF assms(3)] by simp
  show "pushable hc (hd (as i)) (w i)" "same_form dt sz (w_heap (w i) (hd (as i)))" "stored (n_store net) (w_heap (w rt) (hd (as rt)))"
    using bc_okD [OF assms(1), of 0] assms(2,3) h(2) by simp_all
  show "hd (as i) \<notin> set (tl (as i))" "distinct (tl (as i))" using l [OF assms(3)] h(1) [OF assms(3)] by (metis distinct.simps(2))+
qed

lemma bc_ok_tl:
  assumes ok: "bc_ok net hc rt w ((dt, sz) # forms) as" and rt: "rt < n_size net"
  shows "bc_ok net hc rt (\<lambda>i. received n (hd (as i)) xs (w i)) forms (\<lambda>i. tl (as i))"
proof -
  have p: "pushable hc (tl (as i) ! k) (w i) \<and> same_form (fst (forms ! k)) (snd (forms ! k)) (w_heap (w i) (tl (as i) ! k))
      \<and> tl (as i) ! k \<noteq> hd (as i)" if ik: "i < n_size net" "k < length forms" for i k
  proof -
    have "tl (as i) ! k = as i ! Suc k" "tl (as i) ! k \<in> set (tl (as i))"
      using bc_ok_Cons(1,7) [OF ok rt ik(1)] ik(2) by (metis nth_Cons_Suc, simp)
    then show ?thesis using bc_okD(1) [OF ok, of "Suc k" i] ik bc_ok_Cons(5) [OF ok rt ik(1)] by auto
  qed
  moreover have "stored (n_store net) (w_heap (w rt) (tl (as rt) ! k))" if "k < length forms" for k
  proof -
    have "tl (as rt) ! k = as rt ! Suc k" using bc_ok_Cons(1) [OF ok rt rt] by (metis nth_Cons_Suc)
    then show ?thesis using bc_okD(2) [OF ok, of "Suc k"] that by simp
  qed
  ultimately show ?thesis using bc_ok_Cons(6,7) [OF ok rt] rt by (simp add: bc_ok_def)
qed

lemma runs_broadcast:
  assumes ok: "net_ok net" and rt: "rt < n_size net"
  shows "balanced net L \<Longrightarrow> length names = length forms \<Longrightarrow> bc_ok net hc rt w forms as \<Longrightarrow>
     (\<And>i. i < n_size net \<Longrightarrow> worker_ok i (L i) (w i)) \<Longrightarrow>
     \<exists>L' w'. runs net L (\<lambda>i. for_io (broadcast_one hc (int rt) prefix) (zip names (as i)) (w i)) L' (\<lambda>i. (Inr (), w' i))
       \<and> balanced net L' \<and> (\<forall>i < n_size net. \<exists>m. L' i = L i @ m)
       \<and> (\<forall>i < n_size net. same_env (w i) (w' i)
            \<and> w_heap (w' i) = overwrite (w_heap (w i)) (zip (as i) (map (\<lambda>a. t_data (w_heap (w rt) a)) (as rt))))"
proof (induction names arbitrary: forms as w L)
  case Nil
  then have "runs net L (\<lambda>i. for_io (broadcast_one hc (int rt) prefix) (zip [] (as i)) (w i)) L (\<lambda>i. (Inr (), w i))"
    by (intro runs_Ret) (simp add: io_simps)
  moreover have "as i = []" if "i < n_size net" for i using Nil.prems that by (auto simp: bc_ok_def)
  ultimately show ?case using Nil.prems(1) by (intro exI [of _ L] exI [of _ w]) (simp add: same_env_def)
next
  case (Cons nm names)
  obtain dt sz forms' where f: "forms = (dt, sz) # forms'" using Cons.prems(2) by (cases forms) auto
  then have len: "length names = length forms'" using Cons.prems(2) by simp
  note c = bc_ok_Cons [OF Cons.prems(3) [unfolded f] rt]
  let ?a = "\<lambda>i. hd (as i)" and ?t = "t_data (w_heap (w rt) (hd (as rt)))"
  let ?w1 = "\<lambda>i. received (bc_name prefix nm) (?a i) ?t (w i)"
  obtain L1 where L1: "runs net L (\<lambda>i. broadcast_one hc (int rt) prefix (nm, ?a i) (w i)) L1 (\<lambda>i. (Inr (Some (?a i)), ?w1 i))"
      "balanced net L1" "\<forall>i < n_size net. \<exists>m. L1 i = L i @ m"
    using runs_broadcast_one [OF ok Cons.prems(1) rt Cons.prems(4) c(2,3) c(4) [OF rt], of prefix nm] by blast
  have ok1: "worker_ok i (L1 i) (?w1 i)" if "i < n_size net" for i
    using Cons.prems(4) [OF that] L1(3) that worker_ok_snoc by fastforce
  obtain L2 w2 where r2: "runs net L1 (\<lambda>i. for_io (broadcast_one hc (int rt) prefix) (zip names (tl (as i))) (?w1 i)) L2 (\<lambda>i. (Inr (), w2 i))"
      "balanced net L2" "\<forall>i < n_size net. \<exists>m. L2 i = L1 i @ m"
      "\<forall>i < n_size net. same_env (?w1 i) (w2 i)
         \<and> w_heap (w2 i) = overwrite (w_heap (?w1 i)) (zip (tl (as i)) (map (\<lambda>a. t_data (w_heap (?w1 rt) a)) (tl (as rt))))"
    using Cons.IH [of L1 forms' ?w1 "\<lambda>i. tl (as i)", OF L1(2) len bc_ok_tl [OF Cons.prems(3) [unfolded f] rt] ok1] by blast
  have "runs net L (\<lambda>i. bind_io (broadcast_one hc (int rt) prefix (nm, ?a i)) (\<lambda>_. for_io (broadcast_one hc (int rt) prefix) (zip names (tl (as i)))) (w i))
      L2 (\<lambda>i. (Inr (), w2 i))"
    by (rule runs_bind_io [where x = "\<lambda>i. Some (?a i)" and ?w1.0 = ?w1, OF ok]) (rule L1(1), rule r2(1))
  then have "runs net L (\<lambda>i. for_io (broadcast_one hc (int rt) prefix) (zip (nm # names) (as i)) (w i)) L2 (\<lambda>i. (Inr (), w2 i))"
  proof (rule runs_cong [OF ok])
    fix i assume "i < n_size net"
    then have "as i = hd (as i) # tl (as i)" by (rule c(1))
    then show "bind_io (broadcast_one hc (int rt) prefix (nm, ?a i)) (\<lambda>_. for_io (broadcast_one hc (int rt) prefix) (zip names (tl (as i)))) (w i)
      = for_io (broadcast_one hc (int rt) prefix) (zip (nm # names) (as i)) (w i)" by (metis for_io.simps(2) zip_Cons_Cons)
  qed simp_all
  moreover have "same_env (w i) (w2 i) \<and> w_heap (w2 i) = overwrite (w_heap (w i)) (zip (as i) (map (\<lambda>a. t_data (w_heap (w rt) a)) (as rt)))"
    if i: "i < n_size net" for i
  proof -
    have eq: "map (\<lambda>a. t_data (w_heap (?w1 rt) a)) (tl (as rt)) = map (\<lambda>a. t_data (w_heap (w rt) a)) (tl (as rt))"
      using c(5) [OF rt] by auto
    have "zip (as i) (map (\<lambda>a. t_data (w_heap (w rt) a)) (as rt)) =
        (?a i, ?t) # zip (tl (as i)) (map (\<lambda>a. t_data (w_heap (w rt) a)) (tl (as rt)))"
      by (subst c(1) [OF i], subst c(1) [OF rt]) simp
    then show ?thesis using r2(4) i eq same_env_trans [of "w i" "?w1 i" "w2 i"] by (simp add: same_env_def)
  qed
  moreover have "\<forall>i < n_size net. \<exists>m. L2 i = L i @ m" using L1(3) r2(3) by (metis append.assoc)
  ultimately show ?case using r2(2) by blast
qed

text \<open>
  C14. Broadcasting parameters: when all workers broadcast tensors of the same forms under the same
  names, the joint run ends and every worker's tensors hold the root's values, whatever they held
  before, also when the server rounds its sums; no other tensor and no open handle is touched.
\<close>

theorem broadcast_parameters_root:
  assumes "net_ok net" "rt < n_size net" "balanced net L" "length names = length forms" "bc_ok net hc rt w forms as"
    and "\<And>i. i < n_size net \<Longrightarrow> worker_ok i (L i) (w i)" "\<And>i. i < n_size net \<Longrightarrow> bc_pairs (params i) = Inr (zip names (as i))"
  shows "\<exists>L' w'. runs net L (\<lambda>i. broadcast_parameters hc (params i) (int rt) prefix (w i)) L' (\<lambda>i. (Inr (), w' i))
     \<and> balanced net L'
     \<and> (\<forall>i < n_size net. w_handle_map (w' i) = w_handle_map (w i)
        \<and> (\<forall>k < length forms. w_heap (w' i) (as i ! k) = (w_heap (w i) (as i ! k))\<lparr>t_data := t_data (w_heap (w rt) (as rt ! k))\<rparr>)
        \<and> (\<forall>b. b \<notin> set (as i) \<longrightarrow> w_heap (w' i) b = w_heap (w i) b))"
proof -
  let ?new = "\<lambda>i. zip (as i) (map (\<lambda>a. t_data (w_heap (w rt) a)) (as rt))"
  obtain L' w' where r: "runs net L (\<lambda>i. for_io (broadcast_one hc (int rt) prefix) (zip names (as i)) (w i)) L' (\<lambda>i. (Inr (), w' i))"
      "balanced net L'" "\<forall>i < n_size net. same_env (w i) (w' i) \<and> w_heap (w' i) = overwrite (w_heap (w i)) (?new i)"
    using runs_broadcast [OF assms(1-6)] by blast
  have "runs net L (\<lambda>i. broadcast_parameters hc (params i) (int rt) prefix (w i)) L' (\<lambda>i. (Inr (), w' i))"
    by (rule runs_cong [OF assms(1) r(1)]) (simp_all add: broadcast_parameters_def assms(7) io_simps)
  moreover have "w_heap (w' i) (as i ! k) = (w_heap (w i) (as i ! k))\<lparr>t_data := t_data (w_heap (w rt) (as rt ! k))\<rparr>"
    if "i < n_size net" "k < length forms" for i k
  proof -
    have "length (as i) = length forms" "length (as rt) = length forms" "distinct (as i)"
      using assms(2,5) that(1) by (simp_all add: bc_ok_def)
    with that r(3) show ?thesis by (simp add: overwrite_nth [of _ k])
  qed
  moreover have "w_heap (w' i) b = w_heap (w i) b" if "i < n_size net" "b \<notin> set (as i)" for i b
  proof -
    have "b \<notin> fst ` set (?new i)" using that(2) by (auto dest: set_zip_leftD)
    with that(1) r(3) show ?thesis by (simp add: overwrite_other)
  qed
  ultimately show ?thesis using r(2,3) by (intro exI [of _ L'] exI [of _ w']) (simp add: same_env_def)
qed

definition bc_example :: "nat \<Rightarrow> world" where
  "bc_example i = start_world (int i) [vec_of [of_nat i + 1, 5], vec_of [of_nat i]]"

theorem broadcast_parameters_root_witness:
  "\<exists>L' w'. runs net2 (\<lambda>_. []) (\<lambda>i. broadcast_parameters True (Dict_params [(''w'', 0), (''b'', 1)]) (int 1) ''Parameter.'' (bc_example i))
       L' (\<lambda>i. (Inr (), w' i)) \<and> balanced net2 L'
     \<and> (\<forall>i < 2. w_handle_map (w' i) = w_handle_map (bc_example i)
        \<and> (\<forall>k < length [(Float32, [1 :: nat]), (Float32, [2])].
             w_heap (w' i) ([1, 0] ! k) = (w_heap (bc_example i) ([1, 0] ! k))\<lparr>t_data := t_data (w_heap (bc_example 1) ([1, 0] ! k))\<rparr>)
        \<and> (\<forall>b. b \<notin> set [1, 0] \<longrightarrow> w_heap (w' i) b = w_heap (bc_example i) b))"
  using broadcast_parameters_root [of net2 1 "\<lambda>_. []" "[Some ''b'', Some ''w'']" "[(Float32, [1]), (Float32, [2])]" True bc_example
      "\<lambda>_. [1, 0]" "\<lambda>_. Dict_params [(''w'', 0), (''b'', 1)]" "''Parameter.''"]
  by (simp add: bc_example_def bc_ok_def worker_ok_def stored_def less_Suc_eq numeral_2_eq_2)

section \<open>Broadcasting objects: behaviour\<close>

lemma runs_broadcast_single:
  assumes ok: "net_ok net" and rt: "rt < n_size net" and bal: "balanced net L"
    and w: "\<And>i. i < n_size net \<Longrightarrow> worker_ok i (L i) (w i)" "\<And>i. i < n_size net \<Longrightarrow> pushable hc (a i) (w i)"
      "\<And>i. i < n_size net \<Longrightarrow> same_form dt sz (w_heap (w i) (a i))"
    and st: "stored (n_store net) (w_heap (w rt) (a rt))"
  shows "\<exists>L' w'. runs net L (\<lambda>i. broadcast_parameters hc (List_params [Named nm (a i)]) (int rt) prefix (w i)) L' (\<lambda>i. (Inr (), w' i))
     \<and> balanced net L' \<and> (\<forall>i < n_size net. worker_ok i (L' i) (w' i) \<and> same_env (w i) (w' i)
        \<and> w_heap (w' i) = (w_heap (w i))(a i := (w_heap (w i) (a i))\<lparr>t_data := t_data (w_heap (w rt) (a rt))\<rparr>))"
proof -
  have "bc_ok net hc rt w [(dt, sz)] (\<lambda>i. [a i])" using w st by (simp add: bc_ok_def)
  then obtain L' w' where r: "runs net L (\<lambda>i. for_io (broadcast_one hc (int rt) prefix) (zip [nm] [a i]) (w i)) L' (\<lambda>i. (Inr (), w' i))"
      "balanced net L'" "\<forall>i < n_size net. \<exists>m. L' i = L i @ m"
      "\<forall>i < n_size net. same_env (w i) (w' i)
         \<and> w_heap (w' i) = overwrite (w_heap (w i)) (zip [a i] (map (\<lambda>a. t_data (w_heap (w rt) a)) [a rt]))"
    using runs_broadcast [OF ok rt bal, of "[nm]" "[(dt, sz)]" hc w "\<lambda>i. [a i]" prefix] w(1) by auto
  have "runs net L (\<lambda>i. broadcast_parameters hc (List_params [Named nm (a i)]) (int rt) prefix (w i)) L' (\<lambda>i. (Inr (), w' i))"
    by (rule runs_cong [OF ok r(1)]) (simp_all add: broadcast_parameters_def io_simps)
  moreover have "worker_ok i (L' i) (w' i)" if "i < n_size net" for i
    using that r(3,4) w(1) worker_ok_snoc worker_ok_same_env by metis
  ultimately show ?thesis using r(2,4) by (intro exI [of _ L'] exI [of _ w']) simp
qed

definition with_tensor :: "tensor \<Rightarrow> 'z world_scheme \<Rightarrow> 'z world_scheme" where
  "with_tensor t w =
     w\<lparr>w_heap := (w_heap w)(w_next w := t), w_next := Suc (w_next w), w_cuda := (w_cuda w)(w_next w := False),
       w_contiguous := (w_contiguous w)(w_next w := True)\<rparr>"

lemma alloc_io_run [io_simps]: "alloc_io t False w = Ret (Inr (w_next w), with_tensor t w)"
  by (simp add: alloc_io_def with_tensor_def Let_def)

lemma with_tensor_sel [simp]:
  "w_heap (with_tensor t w) = (w_heap w)(w_next w := t)" "w_next (with_tensor t w) = Suc (w_next w)"
  "w_rank (with_tensor t w) = w_rank w" "worker_ok i l (with_tensor t w) = worker_ok i l w"
  "pushable hc (w_next w) (with_tensor t w)"
  by (simp_all add: with_tensor_def worker_ok_def fresh_handles_def pushable_def)

lemma pushable_same_env: "same_env w w' \<Longrightarrow> pushable hc a w' = pushable hc a w"
  by (simp add: same_env_def pushable_def)

definition bo_state :: "bool \<Rightarrow> storage \<Rightarrow> nat list \<Rightarrow> 'z world_scheme \<Rightarrow> 'z world_scheme" where
  "bo_state is_root c bs w =
     (if is_root then with_tensor (int_tensor c (length bs)) (with_tensor (byte_tensor bs) w) else with_tensor (int_tensor c 0) w)"

definition bo_size_addr :: "bool \<Rightarrow> 'z world_scheme \<Rightarrow> addr" where
  "bo_size_addr is_root w = (if is_root then Suc (w_next w) else w_next w)"

definition bo_finish ::
    "(nat \<Rightarrow> nat list) \<Rightarrow> (nat list \<Rightarrow> 'o res) \<Rightarrow> bool \<Rightarrow> 'o \<Rightarrow> int \<Rightarrow> string \<Rightarrow> bool \<Rightarrow> addr \<Rightarrow> ('z world_scheme, 'o) io" where
  "bo_finish uninit load have_cuda obj root_rank name is_root a =
     bind_io (if is_root then ret_io a
              else bind_io (get_io (\<lambda>w. trunc (hd (t_data (w_heap w a))))) (\<lambda>n.
                   bind_io (lift_io (empty_byte_tensor uninit n)) (\<lambda>t. alloc_io t False))) (\<lambda>t.
     bind_io (broadcast_parameters have_cuda (List_params [Named (Some (name @ ''.t'')) t]) root_rank ''Parameter.'') (\<lambda>_.
     bind_io rank_io (\<lambda>r.
       if r \<noteq> root_rank then bind_io (get_io (\<lambda>w. tensor_bytes (w_heap w t))) (\<lambda>buf. lift_io (load buf)) else ret_io obj)))"

lemma broadcast_object_split:
  assumes "w_rank w \<noteq> -1"
  shows "broadcast_object c uninit dump load type_name hc obj rt (Some name) w =
     (let is_root = w_rank w = rt; sz = bo_size_addr is_root w
      in bind_io (broadcast_parameters hc (List_params [Named (Some (name @ ''.sz'')) sz]) rt ''Size.'')
           (\<lambda>_. bo_finish uninit load hc obj rt name is_root (if is_root then w_next w else sz)) (bo_state is_root c (dump obj) w))"
proof -
  have r: "rank_io w = Ret (Inr (w_rank w), w)" using assms by (simp add: rank_io_def rank_query_def c_query_def io_simps)
  show ?thesis
    by (cases "w_rank w = rt")
       (simp_all add: broadcast_object_def bo_finish_def bo_state_def bo_size_addr_def r io_simps bind_io_assoc Let_def)
qed

lemma tensor_bytes_data: "t_data t = map of_nat bs \<Longrightarrow> tensor_bytes t = bs"
  by (simp add: tensor_bytes_def map_idI)

lemma broadcast_object_name:
  "broadcast_object c uninit dump load type_name hc obj rt nm =
   broadcast_object c uninit dump load type_name hc obj rt (Some (case nm of None \<Rightarrow> type_name obj | Some s \<Rightarrow> s))"
  by (simp add: broadcast_object_def)

text \<open>What the serialised object must survive: the bytes, and their number as a 32-bit integer.\<close>

definition bytes_ok :: "storage \<Rightarrow> nat list \<Rightarrow> bool" where
  "bytes_ok c bs \<longleftrightarrow> (\<forall>b \<in> set bs. c Uint8 (of_nat b) = of_nat b) \<and> c Uint8 0 = 0 \<and> c Int32 0 = 0
     \<and> c Int32 (of_nat (length bs)) = of_nat (length bs)"

lemma bo_size_phase:
  assumes "bytes_ok c bs" "a = bo_size_addr is_root w" "is_root \<Longrightarrow> bs' = bs"
  shows "same_form Int32 [1] (w_heap (bo_state is_root c bs' w) a)" "pushable hc a (bo_state is_root c bs' w)"
    "is_root \<Longrightarrow> w_heap (bo_state is_root c bs' w) a = \<lparr>t_dtype = Int32, t_size = [1], t_data = [of_nat (length bs)]\<rparr>"
    "worker_ok i l (bo_state is_root c bs' w) = worker_ok i l w"
    "is_root \<Longrightarrow> w_heap (bo_state is_root c bs' w) (w_next w) = byte_tensor bs" "is_root \<Longrightarrow> pushable hc (w_next w) (bo_state is_root c bs' w)"
  using assms
  by (auto simp: bo_state_def bo_size_addr_def same_form_def int_tensor_def numel_def bytes_ok_def)
     (auto simp: with_tensor_def pushable_def)

lemma bo_finish_root:
  "bo_finish uninit load hc obj rt name True a =
     bind_io (broadcast_parameters hc (List_params [Named (Some (name @ ''.t'')) a]) rt ''Parameter.'') (\<lambda>_.
     bind_io rank_io (\<lambda>r.
       if r \<noteq> rt then bind_io (get_io (\<lambda>w. tensor_bytes (w_heap w a))) (\<lambda>buf. lift_io (load buf)) else ret_io obj))"
  by (simp add: bo_finish_def fun_eq_iff io_simps)

lemma bo_finish_other:
  assumes "t_data (w_heap w a) = [of_nat n]" "length (uninit n) = n"
  shows "bo_finish uninit load hc obj rt name False a w =
     bind_io (broadcast_parameters hc (List_params [Named (Some (name @ ''.t'')) (w_next w)]) rt ''Parameter.'') (\<lambda>_.
     bind_io rank_io (\<lambda>r.
       if r \<noteq> rt then bind_io (get_io (\<lambda>w'. tensor_bytes (w_heap w' (w_next w)))) (\<lambda>buf. lift_io (load buf)) else ret_io obj))
     (with_tensor (byte_tensor (uninit n)) w)"
  using assms by (simp add: bo_finish_def io_simps empty_byte_tensor_def)


text \<open>The tensors a worker had before are kept.\<close>

definition keeps :: "'z world_scheme \<Rightarrow> 'z world_scheme \<Rightarrow> bool" where
  "keeps w w' \<longleftrightarrow> world.more w' = world.more w \<and> w_next w \<le> w_next w' \<and> (\<forall>b < w_next w. w_heap w' b = w_heap w b)"

lemma keeps_trans: "keeps u v \<Longrightarrow> keeps v w \<Longrightarrow> keeps u w"
  by (simp add: keeps_def)

lemma keeps_tensor: "keeps w (with_tensor t w)"
  by (simp add: keeps_def with_tensor_def)

lemma keeps_bo_state: "keeps w (bo_state is_root c bs w)"
  by (simp add: bo_state_def keeps_def with_tensor_def)

lemma keeps_written: "same_env w1 w2 \<Longrightarrow> w_heap w2 = (w_heap w1)(a := t) \<Longrightarrow> w_next w \<le> a \<Longrightarrow> keeps w w1 \<Longrightarrow> keeps w w2"
  by (auto simp: keeps_def same_env_def)

lemma keeps_same: "same_env w1 w2 \<Longrightarrow> w_heap w2 = (w_heap w1)(a := (w_heap w1 a)\<lparr>t_data := t_data (w_heap w1 a)\<rparr>) \<Longrightarrow> keeps w1 w2"
  by (simp add: keeps_def same_env_def)

lemma runs_size_phase:
  assumes ok: "net_ok net" and rt: "rt < n_size net" and bal: "balanced net L"
    and w: "\<And>i. i < n_size net \<Longrightarrow> worker_ok i (L i) (w i)" and b: "bytes_ok (n_store net) (bs rt)"
  shows "\<exists>L' w'. runs net L (\<lambda>i. broadcast_parameters hc (List_params [Named nm (bo_size_addr (i = rt) (w i))]) (int rt) prefix
        (bo_state (i = rt) (n_store net) (bs i) (w i))) L' (\<lambda>i. (Inr (), w' i)) \<and> balanced net L'
     \<and> (\<forall>i < n_size net. worker_ok i (L' i) (w' i) \<and> keeps (w i) (w' i)
          \<and> t_data (w_heap (w' i) (bo_size_addr (i = rt) (w i))) = [of_nat (length (bs rt))])
     \<and> w_heap (w' rt) (w_next (w rt)) = byte_tensor (bs rt) \<and> pushable hc (w_next (w rt)) (w' rt)"
proof -
  let ?w1 = "\<lambda>i. bo_state (i = rt) (n_store net) (bs i) (w i)" and ?a = "\<lambda>i. bo_size_addr (i = rt) (w i)"
  have p: "worker_ok i (L i) (?w1 i)" "pushable hc (?a i) (?w1 i)" "same_form Int32 [1] (w_heap (?w1 i) (?a i))" if "i < n_size net" for i
    using bo_size_phase(1,2,4) [OF b refl, where w = "w i" and is_root = "i = rt" and bs' = "bs i"] w [OF that] by auto
  have t: "w_heap (?w1 rt) (?a rt) = \<lparr>t_dtype = Int32, t_size = [1], t_data = [of_nat (length (bs rt))]\<rparr>"
      "w_heap (?w1 rt) (w_next (w rt)) = byte_tensor (bs rt)" "pushable hc (w_next (w rt)) (?w1 rt)"
    using bo_size_phase(3,5,6) [OF b refl, where w = "w rt" and is_root = True and bs' = "bs rt"] by auto
  then have "stored (n_store net) (w_heap (?w1 rt) (?a rt))" using b by (simp add: stored_def bytes_ok_def)
  from runs_broadcast_single [OF ok rt bal p this, of nm prefix] obtain L' w' where
      r: "runs net L (\<lambda>i. broadcast_parameters hc (List_params [Named nm (?a i)]) (int rt) prefix (?w1 i)) L' (\<lambda>i. (Inr (), w' i))"
      "balanced net L'" "\<forall>i < n_size net. worker_ok i (L' i) (w' i) \<and> same_env (?w1 i) (w' i)
        \<and> w_heap (w' i) = (w_heap (?w1 i))(?a i := (w_heap (?w1 i) (?a i))\<lparr>t_data := t_data (w_heap (?w1 rt) (?a rt))\<rparr>)"
    by blast
  have "w_heap (w' rt) (w_next (w rt)) = byte_tensor (bs rt)" "pushable hc (w_next (w rt)) (w' rt)"
    using r(3) rt t(2,3) pushable_same_env by (fastforce simp: bo_size_addr_def)+
  moreover have "worker_ok i (L' i) (w' i) \<and> keeps (w i) (w' i) \<and> t_data (w_heap (w' i) (?a i)) = [of_nat (length (bs rt))]"
    if i: "i < n_size net" for i
  proof -
    have "w_next (w i) \<le> ?a i" by (simp add: bo_size_addr_def)
    with r(3) i have "keeps (w i) (w' i)" by (intro keeps_written [OF _ _ _ keeps_bo_state]) blast+
    with r(3) i t(1) show ?thesis by simp
  qed
  ultimately show ?thesis using r(1,2) by (intro exI [of _ L'] exI [of _ w']) simp
qed

lemma runs_bytes_phase:
  assumes ok: "net_ok net" and rt: "rt < n_size net" and bal: "balanced net L"
    and w: "\<And>i. i < n_size net \<Longrightarrow> worker_ok i (L i) (w i)"
      "\<And>i. i < n_size net \<Longrightarrow> i \<noteq> rt \<Longrightarrow> t_data (w_heap (w i) (a i)) = [of_nat (length bs)]"
    and r: "w_heap (w rt) (a rt) = byte_tensor bs" "pushable hc (a rt) (w rt)"
    and b: "bytes_ok (n_store net) bs" and ld: "load bs = Inr (obj rt)" and un: "\<And>n. length (uninit n) = n"
  shows "\<exists>L' w'. runs net L (\<lambda>i. bo_finish uninit load hc (obj i) (int rt) name (i = rt) (a i) (w i)) L' (\<lambda>i. (Inr (obj rt), w' i))
     \<and> balanced net L' \<and> (\<forall>i < n_size net. worker_ok i (L' i) (w' i) \<and> keeps (w i) (w' i))"
proof -
  let ?fin = "\<lambda>i t. bind_io rank_io (\<lambda>r. if r \<noteq> int rt then bind_io (get_io (\<lambda>w. tensor_bytes (w_heap w t))) (\<lambda>buf. lift_io (load buf)) else ret_io (obj i))"
  let ?t = "\<lambda>i. if i = rt then a i else w_next (w i)"
  let ?w = "\<lambda>i. if i = rt then w i else with_tensor (byte_tensor (uninit (length bs))) (w i)"
  let ?bc = "\<lambda>i. broadcast_parameters hc (List_params [Named (Some (name @ ''.t'')) (?t i)]) (int rt) ''Parameter.''"
  have p: "worker_ok i (L i) (?w i)" "pushable hc (?t i) (?w i)" "same_form Uint8 [length bs] (w_heap (?w i) (?t i))" if "i < n_size net" for i
    using w(1) [OF that] r un by (auto simp: same_form_def byte_tensor_def numel_def)
  have st: "stored (n_store net) (w_heap (?w rt) (?t rt))" using r b by (simp add: stored_def bytes_ok_def byte_tensor_def)
  from runs_broadcast_single [OF ok rt bal p st, of "Some (name @ ''.t'')" "''Parameter.''"] obtain L' w' where
      q: "runs net L (\<lambda>i. ?bc i (?w i)) L' (\<lambda>i. (Inr (), w' i))" "balanced net L'"
      "\<forall>i < n_size net. worker_ok i (L' i) (w' i) \<and> same_env (?w i) (w' i)
        \<and> w_heap (w' i) = (w_heap (?w i))(?t i := (w_heap (?w i) (?t i))\<lparr>t_data := t_data (w_heap (?w rt) (?t rt))\<rparr>)"
    by blast
  have "runs net L' (\<lambda>i. ?fin i (?t i) (w' i)) L' (\<lambda>i. (Inr (obj rt), w' i))"
  proof (intro runs_Ret allI impI)
    fix i assume i: "i < n_size net"
    have "t_data (w_heap (w' i) (?t i)) = map of_nat bs" using q(3) i r(1) by (simp add: byte_tensor_def)
    then have "rank_io (w' i) = Ret (Inr (int i), w' i)" "tensor_bytes (w_heap (w' i) (?t i)) = bs"
      using q(3) i by (auto simp: worker_ok_def rank_io_def rank_query_def c_query_def io_simps intro: tensor_bytes_data)
    then show "?fin i (?t i) (w' i) = Ret (Inr (obj rt), w' i)" using ld by (auto simp: io_simps)
  qed
  then have "runs net L (\<lambda>i. bind_io (?bc i) (\<lambda>_. ?fin i (?t i)) (?w i)) L' (\<lambda>i. (Inr (obj rt), w' i))"
    by (rule runs_bind_io [where m = ?bc and w = ?w and x = "\<lambda>_. ()" and ?w1.0 = w', OF ok q(1)])
  then have "runs net L (\<lambda>i. bo_finish uninit load hc (obj i) (int rt) name (i = rt) (a i) (w i)) L' (\<lambda>i. (Inr (obj rt), w' i))"
    by (rule runs_cong [OF ok]) (use w(2) un in \<open>auto simp: bo_finish_root bo_finish_other\<close>)
  moreover have "keeps (w i) (w' i)" if i: "i < n_size net" for i
  proof (cases "i = rt")
    case True
    with q(3) i show ?thesis by (intro keeps_same [of "w i" "w' i" "a i"]) auto
  next
    case False
    with q(3) i have "same_env (with_tensor (byte_tensor (uninit (length bs))) (w i)) (w' i)"
        "\<exists>t. w_heap (w' i) = (w_heap (with_tensor (byte_tensor (uninit (length bs))) (w i)))(w_next (w i) := t)"
      by auto
    then show ?thesis using keeps_written [OF _ _ _ keeps_tensor] by blast
  qed
  ultimately show ?thesis using q(2,3) by blast
qed

lemma runs_broadcast_object:
  assumes ok: "net_ok net" and rt: "rt < n_size net" and bal: "balanced net L"
    and w: "\<And>i. i < n_size net \<Longrightarrow> worker_ok i (L i) (w i)"
    and nm: "\<And>i. i < n_size net \<Longrightarrow> (case nm i of None \<Rightarrow> type_name (obj i) | Some s \<Rightarrow> s) = name"
    and b: "bytes_ok (n_store net) (dump (obj rt))" and ld: "load (dump (obj rt)) = Inr (obj rt)" and un: "\<And>n. length (uninit n) = n"
  shows "\<exists>L' w'. runs net L (\<lambda>i. broadcast_object (n_store net) uninit dump load type_name hc (obj i) (int rt) (nm i) (w i))
     L' (\<lambda>i. (Inr (obj rt), w' i)) \<and> balanced net L' \<and> (\<forall>i < n_size net. worker_ok i (L' i) (w' i) \<and> keeps (w i) (w' i))"
proof -
  let ?w1 = "\<lambda>i. bo_state (i = rt) (n_store net) (dump (obj i)) (w i)" and ?a = "\<lambda>i. bo_size_addr (i = rt) (w i)"
  let ?t = "\<lambda>i. if i = rt then w_next (w i) else ?a i"
  let ?bc = "\<lambda>i. broadcast_parameters hc (List_params [Named (Some (name @ ''.sz'')) (?a i)]) (int rt) ''Size.''"
  obtain L1 w2 where r1: "runs net L (\<lambda>i. ?bc i (?w1 i)) L1 (\<lambda>i. (Inr (), w2 i))" "balanced net L1"
      "\<And>i. i < n_size net \<Longrightarrow> worker_ok i (L1 i) (w2 i) \<and> keeps (w i) (w2 i) \<and> t_data (w_heap (w2 i) (?a i)) = [of_nat (length (dump (obj rt)))]"
      "w_heap (w2 rt) (w_next (w rt)) = byte_tensor (dump (obj rt))" "pushable hc (w_next (w rt)) (w2 rt)"
    using runs_size_phase [OF ok rt bal w, of "\<lambda>i. dump (obj i)" hc "Some (name @ ''.sz'')" "''Size.''"] b by blast
  have sz: "t_data (w_heap (w2 i) (?t i)) = [of_nat (length (dump (obj rt)))]" if "i < n_size net" "i \<noteq> rt" for i
    using r1(3) [OF that(1)] that(2) by simp
  have p: "w_heap (w2 rt) (?t rt) = byte_tensor (dump (obj rt))" "pushable hc (?t rt) (w2 rt)" using r1(4,5) by simp_all
  obtain L2 w3 where r2: "runs net L1 (\<lambda>i. bo_finish uninit load hc (obj i) (int rt) name (i = rt) (?t i) (w2 i)) L2 (\<lambda>i. (Inr (obj rt), w3 i))"
      "balanced net L2" "\<forall>i < n_size net. worker_ok i (L2 i) (w3 i) \<and> keeps (w2 i) (w3 i)"
    using runs_bytes_phase [where a = ?t and w = w2 and obj = obj and load = load and uninit = uninit and name = name,
        OF ok rt r1(2) conjunct1 [OF r1(3)] sz p b ld un] by blast
  have "runs net L (\<lambda>i. bind_io (?bc i) (\<lambda>_. bo_finish uninit load hc (obj i) (int rt) name (i = rt) (?t i)) (?w1 i)) L2 (\<lambda>i. (Inr (obj rt), w3 i))"
    using r2(1) by (rule runs_bind_io [where m = ?bc and w = ?w1 and x = "\<lambda>_. ()" and ?w1.0 = w2, OF ok r1(1)])
  then have "runs net L (\<lambda>i. broadcast_object (n_store net) uninit dump load type_name hc (obj i) (int rt) (nm i) (w i)) L2 (\<lambda>i. (Inr (obj rt), w3 i))"
  proof (rule runs_cong [OF ok])
    fix i assume i: "i < n_size net"
    have "w_rank (w i) = int i" using w [OF i] by (simp add: worker_ok_def)
    then show "bind_io (?bc i) (\<lambda>_. bo_finish uninit load hc (obj i) (int rt) name (i = rt) (?t i)) (?w1 i) =
        broadcast_object (n_store net) uninit dump load type_name hc (obj i) (int rt) (nm i) (w i)"
      by (subst broadcast_object_name) (simp add: nm [OF i] broadcast_object_split Let_def)
  qed simp_all
  then show ?thesis using r1(3) r2(2,3) keeps_trans by blast
qed

text \<open>
  C15. Broadcasting an object: if the root's object survives serialisation, and its bytes and their
  number fit their tensors, every worker returns the root's object, whatever object of that type it
  started from, and keeps the tensors it had.
\<close>

theorem broadcast_object_root:
  assumes "net_ok net" "rt < n_size net" "balanced net L" "\<And>i. i < n_size net \<Longrightarrow> worker_ok i (L i) (w i)"
    and "\<And>i. i < n_size net \<Longrightarrow> type_name (obj i) = type_name (obj rt)" "bytes_ok (n_store net) (dump (obj rt))"
      "load (dump (obj rt)) = Inr (obj rt)" "\<And>n. length (uninit n) = n"
  shows "\<exists>L' w'. runs net L (\<lambda>i. broadcast_object (n_store net) uninit dump load type_name hc (obj i) (int rt) None (w i))
     L' (\<lambda>i. (Inr (obj rt), w' i)) \<and> balanced net L' \<and> (\<forall>i < n_size net. \<forall>b < w_next (w i). w_heap (w' i) b = w_heap (w i) b)"
  using runs_broadcast_object [where nm = "\<lambda>_. None" and name = "type_name (obj rt)" and load = load and dump = dump and obj = obj
      and uninit = uninit and type_name = type_name, OF assms(1-4)] assms(5-8)
  by (fastforce simp: keeps_def)

theorem broadcast_object_root_witness:
  "\<exists>L' w'. runs net2 (\<lambda>_. []) (\<lambda>i. broadcast_object (n_store net2) (\<lambda>n. replicate n 9) (\<lambda>n. [n]) (\<lambda>bs. Inr (hd bs)) (\<lambda>_. ''int'')
       True (i + 7) (int 0) None (bc_example i))
     L' (\<lambda>i. (Inr (0 + 7), w' i)) \<and> balanced net2 L' \<and> (\<forall>i < 2. \<forall>b < w_next (bc_example i). w_heap (w' i) b = w_heap (bc_example i) b)"
  using broadcast_object_root [of net2 0 "\<lambda>_. []" bc_example "\<lambda>_. ''int''" "\<lambda>i. i + 7" "\<lambda>n. [n]" "\<lambda>bs. Inr (hd bs)" "\<lambda>n. replicate n 9" True]
  by (simp add: bc_example_def worker_ok_def bytes_ok_def)

end
