(* ===== verification/Torch_Opt_State.thy ===== *)
theory Torch_Opt_State
  imports Torch_Broadcast
begin

text \<open>
  Broadcasting the state of an optimizer (\<open>broadcast_optimizer_state\<close> of \<^verbatim>\<open>byteps/torch/__init__.py\<close>). The
  tensors of the state are broadcast one by one; the scalars, that is the options of the parameter groups
  and the scalar entries of the state, are collected in a dictionary that is broadcast as one object and
  written back by callbacks.

  The optimizer's dictionaries are part of the worker's state. The options of a group are kept apart from
  its list of parameters. Building a torch tensor from an option, and the first step of an optimizer that
  has no state yet, are parameters.
\<close>

section \<open>Values and optimizer state\<close>

datatype py_value = VNone | VBool bool | VInt int | VFloat rat | VStr string | VSeq bool "py_value list"


lemma map_res_cong [fundef_cong]: "xs = ys \<Longrightarrow> (\<And>x. x \<in> set ys \<Longrightarrow> f x = g x) \<Longrightarrow> map_res f xs = map_res g ys"
  by (induction ys arbitrary: xs) auto


record opt_group =
  og_options :: "(string, py_value) dict"
  og_params :: "nat list"

datatype opt_entry = Tens addr | Scal py_value

record opt_state =
  op_groups :: "opt_group list"
  op_state :: "(nat, (string, opt_entry) dict) dict"

record oworld = world +
  o_opt :: opt_state

section \<open>Collecting\<close>










section \<open>Writing back\<close>




section \<open>Collecting: behaviour\<close>














section \<open>Writing back: behaviour\<close>








section \<open>Broadcasting an optimizer: behaviour\<close>








definition opt_example :: "nat \<Rightarrow> oworld" where
  "opt_example i = world.extend (start_world (int i) [vec_of [of_nat i]])
     \<lparr>o_opt = \<lparr>op_groups = [\<lparr>og_options = [(''lr'', VFloat (of_nat i))], og_params = [0]\<rparr>],
              op_state = [(0, [(''step'', Scal (VInt (int i))), (''buf'', Tens 0)])]\<rparr>\<rparr>"


lemma opt_example_sel [simp]:
  "w_rank (opt_example i) = int i" "w_heap (opt_example i) 0 = vec_of [of_nat i]" "w_next (opt_example i) = 1"
  "w_handle_map (opt_example i) = []" "w_cuda (opt_example i) a" "w_contiguous (opt_example i) a"
  "o_opt (opt_example i) = \<lparr>op_groups = [\<lparr>og_options = [(''lr'', VFloat (of_nat i))], og_params = [0]\<rparr>],
     op_state = [(0, [(''step'', Scal (VInt (int i))), (''buf'', Tens 0)])]\<rparr>"
  by (simp_all add: opt_example_def world.extend_def start_world_def)



end
