(* ===== verification/Torch_Optimizer.thy ===== *)
theory Torch_Optimizer
  imports Torch_Ops Compression "HOL-Library.List_Lexorder" "HOL-Library.Char_ord"
begin

text \<open>
  The distributed optimizer of \<^verbatim>\<open>byteps/torch/__init__.py\<close>: construction, the gradient hooks, the
  synchronisation of gradients and the optimizer step.

  A parameter is a number; its gradient and its data are tensors of the worker's heap. The dictionaries
  that the code keys by a parameter or by its hash are keyed by that number. The compressor is a record
  of functions, because the INCA compressors are not in the repository: \<open>None\<close> as the compressed or
  decompressed tensor says that the argument itself is returned. Further parameters are the Euclidean
  norm, uninitialised memory, the order in which a Python set is iterated, and the wrapped optimizer's
  own step. Timing counters are left out.
\<close>

section \<open>Compressors\<close>

datatype ckind = Newinca | Inca | Topk | Other_kind

text \<open>The context a compressor hands to its decompression: None, a dictionary, or an object that is neither.\<close>

datatype 'x cctx = Ctx_none | Ctx_dict 'x | Ctx_object 'x

record info =
  max_coor :: rat
  min_coor :: rat
  max_norm :: rat

record ('s, 'x) compressor =
  k_kind :: ckind
  k_use_bps_server :: bool
  k_d :: nat
  k_kp :: rat
  k_compress :: "'s \<Rightarrow> tensor \<Rightarrow> string \<Rightarrow> info option \<Rightarrow> (tensor option \<times> 'x cctx) res \<times> 's"
  k_decompress :: "'s \<Rightarrow> tensor \<Rightarrow> 'x cctx \<Rightarrow> tensor option res"

definition compressor_name :: "ckind \<Rightarrow> string" where
  "compressor_name k =
     (case k of Newinca \<Rightarrow> ''inca'' | Inca \<Rightarrow> ''oldinca'' | Topk \<Rightarrow> ''topk'' | Other_kind \<Rightarrow> ''none'')"

definition use_bps_server :: "('s, 'x) compressor \<Rightarrow> bool" where
  "use_bps_server k = (if k_kind k = Other_kind then True else k_use_bps_server k)"

definition none_compressor :: "('s, 'x) compressor" where
  "none_compressor =
     \<lparr>k_kind = Other_kind, k_use_bps_server = True, k_d = 0, k_kp = 0,
      k_compress = (\<lambda>s tensor name info. (Inr (None, Ctx_none), s)), k_decompress = (\<lambda>s tensor ctx. Inr None)\<rparr>"

section \<open>State\<close>

datatype hkey = Param nat | Max_info_handle

record ('s, 'x) dopt = world +
  d_cstate :: 's
  d_groups :: "nat list list"
  d_requires_grad :: "nat \<Rightarrow> bool"
  d_grad :: "nat \<Rightarrow> addr"
  d_grad_requires_grad :: "nat \<Rightarrow> bool"
  d_data :: "nat \<Rightarrow> addr"
  d_enable_async :: bool
  d_is_tensor_instance :: bool
  d_parameter_names :: "(nat, string) dict"
  d_backward_passes_per_step :: int
  d_push_pull_delay :: "(nat, int) dict"
  d_handles :: "(hkey, nat option \<times> 'x cctx) dict"
  d_hooks :: "nat list"
  d_requires_update :: "nat list"
  d_should_sync :: bool
  d_last_insert_tensor :: "string option"
  d_next :: "(string, string option) dict"
  d_compression_info :: "info option"
  d_num_workers :: nat
  d_worker_id :: nat
  d_inca_tensor :: "addr option"
  d_topk_tensor :: "addr option"
  d_max_info_tensor :: "addr option"

text \<open>A named parameter as it is passed in: a pair of a name and a tensor or some other key, or no pair at all.\<close>

datatype named_item = Named_tensor string nat | Named_key string nat | Not_tuple

fun item_name :: "named_item \<Rightarrow> string" where
  "item_name (Named_tensor n _) = n"
| "item_name (Named_key n _) = n"
| "item_name Not_tuple = ''''"

fun item_key :: "named_item \<Rightarrow> nat" where
  "item_key (Named_tensor _ v) = v"
| "item_key (Named_key _ v) = v"
| "item_key Not_tuple = 0"

fun is_tensor_item :: "named_item \<Rightarrow> bool" where
  "is_tensor_item (Named_tensor _ _) = True"
| "is_tensor_item _ = False"

section \<open>Construction\<close>

fun find_dups :: "string list \<Rightarrow> string set \<Rightarrow> string set \<Rightarrow> string set" where
  "find_dups [] seen dups = dups"
| "find_dups (el # els) seen dups = find_dups els (insert el seen) (if el \<in> seen then insert el dups else dups)"

definition find_duplicates :: "string list \<Rightarrow> string set" where
  "find_duplicates lst = find_dups lst {} {}"

definition enable_async :: "(string, string) dict \<Rightarrow> bool res" where
  "enable_async env =
     bind_res (case dict_get env ''BYTEPS_ENABLE_ASYNC'' of None \<Rightarrow> Inr 0 | Some s \<Rightarrow> py_int s) (\<lambda>v.
       if v \<noteq> 0
       then bind_res (case dict_get env ''DMLC_NUM_WORKER'' of None \<Rightarrow> Inl TypeError | Some s \<Rightarrow> py_int s) (\<lambda>n.
            bind_res (assert_res (n > 1)) (\<lambda>_. Inr True))
       else Inr False)"

definition noname_names :: "nat list list \<Rightarrow> (nat, string) dict" where
  "noname_names groups =
     dict_update_all [] (concat (map (\<lambda>g. map (\<lambda>(i, v). (v, ''push_pull.noname.'' @ nat_str i)) (zip [0..<length g] g)) groups))"

definition parameter_names :: "nat list list \<Rightarrow> named_item list \<Rightarrow> (bool \<times> (nat, string) dict) res" where
  "parameter_names groups named =
     bind_res (if Not_tuple \<in> set named then Inl ValueError else Inr ()) (\<lambda>_.
     bind_res (if find_duplicates (map item_name named) \<noteq> {} then Inl ValueError else Inr ()) (\<lambda>_.
       let sorted_names = map (\<lambda>p. (item_key p, item_name p)) (sort_key item_name named)
       in if named \<noteq> []
          then if is_tensor_item (hd named)
               then if list_ex (\<lambda>p. \<not> is_tensor_item p) named then Inl ValueError
                    else Inr (True, dict_update_all [] sorted_names)
               else Inr (False, dict_update_all [] sorted_names)
          else Inr (False, noname_names groups)))"

fun register_hooks :: "nat list \<Rightarrow> (('s, 'x) dopt, unit) io" where
  "register_hooks [] = ret_io ()"
| "register_hooks (p # ps) =
     bind_io (get_io (\<lambda>w. d_requires_grad w p)) (\<lambda>rg.
     bind_io (if rg
              then bind_io (get_io (\<lambda>w. (zeroed (w_heap w (d_data w p)), w_cuda w (d_data w p)))) (\<lambda>(z, cuda).
                   bind_io (alloc_io z cuda) (\<lambda>a.
                   modify_io (\<lambda>w. w\<lparr>d_grad := (d_grad w)(p := a), d_requires_update := List.insert p (d_requires_update w),
                                    d_hooks := d_hooks w @ [p]\<rparr>)))
              else ret_io ()) (\<lambda>_. register_hooks ps))"

definition opt_init ::
    "storage \<Rightarrow> (string, string) dict \<Rightarrow> nat \<Rightarrow> nat \<Rightarrow> ('s, 'x) compressor \<Rightarrow> named_item list option \<Rightarrow> int \<Rightarrow> (('s, 'x) dopt, unit) io" where
  "opt_init c env num_worker worker_id k named_parameters passes =
     (let named = (case named_parameters of None \<Rightarrow> [] | Some l \<Rightarrow> l)
      in bind_io (lift_io (enable_async env)) (\<lambda>async.
         bind_io (get_io d_groups) (\<lambda>groups.
         bind_io (lift_io (parameter_names groups named)) (\<lambda>(is_tensor, names).
         bind_io (modify_io (\<lambda>w. w\<lparr>d_enable_async := async, d_is_tensor_instance := is_tensor, d_parameter_names := names,
                     d_backward_passes_per_step := passes,
                     d_push_pull_delay := dict_update_all [] (map (\<lambda>p. (item_key p, passes)) (sort_key item_name named)),
                     d_handles := [], d_hooks := [], d_requires_update := [], d_should_sync := True\<rparr>)) (\<lambda>_.
         bind_io (register_hooks (concat groups)) (\<lambda>_.
         bind_io (modify_io (\<lambda>w. w\<lparr>d_last_insert_tensor := None, d_next := [], d_compression_info := None,
             d_num_workers := num_worker, d_worker_id := worker_id\<rparr>)) (\<lambda>_.
         bind_io (if k_kind k = Newinca \<or> k_kind k = Inca
                  then bind_io (alloc_io \<lparr>t_dtype = Uint8, t_size = [k_d k], t_data = vzero (k_d k)\<rparr> True) (\<lambda>a.
                         modify_io (\<lambda>w. w\<lparr>d_inca_tensor := Some a\<rparr>))
                  else ret_io ()) (\<lambda>_.
         bind_io (if k_kind k = Topk
                  then let m = nat (2 * compressed_num c (k_kp k) (k_d k))
                       in bind_io (alloc_io (zeros m) True) (\<lambda>a. modify_io (\<lambda>w. w\<lparr>d_topk_tensor := Some a\<rparr>))
                  else ret_io ()) (\<lambda>_.
         bind_io (for_io (\<lambda>n. declare_op (''Gradient.'' @ n)) (sort (map snd names))) (\<lambda>_.
           for_io (\<lambda>n. declare_op (''Parameter.'' @ n)) (sort (map snd names))))))))))))"

definition distributed_optimizer ::
    "storage \<Rightarrow> (string, string) dict \<Rightarrow> nat \<Rightarrow> nat \<Rightarrow> nat list list \<Rightarrow> named_item list option \<Rightarrow> ('s, 'x) compressor option \<Rightarrow> int option \<Rightarrow>
     (('s, 'x) dopt, unit) io" where
  "distributed_optimizer c env num_worker worker_id param_groups named_parameters compression passes =
     bind_io (modify_io (\<lambda>w. w\<lparr>d_groups := param_groups\<rparr>)) (\<lambda>_.
       opt_init c env num_worker worker_id (case compression of None \<Rightarrow> none_compressor | Some k \<Rightarrow> k) named_parameters
         (case passes of None \<Rightarrow> 1 | Some n \<Rightarrow> n))"

definition set_backward_passes_per_step :: "int \<Rightarrow> ('s, 'x) dopt \<Rightarrow> ('s, 'x) dopt" where
  "set_backward_passes_per_step passes w =
     w\<lparr>d_backward_passes_per_step := passes, d_push_pull_delay := map (\<lambda>(p, _). (p, passes)) (d_push_pull_delay w)\<rparr>"

section \<open>Hooks\<close>

definition truthy_name :: "string option \<Rightarrow> bool" where
  "truthy_name s \<longleftrightarrow> s \<noteq> None \<and> s \<noteq> Some []"

text \<open>Both the hooks and the synchronisation keep track of the order in which the gradients come.\<close>

definition note_tensor :: "string option \<Rightarrow> ('s, 'x) dopt \<Rightarrow> ('s, 'x) dopt" where
  "note_tensor tensor_name w =
     (let w1 = (if truthy_name (d_last_insert_tensor w)
                then w\<lparr>d_next := dict_set (d_next w) (the (d_last_insert_tensor w)) tensor_name\<rparr> else w)
      in w1\<lparr>d_last_insert_tensor := tensor_name\<rparr>)"

definition delay_of :: "nat \<Rightarrow> (('s, 'x) dopt, int) io" where
  "delay_of p = bind_io (get_io d_push_pull_delay) (\<lambda>d. lift_io (dict_index d p))"

definition hook :: "nat \<Rightarrow> (('s, 'x) dopt, unit) io" where
  "hook p =
     bind_io (get_io (\<lambda>w. dict_get (d_handles w) (Param p))) (\<lambda>old.
     bind_io (case old of
                Some (Some _, _) \<Rightarrow> bind_io (delay_of p) (\<lambda>d. if d \<le> 0 then raise_io AssertionError else ret_io ())
              | _ \<Rightarrow> ret_io ()) (\<lambda>_.
     bind_io (get_io (\<lambda>w. d_grad_requires_grad w p)) (\<lambda>rg.
     bind_io (lift_io (assert_res (\<not> rg))) (\<lambda>_.
     bind_io (delay_of p) (\<lambda>d.
     bind_io (lift_io (assert_res (d > 0))) (\<lambda>_.
       modify_io (\<lambda>w.
         note_tensor (dict_get (d_parameter_names w) p)
           (w\<lparr>d_push_pull_delay := dict_set (d_push_pull_delay w) p (d - 1),
             d_handles := dict_set (d_handles w) (Param p) (None, Ctx_none)\<rparr>))))))))"

section \<open>Information for the compressors\<close>

definition max_item :: "rat list \<Rightarrow> rat res" where
  "max_item xs = (if xs = [] then Inl RuntimeError else Inr (Max (set xs)))"

definition min_item :: "rat list \<Rightarrow> rat res" where
  "min_item xs = (if xs = [] then Inl RuntimeError else Inr (Min (set xs)))"

definition batch_push_pull_info :: "(rat list \<Rightarrow> rat) \<Rightarrow> rat list \<Rightarrow> (('s, 'x) dopt, rat) io" where
  "batch_push_pull_info norm2 batch_grads =
     bind_io (lift_io (max_item batch_grads)) (\<lambda>mx.
     bind_io (lift_io (min_item batch_grads)) (\<lambda>mn.
     bind_io (modify_io (\<lambda>w. w\<lparr>d_compression_info := Some \<lparr>max_coor = mx, min_coor = mn, max_norm = norm2 batch_grads\<rparr>\<rparr>)) (\<lambda>_.
       ret_io (norm2 batch_grads))))"

definition grad_of :: "nat \<Rightarrow> ('s, 'x) dopt \<Rightarrow> tensor" where
  "grad_of p w = w_heap w (d_grad w p)"

definition push_pull_info :: "(rat list \<Rightarrow> rat) \<Rightarrow> nat list \<Rightarrow> (('s, 'x) dopt, rat) io" where
  "push_pull_info norm2 ps =
     bind_io (get_io (\<lambda>w. map (\<lambda>p. t_data (grad_of p w)) ps)) (\<lambda>gs.
     bind_io (lift_io (map_res max_item gs)) (\<lambda>mxs.
     bind_io (if mxs = [] then raise_io ValueError else ret_io ()) (\<lambda>_.
     bind_io (lift_io (map_res min_item gs)) (\<lambda>mns.
     bind_io (modify_io (\<lambda>w. w\<lparr>d_compression_info := Some \<lparr>max_coor = Max (set mxs), min_coor = Min (set mns),
                 max_norm = Max (set (map norm2 gs))\<rparr>\<rparr>)) (\<lambda>_.
       ret_io (Max (set (map norm2 gs))))))))"

section \<open>Pushing gradients\<close>

definition name_text :: "string \<Rightarrow> string option \<Rightarrow> string res" where
  "name_text prefix name = (case name of None \<Rightarrow> Inl TypeError | Some n \<Rightarrow> Inr (prefix @ n))"

definition push_pull_max_norm :: "bool \<Rightarrow> rat \<Rightarrow> (('s, 'x) dopt, nat) io" where
  "push_pull_max_norm hc nrm =
     bind_io (get_io (\<lambda>w. (d_max_info_tensor w, d_num_workers w, d_worker_id w))) (\<lambda>(m, n, i).
       case m of
         None \<Rightarrow> raise_io AttributeError
       | Some a \<Rightarrow>
           bind_io (get_io (\<lambda>w. w_heap w a)) (\<lambda>t.
           bind_io (if length (t_data t) < n \<or> length (t_data t) \<le> i then raise_io IndexError else ret_io ()) (\<lambda>_.
           bind_io (modify_io (\<lambda>w. w\<lparr>w_heap := (w_heap w)(a := t\<lparr>t_data := (vzero n @ drop n (t_data t))[i := nrm]\<rparr>)\<rparr>)) (\<lambda>_.
             push_pull_async_inplace hc a False (Some ''Max_info'') 0 0 ''''))))"

definition afterbatch_together_push_pull_grad_async :: "storage \<Rightarrow> bool \<Rightarrow> string \<Rightarrow> tensor \<Rightarrow> bool \<Rightarrow> (('s, 'x) dopt, nat) io" where
  "afterbatch_together_push_pull_grad_async c hc cname tensor cuda =
     bind_io (alloc_io (to_dtype c Uint8 tensor) cuda) (\<lambda>a.
     bind_io (modify_io (\<lambda>w. w\<lparr>d_inca_tensor := Some a\<rparr>)) (\<lambda>_.
       push_pull_async_inplace hc a True (Some ''Gradient.INCA_batched'') 0 0 cname))"

definition afterbatch_push_pull_grad_async :: "storage \<Rightarrow> bool \<Rightarrow> string \<Rightarrow> nat \<Rightarrow> (('s, 'x) dopt, nat option) io" where
  "afterbatch_push_pull_grad_async c hc cname p =
     bind_io (get_io (\<lambda>w. (dict_get (d_parameter_names w) p, d_enable_async w, d_grad w p))) (\<lambda>(name, async, a).
       if async then ret_io None
       else bind_io (get_io (\<lambda>w. (w_heap w a, w_cuda w a))) (\<lambda>(t, cuda).
            bind_io (if t_dtype t = Uint8 then ret_io a else alloc_io (to_dtype c Uint8 t) cuda) (\<lambda>b.
            bind_io (lift_io (name_text ''Gradient.'' name)) (\<lambda>n.
            bind_io (push_pull_async_inplace hc b True (Some n) 0 0 cname) (\<lambda>h. ret_io (Some h))))))"

definition topk_push_pull_grad_async :: "bool \<Rightarrow> string \<Rightarrow> rat list \<Rightarrow> (('s, 'x) dopt, nat) io" where
  "topk_push_pull_grad_async hc cname xs =
     bind_io (get_io d_topk_tensor) (\<lambda>m.
       case m of
         None \<Rightarrow> raise_io AttributeError
       | Some a \<Rightarrow>
           bind_io (get_io (\<lambda>w. t_data (w_heap w a))) (\<lambda>old.
           bind_io (lift_io (slice_assign old 0 (int (length old)) (take (length old) xs))) (\<lambda>new.
           bind_io (modify_io (\<lambda>w. w\<lparr>w_heap := (w_heap w)(a := (w_heap w a)\<lparr>t_data := new\<rparr>)\<rparr>)) (\<lambda>_.
             push_pull_async_inplace hc a False (Some ''Topk_batched'') 0 0 cname))))"

definition push_pull_grad_async :: "bool \<Rightarrow> ('s, 'x) compressor \<Rightarrow> nat \<Rightarrow> (('s, 'x) dopt, nat option \<times> 'x cctx) io" where
  "push_pull_grad_async hc k p =
     bind_io (get_io (\<lambda>w. (dict_get (d_parameter_names w) p, d_enable_async w, d_grad w p))) (\<lambda>(name, async, a).
       if async then ret_io (None, Ctx_none)
       else bind_io (get_io (\<lambda>w. (w_heap w a, w_cuda w a, d_compression_info w, d_cstate w))) (\<lambda>(t, cuda, inf, s).
            let (r, s') = k_compress k s t (case name of None \<Rightarrow> ''None'' | Some n \<Rightarrow> n) inf
            in bind_io (modify_io (\<lambda>w. w\<lparr>d_cstate := s'\<rparr>)) (\<lambda>_.
               bind_io (lift_io r) (\<lambda>(ct, ctx).
               bind_io (case ct of None \<Rightarrow> ret_io a | Some t' \<Rightarrow> alloc_io t' cuda) (\<lambda>b.
               bind_io (lift_io (name_text ''Gradient.'' name)) (\<lambda>n.
               bind_io (push_pull_async_inplace hc b True (Some n) 0 0 (compressor_name (k_kind k))) (\<lambda>h.
                 ret_io (Some h, ctx))))))))"

text \<open>The time spent is read from the context; only a dictionary has it.\<close>

definition ctx_times :: "'x cctx \<Rightarrow> unit res" where
  "ctx_times ctx = (case ctx of Ctx_none \<Rightarrow> Inr () | Ctx_dict _ \<Rightarrow> Inr () | Ctx_object _ \<Rightarrow> Inl TypeError)"

section \<open>Synchronisation\<close>

definition sync_missing :: "(nat set \<Rightarrow> nat list) \<Rightarrow> (('s, 'x) dopt, unit) io" where
  "sync_missing it =
     bind_io (get_io (\<lambda>w. it (set (d_requires_update w) - {p. dict_has (d_handles w) (Param p)}))) (\<lambda>missing_p.
       for_io (\<lambda>p. modify_io (\<lambda>w.
         (note_tensor (dict_get (d_parameter_names w) p) w)\<lparr>d_handles := dict_set (d_handles w) (Param p) (None, Ctx_none)\<rparr>)) missing_p)"

fun handle_params :: "(hkey, 'v) dict \<Rightarrow> nat list" where
  "handle_params [] = []"
| "handle_params ((Param p, v) # d) = p # handle_params d"
| "handle_params ((Max_info_handle, v) # d) = handle_params d"

definition cat_grads :: "nat list \<Rightarrow> ('s, 'x) dopt \<Rightarrow> tensor res" where
  "cat_grads ps w =
     (let ts = map (\<lambda>p. grad_of p w) ps
      in if ts = [] then Inl RuntimeError
         else Inr \<lparr>t_dtype = fold (\<lambda>t d. promote d (t_dtype t)) (tl ts) (t_dtype (hd ts)),
                   t_size = [length (concat (map t_data ts))], t_data = concat (map t_data ts)\<rparr>)"

definition resize_data :: "(nat \<Rightarrow> rat list) \<Rightarrow> nat \<Rightarrow> rat list \<Rightarrow> rat list" where
  "resize_data uninit n xs = take n xs @ uninit (n - length xs)"

definition set_grad :: "nat \<Rightarrow> tensor \<Rightarrow> (('s, 'x) dopt, unit) io" where
  "set_grad p t =
     bind_io (get_io (\<lambda>w. w_cuda w (d_grad w p))) (\<lambda>cuda.
     bind_io (alloc_io t cuda) (\<lambda>a. modify_io (\<lambda>w. w\<lparr>d_grad := (d_grad w)(p := a)\<rparr>)))"

text \<open>The slices of a flat tensor become the gradients, one after the other.\<close>

fun distribute :: "(nat \<Rightarrow> rat list) \<Rightarrow> dtype \<Rightarrow> rat list \<Rightarrow> nat list \<Rightarrow> (('s, 'x) dopt, rat list) io" where
  "distribute uninit dt xs [] = ret_io xs"
| "distribute uninit dt xs (p # ps) =
     bind_io (get_io (grad_of p)) (\<lambda>g.
     let n = length (t_data g)
     in bind_io (set_grad p \<lparr>t_dtype = dt, t_size = t_size g, t_data = resize_data uninit n (take n xs)\<rparr>) (\<lambda>_.
          distribute uninit dt (drop n xs) ps))"

definition reset_delay :: "nat \<Rightarrow> ('s, 'x) dopt \<Rightarrow> ('s, 'x) dopt" where
  "reset_delay p w = w\<lparr>d_push_pull_delay := dict_set (d_push_pull_delay w) p (d_backward_passes_per_step w)\<rparr>"

definition put_handle :: "hkey \<Rightarrow> nat option \<times> 'x cctx \<Rightarrow> ('s, 'x) dopt \<Rightarrow> ('s, 'x) dopt" where
  "put_handle key v w = w\<lparr>d_handles := dict_set (d_handles w) key v\<rparr>"

text \<open>The original path: every gradient on its own.\<close>

definition plain_push :: "bool \<Rightarrow> ('s, 'x) compressor \<Rightarrow> nat \<Rightarrow> (('s, 'x) dopt, unit) io" where
  "plain_push hc k p = bind_io (push_pull_grad_async hc k p) (\<lambda>v. modify_io (put_handle (Param p) v))"

definition plain_collect :: "('s, 'x) compressor \<Rightarrow> hkey \<times> nat option \<times> 'x cctx \<Rightarrow> (('s, 'x) dopt, unit) io" where
  "plain_collect k = (\<lambda>(key, handle, ctx).
     case key of
       Max_info_handle \<Rightarrow> raise_io AttributeError
     | Param p \<Rightarrow>
         bind_io (synchronize handle) (\<lambda>output.
         bind_io (modify_io (reset_delay p)) (\<lambda>_.
         bind_io (get_io d_enable_async) (\<lambda>async.
           if async then ret_io ()
           else case output of
             None \<Rightarrow> raise_io TypeError
           | Some b \<Rightarrow>
               bind_io (get_io (\<lambda>w. (w_heap w b, d_cstate w))) (\<lambda>(t, s).
               bind_io (lift_io (k_decompress k s t ctx)) (\<lambda>r.
               bind_io (modify_io (\<lambda>w. w\<lparr>w_heap := (w_heap w)(d_grad w p := (case r of None \<Rightarrow> t | Some t' \<Rightarrow> t'))\<rparr>)) (\<lambda>_.
                 lift_io (ctx_times ctx))))))))"

definition sync_plain :: "bool \<Rightarrow> (rat list \<Rightarrow> rat) \<Rightarrow> ('s, 'x) compressor \<Rightarrow> (('s, 'x) dopt, unit) io" where
  "sync_plain hc norm2 k =
     bind_io (get_io (\<lambda>w. handle_params (d_handles w))) (\<lambda>ps.
     bind_io (push_pull_info norm2 ps) (\<lambda>_.
     bind_io (for_io (plain_push hc k) ps) (\<lambda>_.
     bind_io (get_io d_handles) (\<lambda>hs.
       for_io (plain_collect k) hs))))"

text \<open>The TopK path: all gradients in one tensor.\<close>

definition compress_batch ::
    "(rat list \<Rightarrow> rat) \<Rightarrow> ('s, 'x) compressor \<Rightarrow> tensor \<Rightarrow> (('s, 'x) dopt, tensor \<times> 'x cctx) io" where
  "compress_batch norm2 k grads =
     bind_io (get_io (\<lambda>w. (d_compression_info w, d_cstate w))) (\<lambda>(inf, s).
       let (r, s') = k_compress k s grads ''batch_grads'' inf
       in bind_io (modify_io (\<lambda>w. w\<lparr>d_cstate := s'\<rparr>)) (\<lambda>_.
          bind_io (lift_io r) (\<lambda>(ct, ctx). ret_io (case ct of None \<Rightarrow> grads | Some t \<Rightarrow> t, ctx))))"

definition decompress_batch :: "('s, 'x) compressor \<Rightarrow> tensor \<Rightarrow> 'x cctx \<Rightarrow> (('s, 'x) dopt, tensor) io" where
  "decompress_batch k t ctx =
     bind_io (get_io d_cstate) (\<lambda>s.
     bind_io (lift_io (k_decompress k s t ctx)) (\<lambda>r.
     bind_io (lift_io (ctx_times ctx)) (\<lambda>_. ret_io (case r of None \<Rightarrow> t | Some t' \<Rightarrow> t'))))"

definition sync_topk ::
    "bool \<Rightarrow> (rat list \<Rightarrow> rat) \<Rightarrow> (nat \<Rightarrow> rat list) \<Rightarrow> ('s, 'x) compressor \<Rightarrow> (('s, 'x) dopt, unit) io" where
  "sync_topk hc norm2 uninit k =
     bind_io (get_io (\<lambda>w. handle_params (d_handles w))) (\<lambda>ps.
     bind_io (get_io (cat_grads ps)) (\<lambda>r.
     bind_io (lift_io r) (\<lambda>grads.
     bind_io (batch_push_pull_info norm2 (t_data grads)) (\<lambda>_.
     bind_io (compress_batch norm2 k grads) (\<lambda>(batch_compressed, ctx).
     bind_io (topk_push_pull_grad_async hc (compressor_name (k_kind k)) (t_data batch_compressed)) (\<lambda>topk_handle.
     bind_io (synchronize (Some topk_handle)) (\<lambda>out.
     bind_io (case out of None \<Rightarrow> raise_io AttributeError | Some b \<Rightarrow> get_io (\<lambda>w. view_flat (w_heap w b))) (\<lambda>batched_output.
     bind_io (get_io d_enable_async) (\<lambda>async.
       if async then ret_io ()
       else bind_io (decompress_batch k batched_output ctx) (\<lambda>dec.
            bind_io (distribute uninit (t_dtype dec) (t_data dec) ps) (\<lambda>_.
              for_io (\<lambda>p. modify_io (reset_delay p)) ps)))))))))))"

text \<open>The INCA path: compressed together, sent layer by layer as bytes.\<close>

definition agree_max_norm :: "bool \<Rightarrow> (string \<Rightarrow> rat \<Rightarrow> rat) \<Rightarrow> bool \<Rightarrow> (('s, 'x) dopt, nat option) io" where
  "agree_max_norm hc c_send_norm use_server =
     bind_io (get_io (\<lambda>w. the (d_compression_info w))) (\<lambda>inf.
       if \<not> use_server
       then bind_io (send_norm c_send_norm (Some ''Info.batched_max_norm'') (max_norm inf)) (\<lambda>g.
            bind_io (if g \<noteq> 0 then modify_io (\<lambda>w. w\<lparr>d_compression_info := Some (inf\<lparr>max_norm := g\<rparr>)\<rparr>) else ret_io ()) (\<lambda>_.
              ret_io None))
       else bind_io (push_pull_max_norm hc (max_norm inf)) (\<lambda>handle.
            bind_io (synchronize (Some handle)) (\<lambda>out.
            bind_io (case out of None \<Rightarrow> raise_io AttributeError | Some b \<Rightarrow> get_io (\<lambda>w. t_data (w_heap w b))) (\<lambda>xs.
            bind_io (lift_io (max_item xs)) (\<lambda>m.
            bind_io (modify_io (\<lambda>w. w\<lparr>d_compression_info := Some (inf\<lparr>max_norm := (if m = 0 then max_norm inf else m)\<rparr>)\<rparr>)) (\<lambda>_.
              ret_io (Some handle)))))))"

fun inca_push ::
    "storage \<Rightarrow> bool \<Rightarrow> (nat \<Rightarrow> rat list) \<Rightarrow> string \<Rightarrow> 'x cctx \<Rightarrow> dtype \<Rightarrow> rat list \<Rightarrow> nat list \<Rightarrow> (('s, 'x) dopt, rat list) io" where
  "inca_push c hc uninit cname ctx dt xs [] = ret_io xs"
| "inca_push c hc uninit cname ctx dt xs (p # ps) =
     bind_io (get_io (grad_of p)) (\<lambda>g.
     let n = length (t_data g)
     in bind_io (set_grad p \<lparr>t_dtype = dt, t_size = t_size g, t_data = resize_data uninit n (take n xs)\<rparr>) (\<lambda>_.
        bind_io (afterbatch_push_pull_grad_async c hc cname p) (\<lambda>handle.
        bind_io (modify_io (put_handle (Param p) (handle, ctx))) (\<lambda>_.
          inca_push c hc uninit cname ctx dt (drop n xs) ps))))"

fun inca_collect :: "(hkey \<times> nat option \<times> 'x cctx) list \<Rightarrow> (('s, 'x) dopt, rat list) io" where
  "inca_collect [] = ret_io []"
| "inca_collect ((Max_info_handle, _) # hs) = inca_collect hs"
| "inca_collect ((Param p, handle, _) # hs) =
     bind_io (synchronize handle) (\<lambda>out.
     bind_io (modify_io (reset_delay p)) (\<lambda>_.
     bind_io (case out of None \<Rightarrow> raise_io AttributeError | Some b \<Rightarrow> get_io (\<lambda>w. t_data (w_heap w b))) (\<lambda>xs.
     bind_io (inca_collect hs) (\<lambda>ys. ret_io (xs @ ys)))))"

definition sync_inca ::
    "storage \<Rightarrow> bool \<Rightarrow> (rat list \<Rightarrow> rat) \<Rightarrow> (nat \<Rightarrow> rat list) \<Rightarrow> (string \<Rightarrow> rat \<Rightarrow> rat) \<Rightarrow> ('s, 'x) compressor \<Rightarrow> (('s, 'x) dopt, unit) io" where
  "sync_inca c hc norm2 uninit c_send_norm k =
     bind_io (get_io (\<lambda>w. handle_params (d_handles w))) (\<lambda>ps.
     bind_io (get_io (cat_grads ps)) (\<lambda>r.
     bind_io (lift_io r) (\<lambda>grads.
     bind_io (batch_push_pull_info norm2 (t_data grads)) (\<lambda>_.
     bind_io (agree_max_norm hc c_send_norm (use_bps_server k)) (\<lambda>max_info_handle.
     bind_io (compress_batch norm2 k grads) (\<lambda>(batch, ctx).
     bind_io (inca_push c hc uninit (compressor_name (k_kind k)) ctx (t_dtype batch) (t_data batch) ps) (\<lambda>rest.
     bind_io (get_io d_handles) (\<lambda>hs.
     bind_io (inca_collect hs) (\<lambda>ys.
     bind_io (get_io d_enable_async) (\<lambda>async.
     bind_io (if async then ret_io []
              else bind_io (decompress_batch k \<lparr>t_dtype = Float32, t_size = [length (ys @ rest)], t_data = map (c Float32) (ys @ rest)\<rparr> ctx) (\<lambda>dec.
                     distribute uninit (t_dtype dec) (t_data dec) ps)) (\<lambda>_.
       if use_bps_server k then modify_io (put_handle Max_info_handle (max_info_handle, Ctx_none)) else ret_io ())))))))))))"

definition opt_synchronize ::
    "storage \<Rightarrow> bool \<Rightarrow> (rat list \<Rightarrow> rat) \<Rightarrow> (nat \<Rightarrow> rat list) \<Rightarrow> (string \<Rightarrow> rat \<Rightarrow> rat) \<Rightarrow> (nat set \<Rightarrow> nat list) \<Rightarrow>
     ('s, 'x) compressor \<Rightarrow> (('s, 'x) dopt, unit) io" where
  "opt_synchronize c hc norm2 uninit c_send_norm it k =
     bind_io (sync_missing it) (\<lambda>_.
     bind_io (if k_kind k = Newinca \<or> k_kind k = Inca then sync_inca c hc norm2 uninit c_send_norm k
              else if k_kind k = Topk then sync_topk hc norm2 uninit k
              else sync_plain hc norm2 k) (\<lambda>_.
       modify_io (\<lambda>w. w\<lparr>d_handles := []\<rparr>)))"

section \<open>Steps\<close>

text \<open>The body of \<open>with optimizer.skip_synchronize()\<close> runs with the flag off; the flag is on again afterwards, also after an exception.\<close>

definition skip_synchronize :: "(('s, 'x) dopt, 'a) io \<Rightarrow> (('s, 'x) dopt, 'a) io" where
  "skip_synchronize body =
     bind_io (get_io d_enable_async) (\<lambda>async.
       if async then raise_io AssertionError
       else (\<lambda>w. bind_proc (body (w\<lparr>d_should_sync := False\<rparr>)) (\<lambda>(r, w'). Ret (r, w'\<lparr>d_should_sync := True\<rparr>))))"

definition ctx_name_of :: "('x \<Rightarrow> string) \<Rightarrow> 'x cctx \<Rightarrow> string res" where
  "ctx_name_of f ctx = (case ctx of Ctx_none \<Rightarrow> Inl TypeError | Ctx_dict x \<Rightarrow> Inr (f x) | Ctx_object _ \<Rightarrow> Inl TypeError)"

definition async_param :: "bool \<Rightarrow> ('s, 'x) compressor \<Rightarrow> ('x \<Rightarrow> string) \<Rightarrow> (nat, tensor) dict \<Rightarrow> nat \<times> nat option \<Rightarrow> (('s, 'x) dopt, unit) io" where
  "async_param hc k name_of old_weight_map = (\<lambda>(p, h).
     bind_io (get_io (\<lambda>w. (d_data w p, w_heap w (d_data w p), dict_get (d_parameter_names w) p))) (\<lambda>(a, t, name).
     bind_io (lift_io (case dict_get old_weight_map p of None \<Rightarrow> Inl TypeError | Some old \<Rightarrow> bcast2 (-) (t_data t) (t_data old))) (\<lambda>xs.
     bind_io (modify_io (\<lambda>w. w\<lparr>w_heap := (w_heap w)(a := t\<lparr>t_data := xs\<rparr>)\<rparr>)) (\<lambda>_.
       if h \<noteq> None then ret_io ()
       else bind_io (lift_io (name_text ''AsyncParam.'' name)) (\<lambda>n.
            bind_io (push_pull_async_inplace hc a False (Some n) 0 0 '''') (\<lambda>handle.
            bind_io (get_io (\<lambda>w. (w_heap w a, d_cstate w))) (\<lambda>(u, s).
            let (r, s') = k_compress k s u (the name) None
            in bind_io (modify_io (\<lambda>w. w\<lparr>d_cstate := s'\<rparr>)) (\<lambda>_.
               bind_io (lift_io r) (\<lambda>(_, ctx).
               bind_io (modify_io (put_handle (Param p) (Some handle, ctx))) (\<lambda>_.
               bind_io (lift_io (ctx_name_of name_of ctx)) (\<lambda>tensor_name.
                 modify_io (note_tensor (Some tensor_name)))))))))))))"

definition step ::
    "storage \<Rightarrow> bool \<Rightarrow> (rat list \<Rightarrow> rat) \<Rightarrow> (nat \<Rightarrow> rat list) \<Rightarrow> (string \<Rightarrow> rat \<Rightarrow> rat) \<Rightarrow> (nat set \<Rightarrow> nat list) \<Rightarrow>
     ('s, 'x) compressor \<Rightarrow> ('x \<Rightarrow> string) \<Rightarrow> (('s, 'x) dopt, 'l) io \<Rightarrow> (('s, 'x) dopt, 'l) io" where
  "step c hc norm2 uninit c_send_norm it k name_of base_step =
     bind_io (get_io (\<lambda>w. (d_enable_async w, d_should_sync w))) (\<lambda>(async, should_sync).
       if async
       then bind_io (get_io (\<lambda>w. map (\<lambda>p. (p, w_heap w (d_data w p))) (handle_params (d_handles w)))) (\<lambda>old_weight_map.
            bind_io base_step (\<lambda>loss.
            bind_io (get_io (\<lambda>w. map (\<lambda>p. (p, fst (the (dict_get (d_handles w) (Param p))))) (handle_params (d_handles w)))) (\<lambda>hs.
            bind_io (for_io (async_param hc k name_of old_weight_map) hs) (\<lambda>_.
            bind_io (opt_synchronize c hc norm2 uninit c_send_norm it k) (\<lambda>_.
              ret_io loss)))))
       else bind_io (if should_sync then opt_synchronize c hc norm2 uninit c_send_norm it k else ret_io ()) (\<lambda>_. base_step))"

section \<open>Construction without names\<close>

text \<open>Programs that finish without talking to the service and keep a part of the state.\<close>

definition local_io :: "('w \<Rightarrow> 'f) \<Rightarrow> ('w, 'a) io \<Rightarrow> bool" where
  "local_io f m \<longleftrightarrow> (\<forall>w. \<exists>x w'. m w = Ret (Inr x, w') \<and> f w' = f w)"

lemma local_io_bind: "local_io f m \<Longrightarrow> (\<And>x. local_io f (g x)) \<Longrightarrow> local_io f (bind_io m g)"
  unfolding local_io_def by (metis bind_io_Ret(1))

lemma local_io_for: "(\<And>x. local_io f (g x)) \<Longrightarrow> local_io f (for_io g xs)"
  by (induction xs) (auto simp: local_io_bind, simp add: local_io_def io_simps)

lemma local_io_basic:
  "local_io f (ret_io x)" "local_io f (get_io h)" "(\<And>w. f (g w) = f w) \<Longrightarrow> local_io f (modify_io g)"
  by (auto simp: local_io_def io_simps)

definition delays :: "('s, 'x) dopt \<Rightarrow> (nat, int) dict \<times> (nat \<Rightarrow> bool) \<times> (hkey, nat option \<times> 'x cctx) dict" where
  "delays w = (d_push_pull_delay w, d_grad_requires_grad w, d_handles w)"

lemma local_io_alloc: "local_io delays (alloc_io t cuda)"
  by (auto simp: local_io_def alloc_io_def delays_def Let_def)

lemma local_io_register: "local_io delays (register_hooks ps)"
  by (induction ps) (auto intro!: local_io_bind local_io_basic local_io_alloc, simp add: delays_def)

lemma delays_declare: "delays (declare_tensor n w) = delays w"
  by (simp add: delays_def declare_tensor_def)

lemma local_io_declare: "local_io delays (declare_op n)"
  unfolding declare_op_def by (intro local_io_bind local_io_basic delays_declare)

lemma opt_init_unnamed:
  assumes "enable_async env = Inr async"
  shows "\<exists>w'. opt_init c env num_worker worker_id k None passes w = Ret (Inr (), w') \<and> delays w' = ([], d_grad_requires_grad w, [])"
proof -
  let ?w1 = "w\<lparr>d_enable_async := async, d_is_tensor_instance := False, d_parameter_names := noname_names (d_groups w),
      d_backward_passes_per_step := passes, d_push_pull_delay := [], d_handles := [], d_hooks := [], d_requires_update := [], d_should_sync := True\<rparr>"
  let ?rest = "\<lambda>names. bind_io (modify_io (\<lambda>w. w\<lparr>d_last_insert_tensor := None, d_next := [], d_compression_info := None,
             d_num_workers := num_worker, d_worker_id := worker_id\<rparr>)) (\<lambda>_.
      bind_io (if k_kind k = Newinca \<or> k_kind k = Inca
               then bind_io (alloc_io \<lparr>t_dtype = Uint8, t_size = [k_d k], t_data = vzero (k_d k)\<rparr> True) (\<lambda>a. modify_io (\<lambda>w. w\<lparr>d_inca_tensor := Some a\<rparr>))
               else ret_io ()) (\<lambda>_.
      bind_io (if k_kind k = Topk
               then let m = nat (2 * compressed_num c (k_kp k) (k_d k))
                    in bind_io (alloc_io (zeros m) True) (\<lambda>a. modify_io (\<lambda>w. w\<lparr>d_topk_tensor := Some a\<rparr>))
               else ret_io ()) (\<lambda>_.
      bind_io (for_io (\<lambda>n. declare_op (''Gradient.'' @ n)) (sort (map snd names))) (\<lambda>_.
        for_io (\<lambda>n. declare_op (''Parameter.'' @ n)) (sort (map snd names))))))"
  have l: "local_io delays (bind_io (register_hooks ps) (\<lambda>_. ?rest names))" for ps and names :: "(nat \<times> string) list"
    by (auto intro!: local_io_bind local_io_basic local_io_alloc local_io_register local_io_for local_io_declare simp: Let_def,
        simp_all add: delays_def)
  have "opt_init c env num_worker worker_id k None passes w = bind_io (register_hooks (concat (d_groups w))) (\<lambda>_. ?rest (noname_names (d_groups w))) ?w1"
    using assms by (simp add: opt_init_def parameter_names_def find_duplicates_def io_simps)
  moreover obtain u w' where "bind_io (register_hooks (concat (d_groups w))) (\<lambda>_. ?rest (noname_names (d_groups w))) ?w1 = Ret (Inr u, w')"
      "delays w' = delays ?w1"
    using l unfolding local_io_def by blast
  ultimately show ?thesis by (simp add: delays_def)
qed

text \<open>
  An optimizer built without named parameters cannot train: the construction succeeds, and then
  the hook of every parameter raises KeyError, because the table of delays is filled from the named
  parameters only.
\<close>

theorem unnamed_hook_fails:
  assumes "enable_async env = Inr async" "\<not> d_grad_requires_grad w p"
  shows "\<exists>w'. opt_init c env num_worker worker_id k None passes w = Ret (Inr (), w') \<and> hook p w' = Ret (Inl KeyError, w')"
proof -
  obtain w' where w': "opt_init c env num_worker worker_id k None passes w = Ret (Inr (), w')" "delays w' = ([], d_grad_requires_grad w, [])"
    using opt_init_unnamed [OF assms(1)] by blast
  then have "hook p w' = Ret (Inl KeyError, w')"
    using assms(2) by (simp add: hook_def io_simps delays_def delay_of_def dict_index_def)
  with w' show ?thesis by blast
qed

section \<open>Hooks: behaviour\<close>

definition hook_ready :: "nat \<Rightarrow> int \<Rightarrow> ('s, 'x) dopt \<Rightarrow> bool" where
  "hook_ready p d w \<longleftrightarrow> dict_get (d_push_pull_delay w) p = Some d \<and> \<not> d_grad_requires_grad w p
     \<and> (\<forall>h ctx. dict_get (d_handles w) (Param p) = Some (h, ctx) \<longrightarrow> h = None)"

lemma note_tensor_sel [simp]:
  "d_push_pull_delay (note_tensor n w) = d_push_pull_delay w" "d_handles (note_tensor n w) = d_handles w"
  "d_grad_requires_grad (note_tensor n w) = d_grad_requires_grad w" "d_parameter_names (note_tensor n w) = d_parameter_names w"
  "d_grad (note_tensor n w) = d_grad w" "d_data (note_tensor n w) = d_data w" "w_heap (note_tensor n w) = w_heap w" "w_handle_map (note_tensor n w) = w_handle_map w"
  "w_cuda (note_tensor n w) = w_cuda w" "w_contiguous (note_tensor n w) = w_contiguous w"
  "d_enable_async (note_tensor n w) = d_enable_async w" "d_backward_passes_per_step (note_tensor n w) = d_backward_passes_per_step w"
  "d_requires_update (note_tensor n w) = d_requires_update w" "w_max_norm (note_tensor n w) = w_max_norm w"
  "d_last_insert_tensor (note_tensor n w) = n" "d_cstate (note_tensor n w) = d_cstate w" "d_max_info_tensor (note_tensor n w) = d_max_info_tensor w"
  by (simp_all add: note_tensor_def Let_def)

lemma hook_run:
  assumes "hook_ready p d w"
  shows "hook p w =
    (if d > 0 then Ret (Inr (), note_tensor (dict_get (d_parameter_names w) p)
         (w\<lparr>d_push_pull_delay := dict_set (d_push_pull_delay w) p (d - 1), d_handles := dict_set (d_handles w) (Param p) (None, Ctx_none)\<rparr>))
     else Ret (Inl AssertionError, w))"
proof -
  have old: "(case dict_get (d_handles w) (Param p) of
      Some (Some _, _) \<Rightarrow> bind_io (delay_of p) (\<lambda>d. if d \<le> 0 then raise_io AssertionError else ret_io ()) | _ \<Rightarrow> ret_io ()) = ret_io ()"
    using assms by (cases "dict_get (d_handles w) (Param p)") (auto simp: hook_ready_def)
  show ?thesis using assms
    by (cases "d > 0") (simp_all add: hook_def hook_ready_def old bind_io_basic bind_io_assoc delay_of_def dict_index_def io_run)
qed

text \<open>
  Gradient accumulation: between two synchronisations a parameter accepts as many backward passes
  as its delay says, each one counts down by one, and one more raises AssertionError.
\<close>

theorem hook_count:
  assumes "hook_ready p d w" "0 \<le> d"
  shows "\<exists>w'. for_io hook (replicate n p) w = Ret (if int n \<le> d then Inr () else Inl AssertionError, w')
     \<and> hook_ready p (d - min (int n) d) w'"
  using assms
proof (induction n arbitrary: d w)
  case 0
  then show ?case by (simp add: io_simps)
next
  case (Suc n)
  show ?case
  proof (cases "d > 0")
    case True
    let ?w = "note_tensor (dict_get (d_parameter_names w) p)
         (w\<lparr>d_push_pull_delay := dict_set (d_push_pull_delay w) p (d - 1), d_handles := dict_set (d_handles w) (Param p) (None, Ctx_none)\<rparr>)"
    have r: "hook p w = Ret (Inr (), ?w)" using hook_run [OF Suc.prems(1)] True by simp
    have "hook_ready p (d - 1) ?w" using Suc.prems(1) by (simp add: hook_ready_def)
    then obtain w' where "for_io hook (replicate n p) ?w = Ret (if int n \<le> d - 1 then Inr () else Inl AssertionError, w')"
        "hook_ready p (d - 1 - min (int n) (d - 1)) w'"
      using Suc.IH [of "d - 1" ?w] True by auto
    moreover have "d - 1 - min (int n) (d - 1) = d - min (int (Suc n)) d" "(int n \<le> d - 1) = (int (Suc n) \<le> d)" by auto
    ultimately show ?thesis using r by (auto simp: bind_io_def)
  next
    case False
    then have "d = 0" using Suc.prems(2) by simp
    with hook_run [OF Suc.prems(1)] Suc.prems(1) show ?thesis by (simp add: bind_io_def)
  qed
qed

text \<open>A worker with two scalar parameters, which have gradients 3 and 4 and the data 1 and 2.\<close>

definition opt_example :: "(unit, unit) dopt" where
  "opt_example =
     \<lparr>w_rank = 0, w_heap = (\<lambda>a. vec_of [[3, 4, 1, 2] ! a]), w_next = 4, w_cuda = (\<lambda>_. False), w_contiguous = (\<lambda>_. True), w_declared = [],
      w_handle_map = [], w_name_to_norm = [], w_name_to_next = [], w_max_norm = 0, w_num_grads = 0, w_grad_count = 0,
      d_cstate = (), d_groups = [[0, 1]], d_requires_grad = (\<lambda>_. True), d_grad = (\<lambda>p. p), d_grad_requires_grad = (\<lambda>_. False),
      d_data = (\<lambda>p. p + 2), d_enable_async = False, d_is_tensor_instance = True, d_parameter_names = [(0, ''b''), (1, ''w'')],
      d_backward_passes_per_step = 2, d_push_pull_delay = [(0, 2), (1, 2)], d_handles = [], d_hooks = [0, 1], d_requires_update = [0, 1],
      d_should_sync = True, d_last_insert_tensor = None, d_next = [], d_compression_info = None, d_num_workers = 2, d_worker_id = 0,
      d_inca_tensor = None, d_topk_tensor = None, d_max_info_tensor = None\<rparr>"

theorem unnamed_hook_fails_witness:
  "\<exists>w'. opt_init exact [] 2 0 (none_compressor :: (unit, unit) compressor) None 1 opt_example = Ret (Inr (), w') \<and> hook 0 w' = Ret (Inl KeyError, w')"
  by (rule unnamed_hook_fails [of _ False]) (simp_all add: enable_async_def opt_example_def)

theorem hook_count_witness:
  "\<exists>w'. for_io hook (replicate 3 1) opt_example = Ret (if int 3 \<le> 2 then Inr () else Inl AssertionError, w')
     \<and> hook_ready 1 (2 - min (int 3) 2) w'"
  by (rule hook_count) (simp_all add: hook_ready_def opt_example_def)

end
