(* ===== verification/Torch_Sync.thy ===== *)
theory Torch_Sync
  imports Torch_Optimizer
begin

text \<open>
  What the synchronisation of the torch optimizer achieves when several workers run it together: the
  plain path averages the gradients whatever the order of the hooks, and the other paths and the
  asynchronous step fail in the ways stated here.
\<close>

section \<open>Sending the gradients\<close>

definition grad_name :: "nat \<Rightarrow> ('s, 'x) dopt \<Rightarrow> string" where
  "grad_name p w = ''Gradient.'' @ the (dict_get (d_parameter_names w) p)"

definition grad_req :: "('s, 'x) dopt \<Rightarrow> nat \<Rightarrow> req" where
  "grad_req w p = pp_req (d_grad w p) True (Some (grad_name p w)) 0 0 (w_max_norm w) ''none'' w"

definition pushed1 :: "nat \<Rightarrow> nat \<Rightarrow> ('s, 'x) dopt \<Rightarrow> ('s, 'x) dopt" where
  "pushed1 h p w = put_handle (Param p) (Some h, Ctx_none)
     (with_handle h (d_grad w p) (d_grad w p) (Some (grad_name p w)) (declare_tensor (grad_name p w) w))"

fun pushed :: "nat \<Rightarrow> nat list \<Rightarrow> ('s, 'x) dopt \<Rightarrow> ('s, 'x) dopt" where
  "pushed n [] w = w"
| "pushed n (p # ps) w = pushed (Suc n) ps (pushed1 (Suc n) p w)"

lemma declare_tensor_dopt [simp]:
  "d_handles (declare_tensor n w) = d_handles w" "d_grad (declare_tensor n w) = d_grad w"
  "d_parameter_names (declare_tensor n w) = d_parameter_names w" "d_enable_async (declare_tensor n w) = d_enable_async w"
  "d_push_pull_delay (declare_tensor n w) = d_push_pull_delay w" "d_backward_passes_per_step (declare_tensor n w) = d_backward_passes_per_step w"
  "d_cstate (declare_tensor n w) = d_cstate w" "d_data (declare_tensor n w) = d_data w"
  by (simp_all add: declare_tensor_def)

lemma pushed1_sel [simp]:
  "w_heap (pushed1 h p w) = w_heap w" "w_cuda (pushed1 h p w) = w_cuda w" "w_contiguous (pushed1 h p w) = w_contiguous w"
  "w_max_norm (pushed1 h p w) = w_max_norm w" "d_data (pushed1 h p w) = d_data w" "d_grad (pushed1 h p w) = d_grad w"
  "d_parameter_names (pushed1 h p w) = d_parameter_names w" "d_enable_async (pushed1 h p w) = d_enable_async w"
  "d_push_pull_delay (pushed1 h p w) = d_push_pull_delay w" "d_backward_passes_per_step (pushed1 h p w) = d_backward_passes_per_step w"
  "d_handles (pushed1 h p w) = dict_set (d_handles w) (Param p) (Some h, Ctx_none)"
  "w_handle_map (pushed1 h p w) = dict_set (w_handle_map w) h (d_grad w p, d_grad w p, Some (grad_name p w))"
  by (simp_all add: pushed1_def put_handle_def with_handle_def)

lemma pushed1_same [simp]:
  "pushable hc a (pushed1 h p w) = pushable hc a w" "grad_name q (pushed1 h p w) = grad_name q w"
  "grad_req (pushed1 h p w) = grad_req w"
  by (simp_all add: pushable_def grad_name_def grad_req_def pp_req_def fun_eq_iff)

lemma pushed_sel [simp]:
  "w_heap (pushed n ps w) = w_heap w" "d_data (pushed n ps w) = d_data w" "d_grad (pushed n ps w) = d_grad w" "d_enable_async (pushed n ps w) = d_enable_async w"
  "d_push_pull_delay (pushed n ps w) = d_push_pull_delay w" "d_backward_passes_per_step (pushed n ps w) = d_backward_passes_per_step w"
  by (induction ps arbitrary: n w) simp_all

lemma same_cstate [simp]: "w\<lparr>d_cstate := d_cstate w\<rparr> = w"
  by (cases w) simp

abbreviation push_grad :: "bool \<Rightarrow> nat \<Rightarrow> (('s, 'x) dopt, unit) io" where
  "push_grad hc \<equiv> plain_push hc none_compressor"

lemma push_grad_run:
  assumes "\<not> d_enable_async w" "dict_get (d_parameter_names w) p = Some x" "pushable hc (d_grad w p) w"
  shows "push_grad hc p w =
    Issue (grad_req w p) (\<lambda>h. Ret (Inr (), pushed1 h p w))"
  using assms
  by (simp add: plain_push_def push_pull_grad_async_def none_compressor_def bind_io_basic bind_io_assoc io_run name_text_def compressor_name_def
      push_pull_async_inplace_run do_push_pull_async_run bind_io_Issue bind_io_Ret grad_req_def pushed1_def grad_name_def
      encode_name_def Let_def)

lemma issues_bind_io:
  "issues (m w) l (Inr x, w1) l1 \<Longrightarrow> issues (f x w1) l1 y l2 \<Longrightarrow> issues (bind_io m f w) l y l2"
  unfolding bind_io_def by (rule issues_bind [where x = "(Inr x, w1)"]) simp_all

lemma waits_bind_io:
  "waits net L i (m w) (Inr x, w1) \<Longrightarrow> waits net L i (f x w1) y \<Longrightarrow> waits net L i (bind_io m f w) y"
  unfolding bind_io_def by (rule waits_bind [where x = "(Inr x, w1)"]) simp_all

definition sendable :: "bool \<Rightarrow> ('s, 'x) dopt \<Rightarrow> nat \<Rightarrow> bool" where
  "sendable hc w p \<longleftrightarrow> dict_get (d_parameter_names w) p \<noteq> None \<and> pushable hc (d_grad w p) w"

lemma push_all_issues:
  assumes "\<not> d_enable_async w" "\<forall>p \<in> set ps. sendable hc w p"
  shows "issues (for_io (push_grad hc) ps w)
    l (Inr (), pushed (length l) ps w) (l @ map (grad_req w) ps)"
  using assms
proof (induction ps arbitrary: l w)
  case Nil
  then show ?case by (simp add: io_run issues_Ret)
next
  case (Cons p ps)
  let ?w = "pushed1 (Suc (length l)) p w"
  obtain x where x: "dict_get (d_parameter_names w) p = Some x" "pushable hc (d_grad w p) w"
    using Cons.prems(2) by (auto simp: sendable_def)
  have s1: "issues (push_grad hc p w) l (Inr (), ?w) (l @ [grad_req w p])"
    unfolding push_grad_run [OF Cons.prems(1) x] by (auto intro!: issues.intros simp: allocate_handle_def)
  have s2: "issues (for_io (push_grad hc) ps ?w)
    (l @ [grad_req w p]) (Inr (), pushed (length (l @ [grad_req w p])) ps ?w) ((l @ [grad_req w p]) @ map (grad_req ?w) ps)"
    using Cons.prems by (intro Cons.IH) (simp_all add: sendable_def)
  show ?case
    using issues_bind_io [where m = "push_grad hc p" and w = w and f = "\<lambda>_. for_io (push_grad hc) ps", OF s1 s2] by simp
qed

lemma update_mid: "k \<notin> fst ` set xs \<Longrightarrow> AList.update k v (xs @ (k, u) # ys) = xs @ (k, v) # ys"
  by (induction xs) auto

lemma pushed_handles:
  "distinct ps \<Longrightarrow> Param ` set ps \<inter> fst ` set hs = {} \<Longrightarrow> d_handles w = hs @ map (\<lambda>p. (Param p, v p)) ps \<Longrightarrow>
   d_handles (pushed n ps w) = hs @ map (\<lambda>(h, p). (Param p, (Some h, Ctx_none))) (enumerate (Suc n) ps)"
proof (induction ps arbitrary: n w hs)
  case (Cons p ps)
  let ?w = "pushed1 (Suc n) p w"
  have "Param p \<notin> fst ` set hs" using Cons.prems(2) by auto
  then have "d_handles ?w = (hs @ [(Param p, (Some (Suc n), Ctx_none))]) @ map (\<lambda>p. (Param p, v p)) ps"
    using Cons.prems(3) by (simp add: update_mid)
  then have "d_handles (pushed (Suc n) ps ?w) = (hs @ [(Param p, (Some (Suc n), Ctx_none))])
      @ map (\<lambda>(h, p). (Param p, (Some h, Ctx_none))) (enumerate (Suc (Suc n)) ps)"
    using Cons.prems(1,2) by (intro Cons.IH) auto
  then show ?case by simp
qed simp

lemma pushed_handle_map:
  "dict_get (w_handle_map (pushed n ps w)) h =
     (if n < h \<and> h \<le> n + length ps
      then let p = ps ! (h - Suc n) in Some (d_grad w p, d_grad w p, Some (grad_name p w))
      else dict_get (w_handle_map w) h)"
proof (induction ps arbitrary: n w)
  case (Cons p ps)
  show ?case unfolding pushed.simps Cons.IH by (auto simp: nth_Cons' Let_def)
qed auto

lemma pushed_handle_keys: "fst ` set (w_handle_map (pushed n ps w)) \<subseteq> fst ` set (w_handle_map w) \<union> {n <.. n + length ps}"
proof (induction ps arbitrary: n w)
  case (Cons p ps)
  have "fst ` set (w_handle_map (pushed1 (Suc n) p w)) \<union> {Suc n <.. Suc n + length ps}
      \<subseteq> fst ` set (w_handle_map w) \<union> {n <.. n + length (p # ps)}"
    by (auto simp: dom_update)
  with Cons.IH [of "Suc n" "pushed1 (Suc n) p w"] show ?case unfolding pushed.simps by (rule subset_trans)
qed simp

section \<open>Receiving the averages\<close>

definition pulled1 :: "nat \<Rightarrow> nat \<Rightarrow> tensor \<Rightarrow> ('s, 'x) dopt \<Rightarrow> ('s, 'x) dopt" where
  "pulled1 h p t w = reset_delay p (filled h (d_grad w p) t w)"

fun pulled :: "(nat \<Rightarrow> tensor) \<Rightarrow> (nat \<times> nat) list \<Rightarrow> ('s, 'x) dopt \<Rightarrow> ('s, 'x) dopt" where
  "pulled t [] w = w"
| "pulled t ((h, p) # hps) w = pulled t hps (pulled1 h p (t h) w)"

lemma pulled1_sel [simp]:
  "w_heap (pulled1 h p t w) = (w_heap w)(d_grad w p := (w_heap w (d_grad w p))\<lparr>t_data := t_data t\<rparr>)"
  "w_handle_map (pulled1 h p t w) = AList.delete h (w_handle_map w)"
  "d_grad (pulled1 h p t w) = d_grad w" "d_data (pulled1 h p t w) = d_data w" "d_enable_async (pulled1 h p t w) = d_enable_async w"
  "d_push_pull_delay (pulled1 h p t w) = dict_set (d_push_pull_delay w) p (d_backward_passes_per_step w)"
  "d_backward_passes_per_step (pulled1 h p t w) = d_backward_passes_per_step w"
  by (simp_all add: pulled1_def reset_delay_def filled_def)

lemma pull_grad_run:
  assumes "\<not> d_enable_async w" "dict_get (w_handle_map w) h = Some (a, d_grad w p, n)"
  shows "plain_collect none_compressor (Param p, Some h, Ctx_none) w = Wait h (\<lambda>t. Ret (Inr (), pulled1 h p t w))"
  using assms
  by (simp add: plain_collect_def synchronize_run bind_io_Wait bind_io_Ret bind_io_basic io_run none_compressor_def ctx_times_def
      pulled1_def reset_delay_def filled_def) (cases w, simp)

lemma pull_all_waits:
  "\<not> d_enable_async w \<Longrightarrow> distinct (map fst hps) \<Longrightarrow>
   \<forall>(h, p) \<in> set hps. (\<exists>a n. dict_get (w_handle_map w) h = Some (a, d_grad w p, n)) \<and> answer net L i h = Some (t h) \<Longrightarrow>
   waits net L i (for_io (plain_collect none_compressor) (map (\<lambda>(h, p). (Param p, (Some h, Ctx_none))) hps) w) (Inr (), pulled t hps w)"
proof (induction hps arbitrary: w)
  case Nil
  then show ?case by (simp add: io_run waits_Ret)
next
  case (Cons hp hps)
  obtain h p where hp: "hp = (h, p)" by fastforce
  obtain a n where m: "dict_get (w_handle_map w) h = Some (a, d_grad w p, n)" "answer net L i h = Some (t h)"
    using Cons.prems(3) by (auto simp: hp)
  let ?w = "pulled1 h p (t h) w"
  have s1: "waits net L i (plain_collect none_compressor (Param p, Some h, Ctx_none) w) (Inr (), ?w)"
    unfolding pull_grad_run [OF Cons.prems(1) m(1)] using m(2) by (auto intro!: waits.intros)
  have s2: "waits net L i (for_io (plain_collect none_compressor) (map (\<lambda>(h, p). (Param p, (Some h, Ctx_none))) hps) ?w) (Inr (), pulled t hps ?w)"
    using Cons.prems by (intro Cons.IH) (fastforce simp: hp delete_conv' image_iff split: prod.splits)+
  show ?case
    using waits_bind_io [where m = "plain_collect none_compressor (Param p, Some h, Ctx_none)" and w = w
        and f = "\<lambda>_. for_io (plain_collect none_compressor) (map (\<lambda>(h, p). (Param p, (Some h, Ctx_none))) hps)", OF s1 s2]
    by (simp add: hp)
qed

lemma pulled_sel [simp]: "d_grad (pulled t hps w) = d_grad w" "d_data (pulled t hps w) = d_data w"
  by (induction t hps w rule: pulled.induct) simp_all

lemma pulled_other:
  "b \<notin> d_grad w ` snd ` set hps \<Longrightarrow> w_heap (pulled t hps w) b = w_heap w b"
  "p \<notin> snd ` set hps \<Longrightarrow> dict_get (d_push_pull_delay (pulled t hps w)) p = dict_get (d_push_pull_delay w) p"
  "fst ` set (w_handle_map (pulled t hps w)) \<subseteq> fst ` set (w_handle_map w)"
  by (induction t hps w rule: pulled.induct) (auto simp: AList.delete_eq)

lemma pulled_grad:
  "distinct (map (\<lambda>(h, p). d_grad w p) hps) \<Longrightarrow> (h, p) \<in> set hps \<Longrightarrow>
   w_heap (pulled t hps w) (d_grad w p) = (w_heap w (d_grad w p))\<lparr>t_data := t_data (t h)\<rparr>
   \<and> dict_get (d_push_pull_delay (pulled t hps w)) p = Some (d_backward_passes_per_step w)"
proof (induction t hps w rule: pulled.induct)
  case (2 t g q hps w)
  let ?w = "pulled1 g q (t g) w"
  show ?case
  proof (cases "(h, p) = (g, q)")
    case True
    have "d_grad w q \<notin> d_grad w ` snd ` set hps" using "2.prems"(1) by (auto simp: image_image case_prod_beta)
    moreover from this have "q \<notin> snd ` set hps" by blast
    ultimately show ?thesis using True pulled_other(1,2) [where w = ?w and hps = hps] by simp
  next
    case False
    then have hp: "(h, p) \<in> set hps" using "2.prems"(2) by auto
    moreover have "d_grad w p \<noteq> d_grad w q" using "2.prems"(1) hp by force
    ultimately show ?thesis using "2.IH" "2.prems"(1) by simp
  qed
qed simp

section \<open>The local part\<close>

definition kept ::
    "('s, 'x) dopt \<Rightarrow> (addr \<Rightarrow> tensor) \<times> (addr \<Rightarrow> bool) \<times> (addr \<Rightarrow> bool) \<times> (nat, addr \<times> addr \<times> string option) dict \<times> (nat \<Rightarrow> addr)
      \<times> (nat \<Rightarrow> addr) \<times> (nat, string) dict \<times> bool \<times> int \<times> (nat, int) dict \<times> addr option" where
  "kept w = (w_heap w, w_cuda w, w_contiguous w, w_handle_map w, d_grad w, d_data w, d_parameter_names w, d_enable_async w,
     d_backward_passes_per_step w, d_push_pull_delay w, d_max_info_tensor w)"

text \<open>The order in which a set is iterated: each element once.\<close>

definition set_order :: "(nat set \<Rightarrow> nat list) \<Rightarrow> bool" where
  "set_order it \<longleftrightarrow> (\<forall>A. finite A \<longrightarrow> distinct (it A) \<and> set (it A) = A)"

text \<open>The hooks of the parameters \<open>qs\<close> have run, in that order.\<close>

definition hooked :: "nat list \<Rightarrow> ('s, 'x) dopt \<Rightarrow> bool" where
  "hooked qs w \<longleftrightarrow> distinct qs \<and> d_handles w = map (\<lambda>p. (Param p, (None, Ctx_none))) qs"

lemma update_new: "k \<notin> fst ` set xs \<Longrightarrow> AList.update k v xs = xs @ [(k, v)]"
  by (induction xs) auto

lemma handle_params_Param: "handle_params (map (\<lambda>p. (Param p, v p)) ps) = ps"
  by (induction ps) simp_all

lemma note_missing_run:
  "hooked qs w \<Longrightarrow> distinct (qs @ ps) \<Longrightarrow>
   \<exists>w'. for_io (\<lambda>p. modify_io (\<lambda>w. (note_tensor (dict_get (d_parameter_names w) p) w)\<lparr>d_handles := dict_set (d_handles w) (Param p) (None, Ctx_none)\<rparr>)) ps w
       = Ret (Inr (), w') \<and> kept w' = kept w \<and> hooked (qs @ ps) w'"
proof (induction ps arbitrary: qs w)
  case Nil
  then show ?case by (simp add: io_run)
next
  case (Cons p ps)
  let ?w = "(note_tensor (dict_get (d_parameter_names w) p) w)\<lparr>d_handles := dict_set (d_handles w) (Param p) (None, Ctx_none)\<rparr>"
  have "Param p \<notin> fst ` set (d_handles w)" using Cons.prems by (auto simp: hooked_def)
  then have "hooked (qs @ [p]) ?w" using Cons.prems by (simp add: hooked_def update_new)
  moreover have "kept ?w = kept w" by (simp add: kept_def)
  ultimately show ?case using Cons.IH [of "qs @ [p]" ?w] Cons.prems(2) by (simp add: bind_io_basic)
qed

lemma sync_missing_run:
  assumes "hooked qs w" "set_order it"
  shows "\<exists>w'. sync_missing it w = Ret (Inr (), w') \<and> kept w' = kept w \<and> hooked (qs @ it (set (d_requires_update w) - set qs)) w'"
proof -
  have "{p. dict_has (d_handles w) (Param p)} = set qs"
    using assms(1) by (auto simp: hooked_def dict_has_iff dict_keys_def)
  moreover have "distinct (qs @ it (set (d_requires_update w) - set qs))"
    using assms by (auto simp: hooked_def set_order_def)
  ultimately show ?thesis using note_missing_run [OF assms(1)] by (simp add: sync_missing_def bind_io_basic)
qed

lemma map_res_Inr: "(\<And>x. x \<in> set xs \<Longrightarrow> \<exists>y. f x = Inr y) \<Longrightarrow> \<exists>ys. map_res f xs = Inr ys \<and> length ys = length xs"
  by (induction xs) fastforce+

lemma push_pull_info_run:
  assumes "ps \<noteq> []" "\<forall>p \<in> set ps. t_data (grad_of p w) \<noteq> []" "hooked qs w"
  shows "\<exists>x w'. push_pull_info norm2 ps w = Ret (Inr x, w') \<and> kept w' = kept w \<and> hooked qs w'"
proof -
  let ?gs = "map (\<lambda>p. t_data (grad_of p w)) ps"
  have "\<exists>y. max_item x = Inr y" "\<exists>y. min_item x = Inr y" if "x \<in> set ?gs" for x
    using that assms(2) by (auto simp: max_item_def min_item_def)
  then obtain mxs mns where "map_res max_item ?gs = Inr mxs \<and> length mxs = length ?gs" "map_res min_item ?gs = Inr mns"
    using map_res_Inr [of ?gs max_item] map_res_Inr [of ?gs min_item] by blast
  moreover from this have "mxs \<noteq> []" using assms(1) by (metis length_0_conv map_is_Nil_conv)
  ultimately show ?thesis using assms(3) by (simp add: push_pull_info_def bind_io_basic io_run kept_def hooked_def)
qed

section \<open>The averages\<close>

text \<open>
  Worker \<open>i\<close> calls the parameter of the name \<open>x\<close> \<open>par i x\<close>. All workers have gradients for the same set
  of names, of the same forms; they need not have run the hooks in the same order, nor all of them.
\<close>

definition grads_ok ::
    "bool \<Rightarrow> string set \<Rightarrow> (string \<Rightarrow> dtype \<times> nat list) \<Rightarrow> (string \<Rightarrow> nat) \<Rightarrow> nat list \<Rightarrow> ('s, 'x) dopt \<Rightarrow> bool" where
  "grads_ok hc K form par qs w \<longleftrightarrow>
     hooked qs w \<and> \<not> d_enable_async w \<and> K \<noteq> {} \<and> set qs \<union> set (d_requires_update w) = par ` K \<and> inj_on (d_grad w) (par ` K)
     \<and> (\<forall>x \<in> K. dict_get (d_parameter_names w) (par x) = Some x \<and> pushable hc (d_grad w (par x)) w
          \<and> same_form (fst (form x)) (snd (form x)) (grad_of (par x) w) \<and> is_floating_point (fst (form x)) \<and> numel (snd (form x)) \<noteq> 0)"

definition sync_order :: "(nat set \<Rightarrow> nat list) \<Rightarrow> nat list \<Rightarrow> ('s, 'x) dopt \<Rightarrow> nat list" where
  "sync_order it qs w = qs @ it (set (d_requires_update w) - set qs)"

lemma sync_order_ok:
  assumes "grads_ok hc K form par qs w" "set_order it"
  shows "distinct (sync_order it qs w)" "set (sync_order it qs w) = par ` K"
  using assms by (auto simp: sync_order_def grads_ok_def hooked_def set_order_def)

lemma grad_of_kept: "kept w = kept w' \<Longrightarrow> grad_of p w = grad_of p w'"
  by (simp add: grad_of_def kept_def)

lemma opt_synchronize_local:
  assumes "grads_ok hc K form par qs w" "set_order it"
  shows "\<exists>w2. opt_synchronize c hc norm2 uninit csn it none_compressor w =
      bind_io (for_io (push_grad hc) (sync_order it qs w)) (\<lambda>_. bind_io (get_io d_handles) (\<lambda>hs.
        bind_io (for_io (plain_collect none_compressor) hs) (\<lambda>_. modify_io (\<lambda>w. w\<lparr>d_handles := []\<rparr>)))) w2
    \<and> kept w2 = kept w \<and> hooked (sync_order it qs w) w2"
proof -
  let ?ps = "sync_order it qs w"
  have "hooked qs w" using assms(1) by (simp add: grads_ok_def)
  then obtain w1 where w1: "sync_missing it w = Ret (Inr (), w1)" "kept w1 = kept w" "hooked ?ps w1"
    using sync_missing_run [OF _ assms(2)] unfolding sync_order_def by blast
  have "?ps \<noteq> []" "\<forall>p \<in> set ?ps. t_data (grad_of p w1) \<noteq> []"
    using sync_order_ok(2) [OF assms] assms(1) grad_of_kept [OF w1(2)] by (auto simp: grads_ok_def same_form_def)
  then obtain x w2 where w2: "push_pull_info norm2 ?ps w1 = Ret (Inr x, w2)" "kept w2 = kept w1" "hooked ?ps w2"
    using push_pull_info_run [OF _ _ w1(3)] by blast
  have "handle_params (d_handles w1) = ?ps" using w1(3) by (simp add: hooked_def handle_params_Param)
  then show ?thesis using w1 w2
    by (intro exI [of _ w2])
       (simp add: opt_synchronize_def none_compressor_def sync_plain_def bind_io_assoc bind_io_basic bind_io_Ret)
qed

definition grad_key :: "string \<Rightarrow> string" where
  "grad_key x = op_name (''Gradient.'' @ x)"

lemma grad_key_inj [simp]: "grad_key x = grad_key y \<longleftrightarrow> x = y"
  by (simp add: grad_key_def op_name_def)

text \<open>The requests of a worker: one for every name, with that name's gradient.\<close>

lemma grad_reqs:
  assumes "grads_ok hc K form par qs w" "set_order it" "kept w2 = kept w"
  shows "distinct (map rq_key (map (grad_req w2) (sync_order it qs w)))"
    "rq_key ` set (map (grad_req w2) (sync_order it qs w)) = grad_key ` K"
    "x \<in> K \<Longrightarrow> key_input (grad_key x) (map (grad_req w2) (sync_order it qs w)) = grad_of (par x) w"
proof -
  let ?ps = "sync_order it qs w"
  note ps = sync_order_ok [OF assms(1,2)]
  have key: "rq_key (grad_req w2 (par x)) = grad_key x" if "x \<in> K" for x
    using that assms(1,3) by (simp add: grad_req_def grad_name_def grads_ok_def kept_def encode_name_def grad_key_def)
  then have "inj_on (rq_key \<circ> grad_req w2) (set ?ps)" using ps(2) by (auto simp: inj_on_def)
  then show d: "distinct (map rq_key (map (grad_req w2) ?ps))" using ps(1) by (simp add: distinct_map)
  show "rq_key ` set (map (grad_req w2) ?ps) = grad_key ` K" using ps(2) key by (auto simp: image_iff)
  assume x: "x \<in> K"
  then have "grad_req w2 (par x) \<in> set (map (grad_req w2) ?ps)" using ps(2) by auto
  from find_key [OF d this] have "key_input (grad_key x) (map (grad_req w2) ?ps) = rq_input (grad_req w2 (par x))"
    by (simp only: key_input_def key [OF x] option.sel)
  then show "key_input (grad_key x) (map (grad_req w2) ?ps) = grad_of (par x) w"
    using assms(3) by (simp add: grad_req_def grad_of_def kept_def)
qed

definition mean_grad :: "net \<Rightarrow> (nat \<Rightarrow> string \<Rightarrow> nat) \<Rightarrow> (nat \<Rightarrow> ('s, 'x) dopt) \<Rightarrow> nat \<Rightarrow> string \<Rightarrow> rat list" where
  "mean_grad net par w d x =
     vscale (1 / of_nat (n_size net)) (vsum d (map (\<lambda>j. t_data (grad_of (par j x) (w j))) [0..<n_size net]))"

lemma grad_answer:
  assumes ok: "net_ok net" "n_store net = exact" "balanced net L" "set_order it"
    and w: "\<And>i. i < n_size net \<Longrightarrow> grads_ok hc K form (par i) (qs i) (w i)" "\<And>i. i < n_size net \<Longrightarrow> kept (w2 i) = kept (w i)"
    and i: "i < n_size net" "m < length (sync_order it (qs i) (w i))" "sync_order it (qs i) (w i) ! m = par i x" "x \<in> K"
  shows "answer net (\<lambda>j. L j @ map (grad_req (w2 j)) (sync_order it (qs j) (w j))) i (Suc (length (L i) + m)) =
     Some \<lparr>t_dtype = fst (form x), t_size = snd (form x), t_data = mean_grad net par w (numel (snd (form x))) x\<rparr>"
proof -
  let ?reqs = "\<lambda>j. map (grad_req (w2 j)) (sync_order it (qs j) (w j))"
  have req: "?reqs i ! m = grad_req (w2 i) (par i x)" using i by simp
  have key: "grad_key x = rq_key (?reqs i ! m)"
    using i(4) w [OF i(1)] by (simp add: req grad_req_def grad_name_def grads_ok_def kept_def encode_name_def grad_key_def)
  have form: "same_form (fst (form x)) (snd (form x)) (grad_of (par j x) (w j))" "is_floating_point (fst (form x))" if "j < n_size net" for j
    using w(1) [OF that] i(4) by (simp_all add: grads_ok_def)
  have "map (\<lambda>j. key_input (grad_key x) (?reqs j)) (n_arrive net k r) = map (\<lambda>j. grad_of (par j x) (w j)) (n_arrive net k r)" for k r
    using ok(1) grad_reqs(3) [OF w(1) ok(4) w(2) i(4)] by (auto simp: net_ok_def)
  moreover have "answer net (\<lambda>j. L j @ ?reqs j) i (Suc (length (L i) + m)) =
    map_option (finish_output net (rq_average (?reqs i ! m)))
      (server_round (n_store net) (map (\<lambda>j. key_input (grad_key x) (?reqs j)) (n_arrive net (grad_key x) (key_count (grad_key x) (L i)))))"
    using i(2) grad_reqs(1,2) [OF w(1) ok(4) w(2)] key by (intro answer_batch [OF ok(1) i(1) _ ok(3), where K = "grad_key ` K"]) simp_all
  moreover have "rq_average (?reqs i ! m)" by (simp add: req grad_req_def)
  ultimately show ?thesis
    using server_round_exact [OF ok(1) form(1)] form(2) [OF i(1)]
    by (simp add: ok(2) finish_output_def mean_grad_def vscale_def Let_def del: map_eq_conv exact_eq) (simp add: field_simps)
qed

lemma grad_answers:
  assumes ok: "net_ok net" "n_store net = exact" "balanced net L" "set_order it"
    and w: "\<And>i. i < n_size net \<Longrightarrow> grads_ok hc K form (par i) (qs i) (w i)" "\<And>i. i < n_size net \<Longrightarrow> kept (w2 i) = kept (w i)"
    and i: "i < n_size net"
    and L': "L' = (\<lambda>j. L j @ map (grad_req (w2 j)) (sync_order it (qs j) (w j)))"
  shows "x \<in> K \<Longrightarrow> \<exists>m < length (sync_order it (qs i) (w i)). sync_order it (qs i) (w i) ! m = par i x
      \<and> t_data (the (answer net L' i (Suc (length (L i) + m)))) = mean_grad net par w (numel (snd (form x))) x"
    "m < length (sync_order it (qs i) (w i)) \<Longrightarrow>
      answer net L' i (Suc (length (L i) + m)) = Some (the (answer net L' i (Suc (length (L i) + m))))"
proof -
  let ?ps = "sync_order it (qs i) (w i)"
  note ga = grad_answer [where qs = qs and w = w and ?w2.0 = w2 and par = par and i = i, OF ok w, OF _ _ i, folded L']
  note ps = sync_order_ok(2) [OF w(1) [OF i] ok(4)]
  show "\<exists>m < length ?ps. ?ps ! m = par i x
      \<and> t_data (the (answer net L' i (Suc (length (L i) + m)))) = mean_grad net par w (numel (snd (form x))) x" if x: "x \<in> K"
  proof -
    obtain m where "m < length ?ps" "?ps ! m = par i x" using ps x by (metis imageI in_set_conv_nth)
    with ga [OF _ _ _ _ x] show ?thesis by (intro exI [of _ m]) simp
  qed
  show "answer net L' i (Suc (length (L i) + m)) = Some (the (answer net L' i (Suc (length (L i) + m))))" if m: "m < length ?ps"
  proof -
    obtain x where "x \<in> K" "?ps ! m = par i x" using ps m by (metis imageE nth_mem)
    with ga [OF _ _ m] show ?thesis by simp
  qed
qed

lemma grads_ok_kept:
  assumes "grads_ok hc K form par qs w" "set_order it" "kept w2 = kept w" "fresh_handles l w"
  shows "w_heap w2 = w_heap w" "d_grad w2 = d_grad w" "d_data w2 = d_data w" "d_backward_passes_per_step w2 = d_backward_passes_per_step w"
    "\<not> d_enable_async w2" "fresh_handles l w2" "inj_on (d_grad w2) (set (sync_order it qs w))"
    "\<forall>p \<in> set (sync_order it qs w). sendable hc w2 p"
  using assms sync_order_ok(2) [OF assms(1,2)] by (auto simp: kept_def grads_ok_def fresh_handles_def sendable_def pushable_def)

definition after_pull :: "(nat \<Rightarrow> tensor) \<Rightarrow> nat \<Rightarrow> nat list \<Rightarrow> ('s, 'x) dopt \<Rightarrow> ('s, 'x) dopt" where
  "after_pull t n ps w = (pulled t (enumerate (Suc n) ps) (pushed n ps w))\<lparr>d_handles := []\<rparr>"

text \<open>All workers send, then all collect.\<close>

lemma runs_push_collect:
  assumes ok: "net_ok net"
    and w: "\<And>i. i < n_size net \<Longrightarrow> hooked (ps i) (w i) \<and> \<not> d_enable_async (w i) \<and> (\<forall>p \<in> set (ps i). sendable hc (w i) p)"
    and ans: "\<And>i m. i < n_size net \<Longrightarrow> m < length (ps i) \<Longrightarrow>
       answer net (\<lambda>j. L j @ map (grad_req (w j)) (ps j)) i (Suc (length (L i) + m)) = Some (t i (Suc (length (L i) + m)))"
  shows "runs net L (\<lambda>i. bind_io (for_io (push_grad hc) (ps i)) (\<lambda>_. bind_io (get_io d_handles) (\<lambda>hs.
        bind_io (for_io (plain_collect none_compressor) hs) (\<lambda>_. modify_io (\<lambda>w. w\<lparr>d_handles := []\<rparr>)))) (w i))
      (\<lambda>i. L i @ map (grad_req (w i)) (ps i)) (\<lambda>i. (Inr (), after_pull (t i) (length (L i)) (ps i) (w i)))"
proof (rule runs_bind_io [where m = "\<lambda>i. for_io (push_grad hc) (ps i)" and w = w and x = "\<lambda>_. ()"
      and ?w1.0 = "\<lambda>i. pushed (length (L i)) (ps i) (w i)" and ?L1.0 = "\<lambda>i. L i @ map (grad_req (w i)) (ps i)", OF ok])
  show "runs net L (\<lambda>i. for_io (push_grad hc) (ps i) (w i)) (\<lambda>i. L i @ map (grad_req (w i)) (ps i))
      (\<lambda>i. (Inr (), pushed (length (L i)) (ps i) (w i)))"
    using w by (intro runs_issues [OF ok] push_all_issues) auto
  show "runs net (\<lambda>i. L i @ map (grad_req (w i)) (ps i))
      (\<lambda>i. bind_io (get_io d_handles) (\<lambda>hs. bind_io (for_io (plain_collect none_compressor) hs) (\<lambda>_. modify_io (\<lambda>w. w\<lparr>d_handles := []\<rparr>)))
         (pushed (length (L i)) (ps i) (w i)))
      (\<lambda>i. L i @ map (grad_req (w i)) (ps i)) (\<lambda>i. (Inr (), after_pull (t i) (length (L i)) (ps i) (w i)))"
  proof (rule runs_waits [OF ok])
    fix i assume i: "i < n_size net"
    let ?w = "pushed (length (L i)) (ps i) (w i)" and ?hps = "enumerate (Suc (length (L i))) (ps i)"
    have hs: "d_handles ?w = map (\<lambda>(h, p). (Param p, (Some h, Ctx_none))) ?hps"
      using pushed_handles [of "ps i" "[]" "w i" "\<lambda>_. (None, Ctx_none)"] w [OF i] by (simp add: hooked_def)
    have "waits net (\<lambda>j. L j @ map (grad_req (w j)) (ps j)) i
        (for_io (plain_collect none_compressor) (map (\<lambda>(h, p). (Param p, (Some h, Ctx_none))) ?hps) ?w) (Inr (), pulled (t i) ?hps ?w)"
    proof (rule pull_all_waits)
      show "\<forall>(h, p) \<in> set ?hps. (\<exists>a n. dict_get (w_handle_map ?w) h = Some (a, d_grad ?w p, n))
          \<and> answer net (\<lambda>j. L j @ map (grad_req (w j)) (ps j)) i h = Some (t i h)"
      proof clarify
        fix h p assume hp: "(h, p) \<in> set ?hps"
        define m where "m = h - Suc (length (L i))"
        have m: "m < length (ps i)" "h = Suc (length (L i) + m)" "p = ps i ! m"
          using hp by (auto simp: in_set_enumerate_eq m_def)
        show "(\<exists>a n. dict_get (w_handle_map ?w) h = Some (a, d_grad ?w p, n))
          \<and> answer net (\<lambda>j. L j @ map (grad_req (w j)) (ps j)) i h = Some (t i h)"
          using ans [OF i m(1)] m by (simp add: pushed_handle_map Let_def)
      qed
    qed (use w [OF i] in simp_all)
    then show "waits net (\<lambda>j. L j @ map (grad_req (w j)) (ps j)) i
        (bind_io (get_io d_handles) (\<lambda>hs. bind_io (for_io (plain_collect none_compressor) hs) (\<lambda>_. modify_io (\<lambda>w. w\<lparr>d_handles := []\<rparr>))) ?w)
        (Inr (), after_pull (t i) (length (L i)) (ps i) (w i))"
      unfolding bind_io_basic hs by (rule waits_bind_io) (simp add: io_run after_pull_def waits_Ret)
  qed
qed

lemma after_pull_grads:
  assumes "distinct ps" "inj_on (d_grad w) (set ps)" "fresh_handles l w"
  shows "m < length ps \<Longrightarrow> grad_of (ps ! m) (after_pull t (length l) ps w) =
       (grad_of (ps ! m) w)\<lparr>t_data := t_data (t (Suc (length l + m)))\<rparr>
     \<and> dict_get (d_push_pull_delay (after_pull t (length l) ps w)) (ps ! m) = Some (d_backward_passes_per_step w)"
    "b \<notin> d_grad w ` set ps \<Longrightarrow> w_heap (after_pull t (length l) ps w) b = w_heap w b"
    "d_handles (after_pull t (length l) ps w) = []" "d_data (after_pull t (length l) ps w) = d_data w" "length rs = length ps \<Longrightarrow> fresh_handles (l @ rs) (after_pull t (length l) ps w)"
proof -
  let ?w = "pushed (length l) ps w" and ?hps = "enumerate (Suc (length l)) ps"

  have snd: "map snd ?hps = ps" by simp
  then have snd_set: "snd ` set ?hps = set ps" by (metis list.set_map)
  have dist: "distinct (map (\<lambda>(h, p). d_grad ?w p) ?hps)"
  proof -
    have "map (\<lambda>(h, p). d_grad ?w p) ?hps = map (d_grad w) (map snd ?hps)"
      by (simp only: map_map comp_def case_prod_unfold pushed_sel)
    then show ?thesis unfolding snd using assms(1,2) by (simp add: distinct_map)
  qed
  show "d_handles (after_pull t (length l) ps w) = []" "d_data (after_pull t (length l) ps w) = d_data w" by (simp_all add: after_pull_def)
  show "w_heap (after_pull t (length l) ps w) b = w_heap w b" if "b \<notin> d_grad w ` set ps"
    using pulled_other(1) [of b ?w ?hps t] that snd_set by (simp add: after_pull_def)
  show "fresh_handles (l @ rs) (after_pull t (length l) ps w)" if "length rs = length ps"
    using pulled_other(3) [of t ?hps ?w] pushed_handle_keys [of "length l" ps w] assms(3) that
    by (fastforce simp: fresh_handles_def after_pull_def)
  assume m: "m < length ps"
  then have "(Suc (length l + m), ps ! m) \<in> set ?hps" by (simp add: in_set_enumerate_eq)
  from pulled_grad [OF dist this, of t] show "grad_of (ps ! m) (after_pull t (length l) ps w) =
       (grad_of (ps ! m) w)\<lparr>t_data := t_data (t (Suc (length l + m)))\<rparr>
     \<and> dict_get (d_push_pull_delay (after_pull t (length l) ps w)) (ps ! m) = Some (d_backward_passes_per_step w)"
    by (simp add: grad_of_def after_pull_def)
qed

lemma runs_synchronize:
  assumes ok: "net_ok net" "n_store net = exact" "balanced net L" "set_order it"
    and w: "\<And>i. i < n_size net \<Longrightarrow> grads_ok hc K form (par i) (qs i) (w i)" "\<And>i. i < n_size net \<Longrightarrow> fresh_handles (L i) (w i)"
  shows "\<exists>L' w'. runs net L (\<lambda>i. opt_synchronize c hc norm2 uninit csn it none_compressor (w i)) L' (\<lambda>i. (Inr (), w' i))
     \<and> balanced net L'
     \<and> (\<forall>i < n_size net. d_handles (w' i) = [] \<and> d_data (w' i) = d_data (w i) \<and> fresh_handles (L' i) (w' i)
          \<and> (\<forall>b. b \<notin> d_grad (w i) ` par i ` K \<longrightarrow> w_heap (w' i) b = w_heap (w i) b)
          \<and> (\<forall>x \<in> K. grad_of (par i x) (w' i) = (grad_of (par i x) (w i))\<lparr>t_data := mean_grad net par w (numel (snd (form x))) x\<rparr>
               \<and> dict_get (d_push_pull_delay (w' i)) (par i x) = Some (d_backward_passes_per_step (w i))))"
proof -
  let ?ps = "\<lambda>i. sync_order it (qs i) (w i)"
  let ?tail = "\<lambda>i. bind_io (for_io (push_grad hc) (?ps i)) (\<lambda>_. bind_io (get_io d_handles) (\<lambda>hs.
        bind_io (for_io (plain_collect none_compressor) hs) (\<lambda>_. modify_io (\<lambda>w. w\<lparr>d_handles := []\<rparr>))))"
  have "\<forall>i. \<exists>w2. i < n_size net \<longrightarrow> opt_synchronize c hc norm2 uninit csn it none_compressor (w i) = ?tail i w2
      \<and> kept w2 = kept (w i) \<and> hooked (?ps i) w2"
    using opt_synchronize_local [OF w(1) ok(4)] by blast
  from choice [OF this] obtain w2 where w2: "i < n_size net \<Longrightarrow> opt_synchronize c hc norm2 uninit csn it none_compressor (w i) = ?tail i (w2 i)"
      "i < n_size net \<Longrightarrow> kept (w2 i) = kept (w i)" "i < n_size net \<Longrightarrow> hooked (?ps i) (w2 i)" for i
    by blast
  let ?L' = "\<lambda>i. L i @ map (grad_req (w2 i)) (?ps i)"
  let ?t = "\<lambda>i h. the (answer net ?L' i h)"
  let ?w' = "\<lambda>i. after_pull (?t i) (length (L i)) (?ps i) (w2 i)"
  have ps: "distinct (?ps i)" "set (?ps i) = par i ` K" if "i < n_size net" for i using sync_order_ok [OF w(1) [OF that] ok(4)] by simp_all
  note ans = grad_answers [where qs = qs and w = w and ?w2.0 = w2 and par = par and L' = ?L', OF ok w(1) w2(2)]
  note keep = grads_ok_kept [OF w(1) ok(4) w2(2) w(2)]
  have "runs net L (\<lambda>i. ?tail i (w2 i)) ?L' (\<lambda>i. (Inr (), ?w' i))"
    using w2(3) keep(5,8) ans(2) by (intro runs_push_collect [OF ok(1)]) auto
  then have "runs net L (\<lambda>i. opt_synchronize c hc norm2 uninit csn it none_compressor (w i)) ?L' (\<lambda>i. (Inr (), ?w' i))"
    by (rule runs_cong [OF ok(1)]) (simp_all add: w2(1))
  moreover have "balanced net ?L'"
    using grad_reqs(1,2) [OF w(1) ok(4) w2(2)] by (intro balanced_append [OF ok(3), where K = "grad_key ` K"])
  moreover have "d_handles (?w' i) = [] \<and> d_data (?w' i) = d_data (w i) \<and> fresh_handles (?L' i) (?w' i)
      \<and> (\<forall>b. b \<notin> d_grad (w i) ` par i ` K \<longrightarrow> w_heap (?w' i) b = w_heap (w i) b)
      \<and> (\<forall>x \<in> K. grad_of (par i x) (?w' i) = (grad_of (par i x) (w i))\<lparr>t_data := mean_grad net par w (numel (snd (form x))) x\<rparr>
           \<and> dict_get (d_push_pull_delay (?w' i)) (par i x) = Some (d_backward_passes_per_step (w i)))" if i: "i < n_size net" for i
  proof (intro conjI ballI allI impI)
    note ap = after_pull_grads [OF ps(1) [OF i] keep(7,6) [OF i i i], where t = "?t i"]
    show "d_handles (?w' i) = []" by (rule ap(3))
    show "d_data (?w' i) = d_data (w i)" using ap(4) keep(3) [OF i i i] by simp
    show "fresh_handles (?L' i) (?w' i)" by (rule ap(5)) simp
    show "w_heap (?w' i) b = w_heap (w i) b" if "b \<notin> d_grad (w i) ` par i ` K" for b
      using ap(2) that keep(1,2) [OF i i i] ps(2) [OF i] by simp
    fix x assume "x \<in> K"
    then obtain m where m: "m < length (?ps i)" "?ps i ! m = par i x"
        "t_data (?t i (Suc (length (L i) + m))) = mean_grad net par w (numel (snd (form x))) x"
      using ans(1) [OF _ _ i refl] by blast
    from ap(1) [OF m(1)] keep(1,2,4) [OF i i i]
    show "grad_of (par i x) (?w' i) = (grad_of (par i x) (w i))\<lparr>t_data := mean_grad net par w (numel (snd (form x))) x\<rparr>"
      "dict_get (d_push_pull_delay (?w' i)) (par i x) = Some (d_backward_passes_per_step (w i))"
      unfolding m(2,3) by (simp_all add: grad_of_def)
  qed
  ultimately show ?thesis by (intro exI [of _ ?L'] exI [of _ ?w'] conjI) blast+
qed

text \<open>
  C1. Synchronising gradients: when all workers have gradients for the same names, then in exact
  arithmetic \<open>synchronize\<close> ends, and each gradient of each worker is the mean of the gradients of that
  name over all workers, whatever the order in which the hooks of the workers ran and also for
  parameters whose hooks did not run. The countdowns of these parameters start anew, no handle is left
  over, and no other tensor changes.
\<close>

theorem synchronize_averages:
  assumes ok: "net_ok net" "n_store net = exact" "balanced net L" "set_order it"
    and w: "\<And>i. i < n_size net \<Longrightarrow> grads_ok hc K form (par i) (qs i) (w i)" "\<And>i. i < n_size net \<Longrightarrow> fresh_handles (L i) (w i)"
  shows "\<exists>L' w'. runs net L (\<lambda>i. opt_synchronize c hc norm2 uninit csn it none_compressor (w i)) L' (\<lambda>i. (Inr (), w' i))
     \<and> balanced net L'
     \<and> (\<forall>i < n_size net. d_handles (w' i) = [] \<and> d_data (w' i) = d_data (w i) \<and> fresh_handles (L' i) (w' i)
          \<and> (\<forall>b. b \<notin> d_grad (w i) ` par i ` K \<longrightarrow> w_heap (w' i) b = w_heap (w i) b)
          \<and> (\<forall>x \<in> K. grad_of (par i x) (w' i) = (grad_of (par i x) (w i))\<lparr>t_data := mean_grad net par w (numel (snd (form x))) x\<rparr>
               \<and> dict_get (d_push_pull_delay (w' i)) (par i x) = Some (d_backward_passes_per_step (w i))))"
  using assms by (rule runs_synchronize)

text \<open>Two workers that number their two parameters differently; on one of them only one hook has run.\<close>

definition two_names :: "nat \<Rightarrow> string \<Rightarrow> nat" where
  "two_names i x = (if (i = 0) = (x = ''b'') then 0 else 1)"

definition two_hooks :: "nat \<Rightarrow> nat list" where
  "two_hooks i = (if i = 0 then [1, 0] else [1])"

definition two_workers :: "nat \<Rightarrow> (unit, unit) dopt" where
  "two_workers i = opt_example\<lparr>w_rank := int i, d_worker_id := i,
     w_heap := (\<lambda>a. vec_of [if i = 0 then [3, 4, 1, 2] ! a else [8, 5, 2, 1] ! a]),
     d_parameter_names := [(two_names i ''b'', ''b''), (two_names i ''w'', ''w'')],
     d_handles := map (\<lambda>p. (Param p, (None, Ctx_none))) (two_hooks i)\<rparr>"

lemma two_workers_ok:
  assumes "i < 2"
  shows "grads_ok False {''b'', ''w''} (\<lambda>_. (Float32, [1])) (two_names i) (two_hooks i) (two_workers i)" "fresh_handles [] (two_workers i)"
  using assms
  by (auto simp: grads_ok_def hooked_def two_workers_def opt_example_def two_names_def two_hooks_def grad_of_def pushable_def fresh_handles_def
      less_Suc_eq numeral_2_eq_2 numel_def)

lemma sorted_set_order: "set_order sorted_list_of_set"
  by (simp add: set_order_def)

theorem synchronize_averages_witness:
  "\<exists>L' w'. runs net2 (\<lambda>_. []) (\<lambda>i. opt_synchronize exact False sum_list (\<lambda>n. vzero n) (\<lambda>_ x. x) sorted_list_of_set none_compressor (two_workers i))
       L' (\<lambda>i. (Inr (), w' i)) \<and> balanced net2 L'
     \<and> (\<forall>i < 2. d_handles (w' i) = [] \<and> d_data (w' i) = d_data (two_workers i) \<and> fresh_handles (L' i) (w' i)
          \<and> (\<forall>b. b \<notin> d_grad (two_workers i) ` two_names i ` {''b'', ''w''} \<longrightarrow> w_heap (w' i) b = w_heap (two_workers i) b)
          \<and> (\<forall>x \<in> {''b'', ''w''}. grad_of (two_names i x) (w' i) =
                 (grad_of (two_names i x) (two_workers i))\<lparr>t_data := mean_grad net2 two_names two_workers 1 x\<rparr>
               \<and> dict_get (d_push_pull_delay (w' i)) (two_names i x) = Some (d_backward_passes_per_step (two_workers i))))"
  using synchronize_averages [of net2 "\<lambda>_. []" sorted_list_of_set False "{''b'', ''w''}" "\<lambda>_. (Float32, [1])" two_names two_hooks two_workers
      exact sum_list "\<lambda>n. vzero n" "\<lambda>_ x. x", OF net2_ok net2_sel(2) balanced_Nil sorted_set_order] two_workers_ok
  by (simp add: numel_prod del: exact_eq)

section \<open>Steps keep the replicas equal\<close>

definition param_data :: "nat \<Rightarrow> ('s, 'x) dopt \<Rightarrow> rat list" where
  "param_data p w = t_data (w_heap w (d_data w p))"

text \<open>
  The wrapped optimizer computes the new data of each parameter from its data and its gradient, as the
  optimizers without momentum do.
\<close>

definition local_update :: "string set \<Rightarrow> (string \<Rightarrow> nat) \<Rightarrow> (string \<Rightarrow> rat list \<Rightarrow> rat list \<Rightarrow> rat list) \<Rightarrow> (('s, 'x) dopt, 'l) io \<Rightarrow> bool" where
  "local_update K par upd base_step \<longleftrightarrow>
     (\<forall>w. inj_on (d_data w) (par ` K) \<longrightarrow> (\<exists>l w'. base_step w = Ret (Inr l, w')
        \<and> (\<forall>x \<in> K. param_data (par x) w' = upd x (param_data (par x) w) (t_data (grad_of (par x) w)))))"

text \<open>
  C2. Replicas stay equal: if all workers hold the same data for every parameter, and their wrapped
  optimizers update a parameter from its data and gradient, then one synchronous step ends on every
  worker, and all workers hold again the same data, namely the update by the mean of the gradients.
\<close>

theorem step_replicas:
  assumes ok: "net_ok net" "n_store net = exact" "balanced net L" "set_order it"
    and w: "\<And>i. i < n_size net \<Longrightarrow> grads_ok hc K form (par i) (qs i) (w i)" "\<And>i. i < n_size net \<Longrightarrow> fresh_handles (L i) (w i)"
    and d: "\<And>i. i < n_size net \<Longrightarrow> d_should_sync (w i)" "\<And>i. i < n_size net \<Longrightarrow> inj_on (d_data (w i)) (par i ` K)"
      "\<And>i x. i < n_size net \<Longrightarrow> x \<in> K \<Longrightarrow> d_data (w i) (par i x) \<notin> d_grad (w i) ` par i ` K"
      "\<And>i x. i < n_size net \<Longrightarrow> x \<in> K \<Longrightarrow> param_data (par i x) (w i) = v x"
    and base: "\<And>i. i < n_size net \<Longrightarrow> local_update K (par i) upd (base i)"
  shows "\<exists>L' l w'. runs net L (\<lambda>i. step c hc norm2 uninit csn it none_compressor name_of (base i) (w i)) L' (\<lambda>i. (Inr (l i), w' i))
     \<and> (\<forall>i < n_size net. \<forall>x \<in> K. param_data (par i x) (w' i) = upd x (v x) (mean_grad net par w (numel (snd (form x))) x))"
proof -
  obtain L' w1 where r: "runs net L (\<lambda>i. opt_synchronize c hc norm2 uninit csn it none_compressor (w i)) L' (\<lambda>i. (Inr (), w1 i))"
      "\<forall>i < n_size net. d_data (w1 i) = d_data (w i) \<and> (\<forall>b. b \<notin> d_grad (w i) ` par i ` K \<longrightarrow> w_heap (w1 i) b = w_heap (w i) b)
         \<and> (\<forall>x \<in> K. grad_of (par i x) (w1 i) = (grad_of (par i x) (w i))\<lparr>t_data := mean_grad net par w (numel (snd (form x))) x\<rparr>)"
    using runs_synchronize [where par = par and qs = qs and w = w, OF ok w(1) w(2), of c norm2 uninit csn] by blast
  have "\<forall>i. \<exists>lw. i < n_size net \<longrightarrow> base i (w1 i) = Ret (Inr (fst lw), snd lw)
      \<and> (\<forall>x \<in> K. param_data (par i x) (snd lw) = upd x (param_data (par i x) (w1 i)) (t_data (grad_of (par i x) (w1 i))))"
    using base d(2) r(2) unfolding local_update_def by (metis fst_conv snd_conv)
  from choice [OF this] obtain lw where lw: "i < n_size net \<Longrightarrow> base i (w1 i) = Ret (Inr (fst (lw i)), snd (lw i))"
      "i < n_size net \<Longrightarrow> x \<in> K \<Longrightarrow> param_data (par i x) (snd (lw i)) = upd x (param_data (par i x) (w1 i)) (t_data (grad_of (par i x) (w1 i)))" for i x
    by blast
  have "runs net L (\<lambda>i. bind_io (opt_synchronize c hc norm2 uninit csn it none_compressor) (\<lambda>_. base i) (w i)) L' (\<lambda>i. (Inr (fst (lw i)), snd (lw i)))"
    by (rule runs_bind_io [where m = "\<lambda>_. opt_synchronize c hc norm2 uninit csn it none_compressor" and w = w and x = "\<lambda>_. ()" and ?w1.0 = w1, OF ok(1) r(1)])
       (intro runs_Ret, simp add: lw(1))
  then have "runs net L (\<lambda>i. step c hc norm2 uninit csn it none_compressor name_of (base i) (w i)) L' (\<lambda>i. (Inr (fst (lw i)), snd (lw i)))"
    using d(1) w(1) by (elim runs_cong [OF ok(1)]) (simp_all add: step_def bind_io_basic grads_ok_def)
  moreover have "param_data (par i x) (snd (lw i)) = upd x (v x) (mean_grad net par w (numel (snd (form x))) x)"
    if "i < n_size net" "x \<in> K" for i x
  proof -
    have "param_data (par i x) (w1 i) = v x" using r(2) d(3,4) that by (simp add: param_data_def)
    moreover have "t_data (grad_of (par i x) (w1 i)) = mean_grad net par w (numel (snd (form x))) x" using r(2) that by simp
    ultimately show ?thesis using lw(2) [OF that] by simp
  qed
  ultimately show ?thesis by (intro exI [of _ L'] exI [of _ "\<lambda>i. fst (lw i)"] exI [of _ "\<lambda>i. snd (lw i)"] conjI) blast+
qed

text \<open>Gradient descent with step size 1 on the two parameters.\<close>

definition sgd :: "((unit, unit) dopt, unit) io" where
  "sgd = modify_io (\<lambda>w. w\<lparr>w_heap := (\<lambda>a. if a = d_data w 0 then (w_heap w a)\<lparr>t_data := vsub (param_data 0 w) (t_data (grad_of 0 w))\<rparr>
     else if a = d_data w 1 then (w_heap w a)\<lparr>t_data := vsub (param_data 1 w) (t_data (grad_of 1 w))\<rparr> else w_heap w a)\<rparr>)"

lemma two_names_image: "two_names i ` {''b'', ''w''} = {0, 1}"
  by (cases "i = 0") (auto simp: two_names_def)

lemma sgd_update: "local_update {''b'', ''w''} (two_names i) (\<lambda>x v g. vsub v g) sgd"
  unfolding local_update_def
proof (intro allI impI)
  fix w :: "(unit, unit) dopt"
  assume "inj_on (d_data w) (two_names i ` {''b'', ''w''})"
  then have "d_data w 0 \<noteq> d_data w 1" unfolding two_names_image by simp
  then show "\<exists>l w'. sgd w = Ret (Inr l, w')
      \<and> (\<forall>x \<in> {''b'', ''w''}. param_data (two_names i x) w' = vsub (param_data (two_names i x) w) (t_data (grad_of (two_names i x) w)))"
    by (auto simp: sgd_def io_run param_data_def two_names_def)
qed

lemma two_workers_data:
  assumes "i < 2"
  shows "d_should_sync (two_workers i)" "inj_on (d_data (two_workers i)) (two_names i ` {''b'', ''w''})"
    "x \<in> {''b'', ''w''} \<Longrightarrow> d_data (two_workers i) (two_names i x) \<notin> d_grad (two_workers i) ` two_names i ` {''b'', ''w''}"
    "x \<in> {''b'', ''w''} \<Longrightarrow> param_data (two_names i x) (two_workers i) = (if x = ''b'' then [1] else [2])"
  using assms unfolding two_names_image
  by (auto simp: two_workers_def opt_example_def two_names_def param_data_def less_Suc_eq numeral_2_eq_2)

theorem step_replicas_witness:
  "\<exists>L' l w'. runs net2 (\<lambda>_. []) (\<lambda>i. step exact False sum_list (\<lambda>n. vzero n) (\<lambda>_ x. x) sorted_list_of_set none_compressor (\<lambda>_. ''x'') sgd (two_workers i))
       L' (\<lambda>i. (Inr (l i), w' i))
     \<and> (\<forall>i < 2. \<forall>x \<in> {''b'', ''w''}. param_data (two_names i x) (w' i) =
          vsub (if x = ''b'' then [1] else [2]) (mean_grad net2 two_names two_workers 1 x))"
proof -
  have "n_size net2 = 2" by simp
  then show ?thesis
    using step_replicas [of net2 "\<lambda>_. []" sorted_list_of_set False "{''b'', ''w''}" "\<lambda>_. (Float32, [1])" two_names two_hooks two_workers
      "\<lambda>x. if x = ''b'' then [1] else [2]" "\<lambda>x v g. vsub v g" "\<lambda>_. sgd" exact sum_list "\<lambda>n. vzero n" "\<lambda>_ x. x" "\<lambda>_. ''x''",
      OF net2_ok net2_sel(2) balanced_Nil sorted_set_order, unfolded net2_sel(1), OF two_workers_ok two_workers_data sgd_update]
    by (simp add: numel_prod del: exact_eq)
qed

section \<open>The TopK path over several workers\<close>




section \<open>Paths that fail\<close>

lemma cat_grads_nonempty:
  assumes "ps \<noteq> []" "\<forall>p \<in> set ps. t_data (grad_of p w) \<noteq> []"
  shows "\<exists>t. cat_grads ps w = Inr t \<and> t_data t \<noteq> []"
  using assms by (cases ps) (simp_all add: cat_grads_def Let_def)

text \<open>
  C30. The INCA compressors cannot be used with the server of the push-pull service: the tensor in which
  the workers exchange their norms is never created, so the synchronisation raises AttributeError
  before anything is sent.
\<close>

theorem inca_server_fails:
  assumes "k_kind k = Newinca \<or> k_kind k = Inca" "k_use_bps_server k" "d_max_info_tensor w = None"
    and "set_order it" "hooked qs w" "sync_order it qs w \<noteq> []" "\<forall>p \<in> set (sync_order it qs w). t_data (grad_of p w) \<noteq> []"
  shows "\<exists>w'. opt_synchronize c hc norm2 uninit csn it k w = Ret (Inl AttributeError, w')"
proof -
  let ?ps = "sync_order it qs w"
  obtain w1 where w1: "sync_missing it w = Ret (Inr (), w1)" "kept w1 = kept w" "hooked ?ps w1"
    using sync_missing_run [OF assms(5,4)] unfolding sync_order_def by blast
  obtain t where t: "cat_grads ?ps w1 = Inr t" "t_data t \<noteq> []"
    using cat_grads_nonempty [OF assms(6)] assms(7) grad_of_kept [OF w1(2)] by metis
  have "d_max_info_tensor w1 = None" using w1(2) assms(3) by (simp add: kept_def)
  moreover have "handle_params (d_handles w1) = ?ps" using w1(3) by (simp add: hooked_def handle_params_Param)
  moreover have "use_bps_server k" using assms(1,2) by (auto simp: use_bps_server_def)
  ultimately show ?thesis using assms(1) w1 t
    by (simp add: opt_synchronize_def bind_io_Ret(1) [where m = "sync_missing it", OF w1(1)] sync_inca_def bind_io_assoc bind_io_basic batch_push_pull_info_def
        max_item_def min_item_def agree_max_norm_def push_pull_max_norm_def io_run)
qed

theorem inca_server_fails_witness:
  "\<exists>w'. opt_synchronize exact False sum_list (\<lambda>n. vzero n) (\<lambda>_ x. x) sorted_list_of_set (none_compressor\<lparr>k_kind := Newinca\<rparr>) (two_workers 0)
     = Ret (Inl AttributeError, w')"
  by (rule inca_server_fails [of _ _ _ "[1, 0]"])
     (simp_all add: none_compressor_def two_workers_def opt_example_def hooked_def two_hooks_def sorted_set_order sync_order_def grad_of_def)

lemma async_param_run:
  assumes "dict_get (d_parameter_names w) p = Some x" "pushable hc (d_data w p) w" "dict_get old p = Some t"
    and "length (t_data t) = length (param_data p w)"
  defines "w2 \<equiv> w\<lparr>w_heap := (w_heap w)(d_data w p := (w_heap w (d_data w p))\<lparr>t_data := vsub (param_data p w) (t_data t)\<rparr>)\<rparr>"
    and "n \<equiv> ''AsyncParam.'' @ x"
  shows "async_param hc none_compressor name_of old (p, None) w =
    Issue (pp_req (d_data w p) False (Some n) 0 0 (w_max_norm w) '''' w2)
      (\<lambda>h. Ret (Inl TypeError, put_handle (Param p) (Some h, Ctx_none)
         (with_handle h (d_data w p) (d_data w p) (Some n) (declare_tensor n w2))))"
proof -
  have "pushable hc (d_data w p) w2" using assms(2) by (simp add: pushable_def w2_def)
  moreover have "bcast2 (-) (t_data (w_heap w (d_data w p))) (t_data t) = Inr (vsub (param_data p w) (t_data t))"
    using assms(4) by (simp add: param_data_def vsub_def)
  moreover have "(with_handle h a a m v)\<lparr>d_cstate := d_cstate (with_handle h a a m v)\<rparr> = with_handle h a a m v" for h a m and v :: "('a, 'b) dopt"
    by simp
  ultimately show ?thesis using assms(1,3)
    by (simp add: async_param_def bind_io_basic io_run name_text_def push_pull_async_inplace_run do_push_pull_async_run Let_def
        bind_io_Issue none_compressor_def ctx_name_of_def encode_name_def bind_io_Ret n_def w2_def [symmetric]) (simp add: w2_def)
qed

text \<open>
  Asynchronous training without compression stops in its first step: after the first parameter has
  been replaced by its change and sent, reading the name from the missing context raises TypeError, and
  the parameter is left holding the change instead of the weights.
\<close>

theorem async_step_fails:
  assumes "d_enable_async w" "d_handles w = (Param p, (None, Ctx_none)) # hs" "base_step w = Ret (Inr l, w1)"
    and "d_handles w1 = d_handles w" "dict_get (d_parameter_names w1) p = Some x" "pushable hc (d_data w1 p) w1"
    and "length (param_data p w1) = length (param_data p w)"
  shows "\<exists>q w'. step c hc norm2 uninit csn it none_compressor name_of base_step w = Issue q (\<lambda>h. Ret (Inl TypeError, w' h))
     \<and> rq_key q = op_name (''AsyncParam.'' @ x) \<and> (\<forall>h. param_data p (w' h) = vsub (param_data p w1) (param_data p w))"
proof -
  let ?hs = "map (\<lambda>p. (p, fst (the (dict_get (d_handles w1) (Param p))))) (handle_params (d_handles w1))"
  let ?old = "map (\<lambda>p. (p, w_heap w (d_data w p))) (handle_params (d_handles w))"
  have hs: "?hs = (p, None) # tl ?hs" using assms(2,4) by simp
  have old: "dict_get ?old p = Some (w_heap w (d_data w p))" using assms(2) by simp
  have len: "length (t_data (w_heap w (d_data w p))) = length (param_data p w1)" using assms(7) by (simp add: param_data_def)
  let ?w2 = "w1\<lparr>w_heap := (w_heap w1)(d_data w1 p := (w_heap w1 (d_data w1 p))\<lparr>t_data := vsub (param_data p w1) (t_data (w_heap w (d_data w p)))\<rparr>)\<rparr>"
  let ?q = "pp_req (d_data w1 p) False (Some (''AsyncParam.'' @ x)) 0 0 (w_max_norm w1) '''' ?w2"
  let ?w' = "\<lambda>h. put_handle (Param p) (Some h, Ctx_none)
     (with_handle h (d_data w1 p) (d_data w1 p) (Some (''AsyncParam.'' @ x)) (declare_tensor (''AsyncParam.'' @ x) ?w2))"
  note run = async_param_run [OF assms(5,6) old len, of name_of]
  have "step c hc norm2 uninit csn it none_compressor name_of base_step w =
      bind_io (for_io (async_param hc none_compressor name_of ?old) ?hs) (\<lambda>_.
      bind_io (opt_synchronize c hc norm2 uninit csn it none_compressor) (\<lambda>_. ret_io l)) w1"
    using assms(1) by (simp only: step_def bind_io_basic prod.case if_True bind_io_Ret(1) [where m = base_step, OF assms(3)])
  also have "\<dots> = bind_io (async_param hc none_compressor name_of ?old (p, None)) (\<lambda>_.
      bind_io (for_io (async_param hc none_compressor name_of ?old) (tl ?hs)) (\<lambda>_.
      bind_io (opt_synchronize c hc norm2 uninit csn it none_compressor) (\<lambda>_. ret_io l))) w1"
    by (subst hs) (simp only: for_io.simps bind_io_assoc)
  finally have "step c hc norm2 uninit csn it none_compressor name_of base_step w = Issue ?q (\<lambda>h. Ret (Inl TypeError, ?w' h))"
    unfolding bind_io_def [of "async_param hc none_compressor name_of ?old (p, None)"] run by simp
  moreover have "param_data p (?w' h) = vsub (param_data p w1) (param_data p w)" for h
    by (simp add: param_data_def put_handle_def with_handle_def)
  ultimately show ?thesis by (intro exI [of _ ?q] exI [of _ ?w']) (simp add: encode_name_def)
qed

theorem async_step_fails_witness:
  "\<exists>q w'. step exact False sum_list (\<lambda>n. vzero n) (\<lambda>_ x. x) sorted_list_of_set none_compressor (\<lambda>_. ''x'') sgd ((two_workers 0)\<lparr>d_enable_async := True\<rparr>)
       = Issue q (\<lambda>h. Ret (Inl TypeError, w' h))
     \<and> rq_key q = op_name (''AsyncParam.'' @ ''w'') \<and> (\<forall>h. param_data 1 (w' h) = [- 4])"
proof -
  let ?w = "(two_workers 0)\<lparr>d_enable_async := True\<rparr>"
  obtain w1 where "sgd ?w = Ret (Inr (), w1)" "d_handles w1 = d_handles ?w" "dict_get (d_parameter_names w1) 1 = Some ''w''"
      "pushable False (d_data w1 1) w1" "param_data 1 w1 = [- 2]"
    by (simp add: sgd_def io_run two_workers_def opt_example_def two_names_def two_hooks_def pushable_def param_data_def grad_of_def vsub_def)
  moreover have "d_handles ?w = (Param 1, (None, Ctx_none)) # [(Param 0, (None, Ctx_none))]" "param_data 1 ?w = [2]"
    by (simp_all add: two_workers_def opt_example_def two_hooks_def param_data_def)
  ultimately show ?thesis
    using async_step_fails [of ?w 1 "[(Param 0, (None, Ctx_none))]" sgd "()" w1 "''w''" False exact sum_list "\<lambda>n. vzero n" "\<lambda>_ x. x"
        sorted_list_of_set "\<lambda>_. ''x''"]
    by (simp add: vsub_def)
qed

end
