(* ===== verification/Torch_DDP.thy ===== *)
theory Torch_DDP
  imports Torch_Broadcast
begin

text \<open>
  \<^verbatim>\<open>byteps/torch/parallel/distributed.py\<close>: the module wrapper \<open>DistributedDataParallel\<close>, which averages
  gradients in backward hooks through the grouped push-pull. The wrapped module gives its named
  parameters, buffers and state dictionary; its forward pass and the compressor are parameters.
\<close>

section \<open>State\<close>

record 'x ddp = world +
  p_named_parameters :: "(string \<times> nat) list"
  p_requires_grad :: "nat \<Rightarrow> bool"
  p_grad :: "nat \<Rightarrow> addr"
  p_data :: "nat \<Rightarrow> addr"
  p_named_buffers :: "(string \<times> addr) list"
  p_state_dict :: "(string, addr) dict"
  p_parameter_names :: "(nat, string) dict"
  p_handles :: "(nat, nat option \<times> 'x) dict"
  p_requires_update :: "nat list"
  p_hooks :: "nat list"
  p_num_grads :: int
  p_broadcast_buffers :: bool
  p_require_forward_param_sync :: bool
  p_enable_async :: bool
  p_require_backward_grad_sync :: bool

record 'x ddp_compressor =
  dc_compress :: "tensor \<Rightarrow> (tensor option \<times> 'x) res"
  dc_decompress :: "tensor \<Rightarrow> 'x \<Rightarrow> tensor res"

section \<open>Construction\<close>

fun ddp_register_hooks :: "nat list \<Rightarrow> ('x ddp, unit) io" where
  "ddp_register_hooks [] = ret_io ()"
| "ddp_register_hooks (p # ps) =
     bind_io (get_io (\<lambda>w. p_requires_grad w p)) (\<lambda>rg.
     bind_io (if rg
              then bind_io (get_io (\<lambda>w. (zeroed (w_heap w (p_data w p)), w_cuda w (p_data w p)))) (\<lambda>(z, cuda).
                   bind_io (alloc_io z cuda) (\<lambda>a.
                     modify_io (\<lambda>w. w\<lparr>p_grad := (p_grad w)(p := a), p_requires_update := List.insert p (p_requires_update w),
                                     p_hooks := p_hooks w @ [p]\<rparr>)))
              else ret_io ()) (\<lambda>_. ddp_register_hooks ps))"

text \<open>Without parameters the code falls back to \<open>self.param_groups\<close>, which a module does not have.\<close>

definition ddp_parameter_names :: "(string \<times> nat) list \<Rightarrow> (nat, string) dict res" where
  "ddp_parameter_names named =
     (if named = [] then Inl AttributeError else Inr (dict_update_all [] (map (\<lambda>(n, p). (p, n)) (sort_key fst named))))"

definition ddp_init :: "bool \<Rightarrow> int \<Rightarrow> int list option \<Rightarrow> bool \<Rightarrow> ('x ddp, unit) io" where
  "ddp_init have_cuda workers device_ids broadcast_buffers =
     bind_io (lift_io (assert_res (case device_ids of None \<Rightarrow> False | Some ds \<Rightarrow> length ds = 1))) (\<lambda>_.
     bind_io (modify_io (\<lambda>w. w\<lparr>p_broadcast_buffers := broadcast_buffers, p_require_forward_param_sync := broadcast_buffers, p_handles := [],
                 p_hooks := [], p_requires_update := [], p_num_grads := 1, p_enable_async := False, p_require_backward_grad_sync := True\<rparr>)) (\<lambda>_.
     bind_io (get_io p_named_parameters) (\<lambda>named.
     bind_io (lift_io (ddp_parameter_names named)) (\<lambda>names.
     bind_io (modify_io (\<lambda>w. w\<lparr>p_parameter_names := names\<rparr>)) (\<lambda>_.
     bind_io (if workers > 1
              then bind_io (ddp_register_hooks (map snd named)) (\<lambda>_.
                   bind_io (modify_io (\<lambda>w. w\<lparr>p_num_grads := int (length (filter (\<lambda>(_, p). p_requires_grad w p) named))\<rparr>)) (\<lambda>_.
                   bind_io (get_io p_num_grads) (\<lambda>n. bind_io (byteps_torch_set_num_grads n) (\<lambda>_. ret_io ()))))
              else ret_io ()) (\<lambda>_.
     bind_io (for_io (\<lambda>n. declare_op (''Gradient.'' @ n)) (sort (map snd names))) (\<lambda>_.
     bind_io (for_io (\<lambda>n. declare_op (''Parameter.'' @ n)) (sort (map snd names))) (\<lambda>_.
     bind_io (get_io p_state_dict) (\<lambda>module_states.
       if module_states \<noteq> [] then broadcast_parameters have_cuda (Dict_params module_states) 0 ''Parameter.'' else ret_io ())))))))))"

text \<open>The flag is restored when the body of the \<open>with\<close> statement is left, also by an exception.\<close>

definition no_sync :: "('x ddp, 'a) io \<Rightarrow> ('x ddp, 'a) io" where
  "no_sync body =
     bind_io (get_io (\<lambda>w. (p_enable_async w, p_require_backward_grad_sync w))) (\<lambda>(async, old).
       if async then raise_io AssertionError
       else (\<lambda>w. bind_proc (body (w\<lparr>p_require_backward_grad_sync := False\<rparr>))
                   (\<lambda>(r, w'). Ret (r, w'\<lparr>p_require_backward_grad_sync := old\<rparr>))))"

section \<open>Forward and backward\<close>

definition sync_params :: "bool \<Rightarrow> ('x ddp, unit) io" where
  "sync_params have_cuda =
     bind_io (get_io (\<lambda>w. (p_broadcast_buffers w, p_named_buffers w))) (\<lambda>(b, bufs).
       if b \<and> bufs \<noteq> [] then broadcast_parameters have_cuda (List_params (map (\<lambda>(n, a). Named (Some n) a) bufs)) 0 ''Parameter.''
       else ret_io ())"

definition ddp_forward :: "bool \<Rightarrow> ('x ddp, 'r) io \<Rightarrow> ('x ddp, 'r) io" where
  "ddp_forward have_cuda module_call =
     bind_io (get_io p_require_forward_param_sync) (\<lambda>s.
     bind_io (if s then sync_params have_cuda else ret_io ()) (\<lambda>_. module_call))"

definition ddp_compress :: "'x ddp_compressor \<Rightarrow> nat \<Rightarrow> ('x ddp, addr \<times> 'x) io" where
  "ddp_compress k p =
     bind_io (get_io (\<lambda>w. (p_grad w p, w_heap w (p_grad w p), w_cuda w (p_grad w p)))) (\<lambda>(a, t, cuda).
     bind_io (lift_io (dc_compress k t)) (\<lambda>(ct, ctx).
     bind_io (case ct of None \<Rightarrow> ret_io a | Some t' \<Rightarrow> alloc_io t' cuda) (\<lambda>b. ret_io (b, ctx))))"

definition grad_op_name :: "nat \<Rightarrow> ('x ddp, string) io" where
  "grad_op_name p =
     bind_io (get_io (\<lambda>w. dict_get (p_parameter_names w) p)) (\<lambda>name.
       case name of None \<Rightarrow> raise_io TypeError | Some n \<Rightarrow> ret_io (''Gradient.'' @ n))"

text \<open>In asynchronous mode the count of gradients that is returned has no value (NameError).\<close>

definition push_pull_grad_group_sync ::
    "(rat list \<Rightarrow> rat) \<Rightarrow> bool \<Rightarrow> 'x ddp_compressor \<Rightarrow> nat \<Rightarrow> ('x ddp, nat option \<times> 'x \<times> int) io" where
  "push_pull_grad_group_sync norm2 have_cuda k p =
     bind_io (get_io p_enable_async) (\<lambda>async.
       if async then raise_io NameError
       else bind_io (ddp_compress k p) (\<lambda>(b, ctx).
            bind_io (grad_op_name p) (\<lambda>name.
            bind_io (push_pull_group_sync_inplace norm2 have_cuda b True (Some name) 0 0) (\<lambda>(handle, grad_count).
              ret_io (Some handle, ctx, grad_count)))))"

definition ddp_push_pull_grad_async :: "bool \<Rightarrow> 'x ddp_compressor \<Rightarrow> nat \<Rightarrow> ('x ddp, nat option \<times> 'x option) io" where
  "ddp_push_pull_grad_async have_cuda k p =
     bind_io (get_io p_enable_async) (\<lambda>async.
       if async then ret_io (None, None)
       else bind_io (ddp_compress k p) (\<lambda>(b, ctx).
            bind_io (grad_op_name p) (\<lambda>name.
            bind_io (push_pull_async_inplace have_cuda b True (Some name) 0 0 '''') (\<lambda>handle. ret_io (Some handle, Some ctx)))))"

definition put_ddp_handle :: "nat \<Rightarrow> nat option \<times> 'x \<Rightarrow> ('x ddp, unit) io" where
  "put_ddp_handle p v = modify_io (\<lambda>w. w\<lparr>p_handles := dict_set (p_handles w) p v\<rparr>)"

text \<open>
  The loop over the handles calls the grouped operation with one argument too few when a handle is
  missing, and the last loop decompresses everything with the context that the previous loop left.
\<close>

definition ddp_synchronize ::
    "(rat list \<Rightarrow> rat) \<Rightarrow> (nat set \<Rightarrow> nat list) \<Rightarrow> bool \<Rightarrow> 'x ddp_compressor \<Rightarrow> ('x ddp, unit) io" where
  "ddp_synchronize norm2 it have_cuda k =
     bind_io (get_io (\<lambda>w. it (set (p_requires_update w) - set (dict_keys (p_handles w))))) (\<lambda>missing_p.
     bind_io (for_io (\<lambda>p. bind_io (push_pull_grad_group_sync norm2 have_cuda k p) (\<lambda>(handle, ctx, _). put_ddp_handle p (handle, ctx))) missing_p) (\<lambda>_.
     bind_io (get_io p_handles) (\<lambda>hs.
     bind_io (for_io (\<lambda>(p, handle, ctx). if handle = None then raise_io TypeError else ret_io ()) hs) (\<lambda>_.
     bind_io (for_io (\<lambda>(p, handle, _).
                bind_io (synchronize handle) (\<lambda>output.
                bind_io (get_io p_enable_async) (\<lambda>async.
                  if async then ret_io ()
                  else case output of
                    None \<Rightarrow> raise_io TypeError
                  | Some b \<Rightarrow>
                      bind_io (get_io (\<lambda>w. w_heap w b)) (\<lambda>t.
                      bind_io (lift_io (dc_decompress k t (snd (snd (last hs))))) (\<lambda>t'.
                        modify_io (\<lambda>w. w\<lparr>w_heap := (w_heap w)(p_grad w p := t')\<rparr>)))))) hs) (\<lambda>_.
       modify_io (\<lambda>w. w\<lparr>p_handles := []\<rparr>))))))"

definition ddp_hook :: "(rat list \<Rightarrow> rat) \<Rightarrow> (nat set \<Rightarrow> nat list) \<Rightarrow> bool \<Rightarrow> 'x ddp_compressor \<Rightarrow> nat \<Rightarrow> ('x ddp, unit) io" where
  "ddp_hook norm2 it have_cuda k p =
     bind_io (get_io p_require_backward_grad_sync) (\<lambda>s.
       if s
       then bind_io (push_pull_grad_group_sync norm2 have_cuda k p) (\<lambda>(handle, ctx, grad_count).
            bind_io (put_ddp_handle p (handle, ctx)) (\<lambda>_.
            bind_io (get_io p_num_grads) (\<lambda>n.
              if grad_count = n then ddp_synchronize norm2 it have_cuda k else ret_io ())))
       else ret_io ())"

section \<open>The hooks\<close>

text \<open>
  Wrapping a module does not average gradients: outside \<open>no_sync\<close> the backward hook of every
  parameter raises (TypeError, when the gradient's tensor is supported and named) before it has sent
  anything or recorded a handle; inside \<open>no_sync\<close> it does nothing, and the flag is restored afterwards.
\<close>

theorem ddp_hook_raises:
  assumes "p_require_backward_grad_sync w" "\<not> p_enable_async w" "dc_compress k (w_heap w (p_grad w p)) = Inr (None, ctx)"
    and "dict_get (p_parameter_names w) p = Some n" "pushable hc (p_grad w p) w"
  shows "ddp_hook norm2 it hc k p w = Ret (Inl TypeError, declare_tensor (''Gradient.'' @ n) w)
     \<and> no_sync (ddp_hook norm2 it hc k p) w = Ret (Inr (), w)"
proof
  show "ddp_hook norm2 it hc k p w = Ret (Inl TypeError, declare_tensor (''Gradient.'' @ n) w)"
    using assms by (simp add: ddp_hook_def push_pull_grad_group_sync_def ddp_compress_def grad_op_name_def bind_io_basic bind_io_assoc io_run
        bind_io_def [of "push_pull_group_sync_inplace _ _ _ _ _ _ _"] group_sync_raises encode_name_def)
  have "w\<lparr>p_require_backward_grad_sync := True\<rparr> = w" using assms(1) by (cases w) simp
  then show "no_sync (ddp_hook norm2 it hc k p) w = Ret (Inr (), w)"
    using assms(1,2) by (simp add: no_sync_def ddp_hook_def bind_io_basic io_run)
qed

definition ddp_example :: "unit ddp" where
  "ddp_example = world.extend (start_world 0 [vec_of [1, 2]])
     \<lparr>p_named_parameters = [(''fc'', 0)], p_requires_grad = (\<lambda>_. True), p_grad = (\<lambda>_. 0), p_data = (\<lambda>_. 0), p_named_buffers = [],
      p_state_dict = [], p_parameter_names = [(0, ''fc'')], p_handles = [], p_requires_update = [0], p_hooks = [0], p_num_grads = 1,
      p_broadcast_buffers = True, p_require_forward_param_sync = True, p_enable_async = False, p_require_backward_grad_sync = True\<rparr>"

definition ddp_none :: "unit ddp_compressor" where
  "ddp_none = \<lparr>dc_compress = \<lambda>_. Inr (None, ()), dc_decompress = \<lambda>t _. Inr t\<rparr>"

theorem ddp_hook_raises_witness:
  "ddp_hook sum_list sorted_list_of_set True ddp_none 0 ddp_example = Ret (Inl TypeError, declare_tensor ''Gradient.fc'' ddp_example)
     \<and> no_sync (ddp_hook sum_list sorted_list_of_set True ddp_none 0) ddp_example = Ret (Inr (), ddp_example)"
  using ddp_hook_raises [of ddp_example ddp_none 0 "()" "''fc''" True sum_list sorted_list_of_set]
  by (simp add: ddp_example_def ddp_none_def pushable_def start_world_def world.defs)

text \<open>
  At the start of a forward pass the module's buffers become those of worker 0 on every worker,
  under the names the module gives them, and no other tensor changes.
\<close>

theorem sync_params_root:
  assumes ok: "net_ok net" "0 < n_size net" "balanced net L" "length names = length forms" "bc_ok net hc 0 w forms as" "names \<noteq> []"
    and w: "\<And>i. i < n_size net \<Longrightarrow> worker_ok i (L i) (w i)"
    and b: "\<And>i. i < n_size net \<Longrightarrow> p_broadcast_buffers (w i) \<and> p_named_buffers (w i) = zip names (as i)"
  shows "\<exists>L' w'. runs net L (\<lambda>i. sync_params hc (w i)) L' (\<lambda>i. (Inr (), w' i)) \<and> balanced net L'
     \<and> (\<forall>i < n_size net. (\<forall>k < length forms. t_data (w_heap (w' i) (as i ! k)) = t_data (w_heap (w 0) (as 0 ! k)))
        \<and> (\<forall>b. b \<notin> set (as i) \<longrightarrow> w_heap (w' i) b = w_heap (w i) b))"
proof -
  let ?new = "\<lambda>i. zip (as i) (map (\<lambda>a. t_data (w_heap (w 0) a)) (as 0))"
  obtain L' w' where r: "runs net L (\<lambda>i. for_io (broadcast_one hc (int 0) ''Parameter.'') (zip (map Some names) (as i)) (w i)) L' (\<lambda>i. (Inr (), w' i))"
      "balanced net L'" "\<forall>i < n_size net. w_heap (w' i) = overwrite (w_heap (w i)) (?new i)"
    using runs_broadcast [OF ok(1-3), of "map Some names" forms hc w as "''Parameter.''"] ok(4,5) w by auto
  have len: "length (as i) = length forms" "distinct (as i)" if "i < n_size net" for i
    using ok(5) that by (simp_all add: bc_ok_def)
  have "runs net L (\<lambda>i. sync_params hc (w i)) L' (\<lambda>i. (Inr (), w' i))"
  proof (rule runs_cong [OF ok(1) r(1)])
    fix i assume i: "i < n_size net"
    have "zip names (as i) \<noteq> []" using len [OF i] ok(4,6) by (cases names; cases "as i") auto
    then show "for_io (broadcast_one hc (int 0) ''Parameter.'') (zip (map Some names) (as i)) (w i) = sync_params hc (w i)"
      using b [OF i] by (simp add: sync_params_def broadcast_parameters_def io_simps zip_map1 comp_def case_prod_unfold)
  qed simp_all
  moreover have "t_data (w_heap (w' i) (as i ! k)) = t_data (w_heap (w 0) (as 0 ! k))" if "i < n_size net" "k < length forms" for i k
    using that r(3) len [OF that(1)] len [OF ok(2)] by (simp add: overwrite_nth [of _ k])
  moreover have "w_heap (w' i) b = w_heap (w i) b" if "i < n_size net" "b \<notin> set (as i)" for i b
  proof -
    have "b \<notin> fst ` set (?new i)" using that(2) by (auto dest: set_zip_leftD)
    with that(1) r(3) show ?thesis by (simp add: overwrite_other)
  qed
  ultimately show ?thesis using r(2) by blast
qed

definition ddp_buffers :: "nat \<Rightarrow> unit ddp" where
  "ddp_buffers i = world.extend (start_world (int i) [vec_of [of_nat i, 2]]) (world.more ddp_example) \<lparr>p_named_buffers := [(''running_mean'', 0)]\<rparr>"

theorem sync_params_root_witness:
  "\<exists>L' w'. runs net2 (\<lambda>_. []) (\<lambda>i. sync_params True (ddp_buffers i)) L' (\<lambda>i. (Inr (), w' i)) \<and> balanced net2 L'
     \<and> (\<forall>i < 2. (\<forall>k < 1. t_data (w_heap (w' i) ([0] ! k)) = t_data (w_heap (ddp_buffers 0) ([0] ! k)))
        \<and> (\<forall>b. b \<notin> set [0] \<longrightarrow> w_heap (w' i) b = w_heap (ddp_buffers i) b))"
  using sync_params_root [of net2 "\<lambda>_. []" "[''running_mean'']" "[(Float32, [2])]" True ddp_buffers "\<lambda>_. [0]"]
  by (simp add: ddp_buffers_def ddp_example_def start_world_def world.defs bc_ok_def worker_ok_def stored_def pushable_def fresh_handles_def)

end
