(* ===== verification/Optim_Update.thy ===== *)
theory Optim_Update
  imports Tensor
begin

text \<open>
  The updates of a single parameter in \<^verbatim>\<open>byteps/torch/cross_barrier.py\<close>: \<open>_sgd\<close>, \<open>_adam\<close>, \<open>_rmsprop\<close> and
  \<open>_zero_one_grad\<close>. Numbers are exact rationals; the square root is a parameter. A division by zero, where torch gives
  an infinity or no number, is 0, and the closed form of Adam shows that none occurs. A parameter is found in
  the parameter groups by its name and shape; \<open>o_name\<close> is \<open>_get_parameter_name\<close>.
\<close>

section \<open>State\<close>

record adam_state =
  a_step :: nat
  exp_avg :: "rat list"
  exp_avg_sq :: "rat list"
  max_exp_avg_sq :: "rat list option"

record rms_state =
  r_step :: nat
  square_avg :: "rat list"
  momentum_buffer :: "rat list option"
  grad_avg :: "rat list option"

record params =
  o_name :: "nat \<Rightarrow> string option"
  o_shape :: "nat \<Rightarrow> nat list"
  o_data :: "nat \<Rightarrow> rat list"
  o_grad :: "nat \<Rightarrow> rat list option"
  o_sparse :: "nat \<Rightarrow> bool"
  o_buf :: "nat \<Rightarrow> rat list option"
  o_adam :: "nat \<Rightarrow> adam_state option"
  o_rms :: "nat \<Rightarrow> rms_state option"

record sgd_group =
  s_params :: "nat list"
  s_lr :: rat
  s_weight_decay :: rat
  s_momentum :: rat
  s_dampening :: rat
  s_nesterov :: bool

record adam_group =
  a_params :: "nat list"
  a_lr :: rat
  beta1 :: rat
  beta2 :: rat
  a_eps :: rat
  a_weight_decay :: rat
  amsgrad :: bool

record rms_group =
  r_params :: "nat list"
  r_lr :: rat
  r_alpha :: rat
  r_eps :: rat
  r_weight_decay :: rat
  r_momentum :: rat
  r_centered :: bool

section \<open>Updates\<close>

text \<open>The loop over a group looks for a parameter of the same name and shape.\<close>

definition in_group :: "nat list \<Rightarrow> nat \<Rightarrow> 'z params_scheme \<Rightarrow> bool" where
  "in_group ps p w = list_ex (\<lambda>gp. o_name w gp = o_name w p \<and> o_shape w gp = o_shape w p) ps"

definition set_data :: "nat \<Rightarrow> rat list \<Rightarrow> 'z params_scheme \<Rightarrow> 'z params_scheme" where
  "set_data p xs w = w\<lparr>o_data := (o_data w)(p := xs)\<rparr>"

definition set_grad_data :: "nat \<Rightarrow> rat list \<Rightarrow> 'z params_scheme \<Rightarrow> 'z params_scheme" where
  "set_grad_data p xs w = w\<lparr>o_grad := (o_grad w)(p := Some xs)\<rparr>"

definition sgd_update :: "sgd_group \<Rightarrow> nat \<Rightarrow> rat list \<Rightarrow> 'z params_scheme \<Rightarrow> 'z params_scheme" where
  "sgd_update grp p grad w =
     (let d_p = (if s_weight_decay grp \<noteq> 0 then vadd grad (vscale (s_weight_decay grp) (o_data w p)) else grad);
          w1 = set_grad_data p d_p w
      in if s_momentum grp \<noteq> 0
         then let buf = (case o_buf w p of
                           None \<Rightarrow> vadd (vscale (s_momentum grp) (vzero (length (o_data w p)))) d_p
                         | Some b \<Rightarrow> vadd (vscale (s_momentum grp) b) (vscale (1 - s_dampening grp) d_p));
                  d = (if s_nesterov grp then vadd d_p (vscale (s_momentum grp) buf) else buf)
              in set_data p (vadd (o_data w p) (vscale (- s_lr grp) d)) (w1\<lparr>o_buf := (o_buf w)(p := Some buf)\<rparr>)
         else set_data p (vadd (o_data w p) (vscale (- s_lr grp) d_p)) w1)"

definition sgd_group_step :: "nat \<Rightarrow> sgd_group \<Rightarrow> 'z params_scheme \<Rightarrow> 'z params_scheme" where
  "sgd_group_step p grp w =
     (if in_group (s_params grp) p w then (case o_grad w p of None \<Rightarrow> w | Some grad \<Rightarrow> sgd_update grp p grad w) else w)"

definition sgd_step :: "sgd_group list \<Rightarrow> nat \<Rightarrow> 'z params_scheme \<Rightarrow> 'z params_scheme" where
  "sgd_step groups p w = fold (sgd_group_step p) groups w"

definition vmul :: "rat list \<Rightarrow> rat list \<Rightarrow> rat list" where
  "vmul xs ys = map2 (*) xs ys"

definition vdiv :: "rat list \<Rightarrow> rat list \<Rightarrow> rat list" where
  "vdiv xs ys = map2 (/) xs ys"

definition vmax :: "rat list \<Rightarrow> rat list \<Rightarrow> rat list" where
  "vmax xs ys = map2 max xs ys"

definition adam_init :: "bool \<Rightarrow> nat \<Rightarrow> adam_state" where
  "adam_init ams n =
     \<lparr>a_step = 0, exp_avg = vzero n, exp_avg_sq = vzero n, max_exp_avg_sq = (if ams then Some (vzero n) else None)\<rparr>"

definition adam_update :: "(rat \<Rightarrow> rat) \<Rightarrow> adam_group \<Rightarrow> nat \<Rightarrow> rat list \<Rightarrow> 'z params_scheme \<Rightarrow> 'z params_scheme res" where
  "adam_update rt grp p grad0 w =
     (if o_sparse w p then Inl RuntimeError
      else let st = (case o_adam w p of None \<Rightarrow> adam_init (amsgrad grp) (length (o_data w p)) | Some s \<Rightarrow> s)
           in bind_res (if amsgrad grp then (case max_exp_avg_sq st of None \<Rightarrow> Inl KeyError | Some m \<Rightarrow> Inr m) else Inr []) (\<lambda>mx.
              let t = a_step st + 1;
                  grad = (if a_weight_decay grp \<noteq> 0 then vadd grad0 (vscale (a_weight_decay grp) (o_data w p)) else grad0);
                  avg = vadd (vscale (beta1 grp) (exp_avg st)) (vscale (1 - beta1 grp) grad);
                  avg_sq = vadd (vscale (beta2 grp) (exp_avg_sq st)) (vscale (1 - beta2 grp) (vmul grad grad));
                  mx' = vmax mx avg_sq;
                  denom = map (\<lambda>x. rt x + a_eps grp) (if amsgrad grp then mx' else avg_sq);
                  st' = \<lparr>a_step = t, exp_avg = avg, exp_avg_sq = avg_sq,
                         max_exp_avg_sq = (if amsgrad grp then Some mx' else max_exp_avg_sq st)\<rparr>;
                  bias_correction1 = 1 - beta1 grp ^ t;
                  bias_correction2 = 1 - beta2 grp ^ t
              in bind_res (if bias_correction2 < 0 then Inl ValueError else Inr (rt bias_correction2)) (\<lambda>s.
                 bind_res (if bias_correction1 = 0 then Inl ZeroDivisionError else Inr (a_lr grp * s / bias_correction1)) (\<lambda>step_size.
                   Inr (set_data p (vadd (o_data w p) (vscale (- step_size) (vdiv avg denom)))
                     ((set_grad_data p grad w)\<lparr>o_adam := (o_adam w)(p := Some st')\<rparr>))))))"

definition adam_group_step :: "(rat \<Rightarrow> rat) \<Rightarrow> nat \<Rightarrow> adam_group \<Rightarrow> 'z params_scheme \<Rightarrow> 'z params_scheme res" where
  "adam_group_step rt p grp w =
     (if in_group (a_params grp) p w then (case o_grad w p of None \<Rightarrow> Inr w | Some grad \<Rightarrow> adam_update rt grp p grad w) else Inr w)"

definition adam_step :: "(rat \<Rightarrow> rat) \<Rightarrow> adam_group list \<Rightarrow> nat \<Rightarrow> 'z params_scheme \<Rightarrow> 'z params_scheme res" where
  "adam_step rt groups p w = fold_res (adam_group_step rt p) groups w"

definition rms_init :: "rms_group \<Rightarrow> nat \<Rightarrow> rms_state" where
  "rms_init grp n =
     \<lparr>r_step = 0, square_avg = vzero n, momentum_buffer = (if r_momentum grp > 0 then Some (vzero n) else None),
      grad_avg = (if r_centered grp then Some (vzero n) else None)\<rparr>"

definition rms_update :: "(rat \<Rightarrow> rat) \<Rightarrow> rms_group \<Rightarrow> nat \<Rightarrow> rat list \<Rightarrow> 'z params_scheme \<Rightarrow> 'z params_scheme res" where
  "rms_update rt grp p grad0 w =
     (if o_sparse w p then Inl RuntimeError
      else let st = (case o_rms w p of None \<Rightarrow> rms_init grp (length (o_data w p)) | Some s \<Rightarrow> s);
               alpha = r_alpha grp;
               grad = (if r_weight_decay grp \<noteq> 0 then vadd grad0 (vscale (r_weight_decay grp) (o_data w p)) else grad0);
               sq = vadd (vscale alpha (square_avg st)) (vscale (1 - alpha) (vmul grad grad))
           in bind_res (if r_centered grp then of_option KeyError (grad_avg st) else Inr []) (\<lambda>ga.
              let ga' = vadd (vscale alpha ga) (vscale (1 - alpha) grad);
                  avg = map (\<lambda>x. rt x + r_eps grp) (if r_centered grp then vsub sq (vmul ga' ga') else sq);
                  st' = st\<lparr>r_step := r_step st + 1, square_avg := sq, grad_avg := (if r_centered grp then Some ga' else grad_avg st)\<rparr>
              in if r_momentum grp > 0
                 then bind_res (of_option KeyError (momentum_buffer st)) (\<lambda>b.
                      let buf = vadd (vscale (r_momentum grp) b) (vdiv grad avg)
                      in Inr (set_data p (vadd (o_data w p) (vscale (- r_lr grp) buf))
                           (w\<lparr>o_rms := (o_rms w)(p := Some (st'\<lparr>momentum_buffer := Some buf\<rparr>))\<rparr>)))
                 else Inr (set_data p (vadd (o_data w p) (vscale (- r_lr grp) (vdiv grad avg)))
                        (w\<lparr>o_rms := (o_rms w)(p := Some st')\<rparr>))))"

definition rms_group_step :: "(rat \<Rightarrow> rat) \<Rightarrow> nat \<Rightarrow> rms_group \<Rightarrow> 'z params_scheme \<Rightarrow> 'z params_scheme res" where
  "rms_group_step rt p grp w =
     (if in_group (r_params grp) p w then (case o_grad w p of None \<Rightarrow> Inr w | Some grad \<Rightarrow> rms_update rt grp p grad w) else Inr w)"

definition rms_step :: "(rat \<Rightarrow> rat) \<Rightarrow> rms_group list \<Rightarrow> nat \<Rightarrow> 'z params_scheme \<Rightarrow> 'z params_scheme res" where
  "rms_step rt groups p w = fold_res (rms_group_step rt p) groups w"

definition zero_one_grad :: "nat \<Rightarrow> 'z params_scheme \<Rightarrow> 'z params_scheme" where
  "zero_one_grad p w = (case o_grad w p of None \<Rightarrow> w | Some g \<Rightarrow> set_grad_data p (vzero (length g)) w)"

section \<open>SGD with momentum\<close>

text \<open>What the poller does with the parameter: it sets the gradient to the average and calls the update.\<close>

definition sgd_run :: "sgd_group list \<Rightarrow> nat \<Rightarrow> rat list list \<Rightarrow> 'z params_scheme \<Rightarrow> 'z params_scheme" where
  "sgd_run groups p gs w = fold (\<lambda>g w. zero_one_grad p (sgd_step groups p (set_grad_data p g w))) gs w"

text \<open>The heavy-ball iteration: a step against the gradient and a fraction of the last movement.\<close>

fun heavy_ball :: "rat \<Rightarrow> rat \<Rightarrow> rat list \<Rightarrow> rat list \<Rightarrow> rat list list \<Rightarrow> rat list" where
  "heavy_ball lr m prev x [] = x"
| "heavy_ball lr m prev x (g # gs) = heavy_ball lr m x (vadd (vsub x (vscale lr g)) (vscale m (vsub x prev))) gs"

text \<open>The parameter belongs to one group only.\<close>

definition only_group :: "('g \<Rightarrow> nat list) \<Rightarrow> 'g list \<Rightarrow> 'g \<Rightarrow> nat \<Rightarrow> 'z params_scheme \<Rightarrow> bool" where
  "only_group ps groups grp p w \<longleftrightarrow>
     (\<exists>as bs. groups = as @ grp # bs \<and> in_group (ps grp) p w \<and> (\<forall>g \<in> set as \<union> set bs. \<not> in_group (ps g) p w))"

lemma set_sel [simp]:
  "o_name (set_data p x w) = o_name w" "o_shape (set_data p x w) = o_shape w" "o_grad (set_data p x w) = o_grad w"
  "o_data (set_data p x w) = (o_data w)(p := x)" "o_buf (set_data p x w) = o_buf w" "o_adam (set_data p x w) = o_adam w"
  "o_sparse (set_data p x w) = o_sparse w"
  "o_name (set_grad_data p x w) = o_name w" "o_shape (set_grad_data p x w) = o_shape w" "o_data (set_grad_data p x w) = o_data w"
  "o_grad (set_grad_data p x w) = (o_grad w)(p := Some x)" "o_buf (set_grad_data p x w) = o_buf w" "o_adam (set_grad_data p x w) = o_adam w"
  "o_sparse (set_grad_data p x w) = o_sparse w"
  by (simp_all add: set_data_def set_grad_data_def)

lemma in_group_cong: "o_name w' = o_name w \<Longrightarrow> o_shape w' = o_shape w \<Longrightarrow> in_group ps p w' = in_group ps p w"
  by (simp add: in_group_def)

lemma sgd_update_sel [simp]:
  "o_name (sgd_update grp p g w) = o_name w" "o_shape (sgd_update grp p g w) = o_shape w"
  by (simp_all add: sgd_update_def Let_def)

lemma only_group_cong: "o_name w' = o_name w \<Longrightarrow> o_shape w' = o_shape w \<Longrightarrow> only_group ps groups grp p w' = only_group ps groups grp p w"
  unfolding only_group_def using in_group_cong [of w' w] by simp

lemma fold_sgd_skip: "\<forall>g \<in> set gs. \<not> in_group (s_params g) p w \<Longrightarrow> fold (sgd_group_step p) gs w = w"
  by (induction gs) (simp_all add: sgd_group_step_def)

lemma sgd_step_only:
  assumes "only_group s_params groups grp p w" "o_grad w p = Some g"
  shows "sgd_step groups p w = sgd_update grp p g w"
proof -
  obtain as bs where gs: "groups = as @ grp # bs" "in_group (s_params grp) p w" "\<forall>g \<in> set as \<union> set bs. \<not> in_group (s_params g) p w"
    using assms(1) unfolding only_group_def by blast
  have "\<forall>h \<in> set bs. \<not> in_group (s_params h) p (sgd_update grp p g w)" using gs(3) in_group_cong [of "sgd_update grp p g w" w] by simp
  then show ?thesis using gs assms(2) by (simp add: sgd_step_def fold_sgd_skip sgd_group_step_def)
qed

lemma zero_one_grad_sel [simp]:
  "o_name (zero_one_grad p w) = o_name w" "o_shape (zero_one_grad p w) = o_shape w" "o_data (zero_one_grad p w) = o_data w"
  "o_buf (zero_one_grad p w) = o_buf w" "o_adam (zero_one_grad p w) = o_adam w" "o_sparse (zero_one_grad p w) = o_sparse w"
  by (simp_all add: zero_one_grad_def split: option.splits)

lemma only_group_set [simp]:
  "only_group ps groups grp q (set_grad_data p g w) = only_group ps groups grp q w"
  "only_group ps groups grp q (zero_one_grad p w) = only_group ps groups grp q w"
  by (rule only_group_cong; simp)+

lemma heavy_ball_step:
  assumes "length b = n" "length g = n" "length x = n" "length prev = n" "vsub x prev = vscale (- lr) b"
  shows "vadd (vsub x (vscale lr g)) (vscale m (vsub x prev)) = vadd x (vscale (- lr) (vadd (vscale m b) g))"
  unfolding assms(5) using assms(1-4) by (intro nth_equalityI) (simp_all add: algebra_simps)

lemma vsub_vadd: "length b = length x \<Longrightarrow> vsub (vadd x b) x = b"
  by (intro nth_equalityI) simp_all

text \<open>
  C24. SGD with momentum is the heavy-ball method: the updates that keep a momentum buffer per parameter
  (no dampening, weight decay or Nesterov step) give the same parameters as the iteration that adds to
  each gradient step a fraction of the last movement.
\<close>

theorem sgd_run_heavy_ball:
  assumes "only_group s_params groups grp p w" "s_momentum grp \<noteq> 0" "s_weight_decay grp = 0" "s_dampening grp = 0"
    and "\<not> s_nesterov grp" "o_buf w p = None" "\<forall>g \<in> set gs. length g = length (o_data w p)"
  shows "o_data (sgd_run groups p gs w) p = heavy_ball (s_lr grp) (s_momentum grp) (o_data w p) (o_data w p) gs"
proof -
  let ?n = "length (o_data w p)" and ?lr = "s_lr grp" and ?m = "s_momentum grp"
  have run: "o_data (sgd_run groups p gs v) p = heavy_ball ?lr ?m prev (o_data v p) gs"
    if "only_group s_params groups grp p v" "length (o_data v p) = ?n" "length prev = ?n" "\<forall>g \<in> set gs. length g = ?n"
      "case o_buf v p of None \<Rightarrow> prev = o_data v p | Some b \<Rightarrow> length b = ?n \<and> vsub (o_data v p) prev = vscale (- ?lr) b" for v prev gs
    using that
  proof (induction gs arbitrary: v prev)
    case (Cons g gs)
    define b where "b = (case o_buf v p of None \<Rightarrow> vzero ?n | Some b \<Rightarrow> b)"
    let ?buf = "vadd (vscale ?m b) g" and ?x = "o_data v p"
    let ?v = "zero_one_grad p (sgd_step groups p (set_grad_data p g v))"
    have g: "length g = ?n" and b: "length b = ?n" "vsub ?x prev = vscale (- ?lr) b"
      using Cons.prems(2,4,5) by (auto simp: b_def split: option.splits intro!: nth_equalityI)
    have "only_group s_params groups grp p (set_grad_data p g v)" using Cons.prems(1) only_group_cong by (metis set_sel(8,9))
    from sgd_step_only [OF this] have step: "sgd_step groups p (set_grad_data p g v) = sgd_update grp p g (set_grad_data p g v)" by simp
    have up: "o_data ?v p = vadd ?x (vscale (- ?lr) ?buf)" "o_buf ?v p = Some ?buf"
      using assms(2-5) g Cons.prems(2) by (auto simp: step sgd_update_def Let_def b_def split: option.splits intro!: nth_equalityI)
    have "only_group s_params groups grp p ?v" using Cons.prems(1) only_group_cong by (metis step set_sel(8,9) sgd_update_sel zero_one_grad_sel(1,2))
    then have "o_data (sgd_run groups p gs ?v) p = heavy_ball ?lr ?m ?x (o_data ?v p) gs"
      using Cons.prems(2,4) g b(1) up by (intro Cons.IH) (simp_all add: vsub_vadd)
    moreover have "vadd (vsub ?x (vscale ?lr g)) (vscale ?m (vsub ?x prev)) = o_data ?v p"
      using heavy_ball_step [OF b(1) g Cons.prems(2,3) b(2)] up(1) by simp
    ultimately show ?case by (simp add: sgd_run_def)
  qed (simp add: sgd_run_def)
  show ?thesis using assms(1,6,7) by (intro run) simp_all
qed

definition sgd_example :: params where
  "sgd_example = \<lparr>o_name = (\<lambda>p. Some (if p = 0 then ''w'' else ''b'')), o_shape = (\<lambda>_. [2]), o_data = (\<lambda>_. [1, 2]), o_grad = (\<lambda>_. None),
     o_sparse = (\<lambda>_. False), o_buf = (\<lambda>_. None), o_adam = (\<lambda>_. None), o_rms = (\<lambda>_. None)\<rparr>"

definition sgd_group_of :: "nat \<Rightarrow> sgd_group" where
  "sgd_group_of p = \<lparr>s_params = [p], s_lr = 1 / 2, s_weight_decay = 0, s_momentum = 1 / 2, s_dampening = 0, s_nesterov = False\<rparr>"

theorem sgd_run_heavy_ball_witness:
  "o_data (sgd_run [sgd_group_of 1, sgd_group_of 0] 0 [[2, 0], [2, 4]] sgd_example) 0 =
     heavy_ball (1 / 2) (1 / 2) [1, 2] [1, 2] [[2, 0], [2, 4]]"
  using sgd_run_heavy_ball [of "[sgd_group_of 1, sgd_group_of 0]" "sgd_group_of 0" 0 sgd_example "[[2, 0], [2, 4]]"]
  by (simp add: sgd_group_of_def sgd_example_def only_group_def in_group_def Cons_eq_append_conv)

section \<open>Adam\<close>

definition adam_run :: "(rat \<Rightarrow> rat) \<Rightarrow> adam_group list \<Rightarrow> nat \<Rightarrow> rat list list \<Rightarrow> 'z params_scheme \<Rightarrow> 'z params_scheme res" where
  "adam_run rt groups p gs w =
     fold_res (\<lambda>g w. bind_res (adam_step rt groups p (set_grad_data p g w)) (\<lambda>w'. Inr (zero_one_grad p w'))) gs w"

lemma fold_adam_skip: "\<forall>g \<in> set gs. \<not> in_group (a_params g) p w \<Longrightarrow> fold_res (adam_group_step rt p) gs w = Inr w"
  by (induction gs) (simp_all add: adam_group_step_def)

lemma fold_res_append: "fold_res f (xs @ ys) s = bind_res (fold_res f xs s) (fold_res f ys)"
  by (induction xs arbitrary: s) (simp_all add: bind_res_def split: sum.splits)

lemma adam_update_sel:
  "adam_update rt grp p g w = Inr w' \<Longrightarrow> o_name w' = o_name w \<and> o_shape w' = o_shape w \<and> o_sparse w' = o_sparse w"
  by (auto simp: adam_update_def Let_def bind_res_def split: if_splits sum.splits option.splits)

lemma adam_step_only:
  assumes "only_group a_params groups grp p w" "o_grad w p = Some g" "adam_update rt grp p g w = Inr w'"
  shows "adam_step rt groups p w = Inr w'"
proof -
  obtain as bs where gs: "groups = as @ grp # bs" "in_group (a_params grp) p w" "\<forall>g \<in> set as \<union> set bs. \<not> in_group (a_params g) p w"
    using assms(1) unfolding only_group_def by blast
  have "\<forall>h \<in> set bs. \<not> in_group (a_params h) p w'" using gs(3) in_group_cong [of w' w] adam_update_sel [OF assms(3)] by simp
  then show ?thesis using gs assms(2,3) by (simp add: adam_step_def fold_res_append fold_adam_skip adam_group_step_def)
qed

text \<open>
  The moments of a sequence of gradients, written out: an exponentially weighted sum, and the quantity under
  the root, the second moment or, with \<open>amsgrad\<close>, its largest value so far.
\<close>

definition moment :: "rat \<Rightarrow> rat list \<Rightarrow> rat" where
  "moment b xs = (1 - b) * (\<Sum>i < length xs. b ^ (length xs - 1 - i) * xs ! i)"

definition second_moment :: "adam_group \<Rightarrow> rat list \<Rightarrow> rat" where
  "second_moment grp xs =
     (if amsgrad grp then Max ((\<lambda>t. moment (beta2 grp) (map (\<lambda>x. x * x) (take t xs))) ` {0..length xs})
      else moment (beta2 grp) (map (\<lambda>x. x * x) xs))"

lemma moment_snoc: "moment b (xs @ [x]) = b * moment b xs + (1 - b) * x"
proof -
  let ?n = "length xs"
  have "(\<Sum>i < ?n. b ^ (?n - i) * (xs @ [x]) ! i) = (\<Sum>i < ?n. b * (b ^ (?n - 1 - i) * xs ! i))"
  proof (rule sum.cong [OF refl])
    fix i assume "i \<in> {..<?n}"
    then have "?n - i = Suc (?n - 1 - i)" "(xs @ [x]) ! i = xs ! i" by (auto simp: nth_append)
    then show "b ^ (?n - i) * (xs @ [x]) ! i = b * (b ^ (?n - 1 - i) * xs ! i)" by simp
  qed
  then show ?thesis by (simp add: moment_def sum_distrib_left [symmetric] algebra_simps)
qed

lemma moment_Nil [simp]: "moment b [] = 0"
  by (simp add: moment_def)

lemma moment_nonneg: "0 \<le> b \<Longrightarrow> b \<le> 1 \<Longrightarrow> \<forall>x \<in> set xs. 0 \<le> x \<Longrightarrow> 0 \<le> moment b xs"
  unfolding moment_def by (intro mult_nonneg_nonneg sum_nonneg) auto

lemma second_moment_Nil [simp]: "second_moment grp [] = 0"
  by (simp add: second_moment_def)

lemma second_moment_snoc:
  "second_moment grp (xs @ [x]) =
     (let m = moment (beta2 grp) (map (\<lambda>x. x * x) (xs @ [x])) in if amsgrad grp then max (second_moment grp xs) m else m)"
proof -
  let ?f = "\<lambda>xs t. moment (beta2 grp) (map (\<lambda>x. x * x) (take t xs))"
  have "?f (xs @ [x]) ` {0..length (xs @ [x])} = insert (?f (xs @ [x]) (Suc (length xs))) (?f xs ` {0..length xs})"
    by (simp add: atLeast0_atMost_Suc image_def cong: rev_conj_cong) auto
  then show ?thesis by (simp add: second_moment_def Let_def max.commute)
qed

lemma second_moment_nonneg:
  assumes "0 \<le> beta2 grp" "beta2 grp \<le> 1"
  shows "0 \<le> second_moment grp xs"
proof -
  have "0 \<le> moment (beta2 grp) (map (\<lambda>x. x * x) ys)" for ys using assms by (intro moment_nonneg) auto
  then show ?thesis by (auto simp: second_moment_def Max_ge_iff)
qed

text \<open>How far the first \<open>length xs\<close> updates move one component whose gradients are \<open>xs\<close>.\<close>

definition adam_move :: "(rat \<Rightarrow> rat) \<Rightarrow> adam_group \<Rightarrow> rat list \<Rightarrow> rat" where
  "adam_move rt grp xs =
     (\<Sum>t = 1..length xs. a_lr grp * (moment (beta1 grp) (take t xs) / (1 - beta1 grp ^ t)) * rt (1 - beta2 grp ^ t)
        / (rt (second_moment grp (take t xs)) + a_eps grp))"

lemma adam_move_snoc:
  "adam_move rt grp (xs @ [x]) = adam_move rt grp xs
     + a_lr grp * (moment (beta1 grp) (xs @ [x]) / (1 - beta1 grp ^ Suc (length xs))) * rt (1 - beta2 grp ^ Suc (length xs))
        / (rt (second_moment grp (xs @ [x])) + a_eps grp)"
  by (simp add: adam_move_def del: power_Suc)

definition column :: "nat \<Rightarrow> rat list list \<Rightarrow> rat list" where
  "column j gs = map (\<lambda>g. g ! j) gs"

lemma column_snoc [simp]: "column j (gs @ [g]) = column j gs @ [g ! j]" "column j [] = []" "length (column j gs) = length gs"
  by (simp_all add: column_def)

lemma adam_move_column:
  "adam_move rt grp (column j (gs @ [g])) = adam_move rt grp (column j gs)
     + a_lr grp * rt (1 - beta2 grp ^ Suc (length gs)) * moment (beta1 grp) (column j (gs @ [g]))
        / ((1 - beta1 grp ^ Suc (length gs)) * (rt (second_moment grp (column j (gs @ [g]))) + a_eps grp))"
  by (simp add: adam_move_snoc mult_ac del: power_Suc)

text \<open>The state of a parameter after the gradients \<open>gs\<close>.\<close>

definition adam_after :: "(rat \<Rightarrow> rat) \<Rightarrow> adam_group \<Rightarrow> rat list \<Rightarrow> rat list list \<Rightarrow> nat \<Rightarrow> 'z params_scheme \<Rightarrow> bool" where
  "adam_after rt grp x gs p w \<longleftrightarrow>
     length (o_data w p) = length x \<and> (\<forall>j < length x. o_data w p ! j = x ! j - adam_move rt grp (column j gs))
     \<and> (case o_adam w p of
          None \<Rightarrow> gs = []
        | Some st \<Rightarrow> a_step st = length gs \<and> length (exp_avg st) = length x \<and> length (exp_avg_sq st) = length x
            \<and> (\<forall>j < length x. exp_avg st ! j = moment (beta1 grp) (column j gs)
                 \<and> exp_avg_sq st ! j = moment (beta2 grp) (map (\<lambda>x. x * x) (column j gs)))
            \<and> (amsgrad grp \<longrightarrow> (\<exists>m. max_exp_avg_sq st = Some m \<and> length m = length x \<and> (\<forall>j < length x. m ! j = second_moment grp (column j gs)))))"

lemma vsel [simp]:
  "length (vmul xs ys) = min (length xs) (length ys)" "i < length xs \<Longrightarrow> i < length ys \<Longrightarrow> vmul xs ys ! i = xs ! i * ys ! i"
  "length (vdiv xs ys) = min (length xs) (length ys)" "i < length xs \<Longrightarrow> i < length ys \<Longrightarrow> vdiv xs ys ! i = xs ! i / ys ! i"
  "length (vmax xs ys) = min (length xs) (length ys)" "i < length xs \<Longrightarrow> i < length ys \<Longrightarrow> vmax xs ys ! i = max (xs ! i) (ys ! i)"
  by (simp_all add: vmul_def vdiv_def vmax_def)

lemma adam_update_after:
  assumes b: "0 \<le> beta1 grp" "beta1 grp < 1" "0 \<le> beta2 grp" "beta2 grp \<le> 1" "a_weight_decay grp = 0"
    and w: "\<not> o_sparse w p" "length g = length x" "adam_after rt grp x gs p w"
  shows "\<exists>w'. adam_update rt grp p g w = Inr w' \<and> adam_after rt grp x (gs @ [g]) p w'"
proof -
  let ?n = "length x" and ?t = "Suc (length gs)"
  define st where "st = (case o_adam w p of None \<Rightarrow> adam_init (amsgrad grp) (length (o_data w p)) | Some s \<Rightarrow> s)"
  have d: "length (o_data w p) = ?n" "j < ?n \<Longrightarrow> o_data w p ! j = x ! j - adam_move rt grp (column j gs)" for j
    using w(3) by (simp_all add: adam_after_def)
  have st: "a_step st = length gs" "length (exp_avg st) = ?n" "length (exp_avg_sq st) = ?n"
      "j < ?n \<Longrightarrow> exp_avg st ! j = moment (beta1 grp) (column j gs)" "j < ?n \<Longrightarrow> exp_avg_sq st ! j = moment (beta2 grp) (map (\<lambda>x. x * x) (column j gs))"
      "amsgrad grp \<longrightarrow> (\<exists>m. max_exp_avg_sq st = Some m \<and> length m = ?n \<and> (\<forall>j < ?n. m ! j = second_moment grp (column j gs)))" for j
    using w(3) by (auto simp: st_def adam_after_def adam_init_def split: option.splits)
  obtain m where m: "if amsgrad grp then max_exp_avg_sq st = Some m \<and> length m = ?n \<and> (\<forall>j < ?n. m ! j = second_moment grp (column j gs)) else m = []"
    using st(6) by (cases "amsgrad grp") auto
  define avg where "avg = vadd (vscale (beta1 grp) (exp_avg st)) (vscale (1 - beta1 grp) g)"
  define sq where "sq = vadd (vscale (beta2 grp) (exp_avg_sq st)) (vscale (1 - beta2 grp) (vmul g g))"
  have len: "length avg = ?n" "length sq = ?n" using st(2,3) w(2) by (simp_all add: avg_def sq_def)
  have nth: "avg ! j = moment (beta1 grp) (column j (gs @ [g]))" "sq ! j = moment (beta2 grp) (map (\<lambda>x. x * x) (column j (gs @ [g])))" if "j < ?n" for j
    using st(2-5) w(2) that by (simp_all add: avg_def sq_def moment_snoc)
  let ?m = "if amsgrad grp then vmax m sq else sq"
  have root: "length ?m = ?n" "j < ?n \<Longrightarrow> ?m ! j = second_moment grp (column j (gs @ [g]))" for j
    using m len nth by (auto simp: second_moment_snoc Let_def)
  have bias: "beta1 grp ^ ?t \<noteq> 1" "\<not> beta2 grp ^ ?t > 1"
    using b power_less_one_iff [of "beta1 grp" ?t] power_le_one [of "beta2 grp" ?t] by (auto simp del: power_Suc)
  let ?w = "set_data p (vadd (o_data w p) (vscale (- (a_lr grp * rt (1 - beta2 grp ^ ?t) / (1 - beta1 grp ^ ?t)))
       (vdiv avg (map (\<lambda>x. rt x + a_eps grp) ?m))))
     ((set_grad_data p g w)\<lparr>o_adam := (o_adam w)(p := Some \<lparr>a_step = ?t, exp_avg = avg, exp_avg_sq = sq,
        max_exp_avg_sq = (if amsgrad grp then Some (vmax m sq) else max_exp_avg_sq st)\<rparr>)\<rparr>)"
  have "adam_update rt grp p g w = Inr ?w"
    using w(1) b(5) m st(1) bias by (simp add: adam_update_def st_def [symmetric] avg_def sq_def Let_def del: power_Suc)
  moreover have "adam_after rt grp x (gs @ [g]) p ?w"
    using d len nth root by (auto simp: adam_after_def adam_move_column simp del: power_Suc column_snoc(1) map_append)
  ultimately show ?thesis by blast
qed

lemma adam_run_after:
  assumes b: "0 \<le> beta1 grp" "beta1 grp < 1" "0 \<le> beta2 grp" "beta2 grp \<le> 1" "a_weight_decay grp = 0"
    and w: "only_group a_params groups grp p w" "\<not> o_sparse w p" "o_adam w p = None"
  shows "\<forall>g \<in> set gs. length g = length (o_data w p) \<Longrightarrow>
     \<exists>w'. adam_run rt groups p gs w = Inr w' \<and> adam_after rt grp (o_data w p) gs p w' \<and> o_name w' = o_name w \<and> o_shape w' = o_shape w \<and> o_sparse w' = o_sparse w"
proof (induction gs rule: rev_induct)
  case Nil
  then show ?case using w(3) by (simp add: adam_run_def adam_after_def adam_move_def)
next
  case (snoc g gs)
  then obtain v where v: "adam_run rt groups p gs w = Inr v" "adam_after rt grp (o_data w p) gs p v" "o_name v = o_name w" "o_shape v = o_shape w"
      "o_sparse v = o_sparse w" by auto
  let ?v = "set_grad_data p g v"
  have "adam_after rt grp (o_data w p) gs p ?v" using v(2) by (simp add: adam_after_def)
  then obtain w1 where w1: "adam_update rt grp p g ?v = Inr w1" "adam_after rt grp (o_data w p) (gs @ [g]) p w1"
    using adam_update_after [OF b, of ?v p g "o_data w p" rt gs] w(2) v(5) snoc.prems by auto
  note sel = adam_update_sel [OF w1(1)]
  have "only_group a_params groups grp p ?v" using w(1) v(3,4) only_group_cong [of ?v w a_params groups grp p] by simp
  then have "adam_step rt groups p ?v = Inr w1" using w1(1) by (intro adam_step_only) simp_all
  then have "adam_run rt groups p (gs @ [g]) w = Inr (zero_one_grad p w1)" using v(1) by (simp add: adam_run_def fold_res_append)
  moreover have "adam_after rt grp (o_data w p) (gs @ [g]) p (zero_one_grad p w1)" using w1(2) by (simp add: adam_after_def)
  ultimately show ?case using sel v(3-5) by simp
qed

text \<open>
  C25. Adam with bias correction, in closed form: any number of updates of a fresh parameter (dense gradients, no
  weight decay, positive \<open>eps\<close>) raises no error and never divides by zero, and moves each component by the sum
  over the steps of the learning rate times the bias-corrected first moment, times the root of the
  correction of the second moment, over the root of the second moment (with \<open>amsgrad\<close>, of its largest value so
  far) plus \<open>eps\<close>.
\<close>

theorem adam_bias_corrected:
  assumes "0 \<le> beta1 grp" "beta1 grp < 1" "0 \<le> beta2 grp" "beta2 grp \<le> 1" "a_weight_decay grp = 0" "0 < a_eps grp" "\<forall>x \<ge> 0. 0 \<le> rt x"
    and "only_group a_params groups grp p w" "\<not> o_sparse w p" "o_adam w p = None"
    and "\<forall>g \<in> set gs. length g = length (o_data w p)" "j < length (o_data w p)"
  shows "\<exists>w'. adam_run rt groups p gs w = Inr w' \<and> length (o_data w' p) = length (o_data w p)
     \<and> o_data w' p ! j = o_data w p ! j
          - (\<Sum>t = 1..length gs. a_lr grp * (moment (beta1 grp) (take t (map (\<lambda>g. g ! j) gs)) / (1 - beta1 grp ^ t)) * rt (1 - beta2 grp ^ t)
               / (rt (second_moment grp (take t (map (\<lambda>g. g ! j) gs))) + a_eps grp))
     \<and> (\<forall>t. 0 < rt (second_moment grp (take t (map (\<lambda>g. g ! j) gs))) + a_eps grp)"
proof -
  have "0 < rt (second_moment grp xs) + a_eps grp" for xs
    using assms(6,7) second_moment_nonneg [OF assms(3,4), of xs] by (simp add: add_nonneg_pos)
  then show ?thesis
    using adam_run_after [OF assms(1-5,8-11), of rt] assms(12) by (auto simp: adam_after_def adam_move_def column_def)
qed

text \<open>Two equal gradients: both steps use the corrected mean 2, although the running averages are 1 and 3/2.\<close>

theorem adam_bias_corrected_witness:
  "\<exists>w'. adam_run (\<lambda>x. x) [\<lparr>a_params = [0], a_lr = 1 / 10, beta1 = 1 / 2, beta2 = 1 / 2, a_eps = 1, a_weight_decay = 0, amsgrad = False\<rparr>]
       0 [[2, 0], [2, 3]] sgd_example = Inr w'
     \<and> o_data w' 0 ! 0 = 1 - (1 / 10 * 2 * (1 / 2) / 3 + 1 / 10 * 2 * (3 / 4) / 4)"
  using adam_bias_corrected [of "\<lparr>a_params = [0], a_lr = 1 / 10, beta1 = 1 / 2, beta2 = 1 / 2, a_eps = 1, a_weight_decay = 0, amsgrad = False\<rparr>"
      "\<lambda>x. x" "[\<lparr>a_params = [0], a_lr = 1 / 10, beta1 = 1 / 2, beta2 = 1 / 2, a_eps = 1, a_weight_decay = 0, amsgrad = False\<rparr>]"
      0 sgd_example "[[2, 0], [2, 3]]" 0]
  by (simp add: sgd_example_def only_group_def in_group_def Cons_eq_append_conv moment_def second_moment_def numeral_2_eq_2 lessThan_Suc atLeastAtMostSuc_conv)
    blast

section \<open>RMSprop\<close>

text \<open>The centered variant takes the square root of the difference between the mean square and the squared mean.\<close>

definition rms_ok :: "rms_group \<Rightarrow> nat \<Rightarrow> rms_state option \<Rightarrow> bool" where
  "rms_ok grp n s = (case s of
     None \<Rightarrow> True
   | Some st \<Rightarrow> (r_momentum grp > 0 \<longrightarrow> (\<exists>b. momentum_buffer st = Some b \<and> length b = n))
       \<and> (\<exists>ga. grad_avg st = Some ga \<and> length ga = n \<and> length (square_avg st) = n \<and> (\<forall>j < n. (ga ! j)\<^sup>2 \<le> square_avg st ! j)))"

lemma variance_step:
  fixes a :: rat
  assumes "0 \<le> a" "a \<le> 1" "ga\<^sup>2 \<le> s"
  shows "(a * ga + (1 - a) * g)\<^sup>2 \<le> a * s + (1 - a) * (g * g)"
proof -
  have "0 \<le> a * (s - ga\<^sup>2) + a * (1 - a) * (ga - g)\<^sup>2" using assms by simp
  also have "\<dots> = a * s + (1 - a) * (g * g) - (a * ga + (1 - a) * g)\<^sup>2" by (simp add: power2_eq_square algebra_simps)
  finally show ?thesis by simp
qed

text \<open>
  Centered RMSprop never takes the root of a negative number: an update of a dense gradient succeeds
  and keeps the squared mean of the gradients below their mean square in every component, and its result
  depends on the root of non-negative numbers only.
\<close>

theorem rms_centered:
  assumes "r_centered grp" "0 \<le> r_alpha grp" "r_alpha grp \<le> 1" "\<not> o_sparse w p" "length (o_data w p) = n" "length g = n" "rms_ok grp n (o_rms w p)"
    and root: "\<And>x. 0 \<le> x \<Longrightarrow> rt' x = rt x"
  shows "\<exists>w'. rms_update rt grp p g w = Inr w' \<and> rms_update rt' grp p g w = Inr w' \<and> rms_ok grp n (o_rms w' p) \<and> length (o_data w' p) = n"
proof -
  let ?a = "r_alpha grp"
  define st where "st = (case o_rms w p of None \<Rightarrow> rms_init grp (length (o_data w p)) | Some s \<Rightarrow> s)"
  obtain ga where st: "grad_avg st = Some ga" "length ga = n" "length (square_avg st) = n" "\<forall>j < n. (ga ! j)\<^sup>2 \<le> square_avg st ! j"
      "r_momentum grp > 0 \<longrightarrow> (\<exists>b. momentum_buffer st = Some b \<and> length b = n)"
    using assms(1,5,7) by (auto simp: st_def rms_ok_def rms_init_def split: option.splits)
  define h where "h = (if r_weight_decay grp \<noteq> 0 then vadd g (vscale (r_weight_decay grp) (o_data w p)) else g)"
  have h: "length h = n" using assms(5,6) by (simp add: h_def)
  define sq where "sq = vadd (vscale ?a (square_avg st)) (vscale (1 - ?a) (vmul h h))"
  define ga' where "ga' = vadd (vscale ?a ga) (vscale (1 - ?a) h)"
  have var: "j < n \<Longrightarrow> (ga' ! j)\<^sup>2 \<le> sq ! j" "length sq = n" "length ga' = n" for j
    using variance_step [OF assms(2,3), of "ga ! j" "square_avg st ! j" "h ! j"] st h by (simp_all add: sq_def ga'_def)
  have avg: "map (\<lambda>x. rt' x + r_eps grp) (vsub sq (vmul ga' ga')) = map (\<lambda>x. rt x + r_eps grp) (vsub sq (vmul ga' ga'))"
    using root var by (intro nth_equalityI) (simp_all add: power2_eq_square)
  obtain b where b: "r_momentum grp > 0 \<longrightarrow> momentum_buffer st = Some b \<and> length b = n" using st(5) by blast
  show ?thesis
    using assms(1,4,5) st(1-3) b h var avg
    by (cases "r_momentum grp > 0")
       (simp_all add: rms_update_def st_def [symmetric] h_def [symmetric] sq_def [symmetric] ga'_def [symmetric] Let_def rms_ok_def vdiv_def set_data_def
          del: map_eq_conv)
qed

theorem rms_centered_witness:
  "\<exists>w'. rms_update (\<lambda>x. x) \<lparr>r_params = [0], r_lr = 1 / 10, r_alpha = 99 / 100, r_eps = 1 / 1000, r_weight_decay = 1 / 10, r_momentum = 1 / 2, r_centered = True\<rparr>
         0 [2, 5] sgd_example = Inr w'
     \<and> rms_update abs \<lparr>r_params = [0], r_lr = 1 / 10, r_alpha = 99 / 100, r_eps = 1 / 1000, r_weight_decay = 1 / 10, r_momentum = 1 / 2, r_centered = True\<rparr>
         0 [2, 5] sgd_example = Inr w'
     \<and> rms_ok \<lparr>r_params = [0], r_lr = 1 / 10, r_alpha = 99 / 100, r_eps = 1 / 1000, r_weight_decay = 1 / 10, r_momentum = 1 / 2, r_centered = True\<rparr> 2 (o_rms w' 0)
     \<and> length (o_data w' 0) = 2"
  by (rule rms_centered) (simp_all add: sgd_example_def rms_ok_def)

end
