(* ===== verification/Cross_Barrier.thy ===== *)
theory Cross_Barrier
  imports Optim_Update
begin

text \<open>
  \<^verbatim>\<open>byteps/torch/cross_barrier.py\<close>: the optimizer that overlaps the communication of the gradients with
  the next forward pass. Two threads share the state: the main thread, which runs the model and calls
  \<open>step\<close>, and the poller, which takes the pending push-pulls from a queue, waits for each and updates its
  parameter. A lock per parameter keeps the forward pass of a layer from reading a parameter whose
  update is pending.

  Each thread is a step relation, and so is the push-pull service, which answers handles at any time;
  blocking is a rule that is not enabled. The model is a tree of modules. Only its leaves below the root have the hook
  that waits for locks; the other modules read their own parameters without it. What the service answers is a parameter,
  as are the compressor, the square root, the step of the wrapped optimizer and the order in which a set is
  iterated. Logging is left out.
\<close>

section \<open>State\<close>

datatype opt_kind = Sgd "sgd_group list" | Adam "adam_group list" | Rmsprop "rms_group list" | Other_opt

datatype poller = Running | Exited | Died py_error

datatype submodule = Module nat "nat list" "submodule list"

datatype main_pc = Idle | Entering "nat list" submodule | Pushing "nat list" | Waiting | Joining

type_synonym 'x event = "(nat \<times> nat \<times> 'x) option"

record 'x cbar = params +
  b_opt :: opt_kind
  b_step :: nat
  b_final_step :: nat
  b_locks :: "(nat, bool) dict"
  b_handles :: "(nat, (nat \<times> 'x) option) dict"
  b_requires_update :: "nat list"
  b_push_pull_delay :: "(nat, int) dict"
  b_backward_passes :: int
  b_event_queue :: "'x event list"
  b_taken :: "'x event option"
  b_poller :: poller
  b_log :: "(string \<times> rat list) list"
  b_pc :: main_pc
  b_used :: "nat set"
  b_answered :: "nat set"

text \<open>
  The last two fields are not part of the class: the parameters read by the forward pass since the last step,
  and the handles that the service has answered, which \<open>poll\<close> reads.
\<close>

section \<open>Construction\<close>

fun children :: "submodule \<Rightarrow> submodule list" where
  "children (Module n ps ms) = ms"

fun own_params :: "submodule \<Rightarrow> nat list" where
  "own_params (Module n ps ms) = ps"

fun module_size :: "submodule \<Rightarrow> nat" where
  "module_size (Module n ps ms) = Suc (sum_list (map module_size ms))"

lemma module_size_children: "sum_list (map module_size (children m)) < module_size m"
  by (cases m) simp

lemma sum_butlast: "q \<noteq> [] \<Longrightarrow> sum_list (map module_size q) = sum_list (map module_size (butlast q)) + module_size (last q)"
  by (cases q rule: rev_cases) simp_all

text \<open>The stack is a LIFO queue: its top is the end of the list.\<close>

function collect :: "submodule list \<Rightarrow> submodule list \<Rightarrow> submodule list" where
  "collect q submodules =
     (if q = [] then submodules
      else let m = last q; q' = butlast q
           in if children m = [] then collect q' (submodules @ [m]) else collect (q' @ children m) submodules)"
  by pat_completeness auto

termination
proof (relation "measure (\<lambda>(q, _). sum_list (map module_size q))")
  fix q q' :: "submodule list" and m and submodules :: "submodule list"
  assume "q \<noteq> []" "m = last q" "q' = butlast q"
  then have "sum_list (map module_size q) = sum_list (map module_size q') + module_size m" by (simp add: sum_butlast)
  then show "((q', submodules @ [m]), q, submodules) \<in> measure (\<lambda>(q, _). sum_list (map module_size q))"
      "((q' @ children m, submodules), q, submodules) \<in> measure (\<lambda>(q, _). sum_list (map module_size q))"
    using module_size_children [of m] by simp_all
qed simp

declare collect.simps [simp del]

text \<open>The modules on which the hooks are registered, in the order of registration.\<close>

definition hooked_modules :: "submodule \<Rightarrow> submodule list" where
  "hooked_modules model = rev (collect (children model) [])"

definition cb_register_hooks :: "nat list list \<Rightarrow> (nat \<Rightarrow> bool) \<Rightarrow> 'x cbar \<Rightarrow> 'x cbar" where
  "cb_register_hooks groups requires_grad w =
     w\<lparr>o_grad := (\<lambda>p. if p \<in> set (concat groups) \<and> requires_grad p then Some (vzero (length (o_data w p))) else o_grad w p),
       b_requires_update := filter requires_grad (remdups (concat groups))\<rparr>"

definition cb_init :: "nat \<Rightarrow> nat \<Rightarrow> nat list list \<Rightarrow> (nat \<Rightarrow> bool) \<Rightarrow> 'x cbar \<Rightarrow> 'x cbar" where
  "cb_init workers num_steps groups requires_grad w =
     (let w1 = w\<lparr>b_step := 0, b_final_step := num_steps, b_locks := map (\<lambda>p. (p, False)) (remdups (concat groups)), b_pc := Idle, b_used := {}, b_answered := {}\<rparr>
      in if workers > 1
         then (cb_register_hooks groups requires_grad w1)\<lparr>b_event_queue := [], b_taken := None, b_poller := Running\<rparr>
         else w1)"

section \<open>The main thread\<close>

text \<open>The hook after the gradient of a parameter is computed, inherited from the distributed optimizer.\<close>

definition cb_hook :: "nat \<Rightarrow> 'x cbar \<Rightarrow> 'x cbar res" where
  "cb_hook p w =
     bind_res (dict_index (b_push_pull_delay w) p) (\<lambda>d.
     bind_res (assert_res (d > 0)) (\<lambda>_.
       Inr (w\<lparr>b_push_pull_delay := dict_set (b_push_pull_delay w) p (d - 1), b_handles := dict_set (b_handles w) p None\<rparr>)))"

text \<open>The hook before the forward pass of a module, for one of its parameters; it waits for the lock.\<close>

definition pre_forward :: "nat \<Rightarrow> 'x cbar \<Rightarrow> 'x cbar option" where
  "pre_forward p w =
     (let w1 = w\<lparr>b_handles := AList.delete p (b_handles w)\<rparr>
      in case dict_get (b_locks w) p of
           None \<Rightarrow> Some w1
         | Some held \<Rightarrow> if held then None else Some w1)"

definition sync_list :: "(nat set \<Rightarrow> nat list) \<Rightarrow> 'x cbar \<Rightarrow> nat list" where
  "sync_list it w =
     it (set (b_requires_update w) - set (dict_keys (b_handles w))) @ map fst (filter (\<lambda>(p, h). h = None) (b_handles w))"

text \<open>\<open>None\<close> is a blocked call.\<close>

definition cb_push :: "(rat list \<Rightarrow> rat list \<times> 'x) \<Rightarrow> nat \<Rightarrow> 'x cbar \<Rightarrow> 'x cbar res option" where
  "cb_push compress p w =
     (case o_grad w p of
        None \<Rightarrow> Some (Inl AttributeError)
      | Some g \<Rightarrow>
          let (tensor_compressed, ctx) = compress g
          in case dict_get (b_locks w) p of
               None \<Rightarrow> Some (Inl KeyError)
             | Some True \<Rightarrow> None
             | Some False \<Rightarrow>
                 (case o_name w p of
                    None \<Rightarrow> Some (Inl TypeError)
                  | Some name \<Rightarrow>
                      let handle = Suc (length (b_log w))
                      in Some (Inr (w\<lparr>b_locks := dict_set (b_locks w) p True, b_log := b_log w @ [(''Gradient.'' @ name, tensor_compressed)],
                           b_event_queue := b_event_queue w @ [Some (p, handle, ctx)],
                           b_handles := dict_set (b_handles w) p (Some (handle, ctx))\<rparr>))))"

definition cb_zero_grad :: "nat \<Rightarrow> 'x cbar \<Rightarrow> 'x cbar" where
  "cb_zero_grad workers w =
     (if workers > 1 \<and> b_step w > 0 then w else w\<lparr>o_grad := (\<lambda>p. map_option (\<lambda>g. vzero (length g)) (o_grad w p))\<rparr>)"

section \<open>The poller\<close>

definition cb_update :: "(rat \<Rightarrow> rat) \<Rightarrow> nat \<Rightarrow> 'x cbar \<Rightarrow> 'x cbar res" where
  "cb_update rt p w =
     (case b_opt w of
        Sgd groups \<Rightarrow> Inr (sgd_step groups p w)
      | Adam groups \<Rightarrow> adam_step rt groups p w
      | Rmsprop groups \<Rightarrow> rms_step rt groups p w
      | Other_opt \<Rightarrow> Inl ValueError)"

text \<open>The push-pull is finished: take the average, update the parameter, clear its gradient and release its lock.\<close>

definition cb_finish :: "(rat \<Rightarrow> rat) \<Rightarrow> (rat list \<Rightarrow> 'x \<Rightarrow> rat list) \<Rightarrow> rat list \<Rightarrow> nat \<Rightarrow> 'x \<Rightarrow> 'x cbar \<Rightarrow> 'x cbar res" where
  "cb_finish rt decompress output p ctx w =
     bind_res (cb_update rt p (set_grad_data p (decompress output ctx)
        (w\<lparr>b_push_pull_delay := dict_set (b_push_pull_delay w) p (b_backward_passes w)\<rparr>))) (\<lambda>w1.
     let w2 = zero_one_grad p w1
     in case dict_get (b_locks w2) p of
          None \<Rightarrow> Inr w2
        | Some held \<Rightarrow> if held then Inr (w2\<lparr>b_locks := dict_set (b_locks w2) p False\<rparr>) else Inl RuntimeError)"

section \<open>The threads together\<close>

record 'x cb_env =
  e_size :: nat
  e_model :: submodule
  e_order :: "nat set \<Rightarrow> nat list"
  e_compress :: "rat list \<Rightarrow> rat list \<times> 'x"
  e_decompress :: "rat list \<Rightarrow> 'x \<Rightarrow> rat list"
  e_root :: "rat \<Rightarrow> rat"
  e_output :: "nat \<Rightarrow> rat list"
  e_base_step :: "'x cbar \<Rightarrow> nat \<Rightarrow> rat list"

fun modules :: "submodule \<Rightarrow> submodule list" where
  "modules (Module n ps ms) = Module n ps ms # concat (map modules ms)"

text \<open>The modules that have the forward hook; with one worker none is registered.\<close>

definition hooks :: "'x cb_env \<Rightarrow> submodule set" where
  "hooks E = (if e_size E > 1 then set (hooked_modules (e_model E)) else {})"

text \<open>
  The main thread runs the forward pass of a module: a module with a hook first waits for the locks of its parameters
  one by one (\<open>enter\<close>, \<open>hook\<close>, \<open>forward\<close>), any other reads its parameters at once (\<open>forward_plain\<close>). It computes a gradient
  (\<open>backward\<close>) of a parameter that was used, clears gradients, or is somewhere in \<open>step\<close>: it sends the
  gradients one by one (\<open>push\<close>), and in the final step waits for the queue to be empty, puts the end mark
  and joins the poller.
\<close>

inductive cb_main :: "'x cb_env \<Rightarrow> 'x cbar \<Rightarrow> 'x cbar \<Rightarrow> bool" for E where
  enter: "b_pc w = Idle \<Longrightarrow> m \<in> hooks E \<Longrightarrow> cb_main E w (w\<lparr>b_pc := Entering (own_params m) m\<rparr>)"
| hook: "b_pc w = Entering (p # ps) m \<Longrightarrow> pre_forward p w = Some w' \<Longrightarrow> cb_main E w (w'\<lparr>b_pc := Entering ps m\<rparr>)"
| forward: "b_pc w = Entering [] m \<Longrightarrow> cb_main E w (w\<lparr>b_pc := Idle, b_used := set (own_params m) \<union> b_used w\<rparr>)"
| forward_plain: "b_pc w = Idle \<Longrightarrow> m \<in> set (modules (e_model E)) \<Longrightarrow> m \<notin> hooks E \<Longrightarrow>
    cb_main E w (w\<lparr>b_used := set (own_params m) \<union> b_used w\<rparr>)"
| backward: "b_pc w = Idle \<Longrightarrow> p \<in> b_used w \<Longrightarrow> o_grad w p = Some g0 \<Longrightarrow> length g = length g0 \<Longrightarrow>
    cb_hook p (set_grad_data p (vadd g0 g) w) = Inr w' \<Longrightarrow> cb_main E w w'"
| zero: "b_pc w = Idle \<Longrightarrow> cb_main E w (cb_zero_grad (e_size E) w)"
| first: "b_pc w = Idle \<Longrightarrow> \<not> (e_size E > 1 \<and> b_step w > 0) \<Longrightarrow>
    cb_main E w (w\<lparr>o_data := e_base_step E w, b_step := Suc (b_step w), b_used := {}\<rparr>)"
| start: "b_pc w = Idle \<Longrightarrow> e_size E > 1 \<Longrightarrow> b_step w > 0 \<Longrightarrow>
    cb_main E w (w\<lparr>b_pc := Pushing (sync_list (e_order E) w), b_used := {}\<rparr>)"
| push: "b_pc w = Pushing (p # ps) \<Longrightarrow> cb_push (e_compress E) p w = Some (Inr w') \<Longrightarrow> cb_main E w (w'\<lparr>b_pc := Pushing ps\<rparr>)"
| pushed: "b_pc w = Pushing [] \<Longrightarrow> b_step w \<noteq> b_final_step w \<Longrightarrow> cb_main E w (w\<lparr>b_pc := Idle, b_step := Suc (b_step w)\<rparr>)"
| pushed_last: "b_pc w = Pushing [] \<Longrightarrow> b_step w = b_final_step w \<Longrightarrow> cb_main E w (w\<lparr>b_pc := Waiting\<rparr>)"
| wait: "b_pc w = Waiting \<Longrightarrow> b_event_queue w = [] \<Longrightarrow> cb_main E w (w\<lparr>b_pc := Joining, b_event_queue := [None]\<rparr>)"
| join: "b_pc w = Joining \<Longrightarrow> b_poller w \<noteq> Running \<Longrightarrow> cb_main E w (w\<lparr>b_pc := Idle, b_step := Suc (b_step w)\<rparr>)"

text \<open>
  The poller takes an event. If the service has answered its handle, it finishes the event, and otherwise it puts it back.
\<close>

inductive cb_poll :: "'x cb_env \<Rightarrow> 'x cbar \<Rightarrow> 'x cbar \<Rightarrow> bool" for E where
  get: "b_poller w = Running \<Longrightarrow> b_taken w = None \<Longrightarrow> b_event_queue w = e # q \<Longrightarrow>
    cb_poll E w (w\<lparr>b_taken := Some e, b_event_queue := q\<rparr>)"
| quit: "b_poller w = Running \<Longrightarrow> b_taken w = Some None \<Longrightarrow> cb_poll E w (w\<lparr>b_taken := None, b_poller := Exited\<rparr>)"
| finish: "b_poller w = Running \<Longrightarrow> b_taken w = Some (Some (p, h, ctx)) \<Longrightarrow> h \<in> b_answered w \<Longrightarrow>
    cb_finish (e_root E) (e_decompress E) (e_output E h) p ctx w = Inr w' \<Longrightarrow> cb_poll E w (w'\<lparr>b_taken := None\<rparr>)"
| die: "b_poller w = Running \<Longrightarrow> b_taken w = Some (Some (p, h, ctx)) \<Longrightarrow> h \<in> b_answered w \<Longrightarrow>
    cb_finish (e_root E) (e_decompress E) (e_output E h) p ctx w = Inl err \<Longrightarrow> cb_poll E w (w\<lparr>b_poller := Died err\<rparr>)"
| retry: "b_poller w = Running \<Longrightarrow> b_taken w = Some (Some (p, h, ctx)) \<Longrightarrow> h \<notin> b_answered w \<Longrightarrow>
    cb_poll E w (w\<lparr>b_taken := None, b_event_queue := b_event_queue w @ [Some (p, h, ctx)]\<rparr>)"

text \<open>The service answers a handle that was given out.\<close>

inductive cb_answer :: "'x cbar \<Rightarrow> 'x cbar \<Rightarrow> bool" where
  answer: "h \<in> {1..length (b_log w)} \<Longrightarrow> cb_answer w (w\<lparr>b_answered := insert h (b_answered w)\<rparr>)"

definition cb_next :: "'x cb_env \<Rightarrow> 'x cbar \<Rightarrow> 'x cbar \<Rightarrow> bool" where
  "cb_next E w w' \<longleftrightarrow> cb_main E w w' \<or> cb_poll E w w' \<or> cb_answer w w'"

lemma cb_nextI: "cb_main E w w' \<Longrightarrow> cb_next E w w'" "cb_poll E w w' \<Longrightarrow> cb_next E w w'" "cb_answer w w' \<Longrightarrow> cb_next E w w'"
  by (simp_all add: cb_next_def)

section \<open>Registration of the hooks\<close>

fun leaves :: "submodule \<Rightarrow> submodule list" where
  "leaves (Module n ps ms) = (if ms = [] then [Module n ps ms] else concat (map leaves ms))"

lemma leaves_children: "leaves m = (if children m = [] then [m] else concat (map leaves (children m)))"
  by (cases m) simp

lemma collect_leaves: "collect q submodules = submodules @ rev (concat (map leaves q))"
proof (induction q submodules rule: collect.induct)
  case (1 q submodules)
  show ?case
  proof (cases "q = []")
    case True
    then show ?thesis by (simp add: collect.simps)
  next
    case False
    define m q' where mq: "m = last q" "q' = butlast q"
    then have q: "q = q' @ [m]" using False by simp
    show ?thesis
    proof (cases "children m = []")
      case True
      then show ?thesis using "1.IH"(1) [OF False mq] leaves_children [of m] q
        by (subst collect.simps) (simp add: Let_def)
    next
      case F: False
      then show ?thesis using "1.IH"(2) [OF False mq] leaves_children [of m] q
        by (subst collect.simps) (simp add: Let_def)
    qed
  qed
qed

text \<open>
  The search for submodules ends, and it visits exactly the leaf modules: the forward hooks are
  registered on the leaves of the module tree from left to right, each once.
\<close>

theorem hooked_modules_leaves: "hooked_modules model = concat (map leaves (children model))"
  by (simp add: hooked_modules_def collect_leaves)

section \<open>The locks\<close>

fun event_params :: "'x event list \<Rightarrow> nat list" where
  "event_params [] = []"
| "event_params (None # es) = event_params es"
| "event_params (Some (p, h, ctx) # es) = p # event_params es"

lemma event_params_append [simp]: "event_params (xs @ ys) = event_params xs @ event_params ys"
  by (induction xs rule: event_params.induct) simp_all

lemma event_params_snoc [simp]: "event_params [e] = (case e of None \<Rightarrow> [] | Some (p, h, ctx) \<Rightarrow> [p])"
  by (simp split: option.splits)

text \<open>The events that wait, with the poller or in the queue, and the parameters whose update is pending.\<close>

definition events :: "'x cbar \<Rightarrow> 'x event list" where
  "events w = (case b_taken w of None \<Rightarrow> [] | Some e \<Rightarrow> [e]) @ b_event_queue w"

definition pending :: "'x cbar \<Rightarrow> nat list" where
  "pending w = event_params (events w)"

text \<open>The parameters that some module reads without waiting for their locks.\<close>

definition unhooked :: "'x cb_env \<Rightarrow> nat set" where
  "unhooked E = (\<Union>m \<in> set (modules (e_model E)) - hooks E. set (own_params m))"

definition cb_inv :: "'x cb_env \<Rightarrow> 'x cbar \<Rightarrow> bool" where
  "cb_inv E w \<longleftrightarrow> distinct (pending w) \<and> dict_ok (b_handles w)
     \<and> (\<forall>p. dict_get (b_locks w) p = Some True \<longleftrightarrow> p \<in> set (pending w))
     \<and> (\<forall>p \<in> set (pending w) - unhooked E. \<exists>x. dict_get (b_handles w) p = Some (Some x))
     \<and> (\<forall>p \<in> b_used w. p \<in> set (pending w) \<longrightarrow> p \<in> unhooked E)
     \<and> (b_used w \<noteq> {} \<longrightarrow> b_pc w = Idle \<or> (\<exists>ps m. b_pc w = Entering ps m))
     \<and> (\<forall>ps m. b_pc w = Entering ps m \<longrightarrow> (\<exists>qs. own_params m = qs @ ps \<and> set qs \<inter> set (pending w) = {}))
     \<and> (\<forall>ps. b_pc w = Pushing ps \<longrightarrow> distinct ps \<and> set ps \<inter> set (pending w) \<subseteq> unhooked E)
     \<and> (\<forall>p h ctx. Some (p, h, ctx) \<in> set (events w) \<longrightarrow> h \<le> length (b_log w))"

lemma cb_invD:
  assumes "cb_inv E w"
  shows "distinct (pending w)" "dict_ok (b_handles w)" "dict_get (b_locks w) p = Some True \<longleftrightarrow> p \<in> set (pending w)"
    "p \<in> set (pending w) \<Longrightarrow> p \<notin> unhooked E \<Longrightarrow> \<exists>x. dict_get (b_handles w) p = Some (Some x)"
    "p \<in> b_used w \<Longrightarrow> p \<in> set (pending w) \<Longrightarrow> p \<in> unhooked E" "b_pc w \<noteq> Idle \<Longrightarrow> (\<And>ps m. b_pc w \<noteq> Entering ps m) \<Longrightarrow> b_used w = {}"
    "b_pc w = Pushing ps \<Longrightarrow> distinct ps \<and> set ps \<inter> set (pending w) \<subseteq> unhooked E"
    "b_pc w = Entering ps m \<Longrightarrow> \<exists>qs. own_params m = qs @ ps \<and> set qs \<inter> set (pending w) = {}"
    "Some (q, h, ctx) \<in> set (events w) \<Longrightarrow> h \<le> length (b_log w)"
  using assms unfolding cb_inv_def by blast+

text \<open>The updates of a parameter leave the threads' fields alone.\<close>

definition threads :: "'x cbar \<Rightarrow> 'x cbar" where
  "threads w = w\<lparr>o_data := \<lambda>_. [], o_grad := \<lambda>_. None, o_buf := \<lambda>_. None, o_adam := \<lambda>_. None, o_rms := \<lambda>_. None\<rparr>"

lemma threads_sgd_group [simp]: "threads (sgd_group_step p g w) = threads w"
  by (simp add: sgd_group_step_def sgd_update_def set_data_def set_grad_data_def threads_def Let_def split: option.splits)

lemma threads_sgd [simp]: "threads (sgd_step groups p w) = threads w"
  unfolding sgd_step_def by (induction groups arbitrary: w) simp_all

lemma threads_adam_group: "adam_group_step rt p g w = Inr w' \<Longrightarrow> threads w' = threads w"
  by (auto simp: adam_group_step_def adam_update_def set_data_def set_grad_data_def threads_def Let_def bind_res_def
      split: option.splits if_splits sum.splits)

lemma threads_rms_group: "rms_group_step rt p g w = Inr w' \<Longrightarrow> threads w' = threads w"
  by (auto simp: rms_group_step_def rms_update_def set_data_def threads_def Let_def bind_res_def
      split: option.splits if_splits sum.splits)

lemma threads_fold_res:
  assumes "\<And>x w w'. f x w = Inr w' \<Longrightarrow> threads w' = threads w"
  shows "fold_res f xs w = Inr w' \<Longrightarrow> threads w' = threads w"
proof (induction xs arbitrary: w)
  case (Cons x xs)
  then obtain w1 where "f x w = Inr w1" "fold_res f xs w1 = Inr w'" by (auto simp: bind_res_def split: sum.splits)
  with Cons.IH assms show ?case by metis
qed simp

lemma threads_adam: "adam_step rt groups p w = Inr w' \<Longrightarrow> threads w' = threads w"
  unfolding adam_step_def by (rule threads_fold_res) (rule threads_adam_group)

lemma threads_rms: "rms_step rt groups p w = Inr w' \<Longrightarrow> threads w' = threads w"
  unfolding rms_step_def by (rule threads_fold_res) (rule threads_rms_group)

lemma threads_update: "cb_update rt p w = Inr w' \<Longrightarrow> threads w' = threads w"
  by (auto simp: cb_update_def split: opt_kind.splits dest: threads_adam threads_rms)

lemma threads_sel:
  assumes "threads w' = threads w"
  shows "b_taken w' = b_taken w" "b_event_queue w' = b_event_queue w" "b_handles w' = b_handles w" "b_locks w' = b_locks w"
    "b_used w' = b_used w" "b_pc w' = b_pc w" "b_poller w' = b_poller w" "pending w' = pending w" "b_log w' = b_log w" "b_answered w' = b_answered w"
    "b_opt w' = b_opt w" "events w' = events w"
  using arg_cong [OF assms, of b_taken] arg_cong [OF assms, of b_event_queue] arg_cong [OF assms, of b_handles] arg_cong [OF assms, of b_locks]
    arg_cong [OF assms, of b_used] arg_cong [OF assms, of b_pc] arg_cong [OF assms, of b_poller] arg_cong [OF assms, of b_log]
    arg_cong [OF assms, of b_answered] arg_cong [OF assms, of b_opt]
  by (simp_all add: threads_def pending_def events_def)

lemma threads_zero_one [simp]: "threads (zero_one_grad p w) = threads w" "threads (set_grad_data p g w) = threads w"
  by (simp_all add: zero_one_grad_def set_grad_data_def threads_def split: option.splits)

lemma set_grad_cbar [simp]:
  "b_locks (set_grad_data p g w) = b_locks w" "b_taken (set_grad_data p g w) = b_taken w" "b_event_queue (set_grad_data p g w) = b_event_queue w"
  "b_handles (set_grad_data p g w) = b_handles w" "b_used (set_grad_data p g w) = b_used w" "b_pc (set_grad_data p g w) = b_pc w"
  "b_poller (set_grad_data p g w) = b_poller w" "b_push_pull_delay (set_grad_data p g w) = b_push_pull_delay w"
  "b_log (set_grad_data p g w) = b_log w" "b_answered (set_grad_data p g w) = b_answered w" "b_opt (set_grad_data p g w) = b_opt w"
  by (simp_all add: set_grad_data_def)

lemma cb_finish_run:
  assumes "cb_finish rt decompress output p ctx w = Inr w'" "dict_get (b_locks w) p = Some True"
  shows "b_taken w' = b_taken w" "b_event_queue w' = b_event_queue w" "b_handles w' = b_handles w" "b_used w' = b_used w" "b_pc w' = b_pc w"
    "b_locks w' = dict_set (b_locks w) p False" "b_poller w' = b_poller w" "b_log w' = b_log w" "b_answered w' = b_answered w" "b_opt w' = b_opt w"
proof -
  let ?w = "set_grad_data p (decompress output ctx) (w\<lparr>b_push_pull_delay := dict_set (b_push_pull_delay w) p (b_backward_passes w)\<rparr>)"
  obtain w1 where w1: "cb_update rt p ?w = Inr w1" using assms(1) by (auto simp: cb_finish_def bind_res_def split: sum.splits)
  have "threads (zero_one_grad p w1) = threads ?w" using threads_update [OF w1] by simp
  note sel = threads_sel [OF this]
  have "w' = (zero_one_grad p w1)\<lparr>b_locks := dict_set (b_locks (zero_one_grad p w1)) p False\<rparr>"
    using assms sel(4) by (simp add: cb_finish_def w1 Let_def)
  then show "b_taken w' = b_taken w" "b_event_queue w' = b_event_queue w" "b_handles w' = b_handles w" "b_used w' = b_used w" "b_pc w' = b_pc w"
      "b_locks w' = dict_set (b_locks w) p False" "b_poller w' = b_poller w" "b_log w' = b_log w" "b_answered w' = b_answered w" "b_opt w' = b_opt w"
    using sel by simp_all
qed

text \<open>A step sends each parameter once, and none that waits, unless a module reads it without waiting.\<close>

lemma sync_list_free:
  assumes "cb_inv E w" "\<And>A. finite A \<Longrightarrow> distinct (it A) \<and> set (it A) = A"
  shows "distinct (sync_list it w)" "set (sync_list it w) \<inter> set (pending w) \<subseteq> unhooked E"
proof -
  note it = assms(2) [of "set (b_requires_update w) - set (dict_keys (b_handles w))", simplified]
  have ok: "distinct (map fst (b_handles w))" using cb_invD(2) [OF assms(1)] by (simp add: dict_ok_def dict_keys_def)
  then show "distinct (sync_list it w)"
    using it by (auto simp: sync_list_def distinct_map_filter dict_keys_def)
  show "set (sync_list it w) \<inter> set (pending w) \<subseteq> unhooked E"
  proof
    fix p assume p: "p \<in> set (sync_list it w) \<inter> set (pending w)"
    show "p \<in> unhooked E"
    proof (rule ccontr)
      assume "p \<notin> unhooked E"
      then obtain x where "dict_get (b_handles w) p = Some (Some x)" using cb_invD(4) [OF assms(1)] p by blast
      then have "(p, Some x) \<in> set (b_handles w)" "p \<in> set (dict_keys (b_handles w))" by (auto simp: dict_keys_def dest!: map_of_SomeD intro: rev_image_eqI)
      with p ok it show False by (auto simp: sync_list_def dest: eq_key_imp_eq_value)
    qed
  qed
qed

definition order_ok :: "'x cb_env \<Rightarrow> bool" where
  "order_ok E \<longleftrightarrow> (\<forall>A. finite A \<longrightarrow> distinct (e_order E A) \<and> set (e_order E A) = A)"

lemma events_cong: "b_taken w' = b_taken w \<Longrightarrow> b_event_queue w' = b_event_queue w \<Longrightarrow> events w' = events w \<and> pending w' = pending w"
  by (simp add: events_def pending_def)

lemma cb_inv_same:
  assumes "cb_inv E w" "events w' = events w" "b_log w' = b_log w" "b_locks w' = b_locks w" "b_handles w' = b_handles w" "b_used w' = b_used w" "b_pc w' = b_pc w"
  shows "cb_inv E w'"
  using assms unfolding cb_inv_def pending_def by simp

lemma cb_push_run:
  assumes "cb_push compress p w = Some (Inr w')"
  shows "\<exists>ctx l. w' = w\<lparr>b_locks := dict_set (b_locks w) p True, b_log := b_log w @ [l],
      b_event_queue := b_event_queue w @ [Some (p, Suc (length (b_log w)), ctx)], b_handles := dict_set (b_handles w) p (Some (Suc (length (b_log w)), ctx))\<rparr>
    \<and> dict_get (b_locks w) p = Some False"
  using assms by (auto simp: cb_push_def Let_def split: option.splits prod.splits bool.splits)

lemma cb_push_inv:
  assumes "cb_inv E w" "b_pc w = Pushing (p # ps)" "cb_push compress p w = Some (Inr w')"
  shows "cb_inv E (w'\<lparr>b_pc := Pushing ps\<rparr>)"
proof -
  obtain ctx l where w': "w' = w\<lparr>b_locks := dict_set (b_locks w) p True, b_log := b_log w @ [l],
      b_event_queue := b_event_queue w @ [Some (p, Suc (length (b_log w)), ctx)], b_handles := dict_set (b_handles w) p (Some (Suc (length (b_log w)), ctx))\<rparr>"
    and free: "dict_get (b_locks w) p = Some False" using cb_push_run [OF assms(3)] by blast
  let ?w = "w'\<lparr>b_pc := Pushing ps\<rparr>"
  have ev: "events ?w = events w @ [Some (p, Suc (length (b_log w)), ctx)]" by (simp add: w' events_def)
  then have pend: "pending ?w = pending w @ [p]" by (simp add: pending_def)
  note inv = cb_invD [OF assms(1)]
  have p: "p \<notin> set (pending w)" using inv(3) [of p] free by simp
  have ps: "distinct (p # ps)" "set ps \<inter> set (pending w) \<subseteq> unhooked E" using inv(7) [OF assms(2)] by auto
  have log: "\<forall>q i c. Some (q, i, c) \<in> set (events w) \<longrightarrow> i \<le> length (b_log w)" using assms(1) by (simp add: cb_inv_def)
  have "b_used w = {}" using inv(6) assms(2) by simp
  then show ?thesis unfolding cb_inv_def pend ev using inv(1-4) p ps log by (auto simp: w' le_SucI)
qed

lemma cb_finish_inv:
  assumes "cb_inv E w" "b_taken w = Some (Some (p, h, ctx))" "cb_finish rt dec out p ctx w = Inr w'"
  shows "cb_inv E (w'\<lparr>b_taken := None\<rparr>)"
proof -
  note inv = cb_invD [OF assms(1)]
  have ew: "events w = Some (p, h, ctx) # b_event_queue w" using assms(2) by (simp add: events_def)
  then have pw: "pending w = p # event_params (b_event_queue w)" by (simp add: pending_def)
  then have "dict_get (b_locks w) p = Some True" using inv(3) by simp
  note f = cb_finish_run [OF assms(3) this]
  have ev: "events (w'\<lparr>b_taken := None\<rparr>) = b_event_queue w" using f(2) by (simp add: events_def)
  then have pend: "pending (w'\<lparr>b_taken := None\<rparr>) = event_params (b_event_queue w)" by (simp add: pending_def)
  have p: "p \<notin> set (event_params (b_event_queue w))" using inv(1) pw by simp
  have en: "b_pc w = Entering ps m \<Longrightarrow> \<exists>qs. own_params m = qs @ ps \<and> set qs \<inter> set (event_params (b_event_queue w)) = {}" for ps m
    using inv(8) [of ps m] pw by fastforce
  have used: "b_used w \<noteq> {} \<longrightarrow> b_pc w = Idle \<or> (\<exists>ps m. b_pc w = Entering ps m)" using assms(1) by (simp add: cb_inv_def)
  have log: "\<forall>q i c. Some (q, i, c) \<in> set (b_event_queue w) \<longrightarrow> i \<le> length (b_log w)" using assms(1) ew by (simp add: cb_inv_def)
  show ?thesis unfolding cb_inv_def pend ev using inv(1-5,7) pw f p en used log by (auto simp: f)
qed

lemma cb_hook_run:
  assumes "cb_hook p w = Inr w'"
  shows "b_handles w' = dict_set (b_handles w) p None" "b_locks w' = b_locks w" "b_used w' = b_used w" "b_pc w' = b_pc w" "events w' = events w"
    "b_log w' = b_log w" "b_opt w' = b_opt w" "b_answered w' = b_answered w" "b_poller w' = b_poller w" "b_taken w' = b_taken w" "b_event_queue w' = b_event_queue w"
  using assms by (auto simp: cb_hook_def bind_res_def events_def split: sum.splits)

lemma cb_zero_grad_sel [simp]:
  "b_handles (cb_zero_grad n w) = b_handles w" "b_locks (cb_zero_grad n w) = b_locks w" "b_used (cb_zero_grad n w) = b_used w"
  "b_pc (cb_zero_grad n w) = b_pc w" "events (cb_zero_grad n w) = events w" "b_log (cb_zero_grad n w) = b_log w" "b_opt (cb_zero_grad n w) = b_opt w"
  "b_answered (cb_zero_grad n w) = b_answered w" "b_poller (cb_zero_grad n w) = b_poller w" "b_taken (cb_zero_grad n w) = b_taken w"
  "b_event_queue (cb_zero_grad n w) = b_event_queue w"
  by (simp_all add: cb_zero_grad_def events_def)

lemma pre_forward_run: "pre_forward p w = Some w' \<Longrightarrow> w' = w\<lparr>b_handles := AList.delete p (b_handles w)\<rparr> \<and> dict_get (b_locks w) p \<noteq> Some True"
  by (auto simp: pre_forward_def Let_def split: option.splits if_splits)

lemma hook_inv:
  assumes "cb_inv E w" "b_pc w = Entering (p # ps) m" "pre_forward p w = Some w'"
  shows "cb_inv E (w'\<lparr>b_pc := Entering ps m\<rparr>)"
proof -
  note inv = cb_invD [OF assms(1)]
  have w': "w' = w\<lparr>b_handles := AList.delete p (b_handles w)\<rparr>" "dict_get (b_locks w) p \<noteq> Some True"
    using pre_forward_run [OF assms(3)] by simp_all
  have ev: "events (w'\<lparr>b_pc := Entering ps m\<rparr>) = events w" by (simp add: w' events_def)
  have p: "p \<notin> set (pending w)" using w'(2) inv(3) by blast
  obtain qs where "own_params m = qs @ p # ps" "set qs \<inter> set (pending w) = {}" using inv(8) [OF assms(2)] by blast
  then have "\<exists>qs. own_params m = qs @ ps \<and> set qs \<inter> set (pending w) = {}" using p by (intro exI [of _ "qs @ [p]"]) simp
  moreover have "dict_ok (AList.delete p (b_handles w))" using inv(2) by (simp add: dict_ok_def dict_keys_def distinct_delete)
  ultimately show ?thesis unfolding cb_inv_def pending_def ev using inv(1,3-5,9) p by (auto simp: w'(1) delete_conv' pending_def)
qed

lemma backward_inv:
  assumes "cb_inv E w" "b_pc w = Idle" "p \<in> b_used w" "cb_hook p (set_grad_data p g w) = Inr w'"
  shows "cb_inv E w'"
proof -
  note inv = cb_invD [OF assms(1)]
  note h = cb_hook_run [OF assms(4)]
  have ev: "events w' = events w" using h(5) events_cong [of "set_grad_data p g w" w] by simp
  have "b_log (set_grad_data p g w) = b_log w" by (simp add: set_grad_data_def)
  then show ?thesis unfolding cb_inv_def pending_def ev using inv(1-5,9) assms(2,3) by (auto simp: h pending_def)
qed

lemma unhooked_module: "m \<in> set (modules (e_model E)) \<Longrightarrow> m \<notin> hooks E \<Longrightarrow> set (own_params m) \<subseteq> unhooked E"
  by (auto simp: unhooked_def)

lemma cb_main_inv:
  assumes "cb_main E w w'" "order_ok E" "cb_inv E w"
  shows "cb_inv E w'"
  using assms(1,3)
proof (induction rule: cb_main.induct)
  case (hook w p ps m w')
  then show ?case by (intro hook_inv)
next
  case (forward w m)
  have "set (own_params m) \<inter> set (pending w) = {}" using cb_invD(8) [OF forward.prems forward.hyps] by auto
  then show ?case using cb_invD [OF forward.prems] by (auto simp: cb_inv_def events_def pending_def)
next
  case (forward_plain w m)
  then show ?case using unhooked_module [of m E] cb_invD [OF forward_plain.prems] by (auto simp: cb_inv_def events_def pending_def)
next
  case (backward w p g0 g w')
  then show ?case by (intro backward_inv [of E w p "vadd g0 g" w']) simp_all
next
  case (zero w)
  then show ?case by (intro cb_inv_same [OF zero.prems]) simp_all
next
  case (start w)
  have ev: "events (w\<lparr>b_pc := Pushing (sync_list (e_order E) w), b_used := {}\<rparr>) = events w" by (simp add: events_def)
  show ?case using sync_list_free [OF start.prems, of "e_order E"] assms(2) cb_invD [OF start.prems]
    unfolding cb_inv_def pending_def ev by (auto simp: order_ok_def pending_def)
next
  case (push w p ps w')
  then show ?case by (intro cb_push_inv)
next
  case (wait w)
  have ev: "events (w\<lparr>b_pc := Joining, b_event_queue := [None]\<rparr>) = events w @ [None]" using wait.hyps by (simp add: events_def)
  then have "pending (w\<lparr>b_pc := Joining, b_event_queue := [None]\<rparr>) = pending w" by (simp add: pending_def)
  then show ?case using cb_invD [OF wait.prems] wait.hyps ev unfolding cb_inv_def by auto
qed (auto simp: cb_inv_def events_def pending_def)

lemma cb_poll_inv:
  assumes "cb_poll E w w'" "cb_inv E w"
  shows "cb_inv E w'"
  using assms
proof (induction rule: cb_poll.induct)
  case (get w e q)
  then show ?case by (intro cb_inv_same [OF get.prems]) (simp_all add: events_def)
next
  case (finish w p h ctx w')
  then show ?case by (intro cb_finish_inv)
next
  case (retry w p h ctx)
  let ?w = "w\<lparr>b_taken := None, b_event_queue := b_event_queue w @ [Some (p, h, ctx)]\<rparr>"
  have ev: "events w = Some (p, h, ctx) # b_event_queue w" "events ?w = b_event_queue w @ [Some (p, h, ctx)]" using retry.hyps by (simp_all add: events_def)
  have s: "set (events ?w) = set (events w)" "set (pending ?w) = set (pending w)" "distinct (pending ?w) = distinct (pending w)"
    by (auto simp: ev pending_def)
  show ?case using retry.prems unfolding cb_inv_def s by simp
next
  case (quit w)
  let ?w = "w\<lparr>b_taken := None, b_poller := Exited\<rparr>"
  have ev: "events w = None # events ?w" using quit.hyps by (simp add: events_def)
  then have "pending ?w = pending w" by (simp add: pending_def)
  then show ?case using quit.prems ev unfolding cb_inv_def by simp
next
  case (die w p h ctx err)
  then show ?case by (intro cb_inv_same [OF die.prems]) (simp_all add: events_def)
qed

lemma cb_answer_inv: "cb_answer w w' \<Longrightarrow> cb_inv E w \<Longrightarrow> cb_inv E w'"
  by (induction rule: cb_answer.induct) (rule cb_inv_same, assumption, simp_all add: events_def)

lemma cb_next_inv: "cb_next E w w' \<Longrightarrow> order_ok E \<Longrightarrow> cb_inv E w \<Longrightarrow> cb_inv E w'"
  unfolding cb_next_def using cb_main_inv cb_poll_inv cb_answer_inv by blast

lemma cb_reach_inv: "(cb_next E)\<^sup>*\<^sup>* w w' \<Longrightarrow> order_ok E \<Longrightarrow> cb_inv E w \<Longrightarrow> cb_inv E w'"
  by (induction rule: rtranclp_induct) (auto intro: cb_next_inv)

lemma init_locks: "dict_get (map (\<lambda>p. (p, False)) ps) p = (if p \<in> set ps then Some False else None)"
  by (induction ps) auto

lemma cb_init_inv:
  assumes "workers > 1" "b_handles w = []"
  shows "cb_inv E (cb_init workers steps groups rg w)"
  using assms by (simp add: cb_inv_def cb_init_def cb_register_hooks_def events_def pending_def init_locks Let_def)

text \<open>
  C6. Dependencies are kept for parameters that are read behind the hook: in every state that the two threads
  and the service can reach, a parameter is locked exactly while its update is pending, and no parameter has two pending updates. For
  every parameter that no module without the hook owns (the model itself and modules with submodules have none): if the
  forward pass has read it since the last step, it has no pending update (so neither its value nor its gradient is changed
  behind the model's back), and \<open>step\<close> never blocks on its lock.
\<close>

theorem cb_dependencies:
  assumes "order_ok E" "e_size E > 1" "b_handles w0 = []" "(cb_next E)\<^sup>*\<^sup>* (cb_init (e_size E) steps groups rg w0) w"
  shows "(\<forall>p. dict_get (b_locks w) p = Some True \<longleftrightarrow> p \<in> set (pending w)) \<and> distinct (pending w)
     \<and> b_used w \<inter> set (pending w) \<subseteq> unhooked E
     \<and> (\<forall>p ps. b_pc w = Pushing (p # ps) \<and> p \<notin> unhooked E \<longrightarrow> cb_push (e_compress E) p w \<noteq> None)"
proof -
  have inv: "cb_inv E w" using cb_reach_inv [OF assms(4,1)] cb_init_inv [OF assms(2,3)] by blast
  note d = cb_invD [OF inv]
  have "cb_push (e_compress E) p w \<noteq> None" if pc: "b_pc w = Pushing (p # ps)" "p \<notin> unhooked E" for p ps
  proof -
    have "dict_get (b_locks w) p \<noteq> Some True" using d(3,7) pc by auto
    then show ?thesis by (auto simp: cb_push_def Let_def split: option.splits prod.splits bool.splits)
  qed
  then show ?thesis using d(1,3,5) by blast
qed

section \<open>A parameter that is read without waiting\<close>

text \<open>The loop of a step that finds all locks free: it sends every parameter of the list.\<close>

lemma push_all:
  assumes "b_pc w = Pushing ps" "distinct ps" "\<forall>p \<in> set ps. dict_get (b_locks w) p = Some False \<and> o_grad w p \<noteq> None \<and> o_name w p \<noteq> None"
  shows "\<exists>w'. (cb_next E)\<^sup>*\<^sup>* w w' \<and> b_pc w' = Pushing [] \<and> pending w' = pending w @ ps \<and> b_step w' = b_step w \<and> b_final_step w' = b_final_step w
     \<and> o_data w' = o_data w"
  using assms
proof (induction ps arbitrary: w)
  case (Cons p ps)
  obtain g name where g: "o_grad w p = Some g" "o_name w p = Some name" "dict_get (b_locks w) p = Some False" using Cons.prems(3) by auto
  obtain t ctx where t: "e_compress E g = (t, ctx)" by (cases "e_compress E g")
  let ?w = "w\<lparr>b_locks := dict_set (b_locks w) p True, b_log := b_log w @ [(''Gradient.'' @ name, t)],
      b_event_queue := b_event_queue w @ [Some (p, Suc (length (b_log w)), ctx)],
      b_handles := dict_set (b_handles w) p (Some (Suc (length (b_log w)), ctx)), b_pc := Pushing ps\<rparr>"
  have "cb_push (e_compress E) p w = Some (Inr (?w\<lparr>b_pc := b_pc w\<rparr>))" using g t by (simp add: cb_push_def Let_def)
  then have s: "cb_next E w ?w" using cb_main.push [OF Cons.prems(1)] by (force intro: cb_nextI(1))
  have pc: "b_pc ?w = Pushing ps" and ps: "distinct ps" using Cons.prems(2) by simp_all
  have free: "\<forall>q \<in> set ps. dict_get (b_locks ?w) q = Some False \<and> o_grad ?w q \<noteq> None \<and> o_name ?w q \<noteq> None"
    using Cons.prems(2,3) by (auto simp del: not_None_eq)
  obtain w' where w': "(cb_next E)\<^sup>*\<^sup>* ?w w'" "b_pc w' = Pushing []" "pending w' = pending ?w @ ps" "b_step w' = b_step ?w" "b_final_step w' = b_final_step ?w"
      "o_data w' = o_data ?w"
    using Cons.IH [OF pc ps free] by blast
  have "pending ?w = pending w @ [p]" by (simp add: pending_def events_def)
  then show ?case using w' s by (intro exI [of _ w']) (auto intro: converse_rtranclp_into_rtranclp)
qed auto

text \<open>
  C18. A module with submodules does not wait: for every parameter that a module without the hook owns (the model itself, or a
  module with submodules) and that is trained, there is a run in which the next forward pass reads the parameter while its
  update is pending.
\<close>

theorem unhooked_race:
  assumes "order_ok E" "e_size E > 1" "b_handles w0 = []" "\<forall>q. o_name w0 q \<noteq> None" "steps \<noteq> 1"
    and "m \<in> set (modules (e_model E))" "m \<notin> hooks E" "p \<in> set (own_params m)" "p \<in> set (concat groups)" "rg p"
  shows "\<exists>w. (cb_next E)\<^sup>*\<^sup>* (cb_init (e_size E) steps groups rg w0) w \<and> p \<in> b_used w \<and> p \<in> set (pending w) \<and> b_pc w = Idle
     \<and> o_data w = e_base_step E (cb_init (e_size E) steps groups rg w0)"
proof -
  let ?w0 = "cb_init (e_size E) steps groups rg w0"
  let ?w1 = "?w0\<lparr>o_data := e_base_step E ?w0, b_step := Suc (b_step ?w0), b_used := {}\<rparr>"
  let ?ps = "sync_list (e_order E) ?w1"
  let ?w2 = "?w1\<lparr>b_pc := Pushing ?ps, b_used := {}\<rparr>"
  have f: "b_pc ?w0 = Idle" "b_step ?w0 = 0" "b_final_step ?w0 = steps" "b_handles ?w0 = []" "o_name ?w0 = o_name w0"
      "b_locks ?w0 = map (\<lambda>p. (p, False)) (remdups (concat groups))" "b_requires_update ?w0 = filter rg (remdups (concat groups))"
      "\<And>q. q \<in> set (concat groups) \<Longrightarrow> rg q \<Longrightarrow> o_grad ?w0 q \<noteq> None"
    using assms(2,3) by (simp_all add: cb_init_def cb_register_hooks_def Let_def)
  have it: "distinct (e_order E A)" "set (e_order E A) = A" if "finite A" for A using assms(1) that by (simp_all add: order_ok_def)
  have ps: "distinct ?ps" "set ?ps = {q \<in> set (concat groups). rg q}" using f it by (auto simp: sync_list_def dict_keys_def)
  have s1: "cb_next E ?w0 ?w1" using f(1,2) by (intro cb_nextI(1) cb_main.first) simp_all
  have s2: "cb_next E ?w1 ?w2" using f(1) assms(2) by (intro cb_nextI(1) cb_main.start) simp_all
  have "\<forall>q \<in> set ?ps. dict_get (b_locks ?w2) q = Some False \<and> o_grad ?w2 q \<noteq> None \<and> o_name ?w2 q \<noteq> None"
    using ps(2) f assms(4) by (simp add: init_locks)
  then obtain w3 where w3: "(cb_next E)\<^sup>*\<^sup>* ?w2 w3" "b_pc w3 = Pushing []" "pending w3 = pending ?w2 @ ?ps" "b_step w3 = 1" "b_final_step w3 = steps"
      "o_data w3 = e_base_step E ?w0"
    using push_all [of ?w2 ?ps E] ps(1) f(2,3) by auto
  let ?w4 = "w3\<lparr>b_pc := Idle, b_step := Suc (b_step w3)\<rparr>"
  let ?w5 = "?w4\<lparr>b_used := set (own_params m) \<union> b_used ?w4\<rparr>"
  have s4: "cb_next E w3 ?w4" using w3(2,4,5) assms(5) by (intro cb_nextI(1) cb_main.pushed) simp_all
  have s5: "cb_next E ?w4 ?w5" using assms(6,7) by (intro cb_nextI(1) cb_main.forward_plain) simp_all
  have "(cb_next E)\<^sup>*\<^sup>* ?w0 ?w5" using s1 s2 w3(1) s4 s5 by (meson converse_rtranclp_into_rtranclp rtranclp.rtrancl_into_rtrancl)
  moreover have "p \<in> set (pending ?w5)" using w3(3) ps(2) assms(9,10) by (simp add: pending_def events_def)
  ultimately show ?thesis using assms(8) w3(6) by (intro exI [of _ ?w5]) simp
qed

section \<open>Progress of the poller\<close>

lemma cb_finish_sgd:
  assumes "b_opt w = Sgd groups" "dict_get (b_locks w) p = Some True"
  shows "\<exists>w'. cb_finish rt dec out p ctx w = Inr w'"
proof -
  let ?w = "set_grad_data p (dec out ctx) (w\<lparr>b_push_pull_delay := dict_set (b_push_pull_delay w) p (b_backward_passes w)\<rparr>)"
  have "b_locks (zero_one_grad p (sgd_step groups p ?w)) = b_locks w"
    using threads_sel(4) [of "zero_one_grad p (sgd_step groups p ?w)" ?w] by simp
  then show ?thesis using assms by (simp add: cb_finish_def cb_update_def Let_def)
qed

text \<open>Runs of both threads and the service in which the poller takes \<open>k\<close> steps.\<close>

inductive cb_run :: "'x cb_env \<Rightarrow> nat \<Rightarrow> 'x cbar \<Rightarrow> 'x cbar \<Rightarrow> bool" for E where
  none: "cb_run E 0 w w"
| poll: "cb_run E k w w' \<Longrightarrow> cb_poll E w' w'' \<Longrightarrow> cb_run E (Suc k) w w''"
| other: "cb_run E k w w' \<Longrightarrow> cb_main E w' w'' \<or> cb_answer w' w'' \<Longrightarrow> cb_run E k w w''"

definition handles_of :: "'x event list \<Rightarrow> nat set" where
  "handles_of es = {h. \<exists>p ctx. Some (p, h, ctx) \<in> set es}"

text \<open>
  How far the poller is with the events \<open>es\<close> that waited at the start, with \<open>a\<close> for an event taken then: \<open>d\<close> of them are done,
  and what waits behind them is new.
\<close>

definition drained :: "'x event list \<Rightarrow> nat \<Rightarrow> sgd_group list \<Rightarrow> nat set \<Rightarrow> nat \<Rightarrow> nat \<Rightarrow> 'x cbar \<Rightarrow> bool" where
  "drained es a groups H k d w \<longleftrightarrow> d \<le> length es \<and> (\<exists>rest. events w = drop d es @ rest \<and> handles_of rest \<inter> handles_of es = {})
     \<and> (d < length es \<longrightarrow> k + a = 2 * d + (if b_taken w = None then 0 else 1) \<and> b_poller w = Running)
     \<and> b_opt w = Sgd groups \<and> H \<subseteq> b_answered w \<and> (\<forall>e. b_poller w \<noteq> Died e)
     \<and> (\<forall>h \<in> handles_of es. h \<le> length (b_log w))"

lemma handles_of_simps [simp]:
  "handles_of [] = {}" "handles_of (None # es) = handles_of es" "handles_of (Some (p, h, ctx) # es) = insert h (handles_of es)"
  "handles_of (xs @ ys) = handles_of xs \<union> handles_of ys"
  by (auto simp: handles_of_def)

text \<open>What the steps of the main thread and the service do to the queue.\<close>

lemma cb_main_events:
  "cb_main E w w' \<Longrightarrow> (events w' = events w \<or> events w' = events w @ [None] \<or> (\<exists>p ctx. events w' = events w @ [Some (p, Suc (length (b_log w)), ctx)]))
     \<and> b_taken w' = b_taken w \<and> b_poller w' = b_poller w \<and> b_opt w' = b_opt w \<and> b_answered w' = b_answered w \<and> length (b_log w) \<le> length (b_log w')"
proof (induction rule: cb_main.induct)
  case (hook w p ps m w')
  then show ?case using pre_forward_run [OF hook(2)] by (simp add: events_def)
next
  case (backward w p g0 g w')
  then show ?case using cb_hook_run [OF backward(5)] events_cong [of "set_grad_data p (vadd g0 g) w" w] by simp
next
  case (push w p ps w')
  then show ?case using cb_push_run [OF push(2)] by (auto simp: events_def)
qed (simp_all add: events_def)

lemma drained_other:
  assumes "drained es a groups H k d w" "cb_main E w w' \<or> cb_answer w w'"
  shows "drained es a groups H k d w'"
proof -
  obtain rest where rest: "events w = drop d es @ rest" "handles_of rest \<inter> handles_of es = {}" using assms(1) by (auto simp: drained_def)
  have log: "h \<in> handles_of es \<Longrightarrow> h \<le> length (b_log w)" for h using assms(1) by (simp add: drained_def)
  show ?thesis
    using assms(2)
  proof
    assume "cb_main E w w'"
    note m = cb_main_events [OF this]
    then obtain new where "events w' = events w @ new" "handles_of new \<subseteq> {Suc (length (b_log w))}" by auto
    then have "\<exists>rest. events w' = drop d es @ rest \<and> handles_of rest \<inter> handles_of es = {}"
      using rest log by (intro exI [of _ "rest @ new"]) force
    then show ?thesis using assms(1) m by (auto simp: drained_def)
  next
    assume "cb_answer w w'"
    then show ?thesis using assms(1) by cases (auto simp: drained_def events_def)
  qed
qed

lemma drained_poll:
  assumes dr: "drained es a groups H k d w" and step: "cb_poll E w w'" and inv: "cb_inv E w"
    and es: "handles_of es \<subseteq> H" "None \<notin> set es"
  shows "\<exists>d'. drained es a groups H (Suc k) d' w'"
proof -
  obtain rest where rest: "events w = drop d es @ rest" "handles_of rest \<inter> handles_of es = {}" using dr by (auto simp: drained_def)
  have D: "d \<le> length es" "d < length es \<Longrightarrow> k + a = 2 * d + (if b_taken w = None then 0 else 1)" "b_opt w = Sgd groups" "H \<subseteq> b_answered w"
      "\<forall>h \<in> handles_of es. h \<le> length (b_log w)" using dr by (auto simp: drained_def)
  have hd: "drop d es = e # drop (Suc d) es \<and> (\<exists>p h ctx. e = Some (p, h, ctx) \<and> h \<in> H)" if "d < length es" "events w = e # q" for e q
  proof -
    have "drop d es = es ! d # drop (Suc d) es" "es ! d \<in> set es" using that(1) by (simp_all add: Cons_nth_drop_Suc)
    moreover obtain p h ctx where "es ! d = Some (p, h, ctx)" using es(2) calculation(2) by (cases "es ! d") auto
    moreover have "h \<in> handles_of es" using calculation by (auto simp: handles_of_def) 
    ultimately show ?thesis using rest(1) that(2) es(1) by auto
  qed
  show ?thesis
    using step
  proof cases
    case (get e q)
    have "events w' = events w" using get by (simp add: events_def)
    then have "drained es a groups H (Suc k) d w'" using rest D get by (auto simp: drained_def)
    then show ?thesis ..
  next
    case quit
    have ev: "events w = None # events w'" using quit by (simp add: events_def)
    then have "\<not> d < length es" using hd by fastforce
    then have "drained es a groups H (Suc k) d w'" using rest D quit ev by (auto simp: drained_def intro!: exI [of _ "events w'"])
    then show ?thesis ..
  next
    case (finish p h ctx w1)
    have ev: "events w = Some (p, h, ctx) # b_event_queue w" using finish by (simp add: events_def)
    then have "dict_get (b_locks w) p = Some True" using cb_invD(3) [OF inv, of p] by (simp add: pending_def)
    note f = cb_finish_run [OF finish(5) this]
    have ev': "events w' = b_event_queue w" using finish(1) f(2) by (simp add: events_def)
    show ?thesis
    proof (cases "d < length es")
      case True
      then have "drop d es = Some (p, h, ctx) # drop (Suc d) es" using hd [OF True ev] by blast
      then have "b_event_queue w = drop (Suc d) es @ rest" using rest(1) ev by simp
      then have "drained es a groups H (Suc k) (Suc d) w'" using rest(2) D True finish f ev' by (auto simp: drained_def)
      then show ?thesis ..
    next
      case False
      then have "rest = Some (p, h, ctx) # b_event_queue w" using rest(1) ev by simp
      then have "drained es a groups H (Suc k) d w'" using rest(2) D False finish f ev' by (auto simp: drained_def)
      then show ?thesis ..
    qed
  next
    case (die p h ctx err)
    have "events w = Some (p, h, ctx) # b_event_queue w" using die by (simp add: events_def)
    then have "dict_get (b_locks w) p = Some True" using cb_invD(3) [OF inv, of p] by (simp add: pending_def)
    then show ?thesis using cb_finish_sgd [OF D(3)] die by (metis sum.distinct(1))
  next
    case (retry p h ctx)
    have ev: "events w = Some (p, h, ctx) # b_event_queue w" using retry by (simp add: events_def)
    have "\<not> d < length es" using hd [OF _ ev] D(4) retry(4) by auto
    then have "rest = Some (p, h, ctx) # b_event_queue w" "d = length es" using rest(1) ev D(1) by simp_all
    then have "drained es a groups H (Suc k) d w'" using rest(2) D retry by (auto simp: drained_def events_def intro!: exI [of _ "b_event_queue w @ [Some (p, h, ctx)]"])
    then show ?thesis ..
  qed
qed

lemma cb_run_drained:
  assumes "cb_run E k w w'" "order_ok E" "cb_inv E w" "drained (events w) a groups H 0 0 w" "handles_of (events w) \<subseteq> H" "None \<notin> set (events w)"
  shows "cb_inv E w' \<and> (\<exists>d. drained (events w) a groups H k d w')"
  using assms(1,3-6)
proof (induction rule: cb_run.induct)
  case (poll k w w' w'')
  then show ?case using drained_poll [OF _ poll.hyps(2), of "events w" a groups H k] cb_poll_inv by blast
next
  case (other k w w' w'')
  then show ?case using drained_other [OF _ other.hyps(2)] cb_main_inv [OF _ assms(2)] cb_answer_inv by blast
qed blast

text \<open>
  C22. The poller makes progress, under every interleaving with the main thread and the service: let all events that wait in a
  reachable state be answered push-pulls of an SGD optimizer, without an end mark among them, and the poller running. Then the poller never dies;
  as long as one of these events waits, the poller can move; and once it has made twice as many steps as there
  were events, all of them are finished, whatever the main thread has added since.
\<close>

theorem poller_drains:
  assumes "order_ok E" "e_size E > 1" "b_handles w0 = []" "(cb_next E)\<^sup>*\<^sup>* (cb_init (e_size E) steps groups rg w0) w"
    and "b_opt w = Sgd sgd" "b_poller w = Running" "None \<notin> set (events w)" "handles_of (events w) \<subseteq> b_answered w"
    and "cb_run E k w w'"
  shows "(\<forall>e. b_poller w' \<noteq> Died e)
     \<and> (handles_of (events w) \<inter> handles_of (events w') \<noteq> {} \<longrightarrow> (\<exists>w''. cb_poll E w' w''))
     \<and> (2 * length (events w) \<le> k \<longrightarrow> handles_of (events w) \<inter> handles_of (events w') = {})"
proof -
  let ?es = "events w" and ?a = "if b_taken w = None then 0 else 1 :: nat"
  have inv: "cb_inv E w" using cb_reach_inv [OF assms(4,1)] cb_init_inv [OF assms(2,3)] by blast
  have "drained ?es ?a sgd (b_answered w) 0 0 w"
    using assms(5,6) cb_invD(9) [OF inv] by (auto simp: drained_def handles_of_def)
  then obtain d where inv': "cb_inv E w'" and dr: "drained ?es ?a sgd (b_answered w) k d w'"
    using cb_run_drained [OF assms(9,1) inv _ assms(8,7)] by blast
  then obtain rest where rest: "events w' = drop d ?es @ rest" "handles_of rest \<inter> handles_of ?es = {}" by (auto simp: drained_def)
  have fin: "d = length ?es \<Longrightarrow> handles_of ?es \<inter> handles_of (events w') = {}" using rest by auto
  have moves: "\<exists>w''. cb_poll E w' w''" if "d < length ?es"
  proof -
    have D: "b_poller w' = Running" "b_opt w' = Sgd sgd" "b_answered w \<subseteq> b_answered w'" using dr that by (simp_all add: drained_def)
    have e: "drop d ?es = ?es ! d # drop (Suc d) ?es" "?es ! d \<in> set ?es" using that by (simp_all add: Cons_nth_drop_Suc)
    obtain p h ctx where ph: "?es ! d = Some (p, h, ctx)" using assms(7) e(2) by (cases "?es ! d") auto
    have h: "h \<in> b_answered w'" using assms(8) D(3) e(2) ph by (auto simp: handles_of_def)
    show ?thesis
    proof (cases "b_taken w'")
      case None
      then have "b_event_queue w' = ?es ! d # drop (Suc d) ?es @ rest" using rest(1) e(1) events_def [of w'] by simp
      then show ?thesis using cb_poll.get [OF D(1) None] by blast
    next
      case (Some x)
      then have x: "x = Some (p, h, ctx)" using rest(1) e(1) ph events_def [of w'] by simp
      then have "dict_get (b_locks w') p = Some True" using cb_invD(3) [OF inv', of p] Some by (simp add: pending_def events_def)
      then obtain w1 where "cb_finish (e_root E) (e_decompress E) (e_output E h) p ctx w' = Inr w1" using cb_finish_sgd [OF D(2)] by blast
      then show ?thesis using cb_poll.finish [OF D(1)] Some x h by blast
    qed
  qed
  have d: "d \<le> length ?es" "d < length ?es \<Longrightarrow> k + ?a = 2 * d + (if b_taken w' = None then 0 else 1)" using dr by (simp_all add: drained_def)
  have "d = length ?es" if "2 * length ?es \<le> k"
  proof (rule ccontr)
    assume "d \<noteq> length ?es"
    then have "d < length ?es" using d(1) by simp
    then show False using d(2) that by (auto split: if_splits)
  qed
  then show ?thesis using fin moves d(1) dr by (auto simp: drained_def le_less)
qed

text \<open>
  C23. The final step can lose an update: while it waits for the queue to be empty, the poller may hold
  the last event. If the answer has not arrived then, the event goes back into the queue behind the end
  mark, the poller exits, and training ends with the parameter locked and not updated.
\<close>

theorem final_step_race:
  assumes "b_pc w = Waiting" "b_poller w = Running" "b_taken w = None" "b_event_queue w = [Some (p, h, ctx)]" "h \<notin> b_answered w"
  shows "\<exists>w'. (cb_next E)\<^sup>*\<^sup>* w w' \<and> b_pc w' = Idle \<and> b_step w' = Suc (b_step w) \<and> b_poller w' = Exited
     \<and> b_event_queue w' = [Some (p, h, ctx)] \<and> b_locks w' = b_locks w \<and> o_data w' = o_data w"
proof -
  let ?e = "Some (p, h, ctx)"
  let ?w1 = "w\<lparr>b_taken := Some ?e, b_event_queue := []\<rparr>"
  let ?w2 = "?w1\<lparr>b_pc := Joining, b_event_queue := [None]\<rparr>"
  let ?w3 = "?w2\<lparr>b_taken := None, b_event_queue := b_event_queue ?w2 @ [?e]\<rparr>"
  let ?w4 = "?w3\<lparr>b_taken := Some None, b_event_queue := [?e]\<rparr>"
  let ?w5 = "?w4\<lparr>b_taken := None, b_poller := Exited\<rparr>"
  let ?w6 = "?w5\<lparr>b_pc := Idle, b_step := Suc (b_step ?w5)\<rparr>"
  have "cb_next E w ?w1" using assms by (intro cb_nextI(2) cb_poll.get) simp_all
  moreover have "cb_next E ?w1 ?w2" using assms by (intro cb_nextI(1) cb_main.wait) simp_all
  moreover have "cb_next E ?w2 ?w3" using assms by (intro cb_nextI(2) cb_poll.retry) simp_all
  moreover have "cb_next E ?w3 ?w4" using assms by (intro cb_nextI(2) cb_poll.get) simp_all
  moreover have "cb_next E ?w4 ?w5" using assms by (intro cb_nextI(2) cb_poll.quit) simp_all
  moreover have "cb_next E ?w5 ?w6" by (intro cb_nextI(1) cb_main.join) simp_all
  ultimately have "(cb_next E)\<^sup>*\<^sup>* w ?w6" by (meson converse_rtranclp_into_rtranclp rtranclp.rtrancl_refl)
  then show ?thesis by (intro exI [of _ ?w6]) simp
qed

section \<open>An example\<close>

definition cb_example_env :: "unit cb_env" where
  "cb_example_env = \<lparr>e_size = 2, e_model = Module 0 [] [Module 1 [0] []], e_order = sorted_list_of_set, e_compress = (\<lambda>x. (x, ())), e_decompress = (\<lambda>x _. x), e_root = (\<lambda>x. x),
     e_output = (\<lambda>_. [1]), e_base_step = (\<lambda>w. o_data w)\<rparr>"

definition cb_example :: "unit cbar" where
  "cb_example = \<lparr>o_name = (\<lambda>_. Some ''w''), o_shape = (\<lambda>_. [1]), o_data = (\<lambda>_. [5]), o_grad = (\<lambda>_. None), o_sparse = (\<lambda>_. False),
     o_buf = (\<lambda>_. None), o_adam = (\<lambda>_. None), o_rms = (\<lambda>_. None),
     b_opt = Sgd [sgd_group_of 0], b_step = 0, b_final_step = 0, b_locks = [], b_handles = [], b_requires_update = [],
     b_push_pull_delay = [(0, 1)], b_backward_passes = 1, b_event_queue = [], b_taken = None, b_poller = Running, b_log = [], b_pc = Idle, b_used = {}, b_answered = {}\<rparr>"

text \<open>One parameter, one training step, which is the final one: the state in which the step waits.\<close>

definition cb_waiting :: "unit cbar" where
  "cb_waiting = (cb_init 2 1 [[0]] (\<lambda>_. True) cb_example)\<lparr>b_step := 1, b_pc := Waiting, b_locks := [(0, True)], b_handles := [(0, Some (1, ()))],
     b_event_queue := [Some (0, 1, ())], b_log := [(''Gradient.'' @ ''w'', [0])]\<rparr>"

lemma cb_example_order: "order_ok cb_example_env"
  by (simp add: order_ok_def cb_example_env_def)

lemma cb_waiting_reach: "(cb_next cb_example_env)\<^sup>*\<^sup>* (cb_init 2 1 [[0]] (\<lambda>_. True) cb_example) cb_waiting"
proof -
  let ?w0 = "cb_init 2 1 [[0]] (\<lambda>_. True) cb_example"
  let ?w1 = "?w0\<lparr>o_data := e_base_step cb_example_env ?w0, b_step := Suc (b_step ?w0), b_used := {}\<rparr>"
  let ?w2 = "?w1\<lparr>b_pc := Pushing (sync_list (e_order cb_example_env) ?w1), b_used := {}\<rparr>"
  have pc: "b_pc ?w2 = Pushing [0]"
    by (simp add: sync_list_def cb_init_def cb_register_hooks_def cb_example_def cb_example_env_def Let_def dict_keys_def)
  obtain w3 where w3: "cb_push (e_compress cb_example_env) 0 ?w2 = Some (Inr w3)" "w3\<lparr>b_pc := Waiting\<rparr> = cb_waiting" "b_step w3 = b_final_step w3"
    by (simp add: cb_push_def cb_init_def cb_register_hooks_def cb_example_def cb_example_env_def Let_def cb_waiting_def vzero_def)
  have "cb_next cb_example_env ?w0 ?w1" by (rule cb_nextI(1), rule cb_main.first) (simp_all add: cb_init_def cb_register_hooks_def cb_example_def Let_def)
  moreover have "cb_next cb_example_env ?w1 ?w2"
    by (rule cb_nextI(1), rule cb_main.start) (simp_all add: cb_init_def cb_register_hooks_def cb_example_def cb_example_env_def Let_def)
  moreover have "cb_next cb_example_env ?w2 (w3\<lparr>b_pc := Pushing []\<rparr>)" by (rule cb_nextI(1), rule cb_main.push [OF pc w3(1)])
  moreover have "cb_next cb_example_env (w3\<lparr>b_pc := Pushing []\<rparr>) cb_waiting"
    using cb_nextI(1) [OF cb_main.pushed_last [of "w3\<lparr>b_pc := Pushing []\<rparr>" cb_example_env]] w3(2,3) by simp
  ultimately show ?thesis by (meson converse_rtranclp_into_rtranclp rtranclp.rtrancl_refl)
qed

lemma cb_example_unhooked: "unhooked cb_example_env = {}" "hooks cb_example_env = {Module 1 [0] []}"
  by (auto simp: unhooked_def hooks_def cb_example_env_def hooked_modules_leaves)

lemma cb_example_fields: "e_size cb_example_env = 2" "b_handles cb_example = []"
  by (simp_all add: cb_example_env_def cb_example_def)

theorem cb_dependencies_witness:
  "(cb_next cb_example_env)\<^sup>*\<^sup>* (cb_init 2 1 [[0]] (\<lambda>_. True) cb_example) cb_waiting
     \<and> (\<forall>p. dict_get (b_locks cb_waiting) p = Some True \<longleftrightarrow> p \<in> set (pending cb_waiting)) \<and> distinct (pending cb_waiting)
     \<and> b_used cb_waiting \<inter> set (pending cb_waiting) = {}"
  using cb_dependencies [OF cb_example_order, of cb_example 1 "[[0]]" "\<lambda>_. True" cb_waiting] cb_waiting_reach
  by (simp add: cb_example_fields cb_example_unhooked)

text \<open>The same parameter, owned by the model itself.\<close>

definition cb_root_env :: "unit cb_env" where
  "cb_root_env = cb_example_env\<lparr>e_model := Module 0 [0] [Module 1 [] []]\<rparr>"

theorem unhooked_race_witness:
  "\<exists>w. (cb_next cb_root_env)\<^sup>*\<^sup>* (cb_init 2 5 [[0]] (\<lambda>_. True) cb_example) w \<and> 0 \<in> b_used w \<and> 0 \<in> set (pending w) \<and> o_data w 0 = [5]"
proof -
  have e: "order_ok cb_root_env" "e_size cb_root_env = 2" "Module 0 [0] [Module 1 [] []] \<notin> hooks cb_root_env"
    "Module 0 [0] [Module 1 [] []] \<in> set (modules (e_model cb_root_env))" "e_base_step cb_root_env = (\<lambda>w. o_data w)"
    using cb_example_order by (simp_all add: order_ok_def cb_root_env_def cb_example_env_def hooks_def hooked_modules_leaves)
  show ?thesis
    using unhooked_race [OF e(1) _ _ _ _ e(4,3), of cb_example 5 0 "[[0]]" "\<lambda>_. True"] e(2,5)
    by (auto simp: cb_example_def cb_init_def cb_register_hooks_def Let_def)
qed

text \<open>The service answers the only push-pull, and the poller takes two steps.\<close>

definition cb_ready :: "unit cbar" where
  "cb_ready = cb_waiting\<lparr>b_answered := {1}\<rparr>"

lemma cb_ready_reach: "(cb_next cb_example_env)\<^sup>*\<^sup>* (cb_init 2 1 [[0]] (\<lambda>_. True) cb_example) cb_ready"
proof -
  have "b_answered cb_waiting = {}" "length (b_log cb_waiting) = 1"
    by (simp_all add: cb_waiting_def cb_init_def cb_register_hooks_def cb_example_def Let_def)
  then have "cb_next cb_example_env cb_waiting cb_ready"
    using cb_answer.answer [of 1 cb_waiting] by (intro cb_nextI(3)) (simp add: cb_ready_def)
  then show ?thesis using cb_waiting_reach by (rule rtranclp.rtrancl_into_rtrancl [rotated])
qed

lemma cb_ready_fields:
  "b_opt cb_ready = Sgd [sgd_group_of 0]" "b_poller cb_ready = Running" "b_taken cb_ready = None" "b_event_queue cb_ready = [Some (0, 1, ())]"
  "b_answered cb_ready = {1}" "events cb_ready = [Some (0, 1, ())]" "dict_get (b_locks cb_ready) 0 = Some True"
  by (simp_all add: cb_ready_def cb_waiting_def cb_init_def cb_register_hooks_def cb_example_def cb_example_env_def events_def Let_def)

theorem poller_drains_witness:
  "\<exists>w'. cb_run cb_example_env 2 cb_ready w' \<and> handles_of (events cb_ready) = {1} \<and> 1 \<notin> handles_of (events w') \<and> (\<forall>e. b_poller w' \<noteq> Died e)"
proof -
  let ?w1 = "cb_ready\<lparr>b_taken := Some (Some (0, 1, ())), b_event_queue := []\<rparr>"
  have s1: "cb_run cb_example_env 1 cb_ready ?w1"
    using cb_run.poll [OF cb_run.none cb_poll.get [OF cb_ready_fields(2-4)]] by simp
  obtain w2 where "cb_finish (e_root cb_example_env) (e_decompress cb_example_env) (e_output cb_example_env 1) 0 () ?w1 = Inr w2"
    using cb_finish_sgd [of ?w1 "[sgd_group_of 0]" 0 "e_root cb_example_env" "e_decompress cb_example_env" "e_output cb_example_env 1" "()"]
    by (auto simp: cb_ready_fields)
  then have "cb_poll cb_example_env ?w1 (w2\<lparr>b_taken := None\<rparr>)" by (intro cb_poll.finish) (simp_all add: cb_ready_fields)
  then have run: "cb_run cb_example_env 2 cb_ready (w2\<lparr>b_taken := None\<rparr>)" using cb_run.poll [OF s1] by (simp add: numeral_2_eq_2)
  have "order_ok cb_example_env" by (rule cb_example_order)
  from poller_drains [OF this _ _ _ cb_ready_fields(1,2) _ _ run, of cb_example 1 "[[0]]" "\<lambda>_. True"] show ?thesis
    using run cb_ready_reach by (intro exI [of _ "w2\<lparr>b_taken := None\<rparr>"]) (simp add: cb_ready_fields cb_example_fields)
qed

theorem final_step_race_witness:
  "(cb_next cb_example_env)\<^sup>*\<^sup>* (cb_init 2 1 [[0]] (\<lambda>_. True) cb_example) cb_waiting
     \<and> (\<exists>w'. (cb_next cb_example_env)\<^sup>*\<^sup>* cb_waiting w' \<and> b_pc w' = Idle \<and> b_step w' = Suc (b_step cb_waiting) \<and> b_poller w' = Exited
          \<and> b_event_queue w' = [Some (0, 1, ())] \<and> b_locks w' = b_locks cb_waiting \<and> o_data w' = o_data cb_waiting)"
  using cb_waiting_reach final_step_race [of cb_waiting 0 1 "()" cb_example_env]
  by (simp add: cb_waiting_def cb_init_def cb_register_hooks_def cb_example_def Let_def)

end
