(* ===== verification/Mxnet_Compression.thy ===== *)
theory Mxnet_Compression
  imports Collective Py_Strings
begin

text \<open>
  \<^verbatim>\<open>byteps/mxnet/compression.py\<close>, the compressor registration of \<^verbatim>\<open>byteps/mxnet/__init__.py\<close> and the
  parameter list of \<^verbatim>\<open>byteps/mxnet/ops.py\<close>. The adapters wrap another compressor and keep their
  buffers from one call to the next, so an operation returns the compressor with its new state. A
  compressor that returns its argument itself gives \<open>None\<close>. The array library's in-place operations are
  taken on arrays of one shape, which the gradients of one parameter have.
\<close>

section \<open>Compressors\<close>

record nag_state =
  na_mu :: rat
  na_mom :: "tensor option"
  na_threshold :: int
  na_inited :: bool
  na_nag :: bool

record wdmom_state =
  wd_mom :: "tensor option"
  wd_cache :: "tensor option"
  wd_mu :: rat
  wd_wd :: rat
  wd_threshold :: int
  wd_wdmom :: bool
  wd_inited :: bool

datatype mx_compressor =
    NoneCompressor
  | FP16Compressor
  | NagAdapter mx_compressor nag_state
  | WeightDecayMomentumAdapter mx_compressor wdmom_state

definition mx_nag :: "mx_compressor \<Rightarrow> rat \<Rightarrow> int \<Rightarrow> mx_compressor" where
  "mx_nag compressor mu threshold =
     NagAdapter compressor \<lparr>na_mu = mu, na_mom = None, na_threshold = threshold, na_inited = False, na_nag = False\<rparr>"

definition mx_wdmom :: "mx_compressor \<Rightarrow> rat \<Rightarrow> rat \<Rightarrow> int \<Rightarrow> mx_compressor" where
  "mx_wdmom compressor mu wd threshold =
     WeightDecayMomentumAdapter compressor
       \<lparr>wd_mom = None, wd_cache = None, wd_mu = mu, wd_wd = wd, wd_threshold = threshold, wd_wdmom = False, wd_inited = False\<rparr>"

definition mx_size :: "nat list \<Rightarrow> int res" where
  "mx_size shape = (case shape of [] \<Rightarrow> Inl TypeError | d # ds \<Rightarrow> Inr (int (fold (\<lambda>y x. x * y) ds d) * 4))"

definition zeros_like :: "tensor \<Rightarrow> tensor" where
  "zeros_like t = t\<lparr>t_data := vzero (length (t_data t))\<rparr>"

definition mul_scalar :: "storage \<Rightarrow> tensor \<Rightarrow> rat \<Rightarrow> tensor" where
  "mul_scalar c t a = t\<lparr>t_data := map (c (t_dtype t)) (vscale a (t_data t))\<rparr>"

definition iadd :: "storage \<Rightarrow> tensor \<Rightarrow> tensor \<Rightarrow> tensor res" where
  "iadd c t u =
     (if t_size t = t_size u then Inr (t\<lparr>t_data := map (c (t_dtype t)) (vadd (t_data t) (t_data u))\<rparr>) else Inl RuntimeError)"

fun mx_compress :: "storage \<Rightarrow> mx_compressor \<Rightarrow> tensor \<Rightarrow> tensor option \<times> dtype option" where
  "mx_compress c NoneCompressor t = (None, None)"
| "mx_compress c FP16Compressor t =
     ((if is_floating_point (t_dtype t) \<and> t_dtype t \<noteq> Float16 then Some (to_dtype c Float16 t) else None), Some (t_dtype t))"
| "mx_compress c (NagAdapter k s) t = mx_compress c k t"
| "mx_compress c (WeightDecayMomentumAdapter k s) t = mx_compress c k t"

definition nag_start :: "nag_state \<Rightarrow> tensor \<Rightarrow> nag_state res" where
  "nag_start s t =
     (if na_inited s then Inr s
      else bind_res (mx_size (t_size t)) (\<lambda>n.
        Inr ((if n < na_threshold s then s\<lparr>na_mom := Some (zeros_like t), na_nag := True\<rparr> else s)\<lparr>na_inited := True\<rparr>)))"

definition nag_decompress :: "storage \<Rightarrow> nag_state \<Rightarrow> tensor \<Rightarrow> (tensor \<times> nag_state) res" where
  "nag_decompress c s t =
     bind_res (nag_start s t) (\<lambda>s.
       if na_nag s
       then bind_res (of_option TypeError (na_mom s)) (\<lambda>m.
            bind_res (iadd c m t) (\<lambda>m.
              let m = mul_scalar c m (na_mu s)
              in bind_res (iadd c t m) (\<lambda>t. Inr (t, s\<lparr>na_mom := Some m\<rparr>))))
       else Inr (t, s))"

definition wdmom_start :: "wdmom_state \<Rightarrow> tensor \<Rightarrow> wdmom_state res" where
  "wdmom_start s t =
     (if wd_inited s then Inr s
      else let s = s\<lparr>wd_cache := Some (zeros_like t)\<rparr>
           in bind_res (mx_size (t_size t)) (\<lambda>n.
             Inr ((if wd_threshold s \<le> n then s\<lparr>wd_mom := Some (zeros_like t), wd_wdmom := True\<rparr> else s)\<lparr>wd_inited := True\<rparr>)))"

definition wdmom_decompress :: "storage \<Rightarrow> wdmom_state \<Rightarrow> tensor \<Rightarrow> tensor option \<Rightarrow> (tensor \<times> wdmom_state) res" where
  "wdmom_decompress c s t x =
     bind_res (of_option ValueError x) (\<lambda>x.
     let x = to_dtype c (t_dtype t) x
     in bind_res (wdmom_start s t) (\<lambda>s.
        let cache = mul_scalar c x (wd_wd s); s = s\<lparr>wd_cache := Some cache\<rparr>
        in bind_res (if wd_wdmom s
                     then bind_res (of_option TypeError (wd_mom s)) (\<lambda>m.
                          bind_res (iadd c m cache) (\<lambda>m.
                            let m = mul_scalar c m (wd_mu s)
                            in bind_res (iadd c t m) (\<lambda>t. Inr (t, s\<lparr>wd_mom := Some m\<rparr>))))
                     else Inr (t, s)) (\<lambda>(t, s).
           bind_res (iadd c t cache) (\<lambda>t. Inr (t, s)))))"

fun mx_decompress :: "storage \<Rightarrow> mx_compressor \<Rightarrow> tensor \<Rightarrow> dtype option \<Rightarrow> tensor option \<Rightarrow> (tensor \<times> mx_compressor) res" where
  "mx_decompress c NoneCompressor t ctx x = Inr (t, NoneCompressor)"
| "mx_decompress c FP16Compressor t ctx x =
     Inr ((case ctx of Some dt \<Rightarrow> if is_floating_point dt then to_dtype c dt t else t | None \<Rightarrow> t), FP16Compressor)"
| "mx_decompress c (NagAdapter k s) t ctx x =
     bind_res (mx_decompress c k t ctx x) (\<lambda>(t, k).
     bind_res (nag_decompress c s t) (\<lambda>(t, s). Inr (t, NagAdapter k s)))"
| "mx_decompress c (WeightDecayMomentumAdapter k s) t ctx x =
     bind_res (wdmom_decompress c s t x) (\<lambda>(t, s).
     bind_res (mx_decompress c k t ctx x) (\<lambda>(t, k). Inr (t, WeightDecayMomentumAdapter k s)))"

section \<open>Registration\<close>

text \<open>Attribute values; the text of a floating point number is a parameter.\<close>

datatype attr = AStr string | AInt int | AFloat rat | ABool bool | ANone | AOther

fun attr_true :: "attr \<Rightarrow> bool" where
  "attr_true (AStr s) = (s \<noteq> [])"
| "attr_true (AInt i) = (i \<noteq> 0)"
| "attr_true (AFloat q) = (q \<noteq> 0)"
| "attr_true (ABool b) = b"
| "attr_true ANone = False"
| "attr_true AOther = True"

fun bool_str :: "bool \<Rightarrow> string" where
  "bool_str True = ''True''"
| "bool_str False = ''False''"

fun attr_str :: "(rat \<Rightarrow> string) \<Rightarrow> string \<Rightarrow> attr \<Rightarrow> string" where
  "attr_str fl ob (AStr s) = s"
| "attr_str fl ob (AInt i) = py_str i"
| "attr_str fl ob (AFloat q) = fl q"
| "attr_str fl ob (ABool b) = bool_str b"
| "attr_str fl ob ANone = ''None''"
| "attr_str fl ob AOther = ob"

definition cp_true :: "(string, attr) dict \<Rightarrow> string \<Rightarrow> bool" where
  "cp_true cp k = attr_true (dict_get_or cp k ANone)"

definition check_item :: "(string, attr) dict \<Rightarrow> string \<Rightarrow> (string, attr) dict \<Rightarrow> (string, attr) dict res" where
  "check_item cp item attrs =
     (if cp_true cp item
      then case dict_get_or cp item ANone of
             AStr s \<Rightarrow> Inr (dict_set attrs (''byteps_'' @ item @ ''_type'') (AStr s))
           | _ \<Rightarrow> Inl TypeError
      else Inr attrs)"

definition dithering_option ::
    "(string, attr) dict \<Rightarrow> string \<Rightarrow> string \<Rightarrow> string \<Rightarrow> (string, attr) dict \<Rightarrow> (string, attr) dict res" where
  "dithering_option cp item zero one attrs =
     (if cp_true cp item
      then if dict_get cp item = Some (AStr zero) then Inr (dict_set attrs (''byteps_dithering_'' @ item) (AStr ''0''))
           else if dict_get cp item = Some (AStr one) then Inr (dict_set attrs (''byteps_dithering_'' @ item) (AStr ''1''))
           else Inl ValueError
      else Inr attrs)"

definition opt_index :: "(string, rat) dict option \<Rightarrow> string \<Rightarrow> rat res" where
  "opt_index op k = bind_res (of_option TypeError op) (\<lambda>d. dict_index d k)"

definition register_param ::
    "(rat \<Rightarrow> string) \<Rightarrow> string \<Rightarrow> (string, rat) dict option \<Rightarrow> (string, attr) dict \<Rightarrow> (string, attr) dict \<Rightarrow> (string, attr) dict res" where
  "register_param fl ob op cp attrs =
     bind_res (fold_res (check_item cp) [''compressor'', ''ef'', ''momentum''] attrs) (\<lambda>attrs.
     bind_res (dict_index cp ''compressor'') (\<lambda>compressor.
     bind_res (if compressor = AStr ''onebit''
               then Inr (dict_set attrs ''byteps_compressor_onebit_scaling'' (AStr (attr_str fl ob (dict_get_or cp ''scaling'' (ABool False)))))
               else if compressor \<in> {AStr ''topk'', AStr ''randomk'', AStr ''dithering''}
               then bind_res (dict_index cp ''k'') (\<lambda>k. Inr (dict_set attrs ''byteps_compressor_k'' k))
               else Inr attrs) (\<lambda>attrs.
     bind_res (if cp_true cp ''momentum''
               then bind_res (opt_index op ''momentum'') (\<lambda>mu. Inr (dict_set attrs ''byteps_momentum_mu'' (AFloat mu)))
               else Inr attrs) (\<lambda>attrs.
     bind_res (Inr (if dict_get_or cp ''seed'' ANone \<noteq> ANone
                    then dict_set attrs ''byteps_seed'' (dict_get_or cp ''seed'' ANone) else attrs)) (\<lambda>attrs.
     bind_res (dithering_option cp ''partition'' ''linear'' ''natural'' attrs) (\<lambda>attrs.
       dithering_option cp ''normalize'' ''max'' ''l2'' attrs))))))"

text \<open>
  The whole registration: the attributes of every parameter, the optimizer's parameters with weight decay
  and momentum taken out of them, and the compressor. The variable \<open>compressor\<close> is only bound inside the
  loop over the parameters.
\<close>

definition register_compressor ::
    "(rat \<Rightarrow> string) \<Rightarrow> string \<Rightarrow> (string, string) dict \<Rightarrow> (string, attr) dict list \<Rightarrow> (string, rat) dict option \<Rightarrow> (string, attr) dict \<Rightarrow>
     ((string, attr) dict list \<times> (string, rat) dict option \<times> mx_compressor) res" where
  "register_compressor fl ob env params op cp =
     (if cp = [] then Inr (params, op, NoneCompressor)
      else let intra = (if cp_true cp ''fp16'' then FP16Compressor else NoneCompressor)
           in if \<not> dict_has cp ''compressor'' then Inr (params, op, intra)
              else bind_res (map_res (register_param fl ob op cp) params) (\<lambda>params'.
                if cp_true cp ''momentum''
                then bind_res (py_int (dict_get_or env ''BYTEPS_MIN_COMPRESS_BYTES'' ''65536'')) (\<lambda>threshold.
                     bind_res (opt_index op ''momentum'') (\<lambda>mu.
                     bind_res (if params = [] then Inl NameError else dict_index cp ''compressor'') (\<lambda>compressor.
                       let d = the op;
                           (intra, d) = (if compressor = AStr ''onebit'' \<and> dict_has d ''wd''
                                         then (mx_wdmom intra mu (the (dict_get d ''wd'')) threshold, AList.delete ''wd'' d)
                                         else (intra, d))
                       in Inr (params', Some (AList.delete ''momentum'' d), mx_nag intra mu threshold))))
                else Inr (params', op, intra)))"

text \<open>
  The key-value pairs the library gets for one tensor. A Boolean is an instance of \<open>int\<close>, so the branch
  for Booleans is never taken.
\<close>

definition declare_arg :: "(rat \<Rightarrow> string) \<Rightarrow> string \<times> attr \<Rightarrow> (string, string) dict \<Rightarrow> (string, string) dict res" where
  "declare_arg fl = (\<lambda>(k, v) args.
     let splits = py_split (CHR ''_'') k
     in if length splits < 2 \<and> \<not> list_all (\<lambda>s. s \<noteq> []) splits then Inr args
        else let k = py_join ''_'' (tl splits)
             in case v of
                  AStr s \<Rightarrow> Inr (dict_set args k (py_lower s))
                | AInt i \<Rightarrow> Inr (dict_set args k (py_str i))
                | AFloat q \<Rightarrow> Inr (dict_set args k (fl q))
                | ABool b \<Rightarrow> Inr (dict_set args k (bool_str b))
                | _ \<Rightarrow> Inl ValueError)"

definition declare_args :: "(rat \<Rightarrow> string) \<Rightarrow> (string, attr) dict \<Rightarrow> (string, string) dict res" where
  "declare_args fl kwargs = fold_res (declare_arg fl) kwargs []"

definition byteps_params :: "(string, attr) dict \<Rightarrow> (string, attr) dict" where
  "byteps_params attrs = filter (\<lambda>(k, _). py_startswith k ''byteps_'') attrs"

section \<open>What the adapters compute\<close>

text \<open>
  The reference: Nesterov's momentum on a sequence of updates, and the weight decay momentum that the
  adapter documents, \<open>m = \<mu> m + wd x\<close> and \<open>tensor + \<mu> m + wd x\<close>.
\<close>

fun nesterov :: "rat \<Rightarrow> rat list \<Rightarrow> rat list list \<Rightarrow> rat list list" where
  "nesterov mu m [] = []"
| "nesterov mu m (u # us) = (let m = vadd (vscale mu m) u in vadd u (vscale mu m) # nesterov mu m us)"

fun decay_momentum :: "rat \<Rightarrow> rat \<Rightarrow> rat list \<Rightarrow> (rat list \<times> rat list) list \<Rightarrow> rat list list" where
  "decay_momentum mu wd m [] = []"
| "decay_momentum mu wd m ((g, x) # gxs) =
     (let m = vadd (vscale mu m) (vscale wd x) in vadd (vadd g (vscale mu m)) (vscale wd x) # decay_momentum mu wd m gxs)"

text \<open>The gradients of one parameter, with its values, through one compressor.\<close>

fun decompress_run :: "storage \<Rightarrow> mx_compressor \<Rightarrow> (tensor \<times> tensor) list \<Rightarrow> (tensor list \<times> mx_compressor) res" where
  "decompress_run c k [] = Inr ([], k)"
| "decompress_run c k ((g, x) # gxs) =
     bind_res (mx_decompress c k g None (Some x)) (\<lambda>(t, k). bind_res (decompress_run c k gxs) (\<lambda>(ts, k). Inr (t # ts, k)))"

lemma mx_size_numel: "sz \<noteq> [] \<Longrightarrow> mx_size sz = Inr (int (numel sz) * 4)"
  by (cases sz) (auto simp: mx_size_def numel_def)

lemma vscale_vzero [simp]: "vscale a (vzero n) = vzero n"
  by (simp add: vscale_def vzero_def map_replicate_const)

definition nag_inv :: "dtype \<Rightarrow> nat list \<Rightarrow> rat \<Rightarrow> int \<Rightarrow> rat list \<Rightarrow> nag_state \<Rightarrow> bool" where
  "nag_inv dt sz mu thr m s \<longleftrightarrow> na_mu s = mu \<and> na_threshold s = thr
     \<and> (if na_inited s
        then na_nag s = (int (numel sz) * 4 < thr)
           \<and> (na_nag s \<longrightarrow> (\<exists>t. na_mom s = Some t \<and> same_form dt sz t \<and> t_data t = vscale mu m))
        else \<not> na_nag s \<and> m = vzero (numel sz))"

lemma nag_start_inv:
  assumes "nag_inv dt sz mu thr m s" "same_form dt sz t" "sz \<noteq> []"
  shows "\<exists>s'. nag_start s t = Inr s' \<and> na_inited s' \<and> nag_inv dt sz mu thr m s'"
  using assms by (auto simp: nag_start_def nag_inv_def mx_size_numel same_form_def zeros_like_def vzero_def vscale_def)

lemma nag_step:
  assumes "nag_inv dt sz mu thr m s" "same_form dt sz t" "sz \<noteq> []" "length m = numel sz"
  shows "\<exists>s'. nag_decompress exact s t =
       Inr (if int (numel sz) * 4 < thr then t\<lparr>t_data := vadd (t_data t) (vscale mu (vadd (vscale mu m) (t_data t)))\<rparr> else t, s')
     \<and> nag_inv dt sz mu thr (vadd (vscale mu m) (t_data t)) s'"
proof -
  obtain s0 where s0: "nag_start s t = Inr s0" "na_inited s0" "nag_inv dt sz mu thr m s0"
    using nag_start_inv [OF assms(1-3)] by blast
  show ?thesis
  proof (cases "na_nag s0")
    case True
    then obtain u where u: "na_mom s0 = Some u" "same_form dt sz u" "t_data u = vscale mu m" "na_mu s0 = mu" "int (numel sz) * 4 < thr"
      using s0(2,3) by (auto simp: nag_inv_def)
    let ?s = "s0\<lparr>na_mom := Some (u\<lparr>t_data := vscale mu (vadd (vscale mu m) (t_data t))\<rparr>)\<rparr>"
    have "nag_decompress exact s t = Inr (t\<lparr>t_data := vadd (t_data t) (vscale mu (vadd (vscale mu m) (t_data t)))\<rparr>, ?s)"
      using assms(2) u s0(1) True by (simp add: nag_decompress_def iadd_def mul_scalar_def same_form_def)
    moreover have "nag_inv dt sz mu thr (vadd (vscale mu m) (t_data t)) ?s"
      using s0(2,3) True u assms(2,4) by (simp add: nag_inv_def same_form_def vadd_def vscale_def)
    ultimately show ?thesis using u(5) by auto
  next
    case False
    then have "\<not> int (numel sz) * 4 < thr" using s0(2,3) by (simp add: nag_inv_def)
    with False s0 show ?thesis by (simp add: nag_decompress_def nag_inv_def)
  qed
qed

definition wdmom_inv :: "dtype \<Rightarrow> nat list \<Rightarrow> rat \<Rightarrow> rat \<Rightarrow> int \<Rightarrow> rat list \<Rightarrow> wdmom_state \<Rightarrow> bool" where
  "wdmom_inv dt sz mu wd thr m s \<longleftrightarrow> wd_mu s = mu \<and> wd_wd s = wd \<and> wd_threshold s = thr
     \<and> (if wd_inited s
        then wd_wdmom s = (thr \<le> int (numel sz) * 4)
           \<and> (wd_wdmom s \<longrightarrow> (\<exists>t. wd_mom s = Some t \<and> same_form dt sz t \<and> t_data t = vscale mu m))
        else \<not> wd_wdmom s \<and> m = vzero (numel sz))"

lemma wdmom_start_inv:
  assumes "wdmom_inv dt sz mu wd thr m s" "same_form dt sz t" "sz \<noteq> []"
  shows "\<exists>s'. wdmom_start s t = Inr s' \<and> wd_inited s' \<and> wdmom_inv dt sz mu wd thr m s'"
  using assms by (auto simp: wdmom_start_def wdmom_inv_def mx_size_numel same_form_def zeros_like_def vzero_def vscale_def Let_def)

lemma wdmom_step:
  assumes "wdmom_inv dt sz mu wd thr m s" "same_form dt sz t" "same_form dt sz x" "sz \<noteq> []" "length m = numel sz"
  shows "\<exists>s'. wdmom_decompress exact s t (Some x) =
       Inr (t\<lparr>t_data := vadd (if thr \<le> int (numel sz) * 4 then vadd (t_data t) (vscale mu (vadd (vscale mu m) (vscale wd (t_data x)))) else t_data t)
                (vscale wd (t_data x))\<rparr>, s')
     \<and> wdmom_inv dt sz mu wd thr (vadd (vscale mu m) (vscale wd (t_data x))) s'"
proof -
  obtain s0 where s0: "wdmom_start s t = Inr s0" "wd_inited s0" "wdmom_inv dt sz mu wd thr m s0"
    using wdmom_start_inv [OF assms(1,2,4)] by blast
  have x: "to_dtype exact (t_dtype t) x = x" using assms(2,3) by (simp add: same_form_def to_dtype_def)
  let ?s = "s0\<lparr>wd_cache := Some (mul_scalar exact x wd)\<rparr>"
  show ?thesis
  proof (cases "wd_wdmom s0")
    case True
    then obtain u where u: "wd_mom s0 = Some u" "same_form dt sz u" "t_data u = vscale mu m" "wd_mu s0 = mu" "wd_wd s0 = wd" "thr \<le> int (numel sz) * 4"
      using s0(2,3) by (auto simp: wdmom_inv_def)
    let ?u = "u\<lparr>t_data := vscale mu (vadd (vscale mu m) (vscale wd (t_data x)))\<rparr>"
    have "wdmom_decompress exact s t (Some x) =
        Inr (t\<lparr>t_data := vadd (vadd (t_data t) (vscale mu (vadd (vscale mu m) (vscale wd (t_data x))))) (vscale wd (t_data x))\<rparr>, ?s\<lparr>wd_mom := Some ?u\<rparr>)"
      using assms(2,3) u s0(1) True x by (simp add: wdmom_decompress_def iadd_def mul_scalar_def same_form_def Let_def)
    moreover have "wdmom_inv dt sz mu wd thr (vadd (vscale mu m) (vscale wd (t_data x))) (?s\<lparr>wd_mom := Some ?u\<rparr>)"
      using s0(2,3) True u assms(2,3,5) by (simp add: wdmom_inv_def same_form_def vadd_def vscale_def)
    ultimately show ?thesis using u(6) by auto
  next
    case False
    then have "\<not> thr \<le> int (numel sz) * 4" "wd_wd s0 = wd" using s0(2,3) by (simp_all add: wdmom_inv_def)
    with False s0 x assms(2,3) show ?thesis
      by (simp add: wdmom_decompress_def wdmom_inv_def iadd_def mul_scalar_def same_form_def Let_def)
  qed
qed

lemma adapters_run:
  assumes "sz \<noteq> []"
  shows "\<forall>(g, x) \<in> set gxs. same_form dt sz g \<and> same_form dt sz x \<Longrightarrow> nag_inv dt sz mu thr m ns \<Longrightarrow> wdmom_inv dt sz mu wd thr v ws \<Longrightarrow>
     length m = numel sz \<Longrightarrow> length v = numel sz \<Longrightarrow>
     \<exists>ts k. decompress_run exact (NagAdapter (WeightDecayMomentumAdapter NoneCompressor ws) ns) gxs = Inr (ts, k)
       \<and> map t_data ts = (if int (numel sz) * 4 < thr
            then nesterov mu m (map (\<lambda>(g, x). vadd (t_data g) (vscale wd (t_data x))) gxs)
            else decay_momentum mu wd v (map (\<lambda>(g, x). (t_data g, t_data x)) gxs))"
proof (induction gxs arbitrary: m v ns ws)
  case (Cons gx gxs)
  obtain g x where gx: "gx = (g, x)" "same_form dt sz g" "same_form dt sz x" using Cons.prems(1) by (cases gx) auto
  have tl: "\<forall>(g, x) \<in> set gxs. same_form dt sz g \<and> same_form dt sz x" using Cons.prems(1) by simp
  let ?v = "vadd (vscale mu v) (vscale wd (t_data x))"
  let ?t = "g\<lparr>t_data := vadd (if thr \<le> int (numel sz) * 4 then vadd (t_data g) (vscale mu ?v) else t_data g) (vscale wd (t_data x))\<rparr>"
  obtain ws' where ws: "wdmom_decompress exact ws g (Some x) = Inr (?t, ws')" "wdmom_inv dt sz mu wd thr ?v ws'"
    using wdmom_step [OF Cons.prems(3) gx(2,3) assms Cons.prems(5)] by blast
  have len: "length ?v = numel sz" "same_form dt sz ?t" using gx Cons.prems(5) by (simp_all add: same_form_def vadd_def vscale_def)
  let ?m = "vadd (vscale mu m) (t_data ?t)"
  obtain ns' where ns: "nag_decompress exact ns ?t =
      Inr (if int (numel sz) * 4 < thr then ?t\<lparr>t_data := vadd (t_data ?t) (vscale mu ?m)\<rparr> else ?t, ns')" "nag_inv dt sz mu thr ?m ns'"
    using nag_step [OF Cons.prems(2) len(2) assms Cons.prems(4)] by blast
  have lm: "length ?m = numel sz" using len(2) Cons.prems(4) by (simp add: same_form_def vadd_def vscale_def)
  obtain ts k where "decompress_run exact (NagAdapter (WeightDecayMomentumAdapter NoneCompressor ws') ns') gxs = Inr (ts, k)"
    "map t_data ts = (if int (numel sz) * 4 < thr
        then nesterov mu ?m (map (\<lambda>(g, x). vadd (t_data g) (vscale wd (t_data x))) gxs)
        else decay_momentum mu wd ?v (map (\<lambda>(g, x). (t_data g, t_data x)) gxs))"
    using Cons.IH [OF tl ns(2) ws(2) lm len(1)] by blast
  with ws(1) ns(1) show ?case by (simp add: gx(1) Let_def del: exact_eq)
qed simp

text \<open>
  The compressor that is registered for one-bit compression with momentum and weight decay: what it
  makes of the gradients of one parameter is the documented update, Nesterov's momentum over gradient
  plus weight decay for a tensor below the compression threshold, and the weight decay momentum
  \<open>m = \<mu> m + wd x\<close>, \<open>gradient + \<mu> m + wd x\<close> from the threshold on. The two adapters never both apply.
\<close>

theorem momentum_adapters:
  assumes "\<forall>(g, x) \<in> set gxs. same_form dt sz g \<and> same_form dt sz x" "sz \<noteq> []"
  shows "\<exists>ts k. decompress_run exact (mx_nag (mx_wdmom NoneCompressor mu wd thr) mu thr) gxs = Inr (ts, k)
     \<and> map t_data ts = (if int (numel sz) * 4 < thr
          then nesterov mu (vzero (numel sz)) (map (\<lambda>(g, x). vadd (t_data g) (vscale wd (t_data x))) gxs)
          else decay_momentum mu wd (vzero (numel sz)) (map (\<lambda>(g, x). (t_data g, t_data x)) gxs))"
  unfolding mx_nag_def mx_wdmom_def
  by (rule adapters_run [OF assms(2)]) (use assms(1) in \<open>auto simp: nag_inv_def wdmom_inv_def vzero_def\<close>)

definition scalar_of :: "rat \<Rightarrow> tensor" where
  "scalar_of q = \<lparr>t_dtype = Float32, t_size = [1], t_data = [q]\<rparr>"

lemma scalar_of_form [simp]: "same_form Float32 [Suc 0] (scalar_of q)" "t_data (scalar_of q) = [q]"
  by (simp_all add: scalar_of_def same_form_def numel_def)

theorem momentum_adapters_witness:
  "\<exists>ts k. decompress_run exact (mx_nag (mx_wdmom NoneCompressor (1/2) 1 100) (1/2) 100) [(scalar_of 1, scalar_of 1), (scalar_of 2, scalar_of 4)] = Inr (ts, k)
     \<and> map t_data ts = [[3], [19/2]]"
  using momentum_adapters [of "[(scalar_of 1, scalar_of 1), (scalar_of 2, scalar_of 4)]" Float32 "[1]" "1/2" 1 100]
  by (auto simp: numel_def vzero_def vadd_def vscale_def simp del: decompress_run.simps exact_eq)

text \<open>
  Registration and declaration fit together: for one-bit compression with error feedback and
  momentum the library is given, for every parameter, the lower-case compressor options under the names
  without prefix, and the optimizer no longer applies momentum or weight decay itself.
\<close>

theorem register_onebit:
  assumes "dict_get cp ''compressor'' = Some (AStr ''onebit'')" "dict_get cp ''ef'' = Some (AStr ef)" "dict_get cp ''momentum'' = Some (AStr mom)"
    and "ef \<noteq> []" "mom \<noteq> []" "dict_get_or cp ''scaling'' (ABool False) = ABool b"
    and "dict_get_or cp ''seed'' ANone = ANone" "\<not> cp_true cp ''partition''" "\<not> cp_true cp ''normalize''"
    and "dict_get op ''momentum'' = Some mu" "dict_get op ''wd'' = Some wd"
    and "py_int (dict_get_or env ''BYTEPS_MIN_COMPRESS_BYTES'' ''65536'') = Inr thr" "n > 0"
  shows "\<exists>attrs op'. register_compressor fl ob env (replicate n []) (Some op) cp =
       Inr (replicate n attrs, Some op', mx_nag (mx_wdmom (if cp_true cp ''fp16'' then FP16Compressor else NoneCompressor) mu wd thr) mu thr)
     \<and> \<not> dict_has op' ''momentum'' \<and> \<not> dict_has op' ''wd''
     \<and> declare_args fl (byteps_params attrs) =
         Inr [(''compressor_type'', ''onebit''), (''ef_type'', py_lower ef), (''momentum_type'', py_lower mom),
              (''compressor_onebit_scaling'', if b then ''true'' else ''false''), (''momentum_mu'', fl mu)]"
proof -
  let ?attrs = "[(''byteps_compressor_type'', AStr ''onebit''), (''byteps_ef_type'', AStr ef), (''byteps_momentum_type'', AStr mom),
    (''byteps_compressor_onebit_scaling'', AStr (bool_str b)), (''byteps_momentum_mu'', AFloat mu)]"
  have t: "cp_true cp ''compressor''" "cp_true cp ''ef''" "cp_true cp ''momentum''" using assms(1-5) by (simp_all add: cp_true_def dict_get_or_def)
  have "register_param fl ob (Some op) cp [] = Inr ?attrs"
    using assms t by (simp add: register_param_def check_item_def dithering_option_def opt_index_def dict_index_def dict_get_or_def)
  then have m: "map_res (register_param fl ob (Some op) cp) (replicate n []) = Inr (replicate n ?attrs)"
    by (subst map_res_Inr_map [where g = "\<lambda>_. ?attrs"]) simp_all
  have "cp \<noteq> []" using assms(1) by auto
  then have "register_compressor fl ob env (replicate n []) (Some op) cp =
      Inr (replicate n ?attrs, Some (AList.delete ''momentum'' (AList.delete ''wd'' op)),
        mx_nag (mx_wdmom (if cp_true cp ''fp16'' then FP16Compressor else NoneCompressor) mu wd thr) mu thr)"
    using assms(1,10-13) t m by (simp add: register_compressor_def dict_has_def opt_index_def dict_index_def Let_def)
  moreover have "declare_args fl (byteps_params ?attrs) =
      Inr [(''compressor_type'', ''onebit''), (''ef_type'', py_lower ef), (''momentum_type'', py_lower mom),
           (''compressor_onebit_scaling'', if b then ''true'' else ''false''), (''momentum_mu'', fl mu)]"
    by (cases b) (simp_all add: declare_args_def declare_arg_def byteps_params_def py_startswith_def py_lower_def lower_char_def Let_def)
  ultimately show ?thesis by (fastforce simp: dict_has_def delete_conv')
qed

theorem register_onebit_witness:
  "\<exists>attrs op'. register_compressor (\<lambda>_. ''0.9'') [] [(''BYTEPS_MIN_COMPRESS_BYTES'', ''1024'')] (replicate 2 []) (Some [(''momentum'', 9/10), (''wd'', 1/10)])
       [(''compressor'', AStr ''onebit''), (''ef'', AStr ''Vanilla''), (''momentum'', AStr ''nesterov''), (''scaling'', ABool True)] =
       Inr (replicate 2 attrs, Some op', mx_nag (mx_wdmom NoneCompressor (9/10) (1/10) 1024) (9/10) 1024)
     \<and> \<not> dict_has op' ''momentum'' \<and> \<not> dict_has op' ''wd''
     \<and> declare_args (\<lambda>_. ''0.9'') (byteps_params attrs) =
         Inr [(''compressor_type'', ''onebit''), (''ef_type'', ''vanilla''), (''momentum_type'', ''nesterov''),
              (''compressor_onebit_scaling'', ''true''), (''momentum_mu'', ''0.9'')]"
proof -
  have "nat_str 1024 = ''1024''" by code_simp
  then have i: "py_int ''1024'' = Inr 1024" using py_int_nat_str [of 1024] by (simp del: nat_str.simps)
  have l: "py_lower ''Vanilla'' = ''vanilla''" "py_lower ''nesterov'' = ''nesterov''" by (simp_all add: py_lower_def lower_char_def)
  show ?thesis
    using register_onebit [of "[(''compressor'', AStr ''onebit''), (''ef'', AStr ''Vanilla''), (''momentum'', AStr ''nesterov''), (''scaling'', ABool True)]"
        "''Vanilla''" "''nesterov''" True "[(''momentum'', 9/10), (''wd'', 1/10)]" "9/10" "1/10" "[(''BYTEPS_MIN_COMPRESS_BYTES'', ''1024'')]" 1024 2 "\<lambda>_. ''0.9''" "[]"]
    by (simp add: dict_get_or_def cp_true_def i l)
qed

end
