(* ===== verification/Mxnet.thy ===== *)
theory Mxnet
  imports Mxnet_Compression Torch_Broadcast
begin

text \<open>
  \<^verbatim>\<open>byteps/mxnet/ops.py\<close> and \<^verbatim>\<open>byteps/mxnet/__init__.py\<close>: push-pull on arrays, the distributed optimizer,
  broadcasting and the gluon trainer. A push-pull runs in the array library's engine, which orders the
  operations on one array: the model records the running push-pull of an array (\<open>x_running\<close>) and takes its
  result at the next operation that uses the array (\<open>wait_to_read\<close>). Arithmetic is stored with the
  parameter \<open>c\<close>; the wrapped optimizer and the trainer's superclass are parameters.
\<close>

section \<open>Arrays and push-pull\<close>

record mxw =
  x_rank :: int
  x_local_rank :: int
  x_size :: int
  x_heap :: "addr \<Rightarrow> tensor"
  x_next :: addr
  x_running :: "(addr, nat) dict"
  x_declared :: "(string, (string, string) dict) dict"
  x_op_count :: nat
  x_parameter_index :: nat

definition wait_to_read :: "addr \<Rightarrow> ('z mxw_scheme, unit) io" where
  "wait_to_read a w =
     (case dict_get (x_running w) a of
        None \<Rightarrow> Ret (Inr (), w)
      | Some h \<Rightarrow> Wait h (\<lambda>t. Ret (Inr (),
          w\<lparr>x_heap := (x_heap w)(a := (x_heap w a)\<lparr>t_data := t_data t\<rparr>), x_running := AList.delete a (x_running w)\<rparr>)))"

definition read_array :: "addr \<Rightarrow> ('z mxw_scheme, tensor) io" where
  "read_array a = bind_io (wait_to_read a) (\<lambda>_. get_io (\<lambda>w. x_heap w a))"

definition write_array :: "addr \<Rightarrow> tensor \<Rightarrow> ('z mxw_scheme, unit) io" where
  "write_array a t = bind_io (wait_to_read a) (\<lambda>_. modify_io (\<lambda>w. w\<lparr>x_heap := (x_heap w)(a := t)\<rparr>))"

definition new_array :: "tensor \<Rightarrow> ('z mxw_scheme, addr) io" where
  "new_array t w = Ret (Inr (x_next w), w\<lparr>x_heap := (x_heap w)(x_next w := t), x_next := Suc (x_next w)\<rparr>)"

definition mx_op_name :: "string option \<Rightarrow> ('z mxw_scheme, string) io" where
  "mx_op_name name =
     (case name of
        Some n \<Rightarrow> ret_io (''byteps.'' @ n)
      | None \<Rightarrow> bind_io (modify_io (\<lambda>w. w\<lparr>x_op_count := Suc (x_op_count w)\<rparr>)) (\<lambda>_.
                get_io (\<lambda>w. ''byteps.noname.'' @ nat_str (x_op_count w))))"

definition mx_push_pull :: "addr \<Rightarrow> int \<Rightarrow> int \<Rightarrow> string option \<Rightarrow> bool \<Rightarrow> ('z mxw_scheme, unit) io" where
  "mx_push_pull a version priority name is_average =
     bind_io (mx_op_name name) (\<lambda>key.
     bind_io (wait_to_read a) (\<lambda>_.
     (\<lambda>w. Issue \<lparr>rq_key = key, rq_average = is_average, rq_version = version, rq_priority = priority, rq_norm = 0,
                 rq_compressor = '''', rq_input = x_heap w a\<rparr>
        (\<lambda>h. Ret (Inr (), w\<lparr>x_running := dict_set (x_running w) a h\<rparr>)))))"

definition mx_declare_tensor :: "(rat \<Rightarrow> string) \<Rightarrow> string \<Rightarrow> (string, attr) dict \<Rightarrow> ('z mxw_scheme, unit) io" where
  "mx_declare_tensor fl name kwargs =
     bind_io (lift_io (declare_args fl kwargs)) (\<lambda>args.
       modify_io (\<lambda>w. w\<lparr>x_declared := (if args \<noteq> [] \<or> \<not> dict_has (x_declared w) (''byteps.'' @ name)
                                       then dict_set (x_declared w) (''byteps.'' @ name) args else x_declared w)\<rparr>))"

section \<open>The distributed optimizer\<close>

text \<open>An index with its arrays, or lists of them.\<close>

datatype mx_index = One int | Many "int list"

fun index_list :: "mx_index \<Rightarrow> int list" where
  "index_list (One i) = [i]"
| "index_list (Many is) = is"

definition mx_opt_init :: "(string, string) dict \<Rightarrow> bool res" where
  "mx_opt_init env =
     bind_res (py_int (dict_get_or env ''BYTEPS_ENABLE_ASYNC'' ''0'')) (\<lambda>n.
       if n \<noteq> 0
       then bind_res (bind_res (of_option TypeError (dict_get env ''DMLC_NUM_WORKER'')) py_int) (\<lambda>k.
            bind_res (assert_res (k > 1)) (\<lambda>_. Inr True))
       else Inr False)"

definition push_pull_indexed ::
    "(rat \<Rightarrow> string) \<Rightarrow> string \<Rightarrow> bool \<Rightarrow> mx_index \<Rightarrow> addr list \<Rightarrow> ('z mxw_scheme, unit) io" where
  "push_pull_indexed fl prefix is_average index as =
     for_io (\<lambda>(n, i).
       bind_io (mx_declare_tensor fl (prefix @ py_str i) []) (\<lambda>_.
       bind_io (lift_io (py_index as (int n))) (\<lambda>a.
         mx_push_pull a 0 (- i) (Some (prefix @ py_str i)) is_average))) (enumerate 0 (index_list index))"

definition do_push_pull :: "(rat \<Rightarrow> string) \<Rightarrow> mx_index \<Rightarrow> addr list \<Rightarrow> ('z mxw_scheme, unit) io" where
  "do_push_pull fl index grad = push_pull_indexed fl ''gradient_'' True index grad"

definition do_push_pull_param :: "(rat \<Rightarrow> string) \<Rightarrow> mx_index \<Rightarrow> addr list \<Rightarrow> ('z mxw_scheme, unit) io" where
  "do_push_pull_param fl index delta_weight = push_pull_indexed fl ''weight_'' False index delta_weight"

fun read_all :: "addr list \<Rightarrow> ('z mxw_scheme, tensor list) io" where
  "read_all [] = ret_io []"
| "read_all (a # as) = bind_io (read_array a) (\<lambda>t. bind_io (read_all as) (\<lambda>ts. ret_io (t # ts)))"

definition isub_array :: "storage \<Rightarrow> addr \<times> tensor \<Rightarrow> ('z mxw_scheme, unit) io" where
  "isub_array c = (\<lambda>(a, t). bind_io (read_array a) (\<lambda>u.
     write_array a (u\<lparr>t_data := map (c (t_dtype u)) (vsub (t_data u) (t_data t))\<rparr>)))"

text \<open>
  The two update methods differ in the method of the wrapped optimizer (\<open>opt\<close>) that they call, \<open>update\<close>
  or \<open>update_multi_precision\<close>.
\<close>

definition mx_update ::
    "(rat \<Rightarrow> string) \<Rightarrow> storage \<Rightarrow> bool \<Rightarrow> (mx_index \<Rightarrow> addr list \<Rightarrow> addr list \<Rightarrow> 's \<Rightarrow> ('z mxw_scheme, unit) io) \<Rightarrow>
     mx_index \<Rightarrow> addr list \<Rightarrow> addr list \<Rightarrow> 's \<Rightarrow> ('z mxw_scheme, unit) io" where
  "mx_update fl c enable_async opt index weight grad state =
     (if enable_async
      then bind_io (read_all weight) (\<lambda>temp_weight_list.
           bind_io (opt index weight grad state) (\<lambda>_.
           bind_io (for_io (isub_array c) (zip weight temp_weight_list)) (\<lambda>_.
             do_push_pull_param fl index weight)))
      else bind_io (do_push_pull fl index grad) (\<lambda>_. opt index weight grad state))"

section \<open>Broadcasting\<close>

datatype mx_params = MxDict "(string, addr) dict" | MxParameterDict | MxOther

definition mx_rank :: "('z mxw_scheme, int) io" where
  "mx_rank = bind_io (get_io x_rank) (\<lambda>r. lift_io (rank_query r))"

definition imul_zero :: "storage \<Rightarrow> addr \<Rightarrow> ('z mxw_scheme, unit) io" where
  "imul_zero c a = bind_io (read_array a) (\<lambda>t. write_array a (mul_scalar c t 0))"

definition mx_broadcast_one :: "(rat \<Rightarrow> string) \<Rightarrow> storage \<Rightarrow> int \<Rightarrow> addr \<Rightarrow> ('z mxw_scheme, unit) io" where
  "mx_broadcast_one fl c root_rank a =
     bind_io (get_io (\<lambda>w. ''parameter_'' @ nat_str (x_parameter_index w))) (\<lambda>name.
     bind_io (mx_declare_tensor fl name []) (\<lambda>_.
     bind_io mx_rank (\<lambda>r.
     bind_io (if r \<noteq> root_rank then imul_zero c a else ret_io ()) (\<lambda>_.
     bind_io (mx_push_pull a 0 0 (Some name) False) (\<lambda>_.
       modify_io (\<lambda>w. w\<lparr>x_parameter_index := Suc (x_parameter_index w)\<rparr>))))))"

fun mx_broadcast_parameters :: "(rat \<Rightarrow> string) \<Rightarrow> storage \<Rightarrow> mx_params \<Rightarrow> int \<Rightarrow> ('z mxw_scheme, unit) io" where
  "mx_broadcast_parameters fl c (MxDict d) root_rank =
     (let tensors = map snd (sort_key fst d)
      in bind_io (for_io (mx_broadcast_one fl c root_rank) tensors) (\<lambda>_. for_io wait_to_read tensors))"
| "mx_broadcast_parameters fl c MxParameterDict root_rank = raise_io TypeError"
| "mx_broadcast_parameters fl c MxOther root_rank = raise_io ValueError"

section \<open>The trainer\<close>

record mx_param =
  mp_name :: string
  mp_grad_req :: string
  mp_grad :: addr
  mp_data :: addr
  mp_attrs :: "(string, attr) dict"
  mp_deferred_init :: bool

record trainer = mxw +
  tr_params :: "mx_param list"
  tr_params_to_init :: "mx_param list"
  tr_intra_compressors :: "(string, mx_compressor) dict"
  tr_scale :: rat
  tr_learning_rate :: rat
  tr_bps_size :: int
  tr_root_rank :: int
  tr_lr_file :: "rat option"

definition declare_param :: "(rat \<Rightarrow> string) \<Rightarrow> mx_compressor \<Rightarrow> nat \<times> mx_param \<Rightarrow> (trainer, unit) io" where
  "declare_param fl intra = (\<lambda>(i, param).
     bind_io (mx_declare_tensor fl (''parameter_'' @ nat_str i) []) (\<lambda>_.
     bind_io (modify_io (\<lambda>w. w\<lparr>tr_intra_compressors := dict_set (tr_intra_compressors w) (mp_name param) intra\<rparr>)) (\<lambda>_.
       if mp_grad_req param \<noteq> ''null''
       then bind_io mx_rank (\<lambda>_. mx_declare_tensor fl (''gradient_'' @ nat_str i) (byteps_params (mp_attrs param)))
       else ret_io ())))"

text \<open>
  The constructor on a dictionary of parameters; only a gluon \<open>ParameterDict\<close> fills the list of parameters.
  The superclass takes the list and sets the scale and the learning rate (\<open>super_init\<close>).
\<close>

definition trainer_init ::
    "(rat \<Rightarrow> string) \<Rightarrow> string \<Rightarrow> (string, string) dict \<Rightarrow> (mx_param list \<Rightarrow> (string, rat) dict option \<Rightarrow> trainer \<Rightarrow> trainer) \<Rightarrow>
     bool \<Rightarrow> (string, mx_param) dict \<Rightarrow> (string, rat) dict option \<Rightarrow> int \<Rightarrow> (string, attr) dict \<Rightarrow> (trainer, unit) io" where
  "trainer_init fl ob env super_init is_parameter_dict params optimizer_params root_rank compression_params =
     bind_io (lift_io (register_compressor fl ob env (map (\<lambda>(_, p). mp_attrs p) params) optimizer_params compression_params)) (\<lambda>(attrs, op, intra).
     let params = map2 (\<lambda>(k, p) a. (k, p\<lparr>mp_attrs := a\<rparr>)) params attrs;
         param_list = (if is_parameter_dict then map snd (sort_key fst params) else [])
     in bind_io (modify_io (super_init param_list op)) (\<lambda>_.
        bind_io (get_io x_local_rank) (\<lambda>lr. bind_io (lift_io (local_rank_query lr)) (\<lambda>lr.
        bind_io (if lr = 0 then modify_io (\<lambda>w. w\<lparr>tr_lr_file := Some 0\<rparr>) else ret_io ()) (\<lambda>_.
        bind_io (get_io x_size) (\<lambda>s. bind_io (lift_io (size_query s)) (\<lambda>s.
        bind_io (modify_io (\<lambda>w. w\<lparr>tr_bps_size := s, tr_root_rank := root_rank, tr_intra_compressors := []\<rparr>)) (\<lambda>_.
        bind_io (get_io tr_params) (\<lambda>ps.
          for_io (declare_param fl intra) (enumerate 0 ps))))))))))"

definition trainer_del :: "(trainer, unit) io" where
  "trainer_del =
     bind_io (get_io x_local_rank) (\<lambda>lr. bind_io (lift_io (local_rank_query lr)) (\<lambda>lr.
       if lr = 0 then modify_io (\<lambda>w. w\<lparr>tr_lr_file := None\<rparr>) else ret_io ()))"

definition trainer_step :: "(rat \<Rightarrow> bool \<Rightarrow> (trainer, unit) io) \<Rightarrow> rat \<Rightarrow> bool \<Rightarrow> (trainer, unit) io" where
  "trainer_step super_step batch_size ignore_stale_grad =
     bind_io (modify_io (\<lambda>w. w\<lparr>tr_scale := batch_size\<rparr>)) (\<lambda>_. super_step batch_size ignore_stale_grad)"

definition grad_factor :: "trainer \<Rightarrow> rat res" where
  "grad_factor w = (if tr_scale w = 0 \<or> tr_bps_size w = 0 then Inl ZeroDivisionError else Inr (1 / tr_scale w / of_int (tr_bps_size w)))"

definition allreduce_one :: "storage \<Rightarrow> nat \<times> mx_param \<Rightarrow> (trainer, unit) io" where
  "allreduce_one c = (\<lambda>(i, param).
     if mp_grad_req param \<noteq> ''null''
     then bind_io (get_io grad_factor) (\<lambda>f. bind_io (lift_io f) (\<lambda>f.
          bind_io (read_array (mp_grad param)) (\<lambda>g.
          bind_io (write_array (mp_grad param) (mul_scalar c g f)) (\<lambda>_.
          bind_io (get_io (\<lambda>w. dict_index (tr_intra_compressors w) (mp_name param))) (\<lambda>k. bind_io (lift_io k) (\<lambda>k.
          bind_io (ret_io (mx_compress c k (mul_scalar c g f))) (\<lambda>(ct, ctx).
          bind_io (case ct of None \<Rightarrow> ret_io (mp_grad param) | Some t \<Rightarrow> new_array t) (\<lambda>compressed.
          bind_io (mx_push_pull compressed 0 (- int i) (Some (''gradient_'' @ nat_str i)) False) (\<lambda>_.
          bind_io (read_array (mp_data param)) (\<lambda>x.
          bind_io (read_array compressed) (\<lambda>t.
          bind_io (lift_io (mx_decompress c k t ctx (Some x))) (\<lambda>(t, k).
          bind_io (modify_io (\<lambda>w. w\<lparr>tr_intra_compressors := dict_set (tr_intra_compressors w) (mp_name param) k\<rparr>)) (\<lambda>_.
          bind_io (read_array (mp_grad param)) (\<lambda>g.
            write_array (mp_grad param) (g\<lparr>t_data := map (c (t_dtype g)) (t_data t)\<rparr>)))))))))))))))
     else ret_io ())"

definition allreduce_grads :: "storage \<Rightarrow> (trainer, unit) io" where
  "allreduce_grads c =
     bind_io (get_io x_local_rank) (\<lambda>lr. bind_io (lift_io (local_rank_query lr)) (\<lambda>lr.
     bind_io (if lr = 0 then modify_io (\<lambda>w. w\<lparr>tr_lr_file := Some (tr_learning_rate w)\<rparr>) else ret_io ()) (\<lambda>_.
     bind_io (get_io tr_params) (\<lambda>ps. for_io (allreduce_one c) (enumerate 0 ps)))))"

definition param2idx :: "mx_param list \<Rightarrow> string \<Rightarrow> nat res" where
  "param2idx ps name = of_option KeyError (map_of (rev (map (\<lambda>(i, p). (mp_name p, i)) (enumerate 0 ps))) name)"

definition init_param :: "storage \<Rightarrow> mx_param \<Rightarrow> (trainer, unit) io" where
  "init_param c param =
     (if mp_deferred_init param then ret_io ()
      else bind_io (get_io (\<lambda>w. param2idx (tr_params w) (mp_name param))) (\<lambda>idx. bind_io (lift_io idx) (\<lambda>idx.
           bind_io mx_rank (\<lambda>r. bind_io (get_io tr_root_rank) (\<lambda>root.
           bind_io (if r \<noteq> root then imul_zero c (mp_data param) else ret_io ()) (\<lambda>_.
             mx_push_pull (mp_data param) 0 0 (Some (''parameter_'' @ nat_str idx)) False))))))"

definition init_params :: "storage \<Rightarrow> (trainer, unit) io" where
  "init_params c =
     bind_io (get_io tr_params_to_init) (\<lambda>ps.
     bind_io (for_io (init_param c) ps) (\<lambda>_.
       modify_io (\<lambda>w. w\<lparr>tr_params_to_init := filter mp_deferred_init ps\<rparr>)))"

section \<open>What the trainer averages\<close>

lemma vsum_vscale: "vsum n (map (\<lambda>j. vscale a (f j)) js) = vscale a (vsum n (map f js))"
  by (induction js) (simp_all add: vscale_add)

definition grad_req :: "rat \<Rightarrow> nat \<Rightarrow> mx_param \<Rightarrow> trainer \<Rightarrow> req" where
  "grad_req f i p w =
     \<lparr>rq_key = ''byteps.gradient_'' @ nat_str i, rq_average = False, rq_version = 0, rq_priority = - int i, rq_norm = 0,
      rq_compressor = '''', rq_input = mul_scalar exact (x_heap w (mp_grad p)) f\<rparr>"

definition reduced :: "mx_param \<Rightarrow> rat list \<Rightarrow> trainer \<Rightarrow> trainer" where
  "reduced p xs w =
     w\<lparr>x_heap := (x_heap w)(mp_grad p := (x_heap w (mp_grad p))\<lparr>t_data := xs\<rparr>),
       tr_intra_compressors := dict_set (tr_intra_compressors w) (mp_name p) NoneCompressor\<rparr>"

text \<open>A trainer without compressors and without running push-pulls.\<close>

definition plain_trainer :: "mx_param list \<Rightarrow> rat \<Rightarrow> rat \<Rightarrow> trainer \<Rightarrow> bool" where
  "plain_trainer ps b n w \<longleftrightarrow> x_running w = [] \<and> tr_scale w = b \<and> of_int (tr_bps_size w) = n
     \<and> (\<forall>p \<in> set ps. dict_get (tr_intra_compressors w) (mp_name p) = Some NoneCompressor)"

lemma plain_trainer_reduced: "plain_trainer (p # ps) b n w \<Longrightarrow> plain_trainer ps b n (reduced p xs w)"
  by (simp add: plain_trainer_def reduced_def)

lemma bind_wait:
  "dict_get (x_running w) a = None \<Longrightarrow> bind_io (wait_to_read a) f w = f () w"
  "dict_get (x_running w) a = Some h \<Longrightarrow> bind_io (wait_to_read a) f w = Wait h (\<lambda>t. f ()
     (w\<lparr>x_heap := (x_heap w)(a := (x_heap w a)\<lparr>t_data := t_data t\<rparr>), x_running := AList.delete a (x_running w)\<rparr>))"
  by (simp_all add: wait_to_read_def bind_io_def)

lemma bind_issue: "bind_io (\<lambda>w. Issue (q w) (\<lambda>h. Ret (Inr x, g w h))) f w = Issue (q w) (\<lambda>h. f x (g w h))"
  by (simp add: bind_io_def)

lemma allreduce_one_run:
  assumes "plain_trainer (p # ps) b n w" "b \<noteq> 0" "n \<noteq> 0" "mp_grad_req p \<noteq> ''null''" "mp_data p \<noteq> mp_grad p"
  shows "allreduce_one exact (i, p) w = Issue (grad_req (1 / b / n) i p w) (\<lambda>h. Wait h (\<lambda>t. Ret (Inr (), reduced p (t_data t) w)))"
  using assms
  by (cases w) (simp add: allreduce_one_def plain_trainer_def grad_factor_def read_array_def write_array_def bind_wait bind_issue
      mx_push_pull_def mx_op_name_def bind_io_assoc bind_io_basic io_run dict_index_def grad_req_def reduced_def mul_scalar_def)

lemma allreduce_one_null: "mp_grad_req p = ''null'' \<Longrightarrow> allreduce_one c (i, p) w = Ret (Inr (), w)"
  by (simp add: allreduce_one_def io_run)

lemma runs_allreduce_one:
  assumes ok: "net_ok net" "n_store net = exact" and b: "b \<noteq> 0" and bal: "balanced net L"
    and w: "\<And>i. i < n_size net \<Longrightarrow> plain_trainer (p # ps) b (of_nat (n_size net)) (w i)"
      "\<And>i. i < n_size net \<Longrightarrow> same_form dt sz (x_heap (w i) (mp_grad p))"
    and p: "mp_grad_req p \<noteq> ''null''" "mp_data p \<noteq> mp_grad p"
  shows "\<exists>L'. runs net L (\<lambda>i. allreduce_one exact (k, p) (w i)) L'
       (\<lambda>i. (Inr (), reduced p (vscale (1 / (b * of_nat (n_size net))) (vsum (numel sz) (map (\<lambda>j. t_data (x_heap (w j) (mp_grad p))) [0..<n_size net]))) (w i)))
     \<and> balanced net L'"
proof -
  let ?n = "of_nat (n_size net) :: rat"
  let ?q = "\<lambda>i. grad_req (1 / b / ?n) k p (w i)" and ?key = "''byteps.gradient_'' @ nat_str k"
  let ?t = "\<lparr>t_dtype = dt, t_size = sz, t_data = vsum (numel sz) (map (\<lambda>j. t_data (rq_input (?q j))) [0..<n_size net])\<rparr>"
  have n: "?n \<noteq> 0" using ok(1) by (simp add: net_ok_def)
  have "runs net L (\<lambda>i. Issue (?q i) (\<lambda>h. Wait h (\<lambda>t. Ret (Inr (), reduced p (t_data t) (w i))))) (\<lambda>i. L i @ [?q i])
      (\<lambda>i. (Inr (), reduced p (t_data (finish_output net (rq_average (?q i)) ?t)) (w i)))"
  proof (rule runs_collective [OF ok(1) bal])
    show "rq_key (?q i) = ?key" for i by (simp add: grad_req_def)
    show "server_round (n_store net) (map (\<lambda>j. rq_input (?q j)) (n_arrive net ?key r)) = Some ?t" for r
      unfolding ok(2) by (rule server_round_exact [OF ok(1)]) (use w(2) in \<open>auto simp: grad_req_def mul_scalar_def same_form_def vscale_def\<close>)
  qed
  then have "runs net L (\<lambda>i. allreduce_one exact (k, p) (w i)) (\<lambda>i. L i @ [?q i])
      (\<lambda>i. (Inr (), reduced p (vscale (1 / (b * ?n)) (vsum (numel sz) (map (\<lambda>j. t_data (x_heap (w j) (mp_grad p))) [0..<n_size net]))) (w i)))"
  proof (rule runs_cong [OF ok(1)])
    fix i assume i: "i < n_size net"
    show "Issue (?q i) (\<lambda>h. Wait h (\<lambda>t. Ret (Inr (), reduced p (t_data t) (w i)))) = allreduce_one exact (k, p) (w i)"
      by (rule allreduce_one_run [OF w(1) [OF i] b n p, symmetric])
    show "(Inr (), reduced p (t_data (finish_output net (rq_average (?q i)) ?t)) (w i)) =
      (Inr (), reduced p (vscale (1 / (b * ?n)) (vsum (numel sz) (map (\<lambda>j. t_data (x_heap (w j) (mp_grad p))) [0..<n_size net]))) (w i))"
      by (simp add: finish_output_def grad_req_def mul_scalar_def vsum_vscale)
  qed simp
  moreover have "balanced net (\<lambda>i. L i @ [?q i])" by (rule balanced_snoc [OF bal, where k = ?key]) (simp add: grad_req_def)
  ultimately show ?thesis by blast
qed

definition grad_mean :: "net \<Rightarrow> rat \<Rightarrow> mx_param \<Rightarrow> (nat \<Rightarrow> trainer) \<Rightarrow> rat list" where
  "grad_mean net b p w =
     vscale (1 / (b * of_nat (n_size net))) (vsum (numel (t_size (x_heap (w 0) (mp_grad p)))) (map (\<lambda>j. t_data (x_heap (w j) (mp_grad p))) [0..<n_size net]))"

definition reduce_eff :: "net \<Rightarrow> rat \<Rightarrow> nat \<times> mx_param \<Rightarrow> (nat \<Rightarrow> trainer) \<Rightarrow> nat \<Rightarrow> trainer" where
  "reduce_eff net b = (\<lambda>(k, p) w i. if mp_grad_req p = ''null'' then w i else reduced p (grad_mean net b p w) (w i))"

definition reduce_ready :: "net \<Rightarrow> rat \<Rightarrow> (nat \<times> mx_param) list \<Rightarrow> (nat \<Rightarrow> trainer) \<Rightarrow> bool" where
  "reduce_ready net b kps w \<longleftrightarrow> n_store net = exact \<and> b \<noteq> 0 \<and> distinct (map (\<lambda>(k, p). mp_grad p) kps)
     \<and> (\<forall>i < n_size net. plain_trainer (map snd kps) b (of_nat (n_size net)) (w i))
     \<and> (\<forall>(k, p) \<in> set kps. mp_data p \<noteq> mp_grad p
          \<and> (\<exists>dt sz. \<forall>i < n_size net. same_form dt sz (x_heap (w i) (mp_grad p))))"

lemma reduce_eff_heap:
  "x_heap (reduce_eff net b (k, p) w i) a =
     (if mp_grad_req p \<noteq> ''null'' \<and> a = mp_grad p then (x_heap (w i) a)\<lparr>t_data := grad_mean net b p w\<rparr> else x_heap (w i) a)"
  by (simp add: reduce_eff_def reduced_def)

interpretation mx_loop: joint_loop net "\<lambda>i. allreduce_one exact" "reduce_eff net b" "reduce_ready net b" for net b
proof
  fix L :: "nat \<Rightarrow> req list" and x xs and w :: "nat \<Rightarrow> trainer"
  assume ok: "net_ok net" "balanced net L" and r: "reduce_ready net b (x # xs) w"
  obtain k p where x: "x = (k, p)" by (cases x)
  show "\<exists>L' y. runs net L (\<lambda>i. allreduce_one exact x (w i)) L' (\<lambda>i. (Inr (y i), reduce_eff net b x w i)) \<and> balanced net L'"
  proof (cases "mp_grad_req p = ''null''")
    case True
    then have "runs net L (\<lambda>i. allreduce_one exact x (w i)) L (\<lambda>i. (Inr (), reduce_eff net b x w i))"
      by (intro runs_Ret) (simp add: x allreduce_one_null reduce_eff_def)
    with ok(2) show ?thesis by (intro exI [of _ L] exI [of _ "\<lambda>_. ()"] conjI)
  next
    case False
    obtain dt sz where f: "\<And>i. i < n_size net \<Longrightarrow> same_form dt sz (x_heap (w i) (mp_grad p))" using r by (auto simp: reduce_ready_def x)
    have "0 < n_size net" using ok(1) by (simp add: net_ok_def)
    then have "t_size (x_heap (w 0) (mp_grad p)) = sz" using f by (simp add: same_form_def)
    then have e: "reduce_eff net b x w = (\<lambda>i. reduced p (vscale (1 / (b * of_nat (n_size net)))
        (vsum (numel sz) (map (\<lambda>j. t_data (x_heap (w j) (mp_grad p))) [0..<n_size net]))) (w i))"
      using False by (auto simp: reduce_eff_def x grad_mean_def)
    have "\<exists>L'. runs net L (\<lambda>i. allreduce_one exact (k, p) (w i)) L' (\<lambda>i. (Inr (), reduce_eff net b x w i)) \<and> balanced net L'"
      unfolding e by (rule runs_allreduce_one [OF ok(1) _ _ ok(2), where ps = "map snd xs"]) (use r False f in \<open>auto simp: reduce_ready_def x\<close>)
    then obtain L' where "runs net L (\<lambda>i. allreduce_one exact (k, p) (w i)) L' (\<lambda>i. (Inr (), reduce_eff net b x w i))" "balanced net L'" by blast
    then show ?thesis unfolding x by (intro exI [of _ L'] exI [of _ "\<lambda>_. ()"] conjI)
  qed
next
  fix x xs and w :: "nat \<Rightarrow> trainer"
  assume ok: "net_ok net" and r: "reduce_ready net b (x # xs) w"
  obtain k p where x: "x = (k, p)" by (cases x)
  have d: "distinct (map (\<lambda>(k, p). mp_grad p) (x # xs))" using r by (simp add: reduce_ready_def)
  have ne: "mp_grad q \<noteq> mp_grad p" if "(l, q) \<in> set xs" for l q
  proof -
    have "mp_grad q \<in> (\<lambda>(k, p). mp_grad p) ` set xs" using that by (auto intro: image_eqI [where x = "(l, q)"])
    then show ?thesis using d by (auto simp: x)
  qed
  have "plain_trainer (map snd xs) b (of_nat (n_size net)) (reduce_eff net b x w i)" if "i < n_size net" for i
    using r that plain_trainer_reduced [of p "map snd xs"] by (auto simp: reduce_ready_def reduce_eff_def x plain_trainer_def)
  moreover have "x_heap (reduce_eff net b x w i) (mp_grad q) = x_heap (w i) (mp_grad q)" if "(l, q) \<in> set xs" for l q i
    using ne [OF that] by (simp add: x reduce_eff_heap)
  moreover have "mp_data q \<noteq> mp_grad q \<and> (\<exists>dt sz. \<forall>i < n_size net. same_form dt sz (x_heap (w i) (mp_grad q)))" if "(l, q) \<in> set xs" for l q
    using r that by (auto simp: reduce_ready_def)
  ultimately show "reduce_ready net b xs (reduce_eff net b x w)" using r d by (auto simp: reduce_ready_def)
qed

lemma reduce_loop_other:
  "(\<And>k p. (k, p) \<in> set kps \<Longrightarrow> mp_grad_req p \<noteq> ''null'' \<Longrightarrow> a \<noteq> mp_grad p) \<Longrightarrow> x_heap (fold (reduce_eff net b) kps w i) a = x_heap (w i) a"
proof (induction kps arbitrary: w)
  case (Cons kp kps)
  obtain k p where kp: "kp = (k, p)" by (cases kp)
  have "x_heap (fold (reduce_eff net b) kps (reduce_eff net b kp w) i) a = x_heap (reduce_eff net b kp w i) a"
    by (rule Cons.IH) (use Cons.prems in auto)
  then show ?case using Cons.prems [of k p] by (auto simp: kp reduce_eff_heap)
qed simp

lemma reduce_loop_grad:
  "distinct (map (\<lambda>(k, p). mp_grad p) kps) \<Longrightarrow> (k, p) \<in> set kps \<Longrightarrow> mp_grad_req p \<noteq> ''null'' \<Longrightarrow>
   t_data (x_heap (fold (reduce_eff net b) kps w i) (mp_grad p)) = grad_mean net b p w"
proof (induction kps arbitrary: w)
  case (Cons kp kps)
  obtain l q where kp: "kp = (l, q)" by (cases kp)
  show ?case
  proof (cases "(k, p) = kp")
    case True
    have "x_heap (fold (reduce_eff net b) kps (reduce_eff net b kp w) i) (mp_grad p) = x_heap (reduce_eff net b kp w i) (mp_grad p)"
      by (rule reduce_loop_other) (use True Cons.prems(1) in force)
    then show ?thesis using True Cons.prems(3) by (auto simp: reduce_eff_heap)
  next
    case False
    then have "mp_grad p \<noteq> mp_grad q" using Cons.prems(1,2) by (force simp: kp)
    then have "grad_mean net b p (reduce_eff net b kp w) = grad_mean net b p w" by (simp add: grad_mean_def kp reduce_eff_heap)
    then show ?thesis using Cons False by simp
  qed
qed simp

text \<open>
  C7. The trainer's exchange of gradients: when no compressor is registered and all workers have the same
  parameters, it ends on every worker, each gradient that is needed has become the sum of the workers'
  gradients divided by the batch size and the number of workers, and no other array has changed.
\<close>

theorem allreduce_averages:
  assumes "net_ok net" "n_store net = exact" "b \<noteq> 0" "balanced net L" "distinct (map mp_grad ps)"
    and "\<forall>i < n_size net. plain_trainer ps b (of_nat (n_size net)) (w i) \<and> tr_params (w i) = ps \<and> x_local_rank (w i) \<noteq> -1"
    and "\<forall>p \<in> set ps. mp_data p \<notin> mp_grad ` set ps \<and> (\<forall>i < n_size net. same_form (dt p) (sz p) (x_heap (w i) (mp_grad p)))"
  shows "\<exists>L' w'. runs net L (\<lambda>i. allreduce_grads exact (w i)) L' (\<lambda>i. (Inr (), w' i)) \<and> balanced net L'
     \<and> (\<forall>i < n_size net. (\<forall>p \<in> set ps. mp_grad_req p \<noteq> ''null'' \<longrightarrow> t_data (x_heap (w' i) (mp_grad p)) =
            vscale (1 / (b * of_nat (n_size net))) (vsum (numel (sz p)) (map (\<lambda>j. t_data (x_heap (w j) (mp_grad p))) [0..<n_size net])))
        \<and> (\<forall>a. (\<forall>p \<in> set ps. mp_grad_req p \<noteq> ''null'' \<longrightarrow> a \<noteq> mp_grad p) \<longrightarrow> x_heap (w' i) a = x_heap (w i) a))"
proof -
  let ?w = "\<lambda>i. if x_local_rank (w i) = 0 then (w i)\<lparr>tr_lr_file := Some (tr_learning_rate (w i))\<rparr> else w i"
  have h: "x_heap (?w i) = x_heap (w i)" for i by simp
  have en: "snd kp \<in> set ps" if "kp \<in> set (enumerate 0 ps)" for kp
    using that nth_mem [of "fst kp" ps] by (simp add: in_set_enumerate_eq)
  have "map (\<lambda>(k, p). mp_grad p) (enumerate 0 ps) = map mp_grad (map snd (enumerate 0 ps))" unfolding map_map by (simp add: comp_def case_prod_unfold)
  then have ds: "distinct (map (\<lambda>(k, p). mp_grad p) (enumerate 0 ps))" using assms(5) by simp
  have "mp_data (snd kp) \<noteq> mp_grad (snd kp) \<and> (\<exists>dt sz. \<forall>i < n_size net. same_form dt sz (x_heap (?w i) (mp_grad (snd kp))))"
    if "kp \<in> set (enumerate 0 ps)" for kp
    using en [OF that] assms(7) unfolding h by (metis image_eqI)
  then have rdy: "reduce_ready net b (enumerate 0 ps) ?w"
    using assms(2,3,6) ds by (simp add: reduce_ready_def plain_trainer_def case_prod_unfold)
  let ?w' = "fold (reduce_eff net b) (enumerate 0 ps) ?w"
  obtain L' where r: "runs net L (\<lambda>i. for_io (allreduce_one exact) (enumerate 0 ps) (?w i)) L' (\<lambda>i. (Inr (), ?w' i))" "balanced net L'"
    using mx_loop.loop [OF assms(1,4) rdy] by blast
  have "runs net L (\<lambda>i. allreduce_grads exact (w i)) L' (\<lambda>i. (Inr (), ?w' i))"
    by (rule runs_cong [OF assms(1) r(1)]) (use assms(6) in \<open>simp_all add: allreduce_grads_def local_rank_query_def c_query_def bind_io_basic io_run del: exact_eq\<close>)
  moreover have "t_data (x_heap (?w' i) (mp_grad p)) =
      vscale (1 / (b * of_nat (n_size net))) (vsum (numel (sz p)) (map (\<lambda>j. t_data (x_heap (w j) (mp_grad p))) [0..<n_size net]))"
    if p: "p \<in> set ps" "mp_grad_req p \<noteq> ''null''" for i p
  proof -
    obtain k where "k < length ps" "ps ! k = p" using p(1) by (auto simp: in_set_conv_nth)
    then have "(k, p) \<in> set (enumerate 0 ps)" by (simp add: in_set_enumerate_eq)
    moreover have "t_size (x_heap (w 0) (mp_grad p)) = sz p" using p(1) assms(1,7) by (simp add: net_ok_def same_form_def)
    ultimately show ?thesis using reduce_loop_grad [OF ds _ p(2), of k net b ?w i] by (simp add: grad_mean_def h)
  qed
  moreover have "x_heap (?w' i) a = x_heap (w i) a" if "\<forall>p \<in> set ps. mp_grad_req p \<noteq> ''null'' \<longrightarrow> a \<noteq> mp_grad p" for i a
  proof -
    have "x_heap (?w' i) a = x_heap (?w i) a" by (rule reduce_loop_other) (use that en in force)
    then show ?thesis by (simp add: h)
  qed
  ultimately show ?thesis using r(2) by (intro exI [of _ L'] exI [of _ ?w']) blast
qed

definition fc_param :: mx_param where
  "fc_param = \<lparr>mp_name = ''fc'', mp_grad_req = ''write'', mp_grad = 0, mp_data = 1, mp_attrs = [], mp_deferred_init = False\<rparr>"

definition mx_example :: "nat \<Rightarrow> trainer" where
  "mx_example i =
     \<lparr>x_rank = int i, x_local_rank = 0, x_size = 2, x_heap = (\<lambda>a. if a = 0 then vec_of [of_nat i * 16, 8] else vec_of [0, 0]), x_next = 2,
      x_running = [], x_declared = [], x_op_count = 0, x_parameter_index = 0, tr_params = [fc_param], tr_params_to_init = [],
      tr_intra_compressors = [(''fc'', NoneCompressor)], tr_scale = 4, tr_learning_rate = 1/10, tr_bps_size = 2, tr_root_rank = 0, tr_lr_file = None\<rparr>"

theorem allreduce_averages_witness:
  "\<exists>L' w'. runs net2 (\<lambda>_. []) (\<lambda>i. allreduce_grads exact (mx_example i)) L' (\<lambda>i. (Inr (), w' i)) \<and> balanced net2 L'
     \<and> (\<forall>i < 2. t_data (x_heap (w' i) 0) = [2, 2] \<and> t_data (x_heap (w' i) 1) = [0, 0])"
proof -
  obtain L' w' where r: "runs net2 (\<lambda>_. []) (\<lambda>i. allreduce_grads exact (mx_example i)) L' (\<lambda>i. (Inr (), w' i))" "balanced net2 L'"
    "\<forall>i < n_size net2. (\<forall>p \<in> set [fc_param]. mp_grad_req p \<noteq> ''null'' \<longrightarrow> t_data (x_heap (w' i) (mp_grad p)) =
            vscale (1 / (4 * of_nat (n_size net2))) (vsum (numel [2]) (map (\<lambda>j. t_data (x_heap (mx_example j) (mp_grad p))) [0..<n_size net2])))
        \<and> (\<forall>a. (\<forall>p \<in> set [fc_param]. mp_grad_req p \<noteq> ''null'' \<longrightarrow> a \<noteq> mp_grad p) \<longrightarrow> x_heap (w' i) a = x_heap (mx_example i) a)"
    using allreduce_averages [of net2 4 "\<lambda>_. []" "[fc_param]" mx_example "\<lambda>_. Float32" "\<lambda>_. [2]"]
    by (auto simp: plain_trainer_def mx_example_def fc_param_def simp del: exact_eq)
  have "\<forall>i < 2. t_data (x_heap (w' i) 0) = [2, 2] \<and> t_data (x_heap (w' i) 1) = [0, 0]"
    using r(3) by (auto simp: fc_param_def mx_example_def numeral_2_eq_2 vsum_def vadd_def vscale_def vzero_def numel_def)
  with r(1,2) show ?thesis by blast
qed

end
