(* ===== verification/Tensorflow.thy ===== *)
theory Tensorflow
  imports Torch_Ops Basics Py_Strings
begin

text \<open>
  \<^verbatim>\<open>byteps/tensorflow/\<close>: \<open>ops.py\<close>, \<open>util.py\<close>, \<open>compression.py\<close> and \<open>__init__.py\<close>. The library numbers the
  names in the order in which they are declared, and a push-pull of the same number on all workers is one
  round (\<open>IsTensorDeclared\<close> and \<open>GetContextFromName\<close> of \<^verbatim>\<open>common/global.cc\<close>): the key of a request is
  that number. Operations are run one after the other in program order, as in eager mode; a graph
  executor may overlap them, with the same numbers and values.

  TensorFlow is a parameter where it chooses: the current name scope, the node name of an operation and the
  attributes a version of the library has are fields of the state, the random names of unnamed
  operations are given by a sequence, and the wrapped optimizer is an argument.
\<close>

section \<open>State and names\<close>

record tfw =
  f_rank :: int
  f_size :: int
  f_has_eager :: bool
  f_in_eager_mode :: bool
  f_name_scope :: string
  f_node_name :: "string \<Rightarrow> string"
  f_has_assign_sub :: bool
  f_has_div :: bool
  f_declared :: "string list"
  f_random :: "nat \<Rightarrow> string"
  f_random_next :: nat
  f_vars :: "string \<Rightarrow> tensor"

record tf_tensor =
  tn_name :: string
  tn_val :: tensor

definition executing_eagerly :: "'z tfw_scheme \<Rightarrow> bool" where
  "executing_eagerly w \<longleftrightarrow> f_has_eager w \<and> f_in_eager_mode w"

definition normalize_name :: "string \<Rightarrow> string" where
  "normalize_name name =
     map (\<lambda>c. if c \<in> set ''abcdefghijklmnopqrstuvwxyzABCDEFGHIJKLMNOPQRSTUVWXYZ0123456789_'' then c else CHR ''_'') name"

definition random_string :: "('z tfw_scheme, string) io" where
  "random_string = bind_io (get_io (\<lambda>w. f_random w (f_random_next w))) (\<lambda>s.
     bind_io (modify_io (\<lambda>w. w\<lparr>f_random_next := Suc (f_random_next w)\<rparr>)) (\<lambda>_. ret_io s))"

text \<open>The name of an operation and its full name, shared by push-pull and broadcast.\<close>

definition op_names :: "string \<Rightarrow> string \<Rightarrow> string \<Rightarrow> string option \<Rightarrow> ('z tfw_scheme, string \<times> string) io" where
  "op_names prefix tname scope name =
     bind_io (get_io (\<lambda>w. (executing_eagerly w, f_name_scope w))) (\<lambda>(eager, gscope).
       let name = (if name = None \<and> \<not> eager then Some (prefix @ normalize_name tname) else name);
           scope = (if scope = [] \<and> \<not> eager then (if gscope \<noteq> [] then gscope @ ''/'' else gscope) else scope);
           name = (if truthy name then the name else []);
           full_name = scope @ name
       in if full_name = [] then bind_io random_string (\<lambda>r. ret_io (name, ''empty_name_'' @ r))
          else ret_io (name, full_name))"

definition tf_declare_tensor :: "string \<Rightarrow> 'z tfw_scheme \<Rightarrow> 'z tfw_scheme" where
  "tf_declare_tensor name w = (if name \<in> set (f_declared w) then w else w\<lparr>f_declared := f_declared w @ [name]\<rparr>)"

definition declared_key :: "string \<Rightarrow> string list \<Rightarrow> nat" where
  "declared_key name declared = length (takeWhile (\<lambda>n. n \<noteq> name) declared)"

text \<open>
  The compiled operation: the key belongs to the input name, or to the node's name when no input name is
  given; a name that was never declared ends the process.
\<close>

definition c_lib_push_pull :: "tensor \<Rightarrow> string \<Rightarrow> string option \<Rightarrow> ('z tfw_scheme, tensor) io" where
  "c_lib_push_pull t name input_name w =
     (let key_name = (case input_name of
                        None \<Rightarrow> f_node_name w name
                      | Some n \<Rightarrow> if n = ''default_tensor_name'' then f_node_name w name else n)
      in if t_dtype t = Uint8 then Ret (Inl TypeError, w)
         else if key_name \<notin> set (f_declared w) then Ret (Inl (OtherError ''is not initialized''), w)
         else let key = declared_key key_name (f_declared w)
              in Issue \<lparr>rq_key = nat_str key, rq_average = False, rq_version = 0, rq_priority = - int key, rq_norm = 0,
                        rq_compressor = '''', rq_input = t\<rparr>
                   (\<lambda>h. Wait h (\<lambda>u. Ret (Inr (t\<lparr>t_data := t_data u\<rparr>), w))))"

definition tf_push_pull_op :: "tf_tensor \<Rightarrow> string \<Rightarrow> string option \<Rightarrow> ('z tfw_scheme, tensor) io" where
  "tf_push_pull_op x scope name =
     bind_io (op_names ''BytePSPushPull_'' (tn_name x) scope name) (\<lambda>(name, full_name).
     bind_io (modify_io (tf_declare_tensor full_name)) (\<lambda>_.
       c_lib_push_pull (tn_val x) name (Some full_name)))"

definition tf_push_pull_grad :: "tf_tensor \<Rightarrow> ('z tfw_scheme, tensor) io" where
  "tf_push_pull_grad grad = tf_push_pull_op grad [] None"

definition tf_rank :: "('z tfw_scheme, int) io" where
  "tf_rank = bind_io (get_io f_rank) (\<lambda>r. lift_io (rank_query r))"

definition tf_size :: "('z tfw_scheme, int) io" where
  "tf_size = bind_io (get_io f_size) (\<lambda>r. lift_io (size_query r))"

definition set_var :: "string \<Rightarrow> tensor \<Rightarrow> ('z tfw_scheme, unit) io" where
  "set_var v t = modify_io (\<lambda>w. w\<lparr>f_vars := (f_vars w)(v := t)\<rparr>)"

text \<open>Broadcasting a variable, or a constant (\<open>Inr\<close>); a worker that is not the root sends zeros.\<close>

definition tf_broadcast :: "string + tf_tensor \<Rightarrow> int \<Rightarrow> string \<Rightarrow> string option \<Rightarrow> ('z tfw_scheme, tensor) io" where
  "tf_broadcast x root_rank scope name =
     bind_io (op_names ''BytePSBroadcast_'' (case x of Inl v \<Rightarrow> v | Inr t \<Rightarrow> tn_name t) scope name) (\<lambda>(name, full_name).
     bind_io (modify_io (tf_declare_tensor full_name)) (\<lambda>_.
     bind_io tf_rank (\<lambda>r.
       if root_rank \<noteq> r
       then case x of
              Inl v \<Rightarrow>
                bind_io (get_io (\<lambda>w. zeroed (f_vars w v))) (\<lambda>z.
                bind_io (set_var v z) (\<lambda>_.
                bind_io (get_io f_has_assign_sub) (\<lambda>has_assign_sub.
                  c_lib_push_pull z name (if has_assign_sub then None else Some full_name))))
            | Inr t \<Rightarrow> c_lib_push_pull (zeroed (tn_val t)) name (Some full_name)
       else bind_io (get_io (\<lambda>w. case x of Inl v \<Rightarrow> f_vars w v | Inr t \<Rightarrow> tn_val t)) (\<lambda>t.
              c_lib_push_pull t name (Some full_name)))))"

definition tf_broadcast_grad :: "storage \<Rightarrow> int \<Rightarrow> tf_tensor \<Rightarrow> ('z tfw_scheme, tensor) io" where
  "tf_broadcast_grad c root_rank grad =
     bind_io (tf_push_pull_op grad [] None) (\<lambda>t.
     bind_io tf_rank (\<lambda>r. ret_io (if r \<noteq> root_rank then zeroed t else t)))"

section \<open>Push-pull with reduction and compression\<close>

datatype reduce_op = Average | Sum | Adsum

text \<open>The reduction argument: a member of the enumeration, or one of the strings the package exports.\<close>

datatype op_arg = Enum_op reduce_op | Str_op string

definition handle_average :: "op_arg option \<Rightarrow> bool option \<Rightarrow> op_arg res" where
  "handle_average op average =
     (case op of
        Some x \<Rightarrow> if average \<noteq> None then Inl ValueError else Inr x
      | None \<Rightarrow> (case average of
                   Some b \<Rightarrow> Inr (Enum_op (if b then Average else Sum))
                 | None \<Rightarrow> Inr (Enum_op Average)))"

fun op_value :: "op_arg \<Rightarrow> reduce_op res" where
  "op_value (Enum_op x) = Inr x"
| "op_value (Str_op s) = Inl AttributeError"

datatype tf_compression = Tf_none | Tf_fp16

fun tf_compress :: "storage \<Rightarrow> tf_compression \<Rightarrow> tensor \<Rightarrow> tensor \<times> dtype option" where
  "tf_compress c Tf_none t = (t, None)"
| "tf_compress c Tf_fp16 t = (if is_floating_point (t_dtype t) then to_dtype c Float16 t else t, Some (t_dtype t))"

fun tf_decompress :: "storage \<Rightarrow> tf_compression \<Rightarrow> tensor \<Rightarrow> dtype option \<Rightarrow> tensor" where
  "tf_decompress c Tf_none t ctx = t"
| "tf_decompress c Tf_fp16 t ctx = (case ctx of Some dt \<Rightarrow> if is_floating_point dt then to_dtype c dt t else t | None \<Rightarrow> t)"

definition tf_div :: "storage \<Rightarrow> bool \<Rightarrow> tensor \<Rightarrow> int \<Rightarrow> tensor" where
  "tf_div c has_div t n =
     (if is_floating_point (t_dtype t) then t\<lparr>t_data := map (\<lambda>x. c (t_dtype t) (x / of_int n)) (t_data t)\<rparr>
      else if has_div then t\<lparr>t_data := map (\<lambda>x. of_int \<lfloor>x / of_int n\<rfloor>) (t_data t)\<rparr>
      else t\<lparr>t_dtype := Float64, t_data := map (\<lambda>x. c Float64 (x / of_int n)) (t_data t)\<rparr>)"

definition tf_push_pull ::
    "storage \<Rightarrow> tf_tensor \<Rightarrow> string \<Rightarrow> bool option \<Rightarrow> tf_compression \<Rightarrow> op_arg option \<Rightarrow> bool \<Rightarrow> ('z tfw_scheme, tensor) io" where
  "tf_push_pull c x scope average compression op enable_async =
     bind_io (lift_io (bind_res (handle_average op average) op_value)) (\<lambda>op.
     bind_io tf_size (\<lambda>byteps_size.
     bind_io (ret_io (tf_compress c compression (tn_val x))) (\<lambda>(tensor_compressed, ctx).
     bind_io (tf_push_pull_op (x\<lparr>tn_val := tensor_compressed\<rparr>) scope None) (\<lambda>summed.
     bind_io (get_io f_has_div) (\<lambda>has_div.
       let summed_tensor = tf_decompress c compression summed ctx
       in ret_io (if \<not> enable_async \<and> op = Average then tf_div c has_div summed_tensor byteps_size else summed_tensor))))))"

section \<open>Variables, optimizer and tape\<close>

definition broadcast_variable :: "int \<Rightarrow> string \<Rightarrow> string \<Rightarrow> ('z tfw_scheme, unit) io" where
  "broadcast_variable root_rank scope v = bind_io (tf_broadcast (Inl v) root_rank scope None) (set_var v)"

definition broadcast_variables :: "string list \<Rightarrow> int \<Rightarrow> string \<Rightarrow> ('z tfw_scheme, unit) io" where
  "broadcast_variables vs root_rank scope =
     bind_io tf_size (\<lambda>n. if n \<le> 1 then ret_io () else for_io (broadcast_variable root_rank scope) vs)"

definition broadcast_global_variables :: "string list \<Rightarrow> int \<Rightarrow> ('z tfw_scheme, unit) io" where
  "broadcast_global_variables global_variables root_rank =
     bind_io (get_io executing_eagerly) (\<lambda>eager.
       if eager then raise_io RuntimeError else broadcast_variables global_variables root_rank [])"

text \<open>The session hook builds the broadcast once for a graph and runs it in every new session.\<close>

record bcast_hook =
  bh_root_rank :: int
  bh_graph :: "nat option"

definition hook_begin :: "nat \<Rightarrow> bcast_hook \<Rightarrow> ('z tfw_scheme, bcast_hook) io" where
  "hook_begin graph h =
     (if bh_graph h \<noteq> Some graph
      then bind_io (get_io executing_eagerly) (\<lambda>eager.
             if eager then raise_io RuntimeError else ret_io (h\<lparr>bh_graph := Some graph\<rparr>))
      else ret_io h)"

definition after_create_session :: "string list \<Rightarrow> bcast_hook \<Rightarrow> ('z tfw_scheme, unit) io" where
  "after_create_session global_variables h =
     (case bh_graph h of None \<Rightarrow> raise_io TypeError | Some _ \<Rightarrow> broadcast_variables global_variables (bh_root_rank h) [])"

text \<open>A gradient: none, a dense tensor, or slices (with their own name) and the tensor they convert to.\<close>

datatype tf_grad = No_grad | Dense tf_tensor | Slices string tf_tensor

fun grad_tensor :: "bool \<Rightarrow> tf_grad \<Rightarrow> tf_tensor option" where
  "grad_tensor sparse_as_dense No_grad = None"
| "grad_tensor sparse_as_dense (Dense t) = Some t"
| "grad_tensor sparse_as_dense (Slices n t) = Some (if sparse_as_dense then t else t\<lparr>tn_name := n\<rparr>)"

fun push_pull_grads ::
    "storage \<Rightarrow> tf_compression \<Rightarrow> bool \<Rightarrow> bool \<Rightarrow> string \<Rightarrow> tf_grad list \<Rightarrow> ('z tfw_scheme, tensor option list) io" where
  "push_pull_grads c compression sparse_as_dense enable_async scope [] = ret_io []"
| "push_pull_grads c compression sparse_as_dense enable_async scope (g # gs) =
     bind_io (case grad_tensor sparse_as_dense g of
                None \<Rightarrow> ret_io None
              | Some x \<Rightarrow> bind_io (tf_push_pull c x scope None compression None enable_async) (\<lambda>t. ret_io (Some t))) (\<lambda>t.
     bind_io (push_pull_grads c compression sparse_as_dense enable_async scope gs) (\<lambda>ts. ret_io (t # ts)))"

definition tf_opt_init :: "(string, string) dict \<Rightarrow> string option \<Rightarrow> string \<Rightarrow> (string \<times> bool) res" where
  "tf_opt_init env name type_name =
     bind_res (py_int (dict_get_or env ''BYTEPS_ENABLE_ASYNC'' ''0'')) (\<lambda>n.
     let name = (case name of None \<Rightarrow> ''Distributed'' @ type_name | Some s \<Rightarrow> s)
     in if n \<noteq> 0
        then bind_res (bind_res (of_option TypeError (dict_get env ''DMLC_NUM_WORKER'')) py_int) (\<lambda>k.
             bind_res (assert_res (k > 1)) (\<lambda>_. Inr (name, True)))
        else Inr (name, False))"

definition compute_gradients ::
    "storage \<Rightarrow> tf_compression \<Rightarrow> bool \<Rightarrow> bool \<Rightarrow> string \<Rightarrow> ('z tfw_scheme, (tf_grad \<times> string) list) io \<Rightarrow>
     ('z tfw_scheme, (tf_grad \<times> string) list + (tensor option \<times> string) list) io" where
  "compute_gradients c compression sparse_as_dense enable_async scope optimizer_compute =
     bind_io optimizer_compute (\<lambda>gradients.
     bind_io tf_size (\<lambda>n.
       if n > 1 \<and> \<not> enable_async
       then if gradients = [] then raise_io ValueError
            else bind_io (push_pull_grads c compression sparse_as_dense enable_async scope (map fst gradients)) (\<lambda>avg_grads.
                   ret_io (Inr (zip avg_grads (map snd gradients))))
       else ret_io (Inl gradients)))"

definition apply_gradients ::
    "storage \<Rightarrow> tf_compression \<Rightarrow> bool \<Rightarrow> bool \<Rightarrow> bool \<Rightarrow> (string \<Rightarrow> string) \<Rightarrow> string \<Rightarrow> ('z tfw_scheme, unit) io \<Rightarrow> string list \<Rightarrow>
     ('z tfw_scheme, unit) io" where
  "apply_gradients c compression sparse_as_dense enable_async has_assign delta_name scope optimizer_apply vs =
     (if enable_async
      then if vs = [] then raise_io ValueError
           else bind_io (get_io (\<lambda>w. map (f_vars w) vs)) (\<lambda>old_tensors.
           bind_io optimizer_apply (\<lambda>_.
           bind_io (get_io (\<lambda>w. map (\<lambda>(v, t). Dense \<lparr>tn_name = delta_name v,
               tn_val = (f_vars w v)\<lparr>t_data := map (c (t_dtype t)) (vsub (t_data (f_vars w v)) (t_data t))\<rparr>\<rparr>) (zip vs old_tensors))) (\<lambda>deltas.
           bind_io (push_pull_grads c compression sparse_as_dense enable_async scope deltas) (\<lambda>updated.
             if has_assign
             then for_io (\<lambda>(v, t). case t of None \<Rightarrow> raise_io ValueError | Some t \<Rightarrow> set_var v t) (zip vs updated)
             else raise_io AttributeError))))
      else optimizer_apply)"

datatype opt_class = Legacy_optimizer | Keras_optimizer | Other_optimizer

text \<open>Which wrapper an optimizer gets.\<close>

definition distributed_optimizer_class :: "opt_class \<Rightarrow> string \<Rightarrow> int \<Rightarrow> opt_class res" where
  "distributed_optimizer_class cls op backward_passes_per_step =
     (case cls of
        Other_optimizer \<Rightarrow> Inl ValueError
      | _ \<Rightarrow> if op = ''Adasum'' then Inl ValueError
             else if backward_passes_per_step > 1 then Inl ValueError
             else Inr cls)"

definition tape_gradient ::
    "storage \<Rightarrow> tf_compression \<Rightarrow> bool \<Rightarrow> string \<Rightarrow> ('z tfw_scheme, tf_grad list) io \<Rightarrow> ('z tfw_scheme, tf_grad list + tensor option list) io" where
  "tape_gradient c compression sparse_as_dense scope super_gradient =
     bind_io super_gradient (\<lambda>gradients.
     bind_io tf_size (\<lambda>n.
       if n > 1 then bind_io (push_pull_grads c compression sparse_as_dense False scope gradients) (\<lambda>ts. ret_io (Inr ts))
       else ret_io (Inl gradients)))"

section \<open>Keys and joint runs\<close>

lemma takeWhile_append_notin: "x \<notin> set xs \<Longrightarrow> takeWhile (\<lambda>n. n \<noteq> x) (xs @ x # ys) = xs"
  by (induction xs) auto

lemma declared_key_new: "n \<notin> set xs \<Longrightarrow> declared_key n (xs @ [n]) = length xs"
  by (simp add: declared_key_def takeWhile_append_notin)

lemma tf_declare_tensor_sel [simp]:
  "n \<in> set (f_declared (tf_declare_tensor n w))" "f_vars (tf_declare_tensor n w) = f_vars w" "f_rank (tf_declare_tensor n w) = f_rank w"
  "f_size (tf_declare_tensor n w) = f_size w" "f_has_div (tf_declare_tensor n w) = f_has_div w"
  "f_has_assign_sub (tf_declare_tensor n w) = f_has_assign_sub w" "f_random (tf_declare_tensor n w) = f_random w"
  "f_random_next (tf_declare_tensor n w) = f_random_next w" "executing_eagerly (tf_declare_tensor n w) = executing_eagerly w"
  by (auto simp: tf_declare_tensor_def executing_eagerly_def)

definition tf_req :: "nat \<Rightarrow> tensor \<Rightarrow> req" where
  "tf_req key t = \<lparr>rq_key = nat_str key, rq_average = False, rq_version = 0, rq_priority = - int key, rq_norm = 0, rq_compressor = '''', rq_input = t\<rparr>"

text \<open>The compiled operation on all workers, when their names have the same number.\<close>

lemma runs_c_lib:
  assumes ok: "net_ok net" and bal: "balanced net L"
    and w: "\<And>i. i < n_size net \<Longrightarrow> t_dtype (x i) \<noteq> Uint8 \<and> kn i \<in> set (f_declared (w i)) \<and> declared_key (kn i) (f_declared (w i)) = k
        \<and> kn i \<noteq> ''default_tensor_name''"
    and sum: "\<And>r. server_round (n_store net) (map x (n_arrive net (nat_str k) r)) = Some t"
  shows "runs net L (\<lambda>i. c_lib_push_pull (x i) (nm i) (Some (kn i)) (w i)) (\<lambda>i. L i @ [tf_req k (x i)]) (\<lambda>i. (Inr ((x i)\<lparr>t_data := t_data t\<rparr>), w i))"
    and "balanced net (\<lambda>i. L i @ [tf_req k (x i)])"
proof -
  have "runs net L (\<lambda>i. Issue (tf_req k (x i)) (\<lambda>h. Wait h (\<lambda>u. Ret (Inr ((x i)\<lparr>t_data := t_data u\<rparr>), w i)))) (\<lambda>i. L i @ [tf_req k (x i)])
      (\<lambda>i. (Inr ((x i)\<lparr>t_data := t_data (finish_output net (rq_average (tf_req k (x i))) t)\<rparr>), w i))"
    by (rule runs_collective [OF ok bal, where k = "nat_str k"]) (use sum in \<open>simp_all add: tf_req_def\<close>)
  then show "runs net L (\<lambda>i. c_lib_push_pull (x i) (nm i) (Some (kn i)) (w i)) (\<lambda>i. L i @ [tf_req k (x i)]) (\<lambda>i. (Inr ((x i)\<lparr>t_data := t_data t\<rparr>), w i))"
    by (rule runs_cong [OF ok]) (use w in \<open>simp_all add: c_lib_push_pull_def tf_req_def finish_output_def Let_def\<close>)
  show "balanced net (\<lambda>i. L i @ [tf_req k (x i)])" by (rule balanced_snoc [OF bal, where k = "nat_str k"]) (simp add: tf_req_def)
qed

text \<open>Outside eager mode an operation is named after its tensor; in eager mode it only has its scope.\<close>

lemma op_names_graph:
  "\<not> executing_eagerly w \<Longrightarrow> scope \<noteq> [] \<Longrightarrow> prefix \<noteq> [] \<Longrightarrow>
   op_names prefix tname scope None w = Ret (Inr (prefix @ normalize_name tname, scope @ prefix @ normalize_name tname), w)"
  by (simp add: op_names_def bind_io_basic io_run truthy_def Let_def)

lemma op_names_eager_scope: "executing_eagerly w \<Longrightarrow> scope \<noteq> [] \<Longrightarrow> op_names prefix tname scope None w = Ret (Inr ([], scope), w)"
  by (simp add: op_names_def bind_io_basic io_run truthy_def Let_def)

lemma op_names_eager:
  "executing_eagerly w \<Longrightarrow> op_names prefix tname [] None w =
     Ret (Inr ([], ''empty_name_'' @ f_random w (f_random_next w)), w\<lparr>f_random_next := Suc (f_random_next w)\<rparr>)"
  by (simp add: op_names_def random_string_def bind_io_basic bind_io_assoc io_run truthy_def Let_def)

lemma tf_push_pull_op_graph:
  "\<not> executing_eagerly w \<Longrightarrow> scope \<noteq> [] \<Longrightarrow> tf_push_pull_op x scope None w =
     c_lib_push_pull (tn_val x) (''BytePSPushPull_'' @ normalize_name (tn_name x)) (Some (scope @ ''BytePSPushPull_'' @ normalize_name (tn_name x)))
       (tf_declare_tensor (scope @ ''BytePSPushPull_'' @ normalize_name (tn_name x)) w)"
  unfolding tf_push_pull_op_def
  by (subst bind_io_Ret(1) [where m = "op_names _ _ _ _", OF op_names_graph]) (simp_all add: bind_io_basic)

lemma bind_io_at: "m w = p \<Longrightarrow> bind_io m f w = bind_io (\<lambda>_. p) f w"
  by (simp add: bind_io_def)

lemma runs_tf_push_pull:
  assumes ok: "net_ok net" "n_store net = exact" and bal: "balanced net L" and sc: "scope \<noteq> []" "set scope \<inter> {CHR ''/''} \<noteq> {}"
    and w: "\<And>i. i < n_size net \<Longrightarrow> \<not> executing_eagerly (w i) \<and> f_size (w i) = int (n_size net) \<and> f_declared (w i) = D"
    and x: "\<And>i. i < n_size net \<Longrightarrow> same_form dt sz (f i)" "is_floating_point dt"
  shows "\<exists>L'. runs net L (\<lambda>i. tf_push_pull exact \<lparr>tn_name = nm, tn_val = f i\<rparr> scope None Tf_none None False (w i)) L'
       (\<lambda>i. (Inr ((f i)\<lparr>t_data := vscale (1 / of_nat (n_size net)) (vsum (numel sz) (map (\<lambda>j. t_data (f j)) [0..<n_size net]))\<rparr>),
             tf_declare_tensor (scope @ ''BytePSPushPull_'' @ normalize_name nm) (w i)))
     \<and> balanced net L'"
proof -
  let ?full = "scope @ ''BytePSPushPull_'' @ normalize_name nm" and ?nm = "''BytePSPushPull_'' @ normalize_name nm"
  let ?w = "\<lambda>i. tf_declare_tensor ?full (w i)"
  let ?k = "declared_key ?full (if ?full \<in> set D then D else D @ [?full])"
  let ?s = "vsum (numel sz) (map (\<lambda>j. t_data (f j)) [0..<n_size net])"
  have full: "?full \<noteq> ''default_tensor_name''"
  proof
    assume "?full = ''default_tensor_name''"
    then have "set scope \<subseteq> set ''default_tensor_name''" by (metis Un_upper1 set_append)
    with sc(2) show False by auto
  qed
  have r: "runs net L (\<lambda>i. c_lib_push_pull (f i) ?nm (Some ?full) (?w i)) (\<lambda>i. L i @ [tf_req ?k (f i)])
      (\<lambda>i. (Inr ((f i)\<lparr>t_data := ?s\<rparr>), ?w i))" "balanced net (\<lambda>i. L i @ [tf_req ?k (f i)])"
  proof -
    have "server_round (n_store net) (map f (n_arrive net (nat_str ?k) r)) = Some \<lparr>t_dtype = dt, t_size = sz, t_data = ?s\<rparr>" for r
      unfolding ok(2) by (rule server_round_exact [OF ok(1) x(1)])
    note c = runs_c_lib [OF ok(1) bal _ this, of "\<lambda>_. ?full" ?w, simplified tensor.select_convs]
    have a: "t_dtype (f i) \<noteq> Uint8 \<and> ?full \<in> set (f_declared (?w i)) \<and> declared_key ?full (f_declared (?w i)) = ?k \<and> ?full \<noteq> ''default_tensor_name''"
      if "i < n_size net" for i
      using w [OF that] x(1) [OF that] x(2) full by (auto simp: same_form_def tf_declare_tensor_def)
    show "runs net L (\<lambda>i. c_lib_push_pull (f i) ?nm (Some ?full) (?w i)) (\<lambda>i. L i @ [tf_req ?k (f i)])
      (\<lambda>i. (Inr ((f i)\<lparr>t_data := ?s\<rparr>), ?w i))" "balanced net (\<lambda>i. L i @ [tf_req ?k (f i)])"
      by (rule c, rule a, assumption)+
  qed
  let ?div = "\<lambda>t. bind_io (get_io f_has_div) (\<lambda>has_div. ret_io (tf_div exact has_div t (int (n_size net))))"
  have "runs net L (\<lambda>i. bind_io (\<lambda>_. c_lib_push_pull (f i) ?nm (Some ?full) (?w i)) ?div (w i)) (\<lambda>i. L i @ [tf_req ?k (f i)])
      (\<lambda>i. (Inr ((f i)\<lparr>t_data := vscale (1 / of_nat (n_size net)) ?s\<rparr>), ?w i))"
    by (rule runs_bind_io [where m = "\<lambda>i _. c_lib_push_pull (f i) ?nm (Some ?full) (?w i)" and w = w
          and x = "\<lambda>i. (f i)\<lparr>t_data := ?s\<rparr>" and ?w1.0 = ?w, OF ok(1) r(1)], rule runs_Ret)
       (use x in \<open>simp add: io_run bind_io_basic tf_div_def same_form_def vscale_def\<close>)
  then have "runs net L (\<lambda>i. tf_push_pull exact \<lparr>tn_name = nm, tn_val = f i\<rparr> scope None Tf_none None False (w i)) (\<lambda>i. L i @ [tf_req ?k (f i)])
      (\<lambda>i. (Inr ((f i)\<lparr>t_data := vscale (1 / of_nat (n_size net)) ?s\<rparr>), ?w i))"
  proof (rule runs_cong [OF ok(1)])
    fix i assume i: "i < n_size net"
    have "tf_push_pull_op \<lparr>tn_name = nm, tn_val = f i\<rparr> scope None (w i) = c_lib_push_pull (f i) ?nm (Some ?full) (?w i)"
      using tf_push_pull_op_graph [of "w i" scope "\<lparr>tn_name = nm, tn_val = f i\<rparr>"] w [OF i] sc(1) by simp
    then show "bind_io (\<lambda>_. c_lib_push_pull (f i) ?nm (Some ?full) (?w i)) ?div (w i)
      = tf_push_pull exact \<lparr>tn_name = nm, tn_val = f i\<rparr> scope None Tf_none None False (w i)"
      using w [OF i] by (simp add: tf_push_pull_def handle_average_def tf_size_def size_query_def c_query_def bind_io_assoc bind_io_basic
          bind_io_at [of "tf_push_pull_op _ _ _"] del: exact_eq)
  qed simp_all
  with r(2) show ?thesis by blast
qed

definition mean_of :: "nat \<Rightarrow> (nat \<Rightarrow> tensor) \<Rightarrow> nat \<Rightarrow> tensor" where
  "mean_of n f i = (f i)\<lparr>t_data := vscale (1 / of_nat n) (vsum (numel (t_size (f i))) (map (\<lambda>j. t_data (f j)) [0..<n]))\<rparr>"

definition uniform :: "nat \<Rightarrow> (nat \<Rightarrow> tensor) \<Rightarrow> bool" where
  "uniform n f \<longleftrightarrow> (\<exists>dt sz. is_floating_point dt \<and> (\<forall>i < n. same_form dt sz (f i)))"

lemma runs_grad_head:
  assumes ok: "net_ok net" "n_store net = exact" and sc: "CHR ''/'' \<in> set scope" and bal: "balanced net L"
    and w: "\<forall>i < n_size net. \<not> executing_eagerly (w i) \<and> f_size (w i) = int (n_size net) \<and> f_declared (w i) = D"
    and f: "uniform (n_size net) f"
  shows "\<exists>L1 w1 D1. runs net L (\<lambda>i. bind_io (tf_push_pull exact \<lparr>tn_name = nm, tn_val = f i\<rparr> scope None Tf_none None False) (\<lambda>t. ret_io (Some t)) (w i)) L1
       (\<lambda>i. (Inr (Some (mean_of (n_size net) f i)), w1 i)) \<and> balanced net L1
     \<and> (\<forall>i < n_size net. \<not> executing_eagerly (w1 i) \<and> f_size (w1 i) = int (n_size net) \<and> f_declared (w1 i) = D1)"
proof -
  obtain dt sz where ds: "is_floating_point dt" "\<And>i. i < n_size net \<Longrightarrow> same_form dt sz (f i)" using f by (auto simp: uniform_def)
  have sc': "scope \<noteq> []" "set scope \<inter> {CHR ''/''} \<noteq> {}" using sc by auto
  let ?full = "scope @ ''BytePSPushPull_'' @ normalize_name nm"
  let ?m = "\<lambda>i. (f i)\<lparr>t_data := vscale (1 / of_nat (n_size net)) (vsum (numel sz) (map (\<lambda>j. t_data (f j)) [0..<n_size net]))\<rparr>"
  let ?w = "\<lambda>i. tf_declare_tensor ?full (w i)"
  obtain L1 where r: "runs net L (\<lambda>i. tf_push_pull exact \<lparr>tn_name = nm, tn_val = f i\<rparr> scope None Tf_none None False (w i)) L1 (\<lambda>i. (Inr (?m i), ?w i))"
      "balanced net L1"
    using runs_tf_push_pull [where f = f and w = w and D = D and dt = dt and sz = sz and nm = nm, OF ok bal sc'] w ds by blast
  have "runs net L (\<lambda>i. bind_io (tf_push_pull exact \<lparr>tn_name = nm, tn_val = f i\<rparr> scope None Tf_none None False) (\<lambda>t. ret_io (Some t)) (w i)) L1
       (\<lambda>i. (Inr (Some (mean_of (n_size net) f i)), ?w i))"
    by (rule runs_bind_io [where m = "\<lambda>i. tf_push_pull exact \<lparr>tn_name = nm, tn_val = f i\<rparr> scope None Tf_none None False" and w = w
          and x = ?m and ?w1.0 = ?w, OF ok(1) r(1)], rule runs_Ret)
       (use ds(2) in \<open>auto simp: io_run mean_of_def same_form_def\<close>)
  moreover have "\<forall>i < n_size net. \<not> executing_eagerly (?w i) \<and> f_size (?w i) = int (n_size net)
      \<and> f_declared (?w i) = (if ?full \<in> set D then D else D @ [?full])" using w by (simp add: tf_declare_tensor_def executing_eagerly_def)
  ultimately show ?thesis using r(2) by (intro exI [of _ L1] exI [of _ ?w] exI [of _ "if ?full \<in> set D then D else D @ [?full]"] conjI)
qed

text \<open>
  C12. The gradients of a TensorFlow optimizer in graph mode: when all workers hold gradients of the same
  names and forms, the joint run ends and every worker gets, for each gradient, the mean over the workers, in
  the order of the gradients; a missing gradient stays missing. The tensors are declared in the same order
  on all workers, so later operations meet again.
\<close>

theorem push_pull_grads_mean:
  assumes ok: "net_ok net" "n_store net = exact" and sc: "CHR ''/'' \<in> set scope"
  shows "balanced net L \<Longrightarrow>
     \<forall>i < n_size net. \<not> executing_eagerly (w i) \<and> f_size (w i) = int (n_size net) \<and> f_declared (w i) = D \<Longrightarrow>
     \<forall>(nm, g) \<in> set items. case g of None \<Rightarrow> True | Some f \<Rightarrow> uniform (n_size net) f \<Longrightarrow>
     \<exists>L' w' D'. runs net L (\<lambda>i. push_pull_grads exact Tf_none sad False scope
           (map (\<lambda>(nm, g). case g of None \<Rightarrow> No_grad | Some f \<Rightarrow> Dense \<lparr>tn_name = nm, tn_val = f i\<rparr>) items) (w i)) L'
         (\<lambda>i. (Inr (map (\<lambda>(nm, g). map_option (\<lambda>f. mean_of (n_size net) f i) g) items), w' i))
       \<and> balanced net L' \<and> (\<forall>i < n_size net. f_declared (w' i) = D')"
proof (induction items arbitrary: L w D)
  case Nil
  have "runs net L (\<lambda>i. push_pull_grads exact Tf_none sad False scope [] (w i)) L (\<lambda>i. (Inr [], w i))" by (rule runs_Ret) (simp add: io_run)
  with Nil.prems show ?case by (intro exI [of _ L] exI [of _ w] exI [of _ D]) (simp del: exact_eq)
next
  case (Cons item items)
  obtain nm g where item: "item = (nm, g)" by (cases item)
  let ?head = "\<lambda>i. case grad_tensor sad (case g of None \<Rightarrow> No_grad | Some f \<Rightarrow> Dense \<lparr>tn_name = nm, tn_val = f i\<rparr>) of
      None \<Rightarrow> ret_io None | Some x \<Rightarrow> bind_io (tf_push_pull exact x scope None Tf_none None False) (\<lambda>t. ret_io (Some t))"
  let ?gs = "\<lambda>i. map (\<lambda>(nm, g). case g of None \<Rightarrow> No_grad | Some f \<Rightarrow> Dense \<lparr>tn_name = nm, tn_val = f i\<rparr>) items"
  let ?ts = "\<lambda>i. map (\<lambda>(nm, g). map_option (\<lambda>f. mean_of (n_size net) f i) g) items"
  have "\<exists>L1 w1 D1. runs net L (\<lambda>i. ?head i (w i)) L1 (\<lambda>i. (Inr (map_option (\<lambda>f. mean_of (n_size net) f i) g), w1 i)) \<and> balanced net L1
      \<and> (\<forall>i < n_size net. \<not> executing_eagerly (w1 i) \<and> f_size (w1 i) = int (n_size net) \<and> f_declared (w1 i) = D1)"
  proof (cases g)
    case None
    then have "runs net L (\<lambda>i. ?head i (w i)) L (\<lambda>i. (Inr (map_option (\<lambda>f. mean_of (n_size net) f i) g), w i))" by (intro runs_Ret) (simp add: io_run)
    with Cons.prems(1,2) show ?thesis by blast
  next
    case (Some f)
    with Cons.prems(3) show ?thesis using runs_grad_head [OF ok sc Cons.prems(1,2), of f nm] by (simp add: item del: exact_eq)
  qed
  then obtain L1 w1 D1 where h: "runs net L (\<lambda>i. ?head i (w i)) L1 (\<lambda>i. (Inr (map_option (\<lambda>f. mean_of (n_size net) f i) g), w1 i))" "balanced net L1"
      "\<forall>i < n_size net. \<not> executing_eagerly (w1 i) \<and> f_size (w1 i) = int (n_size net) \<and> f_declared (w1 i) = D1" by blast
  have "\<forall>(nm, g) \<in> set items. case g of None \<Rightarrow> True | Some f \<Rightarrow> uniform (n_size net) f" using Cons.prems(3) by simp
  then obtain L2 w2 D2 where t: "runs net L1 (\<lambda>i. push_pull_grads exact Tf_none sad False scope (?gs i) (w1 i)) L2 (\<lambda>i. (Inr (?ts i), w2 i))"
      "balanced net L2" "\<forall>i < n_size net. f_declared (w2 i) = D2"
    using Cons.IH [OF h(2,3)] by blast
  have "runs net L1 (\<lambda>i. bind_io (push_pull_grads exact Tf_none sad False scope (?gs i))
        (\<lambda>ts. ret_io (map_option (\<lambda>f. mean_of (n_size net) f i) g # ts)) (w1 i)) L2
      (\<lambda>i. (Inr (map_option (\<lambda>f. mean_of (n_size net) f i) g # ?ts i), w2 i))"
    by (rule runs_bind_io [where m = "\<lambda>i. push_pull_grads exact Tf_none sad False scope (?gs i)" and w = w1 and x = ?ts and ?w1.0 = w2, OF ok(1) t(1)])
       (rule runs_Ret, simp add: io_run)
  then have "runs net L (\<lambda>i. bind_io (?head i) (\<lambda>t. bind_io (push_pull_grads exact Tf_none sad False scope (?gs i)) (\<lambda>ts. ret_io (t # ts))) (w i)) L2
      (\<lambda>i. (Inr (map_option (\<lambda>f. mean_of (n_size net) f i) g # ?ts i), w2 i))"
    by (rule runs_bind_io [where m = ?head and w = w and x = "\<lambda>i. map_option (\<lambda>f. mean_of (n_size net) f i) g" and ?w1.0 = w1, OF ok(1) h(1)])
  with t(2,3) show ?case by (intro exI [of _ L2] exI [of _ w2] exI [of _ D2]) (simp add: item del: exact_eq)
qed

definition tf_item :: "nat \<Rightarrow> tensor" where
  "tf_item i = vec_of [of_nat i * 4, 2]"

definition tf_example :: "bool \<Rightarrow> nat \<Rightarrow> tfw" where
  "tf_example eager i =
     \<lparr>f_rank = int i, f_size = 2, f_has_eager = True, f_in_eager_mode = eager, f_name_scope = [], f_node_name = (\<lambda>n. n), f_has_assign_sub = False,
      f_has_div = False, f_declared = [], f_random = (\<lambda>m. replicate (Suc m) (if i = 0 then CHR ''a'' else CHR ''b'')), f_random_next = 0,
      f_vars = (\<lambda>_. tf_item i)\<rparr>"

theorem push_pull_grads_mean_witness:
  "\<exists>L' w' D'. runs net2 (\<lambda>_. []) (\<lambda>i. push_pull_grads exact Tf_none True False ''Opt_Push_Pull/''
         [Dense \<lparr>tn_name = ''fc:0'', tn_val = tf_item i\<rparr>, No_grad] (tf_example False i)) L'
       (\<lambda>i. (Inr [Some ((tf_item i)\<lparr>t_data := [2, 2]\<rparr>), None], w' i))
     \<and> balanced net2 L' \<and> (\<forall>i < 2. f_declared (w' i) = D')"
proof -
  have m: "mean_of (Suc (Suc 0)) tf_item i = (tf_item i)\<lparr>t_data := [2, 2]\<rparr>" for i
    by (simp add: mean_of_def tf_item_def vsum_def vadd_def vscale_def vzero_def numel_def vec_of_def)
  have u: "uniform 2 tf_item" unfolding uniform_def by (rule exI [of _ Float32], rule exI [of _ "[2]"]) (simp add: tf_item_def)
  show ?thesis
    using push_pull_grads_mean [of net2 "''Opt_Push_Pull/''" "\<lambda>_. []" "tf_example False" "[]" "[(''fc:0'', Some tf_item), (''b:0'', None)]" True] u
    by (simp add: tf_example_def executing_eagerly_def m numeral_2_eq_2 del: exact_eq push_pull_grads.simps)
qed

section \<open>Broadcasting in eager mode\<close>

definition bc_sent :: "int \<Rightarrow> string \<Rightarrow> 'z tfw_scheme \<Rightarrow> 'z tfw_scheme" where
  "bc_sent rt v w =
     (let w1 = tf_declare_tensor (''empty_name_'' @ f_random w (f_random_next w)) (w\<lparr>f_random_next := Suc (f_random_next w)\<rparr>)
      in if rt = f_rank w then w1 else w1\<lparr>f_vars := (f_vars w)(v := zeroed (f_vars w v))\<rparr>)"

lemma tf_broadcast_eager:
  assumes "executing_eagerly w" "\<not> f_has_assign_sub w" "f_rank w \<noteq> -1"
  shows "tf_broadcast (Inl v) rt [] None w =
     c_lib_push_pull (f_vars (bc_sent rt v w) v) [] (Some (''empty_name_'' @ f_random w (f_random_next w))) (bc_sent rt v w)"
proof -
  have n: "op_names ''BytePSBroadcast_'' v [] None w =
      Ret (Inr ([], ''empty_name_'' @ f_random w (f_random_next w)), w\<lparr>f_random_next := Suc (f_random_next w)\<rparr>)"
    by (rule op_names_eager [OF assms(1)])
  show ?thesis unfolding tf_broadcast_def sum.case
    by (subst bind_io_Ret(1) [where m = "op_names _ _ _ _", OF n])
       (use assms in \<open>simp add: tf_rank_def rank_query_def c_query_def set_var_def bc_sent_def bind_io_assoc bind_io_basic Let_def\<close>)
qed

text \<open>The random names that a worker has not drawn yet are new.\<close>

definition fresh_names :: "'z tfw_scheme \<Rightarrow> bool" where
  "fresh_names w \<longleftrightarrow> inj (f_random w) \<and> (\<forall>m \<ge> f_random_next w. ''empty_name_'' @ f_random w m \<notin> set (f_declared w))"

definition bc_ready :: "nat \<Rightarrow> nat \<Rightarrow> nat \<Rightarrow> 'z tfw_scheme \<Rightarrow> bool" where
  "bc_ready n d i w \<longleftrightarrow> executing_eagerly w \<and> \<not> f_has_assign_sub w \<and> f_rank w = int i \<and> f_size w = int n
     \<and> length (f_declared w) = d \<and> fresh_names w"

lemma bc_ready_sent:
  assumes "bc_ready n d i w"
  shows "bc_ready n (Suc d) i ((bc_sent rt v w)\<lparr>f_vars := h\<rparr>)" "f_declared (bc_sent rt v w) = f_declared w @ [''empty_name_'' @ f_random w (f_random_next w)]"
proof -
  let ?n = "''empty_name_'' @ f_random w (f_random_next w)"
  have new: "?n \<notin> set (f_declared w)" using assms by (simp add: bc_ready_def fresh_names_def)
  have later: "f_random w m \<noteq> f_random w (f_random_next w)" if "Suc (f_random_next w) \<le> m" for m
    using assms that by (auto simp: bc_ready_def fresh_names_def dest: injD)
  show "f_declared (bc_sent rt v w) = f_declared w @ [?n]" using new by (simp add: bc_sent_def tf_declare_tensor_def Let_def)
  show "bc_ready n (Suc d) i ((bc_sent rt v w)\<lparr>f_vars := h\<rparr>)"
    using assms new later by (auto simp: bc_ready_def bc_sent_def tf_declare_tensor_def executing_eagerly_def fresh_names_def Let_def)
qed

definition bc_eff :: "nat \<Rightarrow> string \<Rightarrow> (nat \<Rightarrow> 'z tfw_scheme) \<Rightarrow> nat \<Rightarrow> 'z tfw_scheme" where
  "bc_eff rt v w i =
     (bc_sent (int rt) v (w i))\<lparr>f_vars := (f_vars (w i))(v := (f_vars (w i) v)\<lparr>t_data := t_data (f_vars (w rt) v)\<rparr>)\<rparr>"

lemma bc_sent_value: "(f_vars (bc_sent rt v w))(v := (f_vars (bc_sent rt v w) v)\<lparr>t_data := xs\<rparr>) = (f_vars w)(v := (f_vars w v)\<lparr>t_data := xs\<rparr>)"
  by (auto simp: bc_sent_def zeroed_def Let_def)

lemma runs_broadcast_variable:
  assumes ok: "net_ok net" and rt: "rt < n_size net" and bal: "balanced net L"
    and w: "\<And>i. i < n_size net \<Longrightarrow> bc_ready n d i (w i)" "\<And>i. i < n_size net \<Longrightarrow> same_form dt sz (f_vars (w i) v)"
    and st: "stored (n_store net) (f_vars (w rt) v)" "dt \<noteq> Uint8"
  shows "\<exists>L'. runs net L (\<lambda>i. broadcast_variable (int rt) [] v (w i)) L' (\<lambda>i. (Inr (), bc_eff rt v w i)) \<and> balanced net L'"
proof -
  let ?W = "\<lambda>i. bc_sent (int rt) v (w i)" and ?full = "\<lambda>i. ''empty_name_'' @ f_random (w i) (f_random_next (w i))"
  let ?x = "\<lambda>i. f_vars (?W i) v" and ?t = "f_vars (w rt) v"
  have x: "?x i = (if i = rt then f_vars (w i) v else zeroed (f_vars (w i) v))" if "i < n_size net" for i
    using w(1) [OF that] by (simp add: bc_sent_def bc_ready_def Let_def)
  have sum: "server_round (n_store net) (map ?x (n_arrive net (nat_str d) r)) = Some ?t" for r
    using x rt w(2) st(1) by (intro server_round_one [OF ok rt, where dt = dt and sz = sz]) (auto simp: zeroed_def same_form_def)
  have a: "t_dtype (?x i) \<noteq> Uint8 \<and> ?full i \<in> set (f_declared (?W i)) \<and> declared_key (?full i) (f_declared (?W i)) = d \<and> ?full i \<noteq> ''default_tensor_name''"
    if i: "i < n_size net" for i
  proof -
    have "?full i \<notin> set (f_declared (w i))" "length (f_declared (w i)) = d" using w(1) [OF i] by (simp_all add: bc_ready_def fresh_names_def)
    moreover have "t_dtype (?x i) = dt" using x [OF i] w(2) [OF i] by (cases "i = rt") (simp_all add: zeroed_def same_form_def)
    ultimately show ?thesis using bc_ready_sent(2) [OF w(1) [OF i], of "int rt" v] st(2) by (simp add: declared_key_new)
  qed
  note c = runs_c_lib(1) [OF ok bal a sum, of "\<lambda>_. []"] runs_c_lib(2) [OF ok bal a sum]
  have "runs net L (\<lambda>i. bind_io (\<lambda>_. c_lib_push_pull (?x i) [] (Some (?full i)) (?W i)) (set_var v) (w i)) (\<lambda>i. L i @ [tf_req d (?x i)])
      (\<lambda>i. (Inr (), bc_eff rt v w i))"
    by (rule runs_bind_io [where m = "\<lambda>i _. c_lib_push_pull (?x i) [] (Some (?full i)) (?W i)" and w = w
          and x = "\<lambda>i. (?x i)\<lparr>t_data := t_data ?t\<rparr>" and ?w1.0 = ?W, OF ok]) (rule c(1), assumption, rule runs_Ret, simp add: set_var_def io_run bc_sent_value bc_eff_def)
  then have "runs net L (\<lambda>i. broadcast_variable (int rt) [] v (w i)) (\<lambda>i. L i @ [tf_req d (?x i)]) (\<lambda>i. (Inr (), bc_eff rt v w i))"
    by (rule runs_cong [OF ok])
       (use w(1) in \<open>simp_all add: broadcast_variable_def bind_io_at [of "tf_broadcast _ _ _ _"] tf_broadcast_eager bc_ready_def\<close>)
  with c(2) show ?thesis by blast
qed

definition bc_list_ready :: "net \<Rightarrow> nat \<Rightarrow> string list \<Rightarrow> (nat \<Rightarrow> 'z tfw_scheme) \<Rightarrow> bool" where
  "bc_list_ready net rt vs w \<longleftrightarrow> rt < n_size net \<and> distinct vs \<and> (\<exists>d. \<forall>i < n_size net. bc_ready (n_size net) d i (w i))
     \<and> (\<forall>v \<in> set vs. stored (n_store net) (f_vars (w rt) v) \<and> (\<exists>dt sz. dt \<noteq> Uint8 \<and> (\<forall>i < n_size net. same_form dt sz (f_vars (w i) v))))"

lemma bc_eff_vars: "f_vars (bc_eff rt v w i) u = (if u = v then (f_vars (w i) v)\<lparr>t_data := t_data (f_vars (w rt) v)\<rparr> else f_vars (w i) u)"
  by (simp add: bc_eff_def)

interpretation tf_loop: joint_loop net "\<lambda>i. broadcast_variable (int rt) []" "bc_eff rt" "bc_list_ready net rt" for net rt
proof
  fix L :: "nat \<Rightarrow> req list" and v vs and w :: "nat \<Rightarrow> 'a tfw_scheme"
  assume ok: "net_ok net" "balanced net L" and r: "bc_list_ready net rt (v # vs) w"
  obtain d dt sz where d: "\<And>i. i < n_size net \<Longrightarrow> bc_ready (n_size net) d i (w i)" "\<And>i. i < n_size net \<Longrightarrow> same_form dt sz (f_vars (w i) v)"
      "dt \<noteq> Uint8" "stored (n_store net) (f_vars (w rt) v)" "rt < n_size net"
    using r by (auto simp: bc_list_ready_def)
  obtain L' where "runs net L (\<lambda>i. broadcast_variable (int rt) [] v (w i)) L' (\<lambda>i. (Inr (), bc_eff rt v w i))" "balanced net L'"
    using runs_broadcast_variable [OF ok(1) d(5) ok(2) d(1,2,4,3)] by blast
  then show "\<exists>L' y. runs net L (\<lambda>i. broadcast_variable (int rt) [] v (w i)) L' (\<lambda>i. (Inr (y i), bc_eff rt v w i)) \<and> balanced net L'"
    by (intro exI [of _ L'] exI [of _ "\<lambda>_. ()"] conjI)
next
  fix v vs and w :: "nat \<Rightarrow> 'a tfw_scheme"
  assume r: "bc_list_ready net rt (v # vs) w"
  then obtain d where d: "\<forall>i < n_size net. bc_ready (n_size net) d i (w i)" by (auto simp: bc_list_ready_def)
  then have "\<forall>i < n_size net. bc_ready (n_size net) (Suc d) i (bc_eff rt v w i)" by (simp add: bc_eff_def bc_ready_sent(1))
  moreover have "f_vars (bc_eff rt v w i) u = f_vars (w i) u" if "u \<in> set vs" for u i
    using r that by (auto simp: bc_list_ready_def bc_eff_vars)
  ultimately show "bc_list_ready net rt vs (bc_eff rt v w)" using r by (auto simp: bc_list_ready_def)
qed

lemma bc_loop_vars:
  "distinct vs \<Longrightarrow> f_vars (fold (bc_eff rt) vs w i) u =
     (if u \<in> set vs then (f_vars (w i) u)\<lparr>t_data := t_data (f_vars (w rt) u)\<rparr> else f_vars (w i) u)"
  by (induction vs arbitrary: w) (auto simp: bc_eff_vars)

lemma bc_loop_ready:
  "\<forall>i < n. bc_ready n d i (w i) \<Longrightarrow> \<forall>i < n. bc_ready n (d + length vs) i (fold (bc_eff rt) vs w i)"
proof (induction vs arbitrary: w d)
  case (Cons v vs)
  then have "\<forall>i < n. bc_ready n (Suc d) i (bc_eff rt v w i)" by (simp add: bc_eff_def bc_ready_sent(1))
  from Cons.IH [OF this] show ?case by simp
qed simp

lemma runs_broadcast_variables:
  assumes "net_ok net" "rt < n_size net" "1 < n_size net" "balanced net L" "distinct vs"
    and "\<forall>i < n_size net. bc_ready (n_size net) d i (w i)"
    and "\<forall>v \<in> set vs. stored (n_store net) (f_vars (w rt) v) \<and> dt v \<noteq> Uint8 \<and> (\<forall>i < n_size net. same_form (dt v) (sz v) (f_vars (w i) v))"
  shows "\<exists>L' w'. runs net L (\<lambda>i. broadcast_variables vs (int rt) [] (w i)) L' (\<lambda>i. (Inr (), w' i)) \<and> balanced net L'
     \<and> (\<forall>i < n_size net. bc_ready (n_size net) (d + length vs) i (w' i))
     \<and> (\<forall>i < n_size net. \<forall>v. f_vars (w' i) v = (if v \<in> set vs then (f_vars (w i) v)\<lparr>t_data := t_data (f_vars (w rt) v)\<rparr> else f_vars (w i) v))"
proof -
  have "bc_list_ready net rt vs w" using assms(2,5-7) unfolding bc_list_ready_def by blast
  then obtain L' where r: "runs net L (\<lambda>i. for_io (broadcast_variable (int rt) []) vs (w i)) L' (\<lambda>i. (Inr (), fold (bc_eff rt) vs w i))" "balanced net L'"
    using tf_loop.loop [OF assms(1,4)] by blast
  have "runs net L (\<lambda>i. broadcast_variables vs (int rt) [] (w i)) L' (\<lambda>i. (Inr (), fold (bc_eff rt) vs w i))"
    by (rule runs_cong [OF assms(1) r(1)])
       (use assms(3,6) in \<open>auto simp: broadcast_variables_def tf_size_def size_query_def c_query_def bc_ready_def bind_io_assoc bind_io_basic\<close>)
  then show ?thesis using r(2) bc_loop_ready [OF assms(6)] bc_loop_vars [OF assms(5)]
    by (intro exI [of _ L'] exI [of _ "fold (bc_eff rt) vs w"]) blast
qed

text \<open>
  Where TensorFlow has \<^verbatim>\<open>tf.assign_sub\<close>, a worker other than the root passes no input name. In eager mode the operation then goes
  under the name of its node, which nobody has declared: the worker has already cleared the variable, and the process ends.
\<close>

theorem assign_sub_broadcast_fails:
  assumes "executing_eagerly w" "f_has_assign_sub w" "f_rank w \<noteq> -1" "f_rank w \<noteq> root_rank" "t_dtype (f_vars w v) \<noteq> Uint8"
    and "f_node_name w [] \<notin> set (f_declared w)" "f_node_name w [] \<noteq> ''empty_name_'' @ f_random w (f_random_next w)"
  shows "\<exists>w'. tf_broadcast (Inl v) root_rank [] None w = Ret (Inl (OtherError ''is not initialized''), w') \<and> f_vars w' v = zeroed (f_vars w v)"
  using assms
  by (simp add: tf_broadcast_def op_names_def random_string_def tf_rank_def rank_query_def c_query_def set_var_def tf_declare_tensor_def c_lib_push_pull_def
      bind_io_basic bind_io_assoc Let_def zeroed_def truthy_def)

text \<open>
  C13. Broadcasting variables in eager mode, where an operation has no name of its own, on an installation of
  TensorFlow without \<^verbatim>\<open>tf.assign_sub\<close> (version 2; with it the broadcast fails, see
  \<open>assign_sub_broadcast_fails\<close>). The workers have declared the same number of names, a random name is never drawn
  twice nor declared before, the variables have the same types, other than bytes, and shapes on all workers, and the root's values are
  storable on the server. Then, although every worker
  draws its own random name for each variable, the names get the same numbers, so the joint run ends with the
  root's values in the variables of every worker, also when the server rounds its sums; no other variable changes.
\<close>

theorem broadcast_variables_root:
  assumes "net_ok net" "rt < n_size net" "1 < n_size net" "balanced net L" "distinct vs"
    and "\<forall>i < n_size net. executing_eagerly (w i) \<and> \<not> f_has_assign_sub (w i) \<and> f_rank (w i) = int i \<and> f_size (w i) = int (n_size net)
           \<and> length (f_declared (w i)) = d \<and> fresh_names (w i)"
    and "\<forall>v \<in> set vs. stored (n_store net) (f_vars (w rt) v) \<and> dt v \<noteq> Uint8 \<and> (\<forall>i < n_size net. same_form (dt v) (sz v) (f_vars (w i) v))"
  shows "\<exists>L' w'. runs net L (\<lambda>i. broadcast_variables vs (int rt) [] (w i)) L' (\<lambda>i. (Inr (), w' i)) \<and> balanced net L'
     \<and> (\<forall>i < n_size net. \<forall>v. f_vars (w' i) v = (if v \<in> set vs then (f_vars (w i) v)\<lparr>t_data := t_data (f_vars (w rt) v)\<rparr> else f_vars (w i) v))"
  using runs_broadcast_variables [OF assms(1-5) assms(6) [folded bc_ready_def] assms(7)] by blast

theorem broadcast_variables_root_witness:
  "\<exists>L' w'. runs net2 (\<lambda>_. []) (\<lambda>i. broadcast_variables [''w'', ''b''] (int 1) [] (tf_example True i)) L' (\<lambda>i. (Inr (), w' i)) \<and> balanced net2 L'
     \<and> (\<forall>i < 2. \<forall>v. f_vars (w' i) v = (if v \<in> {''w'', ''b''} then (f_vars (tf_example True i) v)\<lparr>t_data := [4, 2]\<rparr> else f_vars (tf_example True i) v))"
proof -
  have "bc_ready 2 0 i (tf_example True i)" if "i < 2" for i
    using that by (auto simp: bc_ready_def tf_example_def executing_eagerly_def fresh_names_def inj_def)
  moreover have "f_vars (tf_example True i) = (\<lambda>_. tf_item i)" "t_data (tf_item 1) = [4, 2]" "same_form Float32 [2] (tf_item i)" for i
    by (simp_all add: tf_example_def tf_item_def)
  ultimately show ?thesis
    using broadcast_variables_root [folded bc_ready_def, of net2 1 "\<lambda>_. []" "[''w'', ''b'']" 0 "tf_example True" "\<lambda>_. Float32" "\<lambda>_. [2]"]
    by (simp add: stored_def split del: if_split cong: if_cong)
qed

end
