(* ===== verification/Keras.thy ===== *)
theory Keras
  imports Tensorflow "HOL-Library.List_Lexorder" "HOL-Library.Char_ord"
begin

text \<open>
  \<^verbatim>\<open>byteps/_keras/__init__.py\<close> and the broadcast and metric callbacks of \<^verbatim>\<open>byteps/_keras/callbacks.py\<close>,
  with the wrappers in \<^verbatim>\<open>byteps/keras/\<close>: the optimizer that averages gradients before it applies them,
  the operations on values, the custom objects for loading a model, the initial broadcast and the averaging
  of metrics. Evaluating an operation in a session runs it; the wrapped optimizer is an argument.
\<close>

section \<open>The optimizer\<close>

record keras_opt = tfw +
  ko_aggregated_gradients :: bool

definition keras_push_pull ::
    "storage \<Rightarrow> tf_compression \<Rightarrow> bool \<Rightarrow> string \<Rightarrow> tf_grad list \<Rightarrow> (keras_opt, tf_grad list + tensor option list) io" where
  "keras_push_pull c compression sparse_as_dense scope gradients =
     bind_io (modify_io (\<lambda>w. w\<lparr>ko_aggregated_gradients := True\<rparr>)) (\<lambda>_.
     bind_io tf_size (\<lambda>n.
       if n > 1 then bind_io (push_pull_grads c compression sparse_as_dense False scope gradients) (\<lambda>ts. ret_io (Inr ts))
       else ret_io (Inl gradients)))"

definition get_gradients ::
    "storage \<Rightarrow> tf_compression \<Rightarrow> bool \<Rightarrow> string \<Rightarrow> (keras_opt, tf_grad list) io \<Rightarrow> (keras_opt, tf_grad list + tensor option list) io" where
  "get_gradients c compression sparse_as_dense scope super_get = bind_io super_get (keras_push_pull c compression sparse_as_dense scope)"

definition aggregate_gradients ::
    "storage \<Rightarrow> tf_compression \<Rightarrow> bool \<Rightarrow> string \<Rightarrow> (tf_grad \<times> string) list \<Rightarrow> (keras_opt, tf_grad list + tensor option list) io" where
  "aggregate_gradients c compression sparse_as_dense scope grads_and_vars =
     keras_push_pull c compression sparse_as_dense scope (map fst grads_and_vars)"

definition keras_apply_gradients :: "(keras_opt, unit) io \<Rightarrow> (keras_opt, unit) io" where
  "keras_apply_gradients super_apply =
     bind_io (get_io ko_aggregated_gradients) (\<lambda>a. if \<not> a then raise_io (OtherError ''Exception'') else super_apply)"

section \<open>Values and models\<close>

definition keras_value_push_pull :: "storage \<Rightarrow> tensor \<Rightarrow> string \<Rightarrow> bool \<Rightarrow> ('z tfw_scheme, tensor) io" where
  "keras_value_push_pull c value name average = tf_push_pull c \<lparr>tn_name = name, tn_val = value\<rparr> [] (Some average) Tf_none None False"

definition keras_value_broadcast :: "tensor \<Rightarrow> int \<Rightarrow> string \<Rightarrow> ('z tfw_scheme, tensor) io" where
  "keras_value_broadcast value root_rank name = tf_broadcast (Inr \<lparr>tn_name = name, tn_val = value\<rparr>) root_rank [] None"

text \<open>The custom objects a model is loaded with: classes as name and module, wrapped or given by the caller.\<close>

definition model_objects ::
    "('c \<Rightarrow> string) \<Rightarrow> ('c \<Rightarrow> string) \<Rightarrow> ('c \<Rightarrow> 'o) \<Rightarrow> string set \<Rightarrow> 'c list \<Rightarrow> 'c list option \<Rightarrow> (string, 'o) dict option \<Rightarrow> (string, 'o) dict" where
  "model_objects name_of module_of wrap_optimizer optimizer_modules subclasses custom_optimizers custom_objects =
     (let d = dict_update_all [] (map (\<lambda>s. (py_lower (name_of s), wrap_optimizer s)) (filter (\<lambda>s. module_of s \<in> optimizer_modules) subclasses));
          d = (case custom_optimizers of None \<Rightarrow> d | Some cs \<Rightarrow> dict_update_all d (map (\<lambda>s. (name_of s, wrap_optimizer s)) cs))
      in case custom_objects of None \<Rightarrow> d | Some o' \<Rightarrow> dict_update_all d o')"

section \<open>Callbacks\<close>

record bcast_callback =
  bc_root_rank :: int
  bc_broadcast_done :: bool

definition bcast_init :: "int \<Rightarrow> bcast_callback" where
  "bcast_init root_rank = \<lparr>bc_root_rank = root_rank, bc_broadcast_done = False\<rparr>"

definition bcast_on_batch_end :: "bool \<Rightarrow> string list \<Rightarrow> string list \<Rightarrow> string list \<Rightarrow> bcast_callback \<Rightarrow> ('z tfw_scheme, bcast_callback) io" where
  "bcast_on_batch_end has_variables model_variables optimizer_variables global_variables cb =
     (if bc_broadcast_done cb then ret_io cb
      else bind_io tf_size (\<lambda>n.
        if n \<le> 1 then ret_io cb
        else bind_io (get_io executing_eagerly) (\<lambda>eager.
          bind_io (if eager \<and> has_variables
                   then bind_io (broadcast_variables model_variables (bc_root_rank cb) []) (\<lambda>_.
                          broadcast_variables optimizer_variables (bc_root_rank cb) [])
                   else broadcast_global_variables global_variables (bc_root_rank cb)) (\<lambda>_.
            ret_io (cb\<lparr>bc_broadcast_done := True\<rparr>)))))"

text \<open>
  A metric is pushed as a constant in eager mode; in graph mode as a variable that is made at the first
  epoch, with a push-pull in the scope of the callback.
\<close>

record metric_callback = tfw +
  mc_variables :: "string list"

definition metric_push_pull :: "storage \<Rightarrow> string \<Rightarrow> string \<times> tensor \<Rightarrow> (metric_callback, tensor) io" where
  "metric_push_pull c scope = (\<lambda>(metric, value).
     bind_io (get_io executing_eagerly) (\<lambda>eager.
       if eager then tf_push_pull c \<lparr>tn_name = metric, tn_val = value\<rparr> [] None Tf_none None False
       else bind_io (modify_io (\<lambda>w. w\<lparr>mc_variables := List.insert metric (mc_variables w)\<rparr>)) (\<lambda>_.
            bind_io (set_var metric value) (\<lambda>_.
            bind_io (get_io (\<lambda>w. f_vars w metric)) (\<lambda>t.
              tf_push_pull c \<lparr>tn_name = metric, tn_val = t\<rparr> scope None Tf_none None False)))))"

fun average_metrics :: "storage \<Rightarrow> string \<Rightarrow> (string, tensor) dict \<Rightarrow> (metric_callback, (string, tensor) dict) io" where
  "average_metrics c scope [] = ret_io []"
| "average_metrics c scope ((metric, value) # ms) =
     bind_io (metric_push_pull c scope (metric, value)) (\<lambda>t.
     bind_io (average_metrics c scope ms) (\<lambda>reduced. ret_io ((metric, t) # reduced)))"

definition average_metrics_in_place :: "storage \<Rightarrow> string \<Rightarrow> (string, tensor) dict option \<Rightarrow> (metric_callback, (string, tensor) dict option) io" where
  "average_metrics_in_place c scope metrics =
     (case metrics of
        None \<Rightarrow> ret_io None
      | Some d \<Rightarrow> bind_io (average_metrics c scope (sort_key fst d)) (\<lambda>reduced. ret_io (Some (dict_update_all d reduced))))"

section \<open>The initial broadcast\<close>

text \<open>
  The broadcast callback in eager mode: at the end of the first batch the model's and the optimizer's
  variables of every worker become those of the root, and at the end of every later batch the callback
  does nothing, whatever the state of the worker.
\<close>

theorem broadcast_callback_once:
  assumes "net_ok net" "rt < n_size net" "1 < n_size net" "balanced net L" "distinct (vs @ us)"
    and "\<forall>i < n_size net. bc_ready (n_size net) d i (w i)"
    and "\<forall>v \<in> set (vs @ us). stored (n_store net) (f_vars (w rt) v) \<and> dt v \<noteq> Uint8 \<and> (\<forall>i < n_size net. same_form (dt v) (sz v) (f_vars (w i) v))"
  shows "\<exists>L' w' cb'. runs net L (\<lambda>i. bcast_on_batch_end True vs us gs (bcast_init (int rt)) (w i)) L' (\<lambda>i. (Inr cb', w' i))
     \<and> (\<forall>i < n_size net. \<forall>v \<in> set (vs @ us). t_data (f_vars (w' i) v) = t_data (f_vars (w rt) v))
     \<and> (\<forall>u. bcast_on_batch_end True vs us gs cb' u = Ret (Inr cb', u))"
proof -
  obtain L1 w1 where r1: "runs net L (\<lambda>i. broadcast_variables vs (int rt) [] (w i)) L1 (\<lambda>i. (Inr (), w1 i))" "balanced net L1"
      "\<forall>i < n_size net. bc_ready (n_size net) (d + length vs) i (w1 i)"
      "\<forall>i < n_size net. \<forall>v. f_vars (w1 i) v = (if v \<in> set vs then (f_vars (w i) v)\<lparr>t_data := t_data (f_vars (w rt) v)\<rparr> else f_vars (w i) v)"
    using runs_broadcast_variables [OF assms(1-4) _ assms(6), of vs dt sz] assms(5,7) by auto
  have us: "f_vars (w1 i) v = f_vars (w i) v" if "i < n_size net" "v \<in> set us" for i v using that r1(4) assms(5) by auto
  have fm: "\<forall>v \<in> set us. stored (n_store net) (f_vars (w1 rt) v) \<and> dt v \<noteq> Uint8 \<and> (\<forall>i < n_size net. same_form (dt v) (sz v) (f_vars (w1 i) v))"
    using assms(2,7) us by simp
  obtain L2 w2 where r2: "runs net L1 (\<lambda>i. broadcast_variables us (int rt) [] (w1 i)) L2 (\<lambda>i. (Inr (), w2 i))"
      "\<forall>i < n_size net. \<forall>v. f_vars (w2 i) v = (if v \<in> set us then (f_vars (w1 i) v)\<lparr>t_data := t_data (f_vars (w1 rt) v)\<rparr> else f_vars (w1 i) v)"
    using runs_broadcast_variables [OF assms(1-3) r1(2) _ r1(3) fm] assms(5) by auto
  let ?cb = "\<lparr>bc_root_rank = int rt, bc_broadcast_done = True\<rparr>"
  have "runs net L (\<lambda>i. bind_io (broadcast_variables vs (int rt) []) (\<lambda>_. bind_io (broadcast_variables us (int rt) []) (\<lambda>_. ret_io ?cb)) (w i)) L2
      (\<lambda>i. (Inr ?cb, w2 i))"
  proof (rule runs_bind_io [where m = "\<lambda>i. broadcast_variables vs (int rt) []" and w = w and x = "\<lambda>_. ()" and ?w1.0 = w1, OF assms(1) r1(1)])
    show "runs net L1 (\<lambda>i. bind_io (broadcast_variables us (int rt) []) (\<lambda>_. ret_io ?cb) (w1 i)) L2 (\<lambda>i. (Inr ?cb, w2 i))"
      by (rule runs_bind_io [where m = "\<lambda>i. broadcast_variables us (int rt) []" and w = w1 and x = "\<lambda>_. ()" and ?w1.0 = w2, OF assms(1) r2(1)])
         (rule runs_Ret, simp add: io_run)
  qed
  then have "runs net L (\<lambda>i. bcast_on_batch_end True vs us gs (bcast_init (int rt)) (w i)) L2 (\<lambda>i. (Inr ?cb, w2 i))"
    by (rule runs_cong [OF assms(1)])
       (use assms(3,6) in \<open>auto simp: bcast_on_batch_end_def bcast_init_def tf_size_def size_query_def c_query_def bc_ready_def bind_io_assoc bind_io_basic\<close>)
  moreover have "\<forall>i < n_size net. \<forall>v \<in> set (vs @ us). t_data (f_vars (w2 i) v) = t_data (f_vars (w rt) v)"
    using r2(2) r1(4) assms(2,5) us by auto
  ultimately show ?thesis by (intro exI [of _ L2] exI [of _ w2] exI [of _ ?cb]) (simp add: bcast_on_batch_end_def io_run)
qed

theorem broadcast_callback_once_witness:
  "\<exists>L' w' cb'. runs net2 (\<lambda>_. []) (\<lambda>i. bcast_on_batch_end True [''w''] [''m''] [] (bcast_init (int 0)) (tf_example True i)) L' (\<lambda>i. (Inr cb', w' i))
     \<and> (\<forall>i < 2. t_data (f_vars (w' i) ''w'') = [0, 2] \<and> t_data (f_vars (w' i) ''m'') = [0, 2])
     \<and> (\<forall>u. bcast_on_batch_end True [''w''] [''m''] [] cb' u = Ret (Inr cb', u))"
proof -
  have "bc_ready 2 0 i (tf_example True i)" if "i < 2" for i
    using that by (auto simp: bc_ready_def tf_example_def executing_eagerly_def fresh_names_def inj_def)
  moreover have "f_vars (tf_example True i) = (\<lambda>_. tf_item i)" "t_data (tf_item 0) = [0, 2]" "same_form Float32 [2] (tf_item i)" for i
    by (simp_all add: tf_example_def tf_item_def)
  ultimately show ?thesis
    using broadcast_callback_once [of net2 0 "\<lambda>_. []" "[''w'']" "[''m'']" 0 "tf_example True" "\<lambda>_. Float32" "\<lambda>_. [2]" "[]"]
    by (simp add: stored_def)
qed

end
