(* ===== verification/Keras_Callbacks.thy ===== *)
theory Keras_Callbacks
  imports Complex_Main Py_Prelude Basics
begin

text \<open>
  The learning rate callbacks of \<^verbatim>\<open>byteps/_keras/callbacks.py\<close>: the state of a schedule callback together
  with the learning rate and the momentum of the optimizer it steers, and the calls the training loop
  makes. Numbers are exact; the quotient of the array library (\<open>quot\<close>) is a parameter, because it gives
  an infinite value instead of raising when the old learning rate is 0. A multiplier that is a function
  may read the callback, as that of the warmup does.
\<close>

section \<open>The schedule\<close>

record schedule =
  k_lr :: rat
  k_momentum :: "rat option"
  k_start_epoch :: int
  k_end_epoch :: "int option"
  k_staircase :: bool
  k_momentum_correction :: bool
  k_initial_lr :: "rat option"
  k_restore_momentum :: "rat option"
  k_steps_per_epoch :: "int option"
  k_current_epoch :: "int option"

datatype multiplier = Constant rat | Callable "schedule \<Rightarrow> rat \<Rightarrow> rat res"

fun call_multiplier :: "multiplier \<Rightarrow> schedule \<Rightarrow> rat \<Rightarrow> rat res" where
  "call_multiplier (Constant q) s epoch = Inr q"
| "call_multiplier (Callable f) s epoch = f s epoch"

definition schedule_init ::
    "multiplier \<Rightarrow> int \<Rightarrow> int option \<Rightarrow> bool \<Rightarrow> bool \<Rightarrow> int option \<Rightarrow> rat option \<Rightarrow> rat \<Rightarrow> rat option \<Rightarrow> schedule" where
  "schedule_init m start_epoch end_epoch staircase momentum_correction steps_per_epoch initial_lr lr momentum =
     \<lparr>k_lr = lr, k_momentum = momentum, k_start_epoch = start_epoch, k_end_epoch = end_epoch,
      k_staircase = (case m of Constant _ \<Rightarrow> True | Callable _ \<Rightarrow> staircase), k_momentum_correction = momentum_correction,
      k_initial_lr = initial_lr, k_restore_momentum = None, k_steps_per_epoch = steps_per_epoch, k_current_epoch = None\<rparr>"

definition int_true :: "int option \<Rightarrow> bool" where
  "int_true v = (v \<noteq> None \<and> v \<noteq> Some 0)"

definition autodetect_steps_per_epoch :: "(string, int) dict \<Rightarrow> int res" where
  "autodetect_steps_per_epoch params =
     (if int_true (dict_get params ''steps'') then dict_index params ''steps''
      else if int_true (dict_get params ''samples'') \<and> int_true (dict_get params ''batch_size'')
      then bind_res (dict_index params ''samples'') (\<lambda>n. bind_res (dict_index params ''batch_size'') (\<lambda>b. Inr (n div b)))
      else Inl ValueError)"

definition adjust_learning_rate :: "(rat \<Rightarrow> rat \<Rightarrow> rat) \<Rightarrow> multiplier \<Rightarrow> rat \<Rightarrow> schedule \<Rightarrow> schedule res" where
  "adjust_learning_rate quot m epoch s =
     (let old_lr = k_lr s
      in bind_res (call_multiplier m s epoch) (\<lambda>f.
         bind_res (of_option TypeError (k_initial_lr s)) (\<lambda>i.
           let new_lr = i * f; s = s\<lparr>k_lr := new_lr\<rparr>
           in case k_momentum s of
                Some mo \<Rightarrow> if k_momentum_correction s
                           then Inr (s\<lparr>k_restore_momentum := Some mo, k_momentum := Some (quot (mo * new_lr) old_lr)\<rparr>) else Inr s
              | None \<Rightarrow> Inr s)))"

definition restore_momentum_if_needed :: "schedule \<Rightarrow> schedule" where
  "restore_momentum_if_needed s =
     (case k_restore_momentum s of
        Some mo \<Rightarrow> if mo \<noteq> 0 then s\<lparr>k_momentum := Some mo, k_restore_momentum := None\<rparr> else s
      | None \<Rightarrow> s)"

definition on_train_begin :: "(string, int) dict \<Rightarrow> schedule \<Rightarrow> schedule res" where
  "on_train_begin params s =
     (let s = (if k_initial_lr s = None then s\<lparr>k_initial_lr := Some (k_lr s)\<rparr> else s)
      in if \<not> k_staircase s \<and> \<not> int_true (k_steps_per_epoch s)
         then bind_res (autodetect_steps_per_epoch params) (\<lambda>n. Inr (s\<lparr>k_steps_per_epoch := Some n\<rparr>))
         else Inr s)"

definition on_epoch_begin :: "int \<Rightarrow> schedule \<Rightarrow> schedule" where
  "on_epoch_begin epoch s = s\<lparr>k_current_epoch := Some epoch\<rparr>"

definition on_batch_begin :: "(rat \<Rightarrow> rat \<Rightarrow> rat) \<Rightarrow> multiplier \<Rightarrow> int \<Rightarrow> schedule \<Rightarrow> schedule res" where
  "on_batch_begin quot m batch s =
     bind_res (of_option TypeError (k_current_epoch s)) (\<lambda>e.
       if e < k_start_epoch s \<or> (case k_end_epoch s of None \<Rightarrow> False | Some n \<Rightarrow> n \<le> e) then Inr s
       else if k_staircase s \<and> batch = 0 then adjust_learning_rate quot m (of_int e) s
       else if \<not> k_staircase s
       then bind_res (of_option TypeError (k_steps_per_epoch s)) (\<lambda>n.
            if n = 0 then Inl ZeroDivisionError
            else adjust_learning_rate quot m (of_int e + of_int batch / of_int n) s)
       else Inr s)"

definition on_batch_end :: "schedule \<Rightarrow> schedule" where
  "on_batch_end s = restore_momentum_if_needed s"

definition on_epoch_end :: "(string, rat) dict option \<Rightarrow> schedule \<Rightarrow> (string, rat) dict option" where
  "on_epoch_end logs s = map_option (\<lambda>d. dict_set d ''lr'' (k_lr s)) logs"

section \<open>The warmup\<close>

definition warmup_multiplier :: "int \<Rightarrow> int \<Rightarrow> schedule \<Rightarrow> rat \<Rightarrow> rat res" where
  "warmup_multiplier byteps_size warmup_epochs s epoch =
     bind_res (of_option TypeError (k_steps_per_epoch s)) (\<lambda>n.
     if n = 0 then Inl ZeroDivisionError
     else let epoch = epoch + 1 / of_int n
          in bind_res (size_query byteps_size) (\<lambda>size.
             if size = 0 \<or> warmup_epochs = 0 then Inl ZeroDivisionError
             else Inr (1 / of_int size * (epoch * (of_int size - 1) / of_int warmup_epochs + 1))))"

definition warmup_init :: "int \<Rightarrow> int \<Rightarrow> bool \<Rightarrow> int option \<Rightarrow> rat option \<Rightarrow> rat \<Rightarrow> rat option \<Rightarrow> schedule" where
  "warmup_init byteps_size warmup_epochs momentum_correction steps_per_epoch initial_lr lr momentum =
     schedule_init (Callable (warmup_multiplier byteps_size warmup_epochs)) 0 (Some warmup_epochs) False
       momentum_correction steps_per_epoch initial_lr lr momentum"

definition warmup_on_epoch_end :: "int \<Rightarrow> int \<Rightarrow> (string, rat) dict option \<Rightarrow> schedule \<Rightarrow> ((string, rat) dict option \<times> (int \<times> rat) option) res" where
  "warmup_on_epoch_end verbose epoch logs s =
     bind_res (of_option TypeError (k_end_epoch s)) (\<lambda>n.
       Inr (on_epoch_end logs s, if epoch = n - 1 \<and> verbose > 0 then Some (epoch + 1, k_lr s) else None))"

section \<open>A training run\<close>

text \<open>The learning rate and the momentum that the optimizer sees in every batch.\<close>

fun run_batches :: "(rat \<Rightarrow> rat \<Rightarrow> rat) \<Rightarrow> multiplier \<Rightarrow> nat list \<Rightarrow> schedule \<Rightarrow> ((rat \<times> rat option) list \<times> schedule) res" where
  "run_batches quot m [] s = Inr ([], s)"
| "run_batches quot m (b # bs) s =
     bind_res (on_batch_begin quot m (int b) s) (\<lambda>s.
     bind_res (run_batches quot m bs (on_batch_end s)) (\<lambda>(tr, s'). Inr ((k_lr s, k_momentum s) # tr, s')))"

fun run_epochs :: "(rat \<Rightarrow> rat \<Rightarrow> rat) \<Rightarrow> multiplier \<Rightarrow> nat \<Rightarrow> nat list \<Rightarrow> schedule \<Rightarrow> ((rat \<times> rat option) list \<times> schedule) res" where
  "run_epochs quot m n [] s = Inr ([], s)"
| "run_epochs quot m n (e # es) s =
     bind_res (run_batches quot m [0..<n] (on_epoch_begin (int e) s)) (\<lambda>(tr, s).
     bind_res (run_epochs quot m n es s) (\<lambda>(tr', s'). Inr (tr @ tr', s')))"

text \<open>The ramp: from about \<open>i / sz\<close> in equal steps to \<open>i\<close> in the last batch of the warmup.\<close>

definition ramp :: "rat \<Rightarrow> nat \<Rightarrow> nat \<Rightarrow> nat \<Rightarrow> rat" where
  "ramp i sz tot k = (if k < tot then i / of_nat sz * (of_nat (Suc k) * (of_nat sz - 1) / of_nat tot + 1) else i)"

definition before :: "rat \<Rightarrow> nat \<Rightarrow> nat \<Rightarrow> nat \<Rightarrow> rat" where
  "before i sz tot k = (case k of 0 \<Rightarrow> i | Suc j \<Rightarrow> ramp i sz tot j)"

definition warming :: "rat \<Rightarrow> rat \<Rightarrow> nat \<Rightarrow> nat \<Rightarrow> schedule \<Rightarrow> bool" where
  "warming i mo warmup n s \<longleftrightarrow> k_momentum s = Some mo \<and> k_start_epoch s = 0 \<and> k_end_epoch s = Some (int warmup) \<and> \<not> k_staircase s
     \<and> k_momentum_correction s \<and> k_initial_lr s = Some i \<and> k_steps_per_epoch s = Some (int n)
     \<and> (case k_restore_momentum s of None \<Rightarrow> True | Some x \<Rightarrow> x = 0)"

lemma ramp_last: "0 < sz \<Longrightarrow> tot \<le> Suc k \<Longrightarrow> ramp i sz tot k = i"
  by (cases "tot = Suc k") (auto simp: ramp_def simp del: of_nat_Suc)

lemma ramp_pos: "0 < i \<Longrightarrow> 0 < sz \<Longrightarrow> 0 < ramp i sz tot k"
  by (auto simp: ramp_def intro!: divide_pos_pos mult_pos_pos add_nonneg_pos divide_nonneg_nonneg mult_nonneg_nonneg)

lemma ramp_grows:
  assumes "0 < i" "0 < sz"
  shows "i / of_nat sz \<le> ramp i sz tot k \<and> ramp i sz tot k \<le> ramp i sz tot (Suc k) \<and> ramp i sz tot k \<le> i"
proof (cases "k < tot")
  case True
  let ?f = "\<lambda>j. of_nat (Suc j) * (of_nat sz - 1) / of_nat tot :: rat"
  have z: "(0::rat) \<le> of_nat sz - 1" "(0::rat) < of_nat tot" using assms(2) True by simp_all
  have f: "0 \<le> ?f k" "?f k \<le> ?f (Suc k)" "?f k \<le> of_nat sz - 1"
  proof -
    show "0 \<le> ?f k" "?f k \<le> ?f (Suc k)" using z by (auto intro!: divide_right_mono mult_right_mono)
    have "of_nat (Suc k) * (of_nat sz - 1) \<le> of_nat tot * (of_nat sz - 1 :: rat)" using True z by (intro mult_right_mono) simp_all
    then show "?f k \<le> of_nat sz - 1" using z by (simp add: pos_divide_le_eq mult.commute)
  qed
  have c: "0 \<le> i / of_nat sz" "i / of_nat sz * (of_nat sz - 1 + 1) = i" using assms by simp_all
  have k: "ramp i sz tot k = i / of_nat sz * (?f k + 1)" using True by (simp add: ramp_def)
  have up: "ramp i sz tot k \<le> i" using mult_left_mono [OF add_right_mono [OF f(3), of 1] c(1)] unfolding k c(2) .
  moreover have "i / of_nat sz \<le> ramp i sz tot k" using mult_left_mono [of 1 "?f k + 1", OF _ c(1)] f(1) unfolding k by simp
  moreover have "ramp i sz tot k \<le> ramp i sz tot (Suc k)"
  proof (cases "Suc k < tot")
    case True
    then have "ramp i sz tot (Suc k) = i / of_nat sz * (?f (Suc k) + 1)" by (simp add: ramp_def)
    with mult_left_mono [OF add_right_mono [OF f(2), of 1] c(1)] show ?thesis unfolding k by simp
  qed (use up in \<open>simp add: ramp_def\<close>)
  ultimately show ?thesis by blast
next
  case False
  then show ?thesis using assms by (simp add: ramp_def field_simps)
qed

lemma before_nonzero: "0 < i \<Longrightarrow> 0 < sz \<Longrightarrow> before i sz tot k \<noteq> 0"
  using ramp_pos [of i sz tot] by (cases k) (auto simp: before_def less_imp_neq [THEN not_sym])

lemma multiplier_ramp:
  assumes "0 < sz" "0 < n" "e < warmup" "b < n" "k_steps_per_epoch s = Some (int n)"
  shows "\<exists>f. call_multiplier (Callable (warmup_multiplier (int sz) (int warmup))) s (of_nat e + of_nat b / of_nat n) = Inr f
     \<and> i * f = ramp i sz (warmup * n) (e * n + b)"
proof -
  have "e * n + b < Suc e * n" using assms(4) by simp
  also have "\<dots> \<le> warmup * n" using assms(3) by (intro mult_le_mono1) simp
  finally have "e * n + b < warmup * n" .
  moreover have "(of_nat e + of_nat b / of_nat n + 1 / of_nat n :: rat) = of_nat (Suc (e * n + b)) / of_nat n"
    using assms(2) by (simp add: field_simps)
  ultimately show ?thesis
    using assms by (simp add: warmup_multiplier_def size_query_def c_query_def ramp_def Let_def)
qed

lemma batch_begin_warming:
  assumes w: "warming i mo warmup n s" "k_current_epoch s = Some (int e)" "k_lr s = before i sz (warmup * n) (e * n + b)"
    and a: "0 < i" "0 < sz" "0 < n" "b < n" and q: "\<And>x y. y \<noteq> 0 \<Longrightarrow> quot x y = x / y"
  shows "\<exists>s'. on_batch_begin quot (Callable (warmup_multiplier (int sz) (int warmup))) (int b) s = Inr s'
     \<and> k_lr s' = ramp i sz (warmup * n) (e * n + b)
     \<and> k_momentum s' = Some (mo * ramp i sz (warmup * n) (e * n + b) / before i sz (warmup * n) (e * n + b))
     \<and> warming i mo warmup n (on_batch_end s') \<and> k_lr (on_batch_end s') = k_lr s' \<and> k_current_epoch (on_batch_end s') = Some (int e)"
proof (cases "e < warmup")
  case True
  let ?r = "ramp i sz (warmup * n) (e * n + b)" and ?p = "before i sz (warmup * n) (e * n + b)"
  have p: "?p \<noteq> 0" using before_nonzero a(1,2) by blast
  obtain f where f: "call_multiplier (Callable (warmup_multiplier (int sz) (int warmup))) s (of_nat e + of_nat b / of_nat n) = Inr f" "i * f = ?r"
    using multiplier_ramp [OF a(2,3) True a(4), of s i] w(1) by (auto simp: warming_def)
  let ?s = "s\<lparr>k_lr := ?r, k_restore_momentum := Some mo, k_momentum := Some (mo * ?r / ?p)\<rparr>"
  have "on_batch_begin quot (Callable (warmup_multiplier (int sz) (int warmup))) (int b) s = Inr ?s"
    using w a(3) f True p q by (simp add: on_batch_begin_def adjust_learning_rate_def warming_def Let_def del: call_multiplier.simps)
  moreover have "warming i mo warmup n (on_batch_end ?s)" "k_lr (on_batch_end ?s) = ?r" "k_current_epoch (on_batch_end ?s) = Some (int e)"
    using w(1,2) by (auto simp: warming_def on_batch_end_def restore_momentum_if_needed_def)
  ultimately show ?thesis by auto
next
  case False
  then have "warmup * n \<le> e * n + b" by (simp add: trans_le_add1)
  then have r: "ramp i sz (warmup * n) (e * n + b) = i" "before i sz (warmup * n) (e * n + b) = i"
    using a(2) by (simp add: ramp_def, auto simp: before_def ramp_last split: nat.split)
  have e: "on_batch_end s = s"
    using w(1) by (auto simp: warming_def on_batch_end_def restore_momentum_if_needed_def split: option.splits)
  show ?thesis using False w a(1) r e by (auto simp: on_batch_begin_def warming_def)
qed

definition ramp_batch :: "rat \<Rightarrow> rat \<Rightarrow> nat \<Rightarrow> nat \<Rightarrow> nat \<Rightarrow> rat \<times> rat option" where
  "ramp_batch i mo sz tot k = (ramp i sz tot k, Some (mo * ramp i sz tot k / before i sz tot k))"

lemma run_batches_warming:
  assumes a: "0 < i" "0 < sz" "0 < n" and q: "\<And>x y. y \<noteq> 0 \<Longrightarrow> quot x y = x / y"
  shows "warming i mo warmup n s \<Longrightarrow> k_current_epoch s = Some (int e) \<Longrightarrow> k_lr s = before i sz (warmup * n) (e * n + b) \<Longrightarrow> b + d = n \<Longrightarrow>
     \<exists>s'. run_batches quot (Callable (warmup_multiplier (int sz) (int warmup))) [b..<n] s =
         Inr (map (ramp_batch i mo sz (warmup * n)) [e * n + b..<Suc e * n], s')
       \<and> warming i mo warmup n s' \<and> k_lr s' = before i sz (warmup * n) (Suc e * n)"
proof (induction d arbitrary: b s)
  case (Suc d)
  then have b: "b < n" by simp
  let ?m = "Callable (warmup_multiplier (int sz) (int warmup))"
  obtain s1 where s1: "on_batch_begin quot ?m (int b) s = Inr s1" "k_lr s1 = ramp i sz (warmup * n) (e * n + b)"
    "k_momentum s1 = Some (mo * ramp i sz (warmup * n) (e * n + b) / before i sz (warmup * n) (e * n + b))"
    "warming i mo warmup n (on_batch_end s1)" "k_lr (on_batch_end s1) = k_lr s1" "k_current_epoch (on_batch_end s1) = Some (int e)"
    using batch_begin_warming [OF Suc.prems(1-3) a b q] by blast
  have lr: "k_lr (on_batch_end s1) = before i sz (warmup * n) (e * n + Suc b)" using s1(2,5) by (simp add: before_def)
  obtain s2 where s2: "run_batches quot ?m [Suc b..<n] (on_batch_end s1) = Inr (map (ramp_batch i mo sz (warmup * n)) [e * n + Suc b..<Suc e * n], s2)"
    "warming i mo warmup n s2" "k_lr s2 = before i sz (warmup * n) (Suc e * n)"
    using Suc.IH [OF s1(4,6) lr] Suc.prems(4) by auto
  have "[b..<n] = b # [Suc b..<n]" "[e * n + b..<Suc e * n] = (e * n + b) # [e * n + Suc b..<Suc e * n]"
    using b by (simp_all add: upt_conv_Cons)
  with s1 s2 show ?case by (simp add: ramp_batch_def)
qed (simp add: add.commute)

lemma run_epochs_warming:
  assumes a: "0 < i" "0 < sz" "0 < n" and q: "\<And>x y. y \<noteq> 0 \<Longrightarrow> quot x y = x / y"
  shows "warming i mo warmup n s \<Longrightarrow> k_lr s = before i sz (warmup * n) (e * n) \<Longrightarrow> e + d = epochs \<Longrightarrow>
     \<exists>s'. run_epochs quot (Callable (warmup_multiplier (int sz) (int warmup))) n [e..<epochs] s =
         Inr (map (ramp_batch i mo sz (warmup * n)) [e * n..<epochs * n], s')
       \<and> warming i mo warmup n s' \<and> k_lr s' = before i sz (warmup * n) (epochs * n)"
proof (induction d arbitrary: e s)
  case (Suc d)
  let ?m = "Callable (warmup_multiplier (int sz) (int warmup))" and ?s = "on_epoch_begin (int e) s"
  have w: "warming i mo warmup n ?s" "k_current_epoch ?s = Some (int e)" "k_lr ?s = before i sz (warmup * n) (e * n + 0)"
    using Suc.prems(1,2) by (simp_all add: on_epoch_begin_def warming_def)
  obtain s1 where s1: "run_batches quot ?m [0..<n] ?s = Inr (map (ramp_batch i mo sz (warmup * n)) [e * n + 0..<Suc e * n], s1)"
    "warming i mo warmup n s1" "k_lr s1 = before i sz (warmup * n) (Suc e * n)"
    using run_batches_warming [OF a q w, of n] by auto
  obtain s2 where s2: "run_epochs quot ?m n [Suc e..<epochs] s1 = Inr (map (ramp_batch i mo sz (warmup * n)) [Suc e * n..<epochs * n], s2)"
    "warming i mo warmup n s2" "k_lr s2 = before i sz (warmup * n) (epochs * n)"
    using Suc.IH [OF s1(2,3)] Suc.prems(3) by auto
  have "Suc e * n \<le> epochs * n" using Suc.prems(3) by (intro mult_le_mono1) simp
  then have "[e * n..<epochs * n] = [e * n..<Suc e * n] @ [Suc e * n..<epochs * n]"
    using upt_add_eq_append [of "e * n" "Suc e * n" "epochs * n - Suc e * n"] by simp
  moreover have "[e..<epochs] = e # [Suc e..<epochs]" using Suc.prems(3) by (simp add: upt_conv_Cons)
  ultimately show ?case using s1 s2 by simp
qed simp

text \<open>
  C26. The learning rate warmup on a training run of any number of epochs: in batch \<open>k\<close>, counted over the
  epochs, the optimizer sees the learning rate of a ramp that grows in equal steps from \<open>lr / size\<close> and
  reaches the initial learning rate in the last batch of the warmup, and from then on the initial learning rate;
  its momentum is scaled by the quotient of the batch's learning rate and the one before, and after
  the run it has its original value again.
\<close>

theorem warmup_ramp:
  assumes "0 < i" "0 < sz" "0 < n" "\<And>x y. y \<noteq> 0 \<Longrightarrow> quot x y = x / y"
  shows "\<exists>s s'. on_train_begin [(''steps'', int n)] (warmup_init (int sz) (int warmup) True None None i (Some mo)) = Inr s
     \<and> run_epochs quot (Callable (warmup_multiplier (int sz) (int warmup))) n [0..<epochs] s =
         Inr (map (\<lambda>k. (ramp i sz (warmup * n) k, Some (mo * ramp i sz (warmup * n) k / before i sz (warmup * n) k))) [0..<epochs * n], s')
     \<and> k_momentum s' = Some mo \<and> (warmup \<le> epochs \<longrightarrow> k_lr s' = i)
     \<and> (\<forall>k. i / of_nat sz \<le> ramp i sz (warmup * n) k \<and> ramp i sz (warmup * n) k \<le> ramp i sz (warmup * n) (Suc k) \<and> ramp i sz (warmup * n) k \<le> i)"
proof -
  let ?s = "(warmup_init (int sz) (int warmup) True None None i (Some mo))\<lparr>k_initial_lr := Some i, k_steps_per_epoch := Some (int n)\<rparr>"
  have t: "on_train_begin [(''steps'', int n)] (warmup_init (int sz) (int warmup) True None None i (Some mo)) = Inr ?s"
    using assms(3) by (simp add: on_train_begin_def warmup_init_def schedule_init_def int_true_def autodetect_steps_per_epoch_def dict_index_def)
  have "warming i mo warmup n ?s" "k_lr ?s = before i sz (warmup * n) (0 * n)"
    by (simp_all add: warming_def warmup_init_def schedule_init_def before_def)
  then obtain s' where s': "run_epochs quot (Callable (warmup_multiplier (int sz) (int warmup))) n [0..<epochs] ?s =
      Inr (map (ramp_batch i mo sz (warmup * n)) [0 * n..<epochs * n], s')" "warming i mo warmup n s'" "k_lr s' = before i sz (warmup * n) (epochs * n)"
    using run_epochs_warming [OF assms, of mo warmup ?s 0 epochs] by auto
  have "k_lr s' = i" if "warmup \<le> epochs"
  proof (cases "epochs * n")
    case (Suc j)
    have "warmup * n \<le> Suc j" using mult_le_mono1 [OF that, of n] unfolding Suc .
    then show ?thesis using s'(3) Suc assms(2) by (simp add: before_def ramp_last)
  qed (use s'(3) in \<open>auto simp: before_def\<close>)
  moreover have "i / of_nat sz \<le> ramp i sz (warmup * n) k \<and> ramp i sz (warmup * n) k \<le> ramp i sz (warmup * n) (Suc k) \<and> ramp i sz (warmup * n) k \<le> i" for k
    using ramp_grows [OF assms(1,2)] by blast
  ultimately show ?thesis using t s' by (auto simp: warming_def ramp_batch_def [abs_def])
qed

theorem warmup_ramp_witness:
  "\<exists>s s'. on_train_begin [(''steps'', 2)] (warmup_init 4 1 True None None 1 (Some (1/2))) = Inr s
     \<and> run_epochs (/) (Callable (warmup_multiplier 4 1)) 2 [0..<2] s =
         Inr ([(5/8, Some (5/16)), (1, Some (4/5)), (1, Some (1/2)), (1, Some (1/2))], s')
     \<and> k_momentum s' = Some (1/2) \<and> k_lr s' = 1"
proof -
  have "map (\<lambda>k. (ramp 1 4 (1 * 2) k, Some (1/2 * ramp 1 4 (1 * 2) k / before 1 4 (1 * 2) k))) [0..<2 * 2] =
      [(5/8, Some (5/16)), (1, Some (4/5)), (1, Some (1/2)), (1, Some (1/2))]"
    by (simp add: upt_rec ramp_def before_def numeral_2_eq_2 numeral_3_eq_3)
  then show ?thesis using warmup_ramp [of 1 4 2 "(/)" 1 "1/2" 2] by auto
qed

end
