(* ===== verification/Slots.thy ===== *)
theory Slots
  imports Py_Prelude
begin

text \<open>
  Components that handle one message after the other and keep their state in slots, as the switch and
  the software server do: a message belongs to a slot, depends on that slot only and changes no other.
  What happens to the messages of one slot is then independent of the messages in between.
\<close>

fun run_steps :: "('q \<Rightarrow> 's \<Rightarrow> 'o \<times> 's) \<Rightarrow> 'q list \<Rightarrow> 's \<Rightarrow> 'o list \<times> 's" where
  "run_steps step [] s = ([], s)"
| "run_steps step (q # qs) s = (let (x, s1) = step q s; (xs, s2) = run_steps step qs s1 in (x # xs, s2))"

lemma run_steps_snoc:
  "run_steps step (qs @ [q]) s = (let (xs, s1) = run_steps step qs s; (x, s2) = step q s1 in (xs @ [x], s2))"
  by (induction qs arbitrary: s) (auto simp: Let_def case_prod_beta)

lemma run_steps_length: "length (fst (run_steps step qs s)) = length qs"
  by (induction qs arbitrary: s) (auto simp: Let_def case_prod_beta)

lemma run_steps_take: "take k (fst (run_steps step qs s)) = fst (run_steps step (take k qs) s)"
proof (induction qs arbitrary: k s)
  case (Cons q qs)
  then show ?case by (cases k) (simp_all add: Let_def case_prod_beta)
qed simp

lemma run_steps_nth:
  assumes "k < length qs"
  shows "last (fst (run_steps step (take (Suc k) qs) s)) = fst (run_steps step qs s) ! k"
  unfolding run_steps_take [symmetric] using assms run_steps_length [of step qs s] by (simp add: take_Suc_conv_app_nth)

locale slotted =
  fixes step :: "'q \<Rightarrow> 's \<Rightarrow> 'o \<times> 's" and slot_of :: "'q \<Rightarrow> 'i" and out_slot :: "'o \<Rightarrow> 'i" and same :: "'i \<Rightarrow> 's \<Rightarrow> 's \<Rightarrow> bool"
  assumes equal: "same i s s" "same i s t \<Longrightarrow> same i t s" "same i s t \<Longrightarrow> same i t u \<Longrightarrow> same i s u"
    and out: "out_slot (fst (step q s)) = slot_of q"
    and other: "slot_of q \<noteq> i \<Longrightarrow> same i s (snd (step q s))"
    and own: "same (slot_of q) s t \<Longrightarrow> fst (step q s) = fst (step q t) \<and> same (slot_of q) (snd (step q s)) (snd (step q t))"
begin

lemma run_slot:
  "same i s t \<Longrightarrow>
   filter (\<lambda>x. out_slot x = i) (fst (run_steps step qs s)) = fst (run_steps step (filter (\<lambda>q. slot_of q = i) qs) t)
   \<and> same i (snd (run_steps step qs s)) (snd (run_steps step (filter (\<lambda>q. slot_of q = i) qs) t))"
proof (induction qs arbitrary: s t)
  case (Cons q qs)
  obtain x s1 where x: "step q s = (x, s1)" by fastforce
  have o: "out_slot x = slot_of q" using out [of q s] x by simp
  show ?case
  proof (cases "slot_of q = i")
    case True
    obtain y t1 where y: "step q t = (y, t1)" by fastforce
    have "y = x" "same i s1 t1" using own [of q s t] Cons.prems True x y by simp_all
    then show ?thesis using Cons.IH [of s1 t1] True x y o by (simp add: Let_def case_prod_beta)
  next
    case False
    then have "same i s1 t" using other [of q i s] equal Cons.prems x by (metis snd_conv)
    then show ?thesis using Cons.IH [of s1 t] False x o by (simp add: Let_def case_prod_beta)
  qed
qed simp

end

end
