(* ===== verification/P4_Switch.thy ===== *)
theory P4_Switch
  imports P4_Control Slots
begin

text \<open>
  The data plane of the switch, \<^verbatim>\<open>P4/headers.p4\<close>, \<^verbatim>\<open>struct.p4\<close>, \<^verbatim>\<open>parse.p4\<close>, \<^verbatim>\<open>data.p4\<close>, \<^verbatim>\<open>route.p4\<close>,
  \<^verbatim>\<open>atp.p4\<close> and \<^verbatim>\<open>main.p4\<close>: packets are lists of bytes, every header field and register is a word of its
  declared width, and one pass of a packet through the pipeline is a function on the registers.

  The fixed-function parts of the device follow its documentation: a packet too short for an
  \<open>extract\<close> is dropped, bytes behind the parsed headers travel along unchanged, a register action is
  atomic, \<open>drop_ctl\<close> discards the packet, and the traffic manager makes one copy for the unicast port
  and one for every port of the multicast group. Which ports loop back into the pipeline, the
  time stamps and the contents of the tables are parameters. The IPv4, UDP and background headers are
  blocks of bytes because no field of them is read. The register actions and the table \<open>processEntry\<close>
  that no control applies are left out.
\<close>

section \<open>Bytes\<close>

fun be_nat :: "8 word list \<Rightarrow> nat" where
  "be_nat [] = 0"
| "be_nat (b # bs) = unat b * 256 ^ length bs + be_nat bs"

fun nat_bytes :: "nat \<Rightarrow> nat \<Rightarrow> 8 word list" where
  "nat_bytes 0 k = []"
| "nat_bytes (Suc n) k = of_nat (k div 256 ^ n) # nat_bytes n (k mod 256 ^ n)"

definition be_word :: "8 word list \<Rightarrow> 'a :: len word" where
  "be_word bs = of_nat (be_nat bs)"

definition be_bytes :: "nat \<Rightarrow> 'a :: len word \<Rightarrow> 8 word list" where
  "be_bytes n w = nat_bytes n (unat w)"

definition slice :: "nat \<Rightarrow> nat \<Rightarrow> 'a list \<Rightarrow> 'a list" where
  "slice i n bs = take n (drop i bs)"

section \<open>Headers\<close>

record ethernet_h =
  dst_addr :: "48 word"
  src_addr :: "48 word"
  ether_type :: "16 word"

record p4ml_h =
  h_bitmap :: "32 word"
  h_num_worker :: "8 word"
  h_roundNum :: "32 word"
  h_max_info :: "32 word"
  h_norm_info :: "32 word"
  h_packet_type :: "1 word"
  h_dataIndex :: "1 word"
  h_pad :: "6 word"
  h_recirc_time :: "8 word"
  h_pad_1 :: "16 word"
  h_ingress_global :: "48 word"
  h_pad_2 :: "16 word"
  h_egress_global :: "48 word"

type_synonym entry_h = "32 word list"

record switch_header =
  ethernet :: ethernet_h
  ipv4 :: "8 word list option"
  udp :: "8 word list option"
  p4ml :: "p4ml_h option"
  agtr_index :: "16 word option"
  p4ml_bg :: "8 word list option"
  p4ml_entries :: "entry_h option"

definition read_ethernet :: "8 word list \<Rightarrow> ethernet_h" where
  "read_ethernet bs = \<lparr>dst_addr = be_word (slice 0 6 bs), src_addr = be_word (slice 6 6 bs), ether_type = be_word (slice 12 2 bs)\<rparr>"

definition emit_ethernet :: "ethernet_h \<Rightarrow> 8 word list" where
  "emit_ethernet h = be_bytes 6 (dst_addr h) @ be_bytes 6 (src_addr h) @ be_bytes 2 (ether_type h)"

definition read_p4ml :: "8 word list \<Rightarrow> p4ml_h" where
  "read_p4ml bs =
     (let flags = be_nat (slice 17 1 bs)
      in \<lparr>h_bitmap = be_word (slice 0 4 bs), h_num_worker = be_word (slice 4 1 bs), h_roundNum = be_word (slice 5 4 bs),
          h_max_info = be_word (slice 9 4 bs), h_norm_info = be_word (slice 13 4 bs), h_packet_type = of_nat (flags div 128),
          h_dataIndex = of_nat (flags div 64 mod 2), h_pad = of_nat (flags mod 64), h_recirc_time = be_word (slice 18 1 bs),
          h_pad_1 = be_word (slice 19 2 bs), h_ingress_global = be_word (slice 21 6 bs), h_pad_2 = be_word (slice 27 2 bs),
          h_egress_global = be_word (slice 29 6 bs)\<rparr>)"

definition emit_p4ml :: "p4ml_h \<Rightarrow> 8 word list" where
  "emit_p4ml h =
     be_bytes 4 (h_bitmap h) @ be_bytes 1 (h_num_worker h) @ be_bytes 4 (h_roundNum h) @ be_bytes 4 (h_max_info h)
     @ be_bytes 4 (h_norm_info h) @ nat_bytes 1 (128 * unat (h_packet_type h) + 64 * unat (h_dataIndex h) + unat (h_pad h))
     @ be_bytes 1 (h_recirc_time h) @ be_bytes 2 (h_pad_1 h) @ be_bytes 6 (h_ingress_global h) @ be_bytes 2 (h_pad_2 h)
     @ be_bytes 6 (h_egress_global h)"

fun read_words :: "nat \<Rightarrow> 8 word list \<Rightarrow> entry_h" where
  "read_words 0 bs = []"
| "read_words (Suc n) bs = be_word (take 4 bs) # read_words n (drop 4 bs)"

definition emit_words :: "entry_h \<Rightarrow> 8 word list" where
  "emit_words ws = concat (map (be_bytes 4) ws)"

section \<open>Parser and deparser\<close>

definition pkt_extract :: "nat \<Rightarrow> 8 word list \<Rightarrow> (8 word list \<times> 8 word list) option" where
  "pkt_extract n bs = (if length bs < n then None else Some (take n bs, drop n bs))"

definition no_headers :: "ethernet_h \<Rightarrow> switch_header" where
  "no_headers e = \<lparr>ethernet = e, ipv4 = None, udp = None, p4ml = None, agtr_index = None, p4ml_bg = None, p4ml_entries = None\<rparr>"

definition parse_entry :: "switch_header \<Rightarrow> 8 word list \<Rightarrow> (switch_header \<times> 8 word list) option" where
  "parse_entry h bs = map_option (\<lambda>(x, r). (h\<lparr>p4ml_entries := Some (read_words 64 x)\<rparr>, r)) (pkt_extract 256 bs)"

definition parse_agtr_index :: "switch_header \<Rightarrow> 8 word list \<Rightarrow> (switch_header \<times> 8 word list) option" where
  "parse_agtr_index h bs = Option.bind (pkt_extract 2 bs) (\<lambda>(x, r). parse_entry (h\<lparr>agtr_index := Some (be_word x)\<rparr>) r)"

definition parse_p4ml :: "switch_header \<Rightarrow> 8 word list \<Rightarrow> (switch_header \<times> 8 word list) option" where
  "parse_p4ml h bs = Option.bind (pkt_extract 35 bs) (\<lambda>(x, r). parse_agtr_index (h\<lparr>p4ml := Some (read_p4ml x)\<rparr>) r)"

definition parse_p4ml_ipv4 :: "switch_header \<Rightarrow> 8 word list \<Rightarrow> (switch_header \<times> 8 word list) option" where
  "parse_p4ml_ipv4 h bs = Option.bind (pkt_extract 20 bs) (\<lambda>(x, r). parse_p4ml (h\<lparr>ipv4 := Some x\<rparr>) r)"

definition parse_ipv4 :: "switch_header \<Rightarrow> 8 word list \<Rightarrow> (switch_header \<times> 8 word list) option" where
  "parse_ipv4 h bs = map_option (\<lambda>(x, r). (h\<lparr>ipv4 := Some x\<rparr>, r)) (pkt_extract 20 bs)"

definition parse_p4ml_bg :: "switch_header \<Rightarrow> 8 word list \<Rightarrow> (switch_header \<times> 8 word list) option" where
  "parse_p4ml_bg h bs = map_option (\<lambda>(x, r). (h\<lparr>p4ml_bg := Some x\<rparr>, r)) (pkt_extract 16 bs)"

definition parse_udp_bg :: "switch_header \<Rightarrow> 8 word list \<Rightarrow> (switch_header \<times> 8 word list) option" where
  "parse_udp_bg h bs = Option.bind (pkt_extract 8 bs) (\<lambda>(x, r). parse_p4ml_bg (h\<lparr>udp := Some x\<rparr>) r)"

definition parse_bg :: "switch_header \<Rightarrow> 8 word list \<Rightarrow> (switch_header \<times> 8 word list) option" where
  "parse_bg h bs = Option.bind (pkt_extract 20 bs) (\<lambda>(x, r). parse_udp_bg (h\<lparr>ipv4 := Some x\<rparr>) r)"

definition parse_ethernet :: "8 word list \<Rightarrow> (switch_header \<times> 8 word list) option" where
  "parse_ethernet bs =
     Option.bind (pkt_extract 14 bs) (\<lambda>(x, r).
       let e = read_ethernet x; h = no_headers e
       in if ether_type e = 0x0700 then parse_p4ml_ipv4 h r
          else if ether_type e = 0x0900 then parse_bg h r
          else if ether_type e = 0x0800 then parse_ipv4 h r
          else if ether_type e = 0x0a00 then parse_p4ml h r
          else Some (h, r))"

definition emit :: "('a \<Rightarrow> 8 word list) \<Rightarrow> 'a option \<Rightarrow> 8 word list" where
  "emit f x = (case x of None \<Rightarrow> [] | Some h \<Rightarrow> f h)"

definition ingress_deparser :: "switch_header \<Rightarrow> 8 word list \<Rightarrow> 8 word list" where
  "ingress_deparser h payload =
     emit_ethernet (ethernet h) @ emit id (ipv4 h) @ emit emit_p4ml (p4ml h) @ emit id (udp h)
     @ emit (be_bytes 2) (agtr_index h) @ emit emit_words (p4ml_entries h) @ payload"

text \<open>The egress parser stops behind the \<open>p4ml\<close> header.\<close>

definition egress_parse_p4ml :: "switch_header \<Rightarrow> 8 word list \<Rightarrow> (switch_header \<times> 8 word list) option" where
  "egress_parse_p4ml h bs = map_option (\<lambda>(x, r). (h\<lparr>p4ml := Some (read_p4ml x)\<rparr>, r)) (pkt_extract 35 bs)"

definition egress_parse_ethernet :: "8 word list \<Rightarrow> (switch_header \<times> 8 word list) option" where
  "egress_parse_ethernet bs =
     Option.bind (pkt_extract 14 bs) (\<lambda>(x, r).
       let e = read_ethernet x; h = no_headers e
       in if ether_type e = 0x0700 then Option.bind (pkt_extract 20 r) (\<lambda>(x, r). egress_parse_p4ml (h\<lparr>ipv4 := Some x\<rparr>) r)
          else if ether_type e = 0x0900 then parse_bg h r
          else if ether_type e = 0x0800 then parse_ipv4 h r
          else if ether_type e = 0x0a00 then egress_parse_p4ml h r
          else Some (h, r))"

definition egress_deparser :: "switch_header \<Rightarrow> 8 word list \<Rightarrow> 8 word list" where
  "egress_deparser h payload =
     emit_ethernet (ethernet h) @ emit id (ipv4 h) @ emit emit_p4ml (p4ml h) @ emit id (udp h) @ payload"

section \<open>Registers\<close>

record pair_t =
  first :: "32 word"
  second :: "32 word"

record registers =
  roundNumbers :: "16 word \<Rightarrow> 32 word"
  bitmap :: "16 word \<Rightarrow> 32 word"
  norm_info :: "16 word \<Rightarrow> 32 word"
  receive_count :: "16 word \<Rightarrow> 8 word"
  data_register :: "nat \<Rightarrow> 16 word \<Rightarrow> pair_t"

definition total_aggregator_cnt :: nat where
  "total_aggregator_cnt = 0x4fff"

text \<open>The registers after loading the program.\<close>

definition cleared :: registers where
  "cleared = \<lparr>roundNumbers = (\<lambda>_. 0), bitmap = (\<lambda>_. 0), norm_info = (\<lambda>_. 0), receive_count = (\<lambda>_. 0),
              data_register = (\<lambda>_ _. \<lparr>first = 0, second = 0\<rparr>)\<rparr>"

text \<open>A register action maps the stored value to the new value and the result.\<close>

definition normal_check_roundNum :: "p4ml_h \<Rightarrow> 32 word \<Rightarrow> 32 word \<times> 2 word" where
  "normal_check_roundNum p v =
     (if v > h_roundNum p then (v, 0) else if v = h_roundNum p then (v, 1) else (h_roundNum p, 2))"

definition normal_read_write_bitmap :: "p4ml_h \<Rightarrow> 32 word \<Rightarrow> 32 word \<times> 32 word" where
  "normal_read_write_bitmap p v = (v OR h_bitmap p, v OR h_bitmap p)"

definition normal_incr_check_count :: "p4ml_h \<Rightarrow> 8 word \<Rightarrow> 8 word \<times> 8 word" where
  "normal_incr_check_count p v = (if v = h_num_worker p then (1, 1) else (v + 1, v + 1))"

definition reset_check_count :: "8 word \<Rightarrow> 8 word \<times> 8 word" where
  "reset_check_count v = (1, 1)"

definition clean_bitmap :: "32 word \<Rightarrow> 32 word \<times> 32 word" where
  "clean_bitmap v = (0, v)"

definition update_norm :: "p4ml_h \<Rightarrow> 32 word \<Rightarrow> 32 word \<times> 32 word" where
  "update_norm p v = (if h_norm_info p > v then (h_norm_info p, h_norm_info p) else (v, v))"

definition set_norm :: "p4ml_h \<Rightarrow> 32 word \<Rightarrow> 32 word \<times> 32 word" where
  "set_norm p v = (h_norm_info p, h_norm_info p)"

text \<open>The saturating addition of the signed type \<open>int<32>\<close>.\<close>

definition sat_add :: "32 word \<Rightarrow> 32 word \<Rightarrow> 32 word" where
  "sat_add a b = word_of_int (max (- (2 ^ 31)) (min (2 ^ 31 - 1) (sint a + sint b)))"

definition noequ0_write_read_data_entry :: "32 word \<Rightarrow> pair_t \<Rightarrow> pair_t \<times> 32 word" where
  "noequ0_write_read_data_entry d v =
     (let v' = (if take_bit 31 (first v) \<noteq> 0x7fffffff then v\<lparr>first := sat_add (first v) d\<rparr> else v) in (v', first v'))"

definition write_data_entry :: "32 word \<Rightarrow> pair_t \<Rightarrow> pair_t" where
  "write_data_entry d v = v\<lparr>first := d\<rparr>"

text \<open>One of the 64 controls \<open>ProcessData\<close>, and all of them in turn.\<close>

definition process_data ::
    "8 word \<Rightarrow> 16 word \<Rightarrow> nat \<Rightarrow> 32 word \<Rightarrow> (nat \<Rightarrow> 16 word \<Rightarrow> pair_t) \<Rightarrow> 32 word \<times> (nat \<Rightarrow> 16 word \<Rightarrow> pair_t)" where
  "process_data seen_isAggregate i n d R =
     (if seen_isAggregate = 1 then (d, R(n := (R n)(i := write_data_entry d (R n i))))
      else let (v, rv) = noequ0_write_read_data_entry d (R n i) in (rv, R(n := (R n)(i := v))))"

fun process_entry ::
    "8 word \<Rightarrow> 16 word \<Rightarrow> nat \<Rightarrow> entry_h \<Rightarrow> (nat \<Rightarrow> 16 word \<Rightarrow> pair_t) \<Rightarrow> entry_h \<times> (nat \<Rightarrow> 16 word \<Rightarrow> pair_t)" where
  "process_entry seen i n [] R = ([], R)"
| "process_entry seen i n (d # ds) R =
     (let (x, R) = process_data seen i n d R; (xs, R) = process_entry seen i (Suc n) ds R in (x # xs, R))"

section \<open>Controls\<close>

record intrinsic =
  drop_ctl :: "3 word"
  mcast_grp_a :: "16 word"
  ucast_egress_port :: "9 word option"
  bypass_egress :: "1 word"

definition no_intrinsic :: intrinsic where
  "no_intrinsic = \<lparr>drop_ctl = 0, mcast_grp_a = 0, ucast_egress_port = None, bypass_egress = 0\<rparr>"

record tables =
  dmac :: "48 word \<Rightarrow> 9 word option"
  route_dmac :: "48 word \<Rightarrow> 9 word option"
  recirc_port :: "8 word \<Rightarrow> 9 word option"
  mcast_group :: "16 word \<Rightarrow> 9 word list"

definition route :: "tables \<Rightarrow> 48 word \<Rightarrow> entry_h \<Rightarrow> intrinsic \<Rightarrow> entry_h \<times> intrinsic" where
  "route tb dst es m =
     (case route_dmac tb dst of
        Some port \<Rightarrow> (map (\<lambda>_. 0) es, m\<lparr>ucast_egress_port := Some port\<rparr>)
      | None \<Rightarrow> (es, m\<lparr>ucast_egress_port := Some 176\<rparr>))"

definition recirc_port_apply :: "tables \<Rightarrow> p4ml_h \<Rightarrow> intrinsic \<Rightarrow> intrinsic" where
  "recirc_port_apply tb p m =
     (case recirc_port tb (h_recirc_time p) of
        Some port \<Rightarrow> m\<lparr>ucast_egress_port := Some port\<rparr>
      | None \<Rightarrow> m\<lparr>drop_ctl := 1\<rparr>)"

text \<open>Counting a packet of the current or of a new round: the number of packets seen, the norm so far.\<close>

definition count_packet :: "p4ml_h \<Rightarrow> 16 word \<Rightarrow> 2 word \<Rightarrow> registers \<Rightarrow> 8 word \<times> p4ml_h \<times> registers" where
  "count_packet p i match_roundnum R =
     (if match_roundnum = 2
      then let (c, seen) = reset_check_count (receive_count R i); (v, norm) = set_norm p (norm_info R i)
           in (seen, p\<lparr>h_norm_info := norm\<rparr>,
               R\<lparr>receive_count := (receive_count R)(i := c), norm_info := (norm_info R)(i := v)\<rparr>)
      else let (c, seen) = normal_incr_check_count p (receive_count R i); (v, norm) = update_norm p (norm_info R i)
           in (seen, p\<lparr>h_norm_info := norm\<rparr>,
               R\<lparr>receive_count := (receive_count R)(i := c), norm_info := (norm_info R)(i := v)\<rparr>))"

text \<open>The last pass sends the result to all workers, or keeps the packet's contribution only.\<close>

definition last_pass :: "p4ml_h \<Rightarrow> 16 word \<Rightarrow> 8 word \<Rightarrow> registers \<Rightarrow> intrinsic \<Rightarrow> p4ml_h \<times> registers \<times> intrinsic" where
  "last_pass p i seen R m =
     (if seen = h_num_worker p
      then let (v, b) = clean_bitmap (bitmap R i)
           in (p\<lparr>h_bitmap := b\<rparr>, R\<lparr>bitmap := (bitmap R)(i := v)\<rparr>, m\<lparr>mcast_grp_a := 1\<rparr>)
      else let (v, b) = normal_read_write_bitmap p (bitmap R i)
           in (p\<lparr>h_bitmap := b\<rparr>, R\<lparr>bitmap := (bitmap R)(i := v)\<rparr>, m\<lparr>drop_ctl := 1\<rparr>))"

definition app_id_seq ::
    "tables \<Rightarrow> 48 word \<Rightarrow> p4ml_h \<times> 16 word \<times> entry_h \<Rightarrow> registers \<Rightarrow> intrinsic \<Rightarrow>
     (p4ml_h \<times> 16 word \<times> entry_h) \<times> registers \<times> intrinsic" where
  "app_id_seq tb dst = (\<lambda>(p, i, es) R m.
     let (v, match_roundnum) = normal_check_roundNum p (roundNumbers R i);
         R = R\<lparr>roundNumbers := (roundNumbers R)(i := v)\<rparr>
     in if match_roundnum = 0
        then let (es, m) = route tb dst es m in ((p\<lparr>h_roundNum := 0\<rparr>, i, es), R, m)
        else let (seen, p, R) = count_packet p i match_roundnum R;
                 (es, D) = (if h_packet_type p = 0 then process_entry seen i 0 es (data_register R) else (es, data_register R));
                 R = R\<lparr>data_register := D\<rparr>
             in if h_recirc_time p = 3
                then let (p, R, m) = last_pass p i seen R m in ((p, i, es), R, m)
                else let p = p\<lparr>h_recirc_time := h_recirc_time p + 1\<rparr>
                     in ((p, i + 1, es), R, (recirc_port_apply tb p m)\<lparr>bypass_egress := 1\<rparr>))"

definition dmac_apply :: "tables \<Rightarrow> 48 word \<Rightarrow> intrinsic \<Rightarrow> intrinsic" where
  "dmac_apply tb dst m =
     (case dmac tb dst of
        Some port \<Rightarrow> m\<lparr>ucast_egress_port := Some port, bypass_egress := 1\<rparr>
      | None \<Rightarrow> m\<lparr>drop_ctl := 1\<rparr>)"

definition switch_ingress :: "tables \<Rightarrow> 48 word \<Rightarrow> switch_header \<Rightarrow> registers \<Rightarrow> switch_header \<times> registers \<times> intrinsic" where
  "switch_ingress tb now h R =
     (case (p4ml h, agtr_index h, p4ml_entries h) of
        (Some p, Some i, Some es) \<Rightarrow>
          let p = (if h_recirc_time p = 0 then p\<lparr>h_ingress_global := now\<rparr> else p);
              ((p, i, es), R, m) = app_id_seq tb (dst_addr (ethernet h)) (p, i, es) R no_intrinsic
          in (h\<lparr>p4ml := Some p, agtr_index := Some i, p4ml_entries := Some es\<rparr>, R, m)
      | _ \<Rightarrow>
          (h, R, if ether_type (ethernet h) = 0x0d00 then no_intrinsic\<lparr>mcast_grp_a := 1\<rparr>
                 else dmac_apply tb (dst_addr (ethernet h)) no_intrinsic))"

definition switch_egress :: "48 word \<Rightarrow> switch_header \<Rightarrow> switch_header" where
  "switch_egress now h = h\<lparr>p4ml := map_option (\<lambda>p. p\<lparr>h_egress_global := now\<rparr>) (p4ml h)\<rparr>"

section \<open>The pipeline\<close>

definition egress_pass :: "48 word \<Rightarrow> intrinsic \<Rightarrow> 8 word list \<Rightarrow> 8 word list option" where
  "egress_pass now m bs =
     (if bypass_egress m = 1 then Some bs
      else map_option (\<lambda>(h, payload). egress_deparser (switch_egress now h) payload) (egress_parse_ethernet bs))"

definition out_ports :: "tables \<Rightarrow> intrinsic \<Rightarrow> 9 word list" where
  "out_ports tb m =
     (if drop_ctl m \<noteq> 0 then []
      else (case ucast_egress_port m of None \<Rightarrow> [] | Some port \<Rightarrow> [port]) @ (if mcast_grp_a m = 0 then [] else mcast_group tb (mcast_grp_a m)))"

text \<open>One pass of a packet: the new registers, and the copies that leave with their ports.\<close>

definition switch_pass :: "tables \<Rightarrow> 48 word \<times> 48 word \<Rightarrow> 8 word list \<Rightarrow> registers \<Rightarrow> (9 word \<times> 8 word list) list \<times> registers" where
  "switch_pass tb now bs R =
     (case parse_ethernet bs of
        None \<Rightarrow> ([], R)
      | Some (h, payload) \<Rightarrow>
          let (h, R, m) = switch_ingress tb (fst now) h R
          in (case egress_pass (snd now) m (ingress_deparser h payload) of
                None \<Rightarrow> ([], R)
              | Some out \<Rightarrow> (map (\<lambda>port. (port, out)) (out_ports tb m), R)))"

text \<open>
  A packet on its way through the switch: a copy that leaves by a loop-back port enters the pipeline
  again. The list gives the time stamps of the passes that are allowed; \<open>None\<close> means it was too short.
\<close>

fun switch_run ::
    "tables \<Rightarrow> (9 word \<Rightarrow> bool) \<Rightarrow> (48 word \<times> 48 word) list \<Rightarrow> 8 word list list \<Rightarrow> registers \<Rightarrow>
     ((9 word \<times> 8 word list) list \<times> registers) option" where
  "switch_run tb loop nows [] R = Some ([], R)"
| "switch_run tb loop [] (bs # q) R = None"
| "switch_run tb loop (now # nows) (bs # q) R =
     (let (outs, R) = switch_pass tb now bs R
      in map_option (\<lambda>(sent, R). (filter (\<lambda>(port, _). \<not> loop port) outs @ sent, R))
           (switch_run tb loop nows (q @ map snd (filter (\<lambda>(port, _). loop port) outs)) R))"

section \<open>Bytes: behaviour\<close>

named_theorems wire_simps \<open>words, headers and their bytes\<close>

lemma unat_bound: "unat (w :: 'a :: len word) < 2 ^ LENGTH('a)"
  by (fact unsigned_less)

lemma unat_small: "n < 2 ^ LENGTH('a :: len) \<Longrightarrow> unat (of_nat n :: 'a word) = n"
  by (simp add: unsigned_of_nat take_bit_nat_eq_self)

lemma be_nat_less: "be_nat bs < 256 ^ length bs"
proof (induction bs)
  case (Cons b bs)
  have "Suc (unat b) \<le> 256" using unat_bound [of b] by simp
  then have "Suc (unat b) * 256 ^ length bs \<le> 256 * 256 ^ length bs" by (rule mult_le_mono1)
  then have "unat b * 256 ^ length bs + 256 ^ length bs \<le> 256 ^ length (b # bs)" by (simp only: mult_Suc length_Cons power_Suc add.commute)
  with Cons show ?case unfolding be_nat.simps by linarith
qed simp

lemma nat_bytes_length [wire_simps, simp]: "length (nat_bytes n k) = n"
  by (induction n arbitrary: k) simp_all

lemma be_nat_bytes: "k < 256 ^ n \<Longrightarrow> be_nat (nat_bytes n k) = k"
proof (induction n arbitrary: k)
  case (Suc n)
  then have "k div 256 ^ n < 256" by (simp add: less_mult_imp_div_less mult.commute)
  then have "unat (of_nat (k div 256 ^ n) :: 8 word) = k div 256 ^ n" by (simp add: unat_small)
  with Suc.IH [of "k mod 256 ^ n"] show ?case by (simp add: div_mult_mod_eq)
qed simp

lemma nat_bytes_be: "nat_bytes (length bs) (be_nat bs) = bs"
proof (induction bs)
  case (Cons b bs)
  then show ?case using be_nat_less [of bs] by simp
qed simp

lemma be_bytes_length [wire_simps, simp]: "length (be_bytes n w) = n"
  by (simp add: be_bytes_def)

lemma be_word_bytes [wire_simps]:
  fixes w :: "'a :: len word"
  assumes "LENGTH('a) \<le> 8 * n"
  shows "be_word (be_bytes n w) = w"
proof -
  have "unat w < 2 ^ (8 * n)" using unat_bound [of w] assms by (meson less_le_trans one_le_numeral power_increasing)
  then show ?thesis by (simp add: be_word_def be_bytes_def be_nat_bytes power_mult)
qed

lemma be_bytes_word [wire_simps]:
  assumes "length bs = n" "8 * n \<le> LENGTH('a :: len)"
  shows "be_bytes n (be_word bs :: 'a word) = bs"
proof -
  have "be_nat bs < 2 ^ (8 * n)" using be_nat_less [of bs] assms(1) by (simp add: power_mult)
  then have "be_nat bs < 2 ^ LENGTH('a)" using assms(2) by (meson less_le_trans one_le_numeral power_increasing)
  then have "unat (of_nat (be_nat bs) :: 'a word) = be_nat bs" by (rule unat_small)
  then show ?thesis using nat_bytes_be [of bs] assms(1) by (simp add: be_word_def be_bytes_def)
qed

lemma slice_length [wire_simps]: "i + n \<le> length bs \<Longrightarrow> length (slice i n bs) = n"
  by (simp add: slice_def)

lemma slice_append [wire_simps]:
  "slice i n (xs @ ys) = (if i + n \<le> length xs then slice i n xs
     else if length xs \<le> i then slice (i - length xs) n ys else drop i xs @ take (i + n - length xs) ys)"
  by (auto simp: slice_def add.commute)

lemma slice_all [wire_simps]: "length xs = n \<Longrightarrow> slice 0 n xs = xs"
  by (simp add: slice_def)

lemma slice_concat: "slice i n bs @ slice (i + n) m bs = slice i (n + m) bs"
  unfolding slice_def take_add drop_drop by (simp only: add.commute)

lemma flag_digits:
  fixes a b c :: nat
  assumes "a < 2" "b < 2" "c < 64"
  shows "(128 * a + 64 * b + c) div 128 = a" "(128 * a + 64 * b + c) div 64 mod 2 = b" "(128 * a + 64 * b + c) mod 64 = c"
proof -
  have e: "128 * a + 64 * b + c = c + 64 * (2 * a + b)" by simp
  have d: "(c + 64 * (2 * a + b)) div 64 = 2 * a + b" using assms(3) by (subst div_mult_self2) simp_all
  then show "(128 * a + 64 * b + c) div 64 mod 2 = b" unfolding e using assms(2) by simp
  show "(128 * a + 64 * b + c) mod 64 = c" unfolding e using assms(3) by (simp only: mod_mult_self2 mod_less)
  have "(c + 64 * (2 * a + b)) div 64 div 2 = a" unfolding d using assms(2) by simp
  then show "(128 * a + 64 * b + c) div 128 = a" unfolding e by (simp only: div_mult2_eq [symmetric]) simp
qed

lemma flags_fields:
  fixes a b :: "1 word" and c :: "6 word"
  defines "f \<equiv> 128 * unat a + 64 * unat b + unat c"
  shows "f < 256" "of_nat (f div 128) = a" "of_nat (f div 64 mod 2) = b" "of_nat (f mod 64) = c"
proof -
  have u: "unat a < 2" "unat b < 2" "unat c < 64" using unat_bound [of a] unat_bound [of b] unat_bound [of c] by simp_all
  then have "f div 128 = unat a" "f div 64 mod 2 = unat b" "f mod 64 = unat c" unfolding f_def by (simp_all only: flag_digits)
  then show "of_nat (f div 128) = a" "of_nat (f div 64 mod 2) = b" "of_nat (f mod 64) = c" by simp_all
  show "f < 256" using u unfolding f_def by linarith
qed

lemma flags_byte:
  assumes "f < 256"
  shows "128 * unat (of_nat (f div 128) :: 1 word) + 64 * unat (of_nat (f div 64 mod 2) :: 1 word) + unat (of_nat (f mod 64) :: 6 word) = f"
proof -
  have "f div 128 < 2 ^ LENGTH(1)" "f div 64 mod 2 < 2 ^ LENGTH(1)" "f mod 64 < 2 ^ LENGTH(6)" using assms by simp_all
  then have "unat (of_nat (f div 128) :: 1 word) = f div 128" "unat (of_nat (f div 64 mod 2) :: 1 word) = f div 64 mod 2"
      "unat (of_nat (f mod 64) :: 6 word) = f mod 64"
    by (simp_all only: unat_small)
  moreover have "f div 64 = 2 * (f div 128) + f div 64 mod 2"
    using div_mult_mod_eq [of "f div 64" 2] by (simp add: div_mult2_eq [symmetric])
  ultimately show ?thesis using div_mult_mod_eq [of f 64] by linarith
qed

section \<open>Headers: behaviour\<close>

lemma read_emit_ethernet [wire_simps]: "read_ethernet (emit_ethernet h) = h"
  by (simp add: read_ethernet_def emit_ethernet_def wire_simps)

lemma emit_read_ethernet [wire_simps]:
  assumes "length bs = 14"
  shows "emit_ethernet (read_ethernet bs) = bs"
proof -
  have "emit_ethernet (read_ethernet bs) = slice 0 6 bs @ slice (0 + 6) 6 bs @ slice (0 + (6 + 6)) 2 bs"
    using assms by (simp add: read_ethernet_def emit_ethernet_def wire_simps)
  then show ?thesis using assms slice_all [of bs 14] unfolding append_assoc [symmetric] slice_concat by simp
qed

lemma emit_lengths [wire_simps]:
  "length (emit_ethernet e) = 14" "length (emit_p4ml p) = 35" "length (emit_words ws) = 4 * length ws"
  by (simp_all add: emit_ethernet_def emit_p4ml_def emit_words_def length_concat comp_def sum_list_triv)

lemma read_emit_p4ml [wire_simps]: "read_p4ml (emit_p4ml h) = h"
  using flags_fields [of "h_packet_type h" "h_dataIndex h" "h_pad h"] be_nat_bytes [of _ 1]
  by (simp add: read_p4ml_def emit_p4ml_def Let_def wire_simps del: nat_bytes.simps be_nat.simps)

lemma emit_read_p4ml [wire_simps]:
  assumes "length bs = 35"
  shows "emit_p4ml (read_p4ml bs) = bs"
proof -
  have f: "be_nat (slice 17 1 bs) < 256" "nat_bytes 1 (be_nat (slice 17 1 bs)) = slice 17 1 bs"
    using be_nat_less [of "slice 17 1 bs"] nat_bytes_be [of "slice 17 1 bs"] assms by (simp_all add: slice_length)
  have "emit_p4ml (read_p4ml bs) = slice 0 4 bs @ slice (0 + 4) 1 bs @ slice (0 + (4 + 1)) 4 bs @ slice (0 + (4 + 1 + 4)) 4 bs
      @ slice (0 + (4 + 1 + 4 + 4)) 4 bs @ slice (0 + (4 + 1 + 4 + 4 + 4)) 1 bs @ slice (0 + (4 + 1 + 4 + 4 + 4 + 1)) 1 bs
      @ slice (0 + (4 + 1 + 4 + 4 + 4 + 1 + 1)) 2 bs @ slice (0 + (4 + 1 + 4 + 4 + 4 + 1 + 1 + 2)) 6 bs
      @ slice (0 + (4 + 1 + 4 + 4 + 4 + 1 + 1 + 2 + 6)) 2 bs @ slice (0 + (4 + 1 + 4 + 4 + 4 + 1 + 1 + 2 + 6 + 2)) 6 bs"
    using assms f flags_byte [OF f(1)] by (simp add: read_p4ml_def emit_p4ml_def Let_def wire_simps del: nat_bytes.simps be_nat.simps)
  then show ?thesis using assms slice_all [of bs 35] unfolding append_assoc [symmetric] slice_concat by simp
qed

lemma read_words_length [wire_simps]: "length (read_words n bs) = n"
  by (induction n arbitrary: bs) simp_all

lemma read_emit_words [wire_simps]: "length ws = n \<Longrightarrow> read_words n (emit_words ws) = ws"
  by (induction ws arbitrary: n) (auto simp: emit_words_def wire_simps)

lemma emit_read_words [wire_simps]: "length bs = 4 * n \<Longrightarrow> emit_words (read_words n bs) = bs"
proof (induction n arbitrary: bs)
  case (Suc n)
  then show ?case using Suc.IH [of "drop 4 bs"] by (simp add: emit_words_def wire_simps)
qed (simp add: emit_words_def)

section \<open>Parsing and deparsing: behaviour\<close>

lemma pkt_extract_Some: "pkt_extract n bs = Some (x, r) \<longleftrightarrow> bs = x @ r \<and> length x = n"
  by (auto simp: pkt_extract_def)

lemma pkt_extract_append [wire_simps]: "length x = n \<Longrightarrow> pkt_extract n (x @ r) = Some (x, r)"
  by (simp add: pkt_extract_Some)

lemmas parse_defs = parse_p4ml_ipv4_def parse_p4ml_def parse_agtr_index_def parse_entry_def parse_ipv4_def parse_bg_def
  parse_udp_bg_def parse_p4ml_bg_def no_headers_def

text \<open>
  C38. Parsing and deparsing: what the ingress deparser writes for the headers of a packet is the packet
  itself, except for background traffic (type \<open>0x0900\<close>), whose last header is parsed and never written:
  these packets leave 16 bytes shorter.
\<close>

theorem deparse_parse:
  assumes "parse_ethernet bs = Some (h, payload)"
  shows "ingress_deparser h payload =
    (if ether_type (ethernet h) = 0x0900 then take 42 bs @ drop 58 bs else bs)"
proof -
  obtain x r where x: "bs = x @ r" "length x = 14" using assms by (auto simp: parse_ethernet_def pkt_extract_Some bind_eq_Some_conv)
  then show ?thesis using assms
    by (auto simp: parse_ethernet_def parse_defs pkt_extract_Some Let_def bind_eq_Some_conv ingress_deparser_def emit_def wire_simps
        split: if_splits)
qed

definition bg_frame :: ethernet_h where
  "bg_frame = \<lparr>dst_addr = 2, src_addr = 1, ether_type = 0x0900\<rparr>"

theorem deparse_parse_witness:
  "ingress_deparser ((no_headers bg_frame)\<lparr>ipv4 := Some (replicate 20 0), udp := Some (replicate 8 0), p4ml_bg := Some (replicate 16 7)\<rparr>) [1] =
     take 42 (emit_ethernet bg_frame @ replicate 20 0 @ replicate 8 0 @ replicate 16 7 @ [1])
     @ drop 58 (emit_ethernet bg_frame @ replicate 20 0 @ replicate 8 0 @ replicate 16 7 @ [1])"
proof -
  have "parse_ethernet (emit_ethernet bg_frame @ replicate 20 0 @ replicate 8 0 @ replicate 16 7 @ [1]) =
      Some ((no_headers bg_frame)\<lparr>ipv4 := Some (replicate 20 0), udp := Some (replicate 8 0), p4ml_bg := Some (replicate 16 7)\<rparr>, [1])"
    unfolding parse_ethernet_def pkt_extract_append [OF emit_lengths(1)]
    by (simp add: read_emit_ethernet bg_frame_def parse_bg_def parse_udp_bg_def parse_p4ml_bg_def pkt_extract_append Let_def)
  from deparse_parse [OF this] show ?thesis by (simp add: no_headers_def bg_frame_def)
qed

section \<open>Slots: behaviour\<close>

text \<open>What a data register and the packet's entry hold after the packet passed.\<close>

definition entry_out :: "8 word \<Rightarrow> 32 word \<Rightarrow> 32 word \<Rightarrow> 32 word" where
  "entry_out seen v d = (if seen = 1 then d else if take_bit 31 v \<noteq> 0x7fffffff then sat_add v d else v)"

lemma process_data_out:
  "process_data seen i n d R =
     (entry_out seen (first (R n i)) d, R(n := (R n)(i := (R n i)\<lparr>first := entry_out seen (first (R n i)) d\<rparr>)))"
  by (auto simp: process_data_def entry_out_def noequ0_write_read_data_entry_def write_data_entry_def Let_def)

lemma process_entry_out:
  "process_entry seen i n es R =
     (map (\<lambda>k. entry_out seen (first (R (n + k) i)) (es ! k)) [0..<length es],
      \<lambda>m j. if j = i \<and> n \<le> m \<and> m < n + length es then (R m i)\<lparr>first := entry_out seen (first (R m i)) (es ! (m - n))\<rparr> else R m j)"
proof (induction es arbitrary: n R)
  case (Cons d ds)
  let ?R = "R(n := (R n)(i := (R n i)\<lparr>first := entry_out seen (first (R n i)) d\<rparr>))"
  have m: "map (\<lambda>k. entry_out seen (first (R (n + k) i)) ((d # ds) ! k)) [0..<length (d # ds)] =
      entry_out seen (first (R n i)) d # map (\<lambda>k. entry_out seen (first (R (Suc n + k) i)) (ds ! k)) [0..<length ds]"
    by (simp add: upt_conv_Cons map_Suc_upt [symmetric] comp_def del: upt_Suc)
  have s: "(if j = i \<and> Suc n \<le> l \<and> l < Suc n + length ds then (?R l i)\<lparr>first := entry_out seen (first (?R l i)) (ds ! (l - Suc n))\<rparr> else ?R l j) =
      (if j = i \<and> n \<le> l \<and> l < n + length (d # ds) then (R l i)\<lparr>first := entry_out seen (first (R l i)) ((d # ds) ! (l - n))\<rparr> else R l j)" for l j
    by (cases "l = n") (auto simp: nth_Cons' Suc_le_eq)
  show ?case unfolding m by (simp only: process_entry.simps process_data_out Let_def prod.case Cons.IH s) simp
qed (auto simp: fun_eq_iff)

text \<open>The part of the registers that belongs to one slot.\<close>

definition same_slot :: "16 word \<Rightarrow> registers \<Rightarrow> registers \<Rightarrow> bool" where
  "same_slot i R R' \<longleftrightarrow> roundNumbers R i = roundNumbers R' i \<and> bitmap R i = bitmap R' i \<and> norm_info R i = norm_info R' i
     \<and> receive_count R i = receive_count R' i \<and> (\<forall>n. data_register R n i = data_register R' n i)"

lemma same_slot_refl [simp]: "same_slot i R R"
  by (simp add: same_slot_def)

lemma same_slot_trans: "same_slot i R S \<Longrightarrow> same_slot i S T \<Longrightarrow> same_slot i R T"
  by (simp add: same_slot_def)

definition seen_after :: "p4ml_h \<Rightarrow> 16 word \<Rightarrow> registers \<Rightarrow> 8 word" where
  "seen_after p i R = (if roundNumbers R i < h_roundNum p \<or> receive_count R i = h_num_worker p then 1 else receive_count R i + 1)"

definition norm_after :: "p4ml_h \<Rightarrow> 16 word \<Rightarrow> registers \<Rightarrow> 32 word" where
  "norm_after p i R = (if roundNumbers R i < h_roundNum p then h_norm_info p else max (h_norm_info p) (norm_info R i))"

definition entries_after :: "p4ml_h \<Rightarrow> 16 word \<Rightarrow> entry_h \<Rightarrow> registers \<Rightarrow> entry_h" where
  "entries_after p i es R =
     (if h_packet_type p = 0 then map (\<lambda>k. entry_out (seen_after p i R) (first (data_register R k i)) (es ! k)) [0..<length es] else es)"

definition regs_after :: "p4ml_h \<Rightarrow> 16 word \<Rightarrow> entry_h \<Rightarrow> registers \<Rightarrow> registers" where
  "regs_after p i es R =
     R\<lparr>roundNumbers := (roundNumbers R)(i := h_roundNum p), receive_count := (receive_count R)(i := seen_after p i R),
       norm_info := (norm_info R)(i := norm_after p i R),
       data_register := (\<lambda>k j. if j = i \<and> h_packet_type p = 0 \<and> k < length es
                               then (data_register R k i)\<lparr>first := entries_after p i es R ! k\<rparr> else data_register R k j),
       bitmap := (bitmap R)(i := if h_recirc_time p \<noteq> 3 then bitmap R i
                                 else if seen_after p i R = h_num_worker p then 0 else bitmap R i OR h_bitmap p)\<rparr>"

lemma count_packet_after:
  assumes "normal_check_roundNum p (roundNumbers R i) = (v, mr)" "mr \<noteq> 0"
  shows "v = h_roundNum p"
    and "count_packet p i mr (R\<lparr>roundNumbers := f\<rparr>) = (seen_after p i R, p\<lparr>h_norm_info := norm_after p i R\<rparr>,
      R\<lparr>roundNumbers := f, receive_count := (receive_count R)(i := seen_after p i R), norm_info := (norm_info R)(i := norm_after p i R)\<rparr>)"
  using assms
  by (auto simp: normal_check_roundNum_def count_packet_def reset_check_count_def set_norm_def normal_incr_check_count_def
      update_norm_def seen_after_def norm_after_def max_def Let_def split: if_splits)

lemma app_id_seq_counted:
  assumes "roundNumbers R i \<le> h_roundNum p"
  shows "app_id_seq tb dst (p, i, es) R m =
    (let q = p\<lparr>h_norm_info := norm_after p i R\<rparr>
     in if h_recirc_time p = 3
        then if seen_after p i R = h_num_worker p
             then ((q\<lparr>h_bitmap := bitmap R i\<rparr>, i, entries_after p i es R), regs_after p i es R, m\<lparr>mcast_grp_a := 1\<rparr>)
             else ((q\<lparr>h_bitmap := bitmap R i OR h_bitmap p\<rparr>, i, entries_after p i es R), regs_after p i es R, m\<lparr>drop_ctl := 1\<rparr>)
        else let q = q\<lparr>h_recirc_time := h_recirc_time p + 1\<rparr>
             in ((q, i + 1, entries_after p i es R), regs_after p i es R, (recirc_port_apply tb q m)\<lparr>bypass_egress := 1\<rparr>))"
proof -
  obtain v mr where c: "normal_check_roundNum p (roundNumbers R i) = (v, mr)" by fastforce
  with assms have mr: "mr \<noteq> 0" by (auto simp: normal_check_roundNum_def split: if_splits)
  have d: "(if h_packet_type p = 0 then process_entry (seen_after p i R) i 0 es D else (es, D)) =
      (entries_after p i es R, \<lambda>k j. if j = i \<and> h_packet_type p = 0 \<and> k < length es
         then (D k i)\<lparr>first := entries_after p i es R ! k\<rparr> else D k j)" if "D = data_register R" for D
    using that by (auto simp: process_entry_out entries_after_def fun_eq_iff)
  show ?thesis
    by (simp add: app_id_seq_def c mr count_packet_after [OF c mr] d last_pass_def clean_bitmap_def normal_read_write_bitmap_def
        regs_after_def Let_def cong: if_cong)
qed

lemma app_id_seq_stale:
  assumes "h_roundNum p < roundNumbers R i"
  shows "app_id_seq tb dst (p, i, es) R m =
    ((p\<lparr>h_roundNum := 0\<rparr>, i, case route_dmac tb dst of None \<Rightarrow> es | Some _ \<Rightarrow> replicate (length es) 0), R,
     m\<lparr>ucast_egress_port := Some (case route_dmac tb dst of None \<Rightarrow> 176 | Some port \<Rightarrow> port)\<rparr>)"
  using assms by (simp add: app_id_seq_def normal_check_roundNum_def route_def map_replicate_const split: option.split)

lemma app_id_seq_other:
  assumes "j \<noteq> i"
  shows "same_slot j R (fst (snd (app_id_seq tb dst (p, i, es) R m)))"
proof (cases "roundNumbers R i \<le> h_roundNum p")
  case True
  moreover have "same_slot j R (regs_after p i es R)" using assms by (simp add: same_slot_def regs_after_def)
  ultimately show ?thesis by (simp add: app_id_seq_counted Let_def)
qed (simp add: app_id_seq_stale)

lemma after_slot:
  assumes "same_slot i R R'"
  shows "seen_after p i R = seen_after p i R'" "norm_after p i R = norm_after p i R'" "entries_after p i es R = entries_after p i es R'"
    "same_slot i (regs_after p i es R) (regs_after p i es R')"
  using assms by (simp_all add: same_slot_def seen_after_def norm_after_def entries_after_def regs_after_def)

lemma app_id_seq_slot:
  assumes "same_slot i R R'"
  shows "fst (app_id_seq tb dst (p, i, es) R m) = fst (app_id_seq tb dst (p, i, es) R' m)
     \<and> snd (snd (app_id_seq tb dst (p, i, es) R m)) = snd (snd (app_id_seq tb dst (p, i, es) R' m))
     \<and> same_slot i (fst (snd (app_id_seq tb dst (p, i, es) R m))) (fst (snd (app_id_seq tb dst (p, i, es) R' m)))"
proof (cases "roundNumbers R i \<le> h_roundNum p")
  case True
  moreover have "roundNumbers R' i = roundNumbers R i" "bitmap R' i = bitmap R i" using assms by (simp_all add: same_slot_def)
  ultimately show ?thesis using after_slot [OF assms] by (simp add: app_id_seq_counted Let_def)
next
  case False
  moreover have "roundNumbers R' i = roundNumbers R i" using assms by (simp add: same_slot_def)
  ultimately show ?thesis using assms by (simp add: app_id_seq_stale)
qed

section \<open>Rounds: behaviour\<close>

text \<open>Packets in the order in which they pass, with the slot and the outcome of each.\<close>

type_synonym arrival = "48 word \<times> p4ml_h \<times> 16 word \<times> entry_h"

definition arrival_slot :: "arrival \<Rightarrow> 16 word" where
  "arrival_slot = (\<lambda>(dst, p, i, es). i)"

definition arrive :: "tables \<Rightarrow> arrival \<Rightarrow> registers \<Rightarrow> (16 word \<times> (p4ml_h \<times> 16 word \<times> entry_h) \<times> intrinsic) \<times> registers" where
  "arrive tb = (\<lambda>(dst, p, i, es) R. let (x, R1, m) = app_id_seq tb dst (p, i, es) R no_intrinsic in ((i, x, m), R1))"

abbreviation arrivals ::
    "tables \<Rightarrow> arrival list \<Rightarrow> registers \<Rightarrow> (16 word \<times> (p4ml_h \<times> 16 word \<times> entry_h) \<times> intrinsic) list \<times> registers" where
  "arrivals tb \<equiv> run_steps (arrive tb)"

definition at_slot :: "16 word \<Rightarrow> arrival list \<Rightarrow> arrival list" where
  "at_slot i qs = filter (\<lambda>q. arrival_slot q = i) qs"

text \<open>The switch keeps its state in slots.\<close>

interpretation sw: slotted "arrive tb" arrival_slot fst same_slot
  for tb
proof
  fix q :: arrival and i :: "16 word" and R R' S :: registers
  obtain dst p j es where q: "q = (dst, p, j, es)" by (cases q)
  show "same_slot i R R" by simp
  show "same_slot i R R' \<Longrightarrow> same_slot i R' R" "same_slot i R R' \<Longrightarrow> same_slot i R' S \<Longrightarrow> same_slot i R S" by (simp_all add: same_slot_def)
  show "fst (fst (arrive tb q R)) = arrival_slot q" by (simp add: q arrive_def arrival_slot_def case_prod_beta Let_def)
  show "arrival_slot q \<noteq> i \<Longrightarrow> same_slot i R (snd (arrive tb q R))"
    using app_id_seq_other [of i j R tb dst p es no_intrinsic] by (simp add: q arrive_def arrival_slot_def case_prod_beta Let_def)
  show "same_slot (arrival_slot q) R R' \<Longrightarrow>
      fst (arrive tb q R) = fst (arrive tb q R') \<and> same_slot (arrival_slot q) (snd (arrive tb q R)) (snd (arrive tb q R'))"
    using app_id_seq_slot [of j R R' tb dst p es no_intrinsic] by (simp add: q arrive_def arrival_slot_def case_prod_beta Let_def)
qed

subsection \<open>Arithmetic of the data registers\<close>

definition int32 :: "int \<Rightarrow> bool" where
  "int32 x \<longleftrightarrow> - (2 ^ 31) \<le> x \<and> x < 2 ^ 31"

lemma sint_int32: "int32 x \<Longrightarrow> sint (word_of_int x :: 32 word) = x"
  by (simp add: int32_def signed_of_int signed_take_bit_int_eq_self)

lemma low_bits_full:
  assumes "int32 x" "x \<noteq> - 1" "x \<noteq> 2 ^ 31 - 1"
  shows "take_bit 31 (word_of_int x :: 32 word) \<noteq> 0x7fffffff"
proof
  assume "take_bit 31 (word_of_int x :: 32 word) = 0x7fffffff"
  then have "uint (take_bit 31 (word_of_int x :: 32 word)) = uint (0x7fffffff :: 32 word)" by (rule arg_cong)
  also have "uint (take_bit 31 (word_of_int x :: 32 word)) = take_bit 31 x"
    by (simp only: unsigned_take_bit_eq unsigned_of_int) simp
  finally have "x mod 2 ^ 31 = 2 ^ 31 - 1" by (simp add: take_bit_eq_mod)
  then obtain k where x: "x = 2 ^ 31 * k + (2 ^ 31 - 1)" by (metis mult_div_mod_eq)
  with assms(1) have "- 2 < k" "k < 1" by (simp_all add: int32_def)
  then have "k = - 1 \<or> k = 0" by linarith
  with x assms(2,3) show False by auto
qed

lemma entry_out_add:
  assumes "int32 x" "x \<noteq> - 1" "x \<noteq> 2 ^ 31 - 1" "int32 (x + sint d)" "seen \<noteq> 1"
  shows "entry_out seen (word_of_int x) d = word_of_int (x + sint d)"
proof -
  have "max (- (2 ^ 31)) (min (2 ^ 31 - 1) (x + sint d)) = x + sint d" using assms(4) unfolding int32_def by linarith
  then show ?thesis using assms(5) low_bits_full [OF assms(1-3)] by (simp only: entry_out_def sat_add_def sint_int32 [OF assms(1)] if_False if_True not_not simp_thms)
qed

subsection \<open>One round of one slot\<close>

definition round_packet :: "32 word \<Rightarrow> 8 word \<Rightarrow> 1 word \<Rightarrow> 8 word \<Rightarrow> 16 word \<Rightarrow> arrival \<Rightarrow> bool" where
  "round_packet r N ty t i = (\<lambda>(dst, p, j, es). j = i \<and> h_roundNum p = r \<and> h_num_worker p = N \<and> h_packet_type p = ty
     \<and> h_recirc_time p = t \<and> length es = 64)"

definition col_sum :: "arrival list \<Rightarrow> nat \<Rightarrow> int" where
  "col_sum qs c = sum_list (map (\<lambda>(dst, p, j, es). sint (es ! c)) qs)"

definition norm_max :: "arrival list \<Rightarrow> 32 word" where
  "norm_max qs = fold (\<lambda>(dst, p, j, es) v. max (h_norm_info p) v) qs 0"

text \<open>No partial sum leaves the range, and none but the last is one of the two values that stop a register.\<close>

definition sums_fit :: "nat \<Rightarrow> arrival list \<Rightarrow> bool" where
  "sums_fit n qs \<longleftrightarrow> (\<forall>k < length qs. \<forall>c < 64. int32 (col_sum (take (Suc k) qs) c)
     \<and> (Suc k < n \<longrightarrow> col_sum (take (Suc k) qs) c \<noteq> - 1 \<and> col_sum (take (Suc k) qs) c \<noteq> 2 ^ 31 - 1))"

definition fresh_slot :: "32 word \<Rightarrow> registers \<Rightarrow> 16 word \<Rightarrow> bool" where
  "fresh_slot r R i \<longleftrightarrow> roundNumbers R i < r \<or> roundNumbers R i = r \<and> receive_count R i = 0 \<and> norm_info R i = 0"

definition slot_state :: "32 word \<Rightarrow> 1 word \<Rightarrow> 16 word \<Rightarrow> arrival list \<Rightarrow> registers \<Rightarrow> bool" where
  "slot_state r ty i qs R \<longleftrightarrow> roundNumbers R i = r \<and> receive_count R i = of_nat (length qs) \<and> norm_info R i = norm_max qs
     \<and> (ty = 0 \<longrightarrow> (\<forall>c < 64. first (data_register R c i) = word_of_int (col_sum qs c)))"

lemma sums_fit_snoc:
  "sums_fit n (qs @ [q]) \<longleftrightarrow> sums_fit n qs \<and> (\<forall>c < 64. int32 (col_sum (qs @ [q]) c)
     \<and> (Suc (length qs) < n \<longrightarrow> col_sum (qs @ [q]) c \<noteq> - 1 \<and> col_sum (qs @ [q]) c \<noteq> 2 ^ 31 - 1))"
  by (auto simp: sums_fit_def less_Suc_eq)

lemma sums_fit_last:
  assumes "sums_fit n qs" "qs \<noteq> []" "c < 64"
  shows "int32 (col_sum qs c)" "length qs < n \<Longrightarrow> col_sum qs c \<noteq> - 1 \<and> col_sum qs c \<noteq> 2 ^ 31 - 1"
  using assms(1) [unfolded sums_fit_def, rule_format, of "length qs - 1" c] assms(2,3) by simp_all

lemma col_sum_snoc: "col_sum (qs @ [(dst, p, j, es)]) c = col_sum qs c + sint (es ! c)"
  by (simp add: col_sum_def)

lemma norm_max_snoc: "norm_max (qs @ [(dst, p, j, es)]) = max (h_norm_info p) (norm_max qs)"
  by (simp add: norm_max_def)

lemma arrivals_snoc:
  "arrivals tb (qs @ [(dst, p, i, es)]) R =
     (let (xs, R1) = arrivals tb qs R; (x, R2, m) = app_id_seq tb dst (p, i, es) R1 no_intrinsic in (xs @ [(i, x, m)], R2))"
  by (simp add: run_steps_snoc arrive_def Let_def case_prod_beta)

lemma slot_first:
  assumes "fresh_slot r R i" "round_packet r N ty t i (dst, p, i, es)" "N \<noteq> 0"
  shows "roundNumbers R i \<le> h_roundNum p \<and> seen_after p i R = 1 \<and> norm_after p i R = h_norm_info p
    \<and> entries_after p i es R = es"
proof -
  have s: "seen_after p i R = 1" using assms by (auto simp: fresh_slot_def round_packet_def seen_after_def)
  have "entries_after p i es R = es"
    unfolding entries_after_def s entry_out_def using assms(2) by (simp add: map_nth)
  with s show ?thesis using assms by (auto simp: fresh_slot_def round_packet_def norm_after_def)
qed

lemma slot_next:
  assumes "slot_state r ty i qs R" "round_packet r N ty t i (dst, p, i, es)" "qs \<noteq> []" "length qs < unat N"
    and "ty = 0 \<Longrightarrow> sums_fit (unat N) (qs @ [(dst, p, i, es)])"
  shows "roundNumbers R i \<le> h_roundNum p \<and> seen_after p i R = of_nat (Suc (length qs)) \<and> norm_after p i R = max (h_norm_info p) (norm_max qs)
    \<and> (ty = 0 \<longrightarrow> entries_after p i es R = map (\<lambda>c. word_of_int (col_sum (qs @ [(dst, p, i, es)]) c)) [0..<64])"
proof -
  have R: "roundNumbers R i = h_roundNum p" "receive_count R i = of_nat (length qs)" "norm_info R i = norm_max qs"
    using assms(1,2) by (simp_all add: slot_state_def round_packet_def)
  have N: "h_num_worker p = N" "length es = 64" "h_packet_type p = ty" using assms(2) by (simp_all add: round_packet_def)
  have l: "Suc (length qs) < 2 ^ 8" using assms(4) unat_bound [of N] by simp
  then have u: "unat (of_nat (length qs) :: 8 word) = length qs" "unat (of_nat (Suc (length qs)) :: 8 word) = Suc (length qs)"
    using unat_small [of "length qs", where 'a = 8] unat_small [of "Suc (length qs)", where 'a = 8] by simp_all
  have n: "of_nat (length qs) \<noteq> N" using u(1) assms(4) by auto
  have s: "seen_after p i R = of_nat (Suc (length qs))" using R n N by (simp add: seen_after_def add.commute)
  have s1: "seen_after p i R \<noteq> 1" unfolding s using u(2) assms(3) by (metis One_nat_def length_0_conv nat.inject unsigned_1)
  have "entry_out (seen_after p i R) (first (data_register R c i)) (es ! c) = word_of_int (col_sum (qs @ [(dst, p, i, es)]) c)"
    if "ty = 0" "c < 64" for c
  proof -
    have f: "sums_fit (unat N) qs" "int32 (col_sum qs c + sint (es ! c))"
      using assms(5) that by (simp_all add: sums_fit_snoc col_sum_snoc)
    have "first (data_register R c i) = word_of_int (col_sum qs c)" using assms(1) that by (simp add: slot_state_def)
    then show ?thesis using sums_fit_last [OF f(1) assms(3) that(2)] assms(4) f(2) s1 by (simp add: entry_out_add col_sum_snoc)
  qed
  with s R N show ?thesis by (simp add: norm_after_def entries_after_def)
qed

lemma slot_packet:
  assumes "if qs = [] then fresh_slot r R i else slot_state r ty i qs R" "round_packet r N ty t i q" "length qs < unat N"
    and "ty = 0 \<Longrightarrow> sums_fit (unat N) (qs @ [q])" "q = (dst, p, i, es)"
  shows "roundNumbers R i \<le> h_roundNum p \<and> seen_after p i R = of_nat (length (qs @ [q])) \<and> norm_after p i R = norm_max (qs @ [q])
    \<and> (ty = 0 \<longrightarrow> entries_after p i es R = map (\<lambda>c. word_of_int (col_sum (qs @ [q]) c)) [0..<64])"
proof (cases "qs = []")
  case True
  have "length es = 64" "N \<noteq> 0" using assms(2,3,5) by (auto simp: round_packet_def)
  then have "es = map (\<lambda>c. word_of_int (col_sum (qs @ [q]) c)) [0..<64]"
    using True assms(5) map_nth [of es] by (simp add: col_sum_def)
  then show ?thesis using slot_first [of r R i N ty t dst p es] assms True \<open>N \<noteq> 0\<close> by (simp add: norm_max_def)
next
  case False
  then show ?thesis using slot_next [of r ty i qs R N t dst p es] assms by (simp add: norm_max_snoc)
qed

lemma slot_state_after:
  assumes "round_packet r N ty t i (dst, p, i, es)" "seen_after p i R = of_nat (length qs)" "norm_after p i R = norm_max qs"
    and "ty = 0 \<Longrightarrow> entries_after p i es R = map (\<lambda>c. word_of_int (col_sum qs c)) [0..<64]"
  shows "slot_state r ty i qs (regs_after p i es R)"
  using assms by (auto simp: slot_state_def regs_after_def round_packet_def)

definition outcome_ok :: "8 word \<Rightarrow> 1 word \<Rightarrow> 16 word \<Rightarrow> arrival list \<Rightarrow> 16 word \<times> (p4ml_h \<times> 16 word \<times> entry_h) \<times> intrinsic \<Rightarrow> bool" where
  "outcome_ok N ty i qs = (\<lambda>(j, (p, i', es), m). j = i \<and> i' = i \<and> h_norm_info p = norm_max qs
     \<and> (ty = 0 \<longrightarrow> es = map (\<lambda>c. word_of_int (col_sum qs c)) [0..<64])
     \<and> m = (if length qs = unat N then no_intrinsic\<lparr>mcast_grp_a := 1\<rparr> else no_intrinsic\<lparr>drop_ctl := 1\<rparr>))"

lemma round_run:
  assumes "fresh_slot r R i" "\<forall>q \<in> set qs. round_packet r N ty 3 i q" "length qs \<le> unat N" "ty = 0 \<Longrightarrow> sums_fit (unat N) qs" "qs \<noteq> []"
  shows "slot_state r ty i qs (snd (arrivals tb qs R)) \<and> outcome_ok N ty i qs (last (fst (arrivals tb qs R)))"
  using assms
proof (induction qs rule: rev_induct)
  case (snoc q qs)
  obtain dst p es where q: "q = (dst, p, i, es)" using snoc.prems(2) by (cases q) (simp add: round_packet_def)
  obtain xs R1 where a: "arrivals tb qs R = (xs, R1)" by fastforce
  have f: "sums_fit (unat N) (qs @ [q])" if "ty = 0" using snoc.prems(4) that .
  have "if qs = [] then fresh_slot r R1 i else slot_state r ty i qs R1"
    using snoc.IH snoc.prems a sums_fit_snoc [of "unat N" qs q] by auto
  then have s: "roundNumbers R1 i \<le> h_roundNum p" "seen_after p i R1 = of_nat (length (qs @ [q]))" "norm_after p i R1 = norm_max (qs @ [q])"
      "ty = 0 \<Longrightarrow> entries_after p i es R1 = map (\<lambda>c. word_of_int (col_sum (qs @ [q]) c)) [0..<64]"
    using slot_packet [of qs r R1 i ty N 3 q dst p es] snoc.prems(2,3) f q by simp_all
  have p: "round_packet r N ty 3 i q" using snoc.prems(2) by simp
  have "unat (of_nat (length (qs @ [q])) :: 8 word) = length (qs @ [q])"
    using snoc.prems(3) unat_bound [of N] by (intro unat_small) simp
  then have e: "of_nat (length (qs @ [q])) = N \<longleftrightarrow> length (qs @ [q]) = unat N" by (metis word_unat_eq_iff)
  show ?case
    using slot_state_after [of r N ty 3 i dst p es R1 "qs @ [q]"] s e p
    unfolding q arrivals_snoc a Let_def prod.case app_id_seq_counted [OF s(1)]
    by (simp add: round_packet_def outcome_ok_def)
qed simp

text \<open>
  C5. Aggregation in the switch: whatever other packets pass in between, when one packet of every
  worker reaches a fresh slot for its last pass, all packets but the last are dropped, and the last is
  sent to all workers with the largest norm and, for gradients whose partial sums stay in range and
  away from the two stop values, with the sums of all entries. The slot is then ready for the next round.
\<close>

theorem slot_round:
  fixes qs i
  defines "ps \<equiv> at_slot i qs"
  assumes "fresh_slot r R i" "\<forall>q \<in> set ps. round_packet r N ty 3 i q" "length ps = unat N" "0 < unat N" "ty = 0 \<longrightarrow> sums_fit (unat N) ps"
  shows "\<exists>outs. filter (\<lambda>x. fst x = i) (fst (arrivals tb qs R)) = outs \<and> length outs = unat N
     \<and> (\<forall>k < unat N. \<exists>p es. outs ! k =
          (i, (p, i, es), if Suc k = unat N then no_intrinsic\<lparr>mcast_grp_a := 1\<rparr> else no_intrinsic\<lparr>drop_ctl := 1\<rparr>)
          \<and> h_norm_info p = norm_max (take (Suc k) ps)
          \<and> (ty = 0 \<longrightarrow> es = map (\<lambda>c. word_of_int (col_sum (take (Suc k) ps) c)) [0..<64]))
     \<and> roundNumbers (snd (arrivals tb qs R)) i = r \<and> receive_count (snd (arrivals tb qs R)) i = N"
proof -
  let ?o = "fst (arrivals tb ps R)"
  have out: "\<exists>p es. ?o ! k = (i, (p, i, es), if Suc k = unat N then no_intrinsic\<lparr>mcast_grp_a := 1\<rparr> else no_intrinsic\<lparr>drop_ctl := 1\<rparr>)
      \<and> h_norm_info p = norm_max (take (Suc k) ps) \<and> (ty = 0 \<longrightarrow> es = map (\<lambda>c. word_of_int (col_sum (take (Suc k) ps) c)) [0..<64])"
    if k: "k < unat N" for k
  proof -
    have "\<forall>q \<in> set (take (Suc k) ps). round_packet r N ty 3 i q" using assms(3) by (meson in_set_takeD)
    moreover have "sums_fit (unat N) (take (Suc k) ps)" if "ty = 0"
      using assms(6) that by (auto simp: sums_fit_def min_def)
    moreover have "take (Suc k) ps \<noteq> []" "length (take (Suc k) ps) = Suc k" using assms(4,5) k by auto
    ultimately have "outcome_ok N ty i (take (Suc k) ps) (last (fst (arrivals tb (take (Suc k) ps) R)))"
      using round_run [of r R i "take (Suc k) ps" N ty tb] assms(2) k by simp
    moreover have "last (fst (arrivals tb (take (Suc k) ps) R)) = ?o ! k"
      using k assms(4) by (intro run_steps_nth) simp
    ultimately show ?thesis using \<open>length (take (Suc k) ps) = Suc k\<close>
      by (cases "?o ! k") (auto simp: outcome_ok_def)
  qed
  have ne: "ps \<noteq> []" using assms(4,5) by auto
  have "slot_state r ty i ps (snd (arrivals tb ps R))"
    using round_run [of r R i ps N ty tb] assms(2-4,6) ne by auto
  then have "roundNumbers (snd (arrivals tb qs R)) i = r" "receive_count (snd (arrivals tb qs R)) i = N"
    using sw.run_slot [of i R R tb qs] assms(4) by (simp_all add: ps_def at_slot_def slot_state_def same_slot_def)
  then show ?thesis using sw.run_slot [of i R R tb qs] run_steps_length [of "arrive tb" ps R] out assms(4) by (simp add: ps_def at_slot_def)
qed

text \<open>The tables as the control plane fills them, see below.\<close>

definition setup_tables :: tables where
  "setup_tables = \<lparr>dmac = (\<lambda>_. None), route_dmac = (\<lambda>_. None), recirc_port = (\<lambda>t. if 1 \<le> t \<and> t \<le> 7 then Some 128 else None),
     mcast_group = (\<lambda>g. if g = 1 then [168, 184] else [])\<rparr>"

text \<open>Two workers, whose packets reach slot 7 before and after a packet for slot 8.\<close>

definition gradient_header :: "32 word \<Rightarrow> 32 word \<Rightarrow> 8 word \<Rightarrow> p4ml_h" where
  "gradient_header r norm t = \<lparr>h_bitmap = 1, h_num_worker = 2, h_roundNum = r, h_max_info = 0, h_norm_info = norm, h_packet_type = 0,
     h_dataIndex = 0, h_pad = 0, h_recirc_time = t, h_pad_1 = 0, h_ingress_global = 0, h_pad_2 = 0, h_egress_global = 0\<rparr>"

definition example_arrivals :: "arrival list" where
  "example_arrivals = [(0, gradient_header 1 5 3, 7, replicate 64 3), (0, gradient_header 1 0 3, 8, replicate 64 1),
     (0, gradient_header 1 9 3, 7, replicate 64 4)]"

theorem slot_round_witness:
  "\<exists>outs. filter (\<lambda>x. fst x = 7) (fst (arrivals setup_tables example_arrivals cleared)) = outs \<and> length outs = 2
     \<and> (\<exists>p. outs ! 1 = (7, (p, 7, replicate 64 7), no_intrinsic\<lparr>mcast_grp_a := 1\<rparr>) \<and> h_norm_info p = 9)"
proof -
  have s: "at_slot 7 example_arrivals = [(0, gradient_header 1 5 3, 7, replicate 64 3), (0, gradient_header 1 9 3, 7, replicate 64 4)]"
    by (simp add: at_slot_def arrival_slot_def example_arrivals_def)
  have c: "col_sum [(0, gradient_header 1 5 3, 7, replicate 64 3)] c = 3"
      "col_sum [(0, gradient_header 1 5 3, 7, replicate 64 3), (0, gradient_header 1 9 3, 7, replicate 64 4)] c = 7" if "c < 64" for c
    using that by (simp_all add: col_sum_def)
  have f: "sums_fit (unat (2 :: 8 word)) (at_slot 7 example_arrivals)"
    unfolding s sums_fit_def using c by (simp add: less_Suc_eq int32_def)
  have e: "map (\<lambda>c. word_of_int (col_sum (at_slot 7 example_arrivals) c)) [0..<64] = replicate 64 (7 :: 32 word)"
    unfolding s using c(2) by (intro nth_equalityI) simp_all
  have n: "norm_max (at_slot 7 example_arrivals) = 9" unfolding s by (simp add: norm_max_def gradient_header_def)
  have p: "fresh_slot 1 cleared 7" "\<forall>q \<in> set (at_slot 7 example_arrivals). round_packet 1 2 0 3 7 q"
      "length (at_slot 7 example_arrivals) = unat (2 :: 8 word)"
    by (simp_all add: fresh_slot_def cleared_def s round_packet_def gradient_header_def)
  have t: "take 2 (at_slot 7 example_arrivals) = at_slot 7 example_arrivals" using p(3) by simp
  have u: "unat (2 :: 8 word) = 2" "Suc 1 = 2" by simp_all
  obtain outs where o: "filter (\<lambda>x. fst x = 7) (fst (arrivals setup_tables example_arrivals cleared)) = outs" "length outs = 2"
      "\<forall>k < 2. \<exists>p es. outs ! k = (7, (p, 7, es), if Suc k = 2 then no_intrinsic\<lparr>mcast_grp_a := 1\<rparr> else no_intrinsic\<lparr>drop_ctl := 1\<rparr>)
          \<and> h_norm_info p = norm_max (take (Suc k) (at_slot 7 example_arrivals))
          \<and> ((0 :: 1 word) = 0 \<longrightarrow> es = map (\<lambda>c. word_of_int (col_sum (take (Suc k) (at_slot 7 example_arrivals)) c)) [0..<64])"
    using slot_round [of 1 cleared 7 example_arrivals 2 0 setup_tables, OF p] f unfolding u(1) by auto
  from o(3) [rule_format, of 1] have "\<exists>p. outs ! 1 = (7, (p, 7, replicate 64 7), no_intrinsic\<lparr>mcast_grp_a := 1\<rparr>) \<and> h_norm_info p = 9"
    unfolding u(2) t e n by auto
  with o(1,2) show ?thesis by blast
qed

end
