(* ===== verification/P4_Pipeline.thy ===== *)
theory P4_Pipeline
  imports P4_Switch
begin

text \<open>
  The switch as a whole: the tables that the control plane of \<^verbatim>\<open>P4/setup_ports.py\<close> installs, packets
  as bytes on their way through the pipeline of \<^verbatim>\<open>P4/main.p4\<close>, and the headers that the workers build in
  \<^verbatim>\<open>dpdk/common/dpdk_pkt.h\<close>.
\<close>

section \<open>Tables from the control plane\<close>

text \<open>A table holds the entries that were added to it; a match on a field returns the data of its entry.\<close>

fun rows :: "string \<Rightarrow> drv list \<Rightarrow> (int \<times> (string \<times> field_val) list) list" where
  "rows t [] = []"
| "rows t (Table_add n [(f, k)] a d # cs) = (if n = t then (k, d) # rows t cs else rows t cs)"
| "rows t (c # cs) = rows t cs"

fun field_ints :: "field_val \<Rightarrow> int list" where
  "field_ints (FInt x) = [x]"
| "field_ints (FInts xs) = xs"
| "field_ints _ = []"

definition table_lookup :: "drv list \<Rightarrow> string \<Rightarrow> string \<Rightarrow> int \<Rightarrow> int list" where
  "table_lookup log t f k =
     (case map_of (rows t log) k of
        None \<Rightarrow> []
      | Some d \<Rightarrow> (case map_of d f of None \<Rightarrow> [] | Some v \<Rightarrow> field_ints v))"

definition table_port :: "drv list \<Rightarrow> string \<Rightarrow> string \<Rightarrow> int \<Rightarrow> 9 word option" where
  "table_port log t f k = (case table_lookup log t f k of [] \<Rightarrow> None | x # _ \<Rightarrow> Some (of_int x))"

definition installed :: "drv list \<Rightarrow> tables" where
  "installed log =
     \<lparr>dmac = (\<lambda>a. table_port log ''SwitchIngress.dmac'' ''port'' (uint a)),
      route_dmac = (\<lambda>a. table_port log ''SwitchIngress.appid_seq.route.dmac'' ''port'' (uint a)),
      recirc_port = (\<lambda>t. table_port log ''SwitchIngress.appid_seq.recirc_port'' ''recirc_port'' (uint t)),
      mcast_group = (\<lambda>g. concat (map (\<lambda>n. map of_int (table_lookup log ''$pre.node'' ''$DEV_PORT'' n))
                             (table_lookup log ''$pre.mgid'' ''$MULTICAST_NODE_ID'' (uint g))))\<rparr>"

text \<open>The set-up runs on a switch without any entries.\<close>

definition set_up :: "switch \<Rightarrow> bool" where
  "set_up sw \<longleftrightarrow> (\<exists>argv sw0. sw_log sw0 = [] \<and> slim_main argv sw0 = Inr sw)"

lemma set_up_log:
  assumes "set_up sw"
  shows "sw_log sw = concat (map (add_port ''BF_SPEED_100G'') [168, 184, 192])
    @ [Table_add ''$pre.node'' [(''$MULTICAST_NODE_ID'', 1)] None
              [(''$MULTICAST_RID'', FInt 0), (''$MULTICAST_LAG_ID'', FInts []), (''$DEV_PORT'', FInts [168, 184])],
            Table_add ''$pre.mgid'' [(''$MGID'', 1)] None
              [(''$MULTICAST_NODE_ID'', FInts [1]), (''$MULTICAST_NODE_L1_XID_VALID'', FBools [False]),
               (''$MULTICAST_NODE_L1_XID'', FInts [0])]]
    @ map (\<lambda>i. Table_add ''SwitchIngress.appid_seq.recirc_port'' [(''p4ml.recirc_time'', i)]
                       (Some ''SwitchIngress.appid_seq.set_recirc_port'') [(''recirc_port'', FInt 128)]) [1, 2, 3, 4, 5, 6, 7]"
  using assms
  by (auto simp: set_up_def slim_main_def slim_enable_ports_def set_multicast_def set_dmac_forward_def sec_recirc_ports_def drive_def
      res_simps split: if_splits)

lemma one_to_seven: "1 \<le> (t :: 8 word) \<and> t \<le> 7 \<longleftrightarrow> uint t \<in> {1, 2, 3, 4, 5, 6, 7}"
proof -
  have "1 \<le> t \<and> t \<le> 7 \<longleftrightarrow> 1 \<le> uint t \<and> uint t \<le> 7" by (simp add: word_le_def)
  then show ?thesis by auto
qed

lemma installed_set_up: "set_up sw \<Longrightarrow> installed (sw_log sw) = setup_tables"
  using word_uint_eq_iff [of _ "1 :: 16 word"]
  by (auto simp: set_up_log installed_def setup_tables_def table_port_def table_lookup_def add_port_def fun_eq_iff one_to_seven)

section \<open>Packets with gradients\<close>

definition p4ml_packet :: "ethernet_h \<Rightarrow> p4ml_h \<Rightarrow> 16 word \<Rightarrow> entry_h \<Rightarrow> 8 word list \<Rightarrow> 8 word list" where
  "p4ml_packet e p i es payload = emit_ethernet e @ emit_p4ml p @ be_bytes 2 i @ emit_words es @ payload"

definition p4ml_headers :: "ethernet_h \<Rightarrow> p4ml_h \<Rightarrow> 16 word \<Rightarrow> entry_h \<Rightarrow> switch_header" where
  "p4ml_headers e p i es = (no_headers e)\<lparr>p4ml := Some p, agtr_index := Some i, p4ml_entries := Some es\<rparr>"

lemma parse_p4ml_packet:
  assumes "ether_type e = 0x0a00" "length es = 64"
  shows "parse_ethernet (p4ml_packet e p i es payload) = Some (p4ml_headers e p i es, payload)"
  using assms by (simp add: p4ml_packet_def parse_ethernet_def parse_p4ml_def parse_agtr_index_def parse_entry_def p4ml_headers_def
      wire_simps)

lemma deparse_p4ml_packet: "ingress_deparser (p4ml_headers e p i es) payload = p4ml_packet e p i es payload"
  by (simp add: ingress_deparser_def p4ml_headers_def no_headers_def p4ml_packet_def emit_def)

lemma egress_p4ml_packet:
  assumes "ether_type e = 0x0a00"
  shows "egress_pass now m (p4ml_packet e p i es payload) =
    Some (p4ml_packet e (if bypass_egress m = 1 then p else p\<lparr>h_egress_global := now\<rparr>) i es payload)"
  using assms by (simp add: egress_pass_def p4ml_packet_def egress_parse_ethernet_def egress_parse_p4ml_def switch_egress_def
      egress_deparser_def no_headers_def emit_def wire_simps)

definition stamped :: "48 word \<Rightarrow> p4ml_h \<Rightarrow> p4ml_h" where
  "stamped now p = (if h_recirc_time p = 0 then p\<lparr>h_ingress_global := now\<rparr> else p)"

lemma switch_pass_p4ml:
  assumes "ether_type e = 0x0a00" "length es = 64"
    and "app_id_seq tb (dst_addr e) (stamped (fst now) p, i, es) R no_intrinsic = ((p', i', es'), R', m)"
  shows "switch_pass tb now (p4ml_packet e p i es payload) R =
    (map (\<lambda>port. (port, p4ml_packet e (if bypass_egress m = 1 then p' else p'\<lparr>h_egress_global := snd now\<rparr>) i' es' payload)) (out_ports tb m), R')"
proof -
  have "switch_ingress tb (fst now) (p4ml_headers e p i es) R = (p4ml_headers e p' i' es', R', m)"
    using assms(3) unfolding switch_ingress_def stamped_def
    by (simp add: p4ml_headers_def no_headers_def Let_def)
  then show ?thesis
    using assms(1,2) by (simp add: switch_pass_def parse_p4ml_packet deparse_p4ml_packet egress_p4ml_packet)
qed

section \<open>Recirculation\<close>

definition gradient_hdr :: "32 word \<Rightarrow> 8 word \<Rightarrow> p4ml_h \<Rightarrow> bool" where
  "gradient_hdr r t p \<longleftrightarrow> h_roundNum p = r \<and> h_num_worker p = 2 \<and> h_packet_type p = 0 \<and> h_recirc_time p = t"

lemma gradient_hdr_stamped: "gradient_hdr r t p \<Longrightarrow> gradient_hdr r t (stamped now p)"
  by (simp add: gradient_hdr_def stamped_def)

lemma gradient_round_packet: "gradient_hdr r t p \<Longrightarrow> length es = 64 \<Longrightarrow> round_packet r 2 0 t i (dst, p, i, es)"
  by (simp add: gradient_hdr_def round_packet_def)

text \<open>A packet on a pass that is not the last, and on the last.\<close>

lemma recirculated:
  assumes e: "ether_type e = 0x0a00" "length es = 64" and p: "gradient_hdr r (of_nat t) p" "t < 3"
    and R: "if qs = [] then fresh_slot r R i else slot_state r 0 i qs R" "length qs < 2"
    and f: "\<And>p. sums_fit 2 (qs @ [(dst_addr e, p, i, es)])"
  shows "\<exists>p' R'. gradient_hdr r (of_nat (Suc t)) p'
    \<and> switch_pass setup_tables now (p4ml_packet e p i es payload) R =
        ([(128, p4ml_packet e p' (i + 1) (map (\<lambda>c. word_of_int (col_sum (qs @ [(dst_addr e, p, i, es)]) c)) [0..<64]) payload)], R')
    \<and> slot_state r 0 i (qs @ [(dst_addr e, stamped (fst now) p, i, es)]) R' \<and> (\<forall>j. j \<noteq> i \<longrightarrow> same_slot j R R')"
proof -
  let ?p = "stamped (fst now) p" and ?q = "(dst_addr e, stamped (fst now) p, i, es)"
  have h: "gradient_hdr r (of_nat t) ?p" using p(1) by (rule gradient_hdr_stamped)
  then have rp: "round_packet r 2 0 (of_nat t) i ?q" using e(2) by (rule gradient_round_packet)
  have s: "roundNumbers R i \<le> h_roundNum ?p" "seen_after ?p i R = of_nat (length (qs @ [?q]))" "norm_after ?p i R = norm_max (qs @ [?q])"
      "entries_after ?p i es R = map (\<lambda>c. word_of_int (col_sum (qs @ [?q]) c)) [0..<64]"
    using slot_packet [of qs r R i 0 2 "of_nat t" ?q "dst_addr e" ?p es] R rp f by simp_all
  let ?p' = "?p\<lparr>h_norm_info := norm_after ?p i R, h_recirc_time := h_recirc_time ?p + 1\<rparr>"
  have t3: "h_recirc_time ?p \<noteq> 3" "h_recirc_time ?p + 1 = of_nat (Suc t)" "recirc_port setup_tables (h_recirc_time ?p + 1) = Some 128"
    using h p(2) by (auto simp: gradient_hdr_def setup_tables_def less_Suc_eq numeral_3_eq_3)
  have a: "app_id_seq setup_tables (dst_addr e) (?p, i, es) R no_intrinsic =
      ((?p', i + 1, entries_after ?p i es R), regs_after ?p i es R, no_intrinsic\<lparr>ucast_egress_port := Some 128, bypass_egress := 1\<rparr>)"
    unfolding app_id_seq_counted [OF s(1)] using t3(1,3) by (simp add: Let_def recirc_port_apply_def)
  have "slot_state r 0 i (qs @ [?q]) (regs_after ?p i es R)" using rp s by (intro slot_state_after) simp_all
  moreover have "\<forall>j. j \<noteq> i \<longrightarrow> same_slot j R (regs_after ?p i es R)" by (simp add: same_slot_def regs_after_def)
  moreover have "col_sum (qs @ [?q]) = col_sum (qs @ [(dst_addr e, p, i, es)])" by (rule ext) (simp add: col_sum_snoc)
  moreover have "gradient_hdr r (of_nat (Suc t)) ?p'" using h t3(2) by (simp add: gradient_hdr_def)
  ultimately show ?thesis using switch_pass_p4ml [OF e a] s(4)
    by (intro exI [of _ ?p'] exI [of _ "regs_after ?p i es R"]) (simp add: out_ports_def no_intrinsic_def)
qed

lemma last_passed:
  assumes e: "ether_type e = 0x0a00" "length es = 64" and p: "gradient_hdr r 3 p"
    and R: "if qs = [] then fresh_slot r R i else slot_state r 0 i qs R" "length qs < 2"
    and f: "\<And>p. sums_fit 2 (qs @ [(dst_addr e, p, i, es)])"
  shows "\<exists>p' R'. h_roundNum p' = r
    \<and> switch_pass setup_tables now (p4ml_packet e p i es payload) R =
        (map (\<lambda>port. (port, p4ml_packet e p' i (map (\<lambda>c. word_of_int (col_sum (qs @ [(dst_addr e, p, i, es)]) c)) [0..<64]) payload))
           (if qs = [] then [] else [168, 184]), R')
    \<and> slot_state r 0 i (qs @ [(dst_addr e, stamped (fst now) p, i, es)]) R'"
proof -
  let ?p = "stamped (fst now) p" and ?q = "(dst_addr e, stamped (fst now) p, i, es)"
  have h: "gradient_hdr r 3 ?p" using p(1) by (rule gradient_hdr_stamped)
  then have rp: "round_packet r 2 0 3 i ?q" using e(2) by (rule gradient_round_packet)
  have s: "roundNumbers R i \<le> h_roundNum ?p" "seen_after ?p i R = of_nat (length (qs @ [?q]))" "norm_after ?p i R = norm_max (qs @ [?q])"
      "entries_after ?p i es R = map (\<lambda>c. word_of_int (col_sum (qs @ [?q]) c)) [0..<64]"
    using slot_packet [of qs r R i 0 2 3 ?q "dst_addr e" ?p es] R rp f by simp_all
  have l: "seen_after ?p i R = h_num_worker ?p \<longleftrightarrow> qs \<noteq> []" using R(2) h unfolding s(2) by (cases qs) (auto simp: gradient_hdr_def)
  define b where "b = (if qs = [] then bitmap R i OR h_bitmap ?p else bitmap R i)"
  have a: "app_id_seq setup_tables (dst_addr e) (?p, i, es) R no_intrinsic =
      ((?p\<lparr>h_norm_info := norm_after ?p i R, h_bitmap := b\<rparr>, i, entries_after ?p i es R), regs_after ?p i es R,
       if qs = [] then no_intrinsic\<lparr>drop_ctl := 1\<rparr> else no_intrinsic\<lparr>mcast_grp_a := 1\<rparr>)"
    unfolding app_id_seq_counted [OF s(1)] l using h by (simp add: Let_def gradient_hdr_def b_def)
  have "slot_state r 0 i (qs @ [?q]) (regs_after ?p i es R)" using rp s by (intro slot_state_after) simp_all
  moreover have "col_sum (qs @ [?q]) = col_sum (qs @ [(dst_addr e, p, i, es)])" by (rule ext) (simp add: col_sum_snoc)
  moreover have "h_roundNum ?p = r" using h by (simp add: gradient_hdr_def)
  ultimately show ?thesis using switch_pass_p4ml [OF e a] s(4)
    by (intro exI [of _ "?p\<lparr>h_norm_info := norm_after ?p i R, h_bitmap := b, h_egress_global := snd now\<rparr>"] exI [of _ "regs_after ?p i es R"])
      (simp add: out_ports_def no_intrinsic_def setup_tables_def)
qed

text \<open>The entries of the second of two packets after it has met the first \<open>k\<close> times.\<close>

definition met :: "entry_h \<Rightarrow> entry_h \<Rightarrow> int \<Rightarrow> entry_h" where
  "met a b k = map (\<lambda>c. word_of_int (k * sint (a ! c) + sint (b ! c))) [0..<64]"

definition met_fits :: "entry_h \<Rightarrow> entry_h \<Rightarrow> bool" where
  "met_fits a b \<longleftrightarrow> length a = 64 \<and> length b = 64 \<and> (\<forall>c < 64. sint (a ! c) \<noteq> - 1 \<and> sint (a ! c) \<noteq> 2 ^ 31 - 1
     \<and> (\<forall>k \<in> {1, 2, 3, 4}. int32 (k * sint (a ! c) + sint (b ! c))))"

lemma sint_any: "int32 (sint (w :: 32 word))"
  using sint_greater_eq [of w] sint_less [of w] by (simp add: int32_def)

lemma met_sums:
  assumes "met_fits a b" "k \<in> {0, 1, 2, 3 :: int}"
  shows "sums_fit 2 [(d1, p1, i, a)]" "sums_fit 2 ([(d1, p1, i, a)] @ [(d2, p2, i, met a b k)])"
    and "map (\<lambda>c. word_of_int (col_sum [(d1, p1, i, a)] c)) [0..<64] = a"
    and "map (\<lambda>c. word_of_int (col_sum ([(d1, p1, i, a)] @ [(d2, p2, i, met a b k)]) c)) [0..<64] = met a b (k + 1)"
proof -
  have m: "sint (met a b k ! c) = k * sint (a ! c) + sint (b ! c)" if "c < 64" for c
  proof -
    have "int32 (k * sint (a ! c) + sint (b ! c))" using assms that sint_any [of "b ! c"] by (auto simp: met_fits_def)
    moreover have "met a b k ! c = word_of_int (k * sint (a ! c) + sint (b ! c))" using that by (simp add: met_def)
    ultimately show ?thesis by (simp only: sint_int32)
  qed
  have s: "col_sum ([(d1, p1, i, a)] @ [(d2, p2, i, met a b k)]) c = (k + 1) * sint (a ! c) + sint (b ! c)" if "c < 64" for c
    using m [OF that] by (simp add: col_sum_def algebra_simps)
  have c1: "col_sum [(d1, p1, i, a)] c = sint (a ! c)" for c by (simp add: col_sum_def)
  show f1: "sums_fit 2 [(d1, p1, i, a)]" using assms(1) sint_any c1 by (simp add: sums_fit_def met_fits_def)
  show "sums_fit 2 ([(d1, p1, i, a)] @ [(d2, p2, i, met a b k)])"
    unfolding sums_fit_snoc using f1 s assms by (auto simp: met_fits_def)
  show "map (\<lambda>c. word_of_int (col_sum [(d1, p1, i, a)] c)) [0..<64] = a"
    using assms(1) map_nth [of a] by (simp add: c1 met_fits_def)
  show "map (\<lambda>c. word_of_int (col_sum ([(d1, p1, i, a)] @ [(d2, p2, i, met a b k)]) c)) [0..<64] = met a b (k + 1)"
    unfolding met_def [of a b "k + 1"] using s by (intro map_cong) simp_all
qed

lemma met_length: "length (met a b k) = 64"
  by (simp add: met_def)

lemma pair_pass:
  fixes loop
  defines "loop \<equiv> \<lambda>port. port = (128 :: 9 word)"
  assumes e: "ether_type e1 = 0x0a00" "ether_type e2 = 0x0a00" and m: "met_fits a b" and t: "t < 3"
    and p: "gradient_hdr r (of_nat t) p1" "gradient_hdr r (of_nat t) p2" and R: "fresh_slot r R i"
  shows "\<exists>p1' p2' R'. gradient_hdr r (of_nat (Suc t)) p1' \<and> gradient_hdr r (of_nat (Suc t)) p2' \<and> (\<forall>j. j \<noteq> i \<longrightarrow> same_slot j R R')
    \<and> switch_run setup_tables loop (n1 # n2 # nows) [p4ml_packet e1 p1 i a pl1, p4ml_packet e2 p2 i (met a b (int t)) pl2] R =
      switch_run setup_tables loop nows [p4ml_packet e1 p1' (i + 1) a pl1, p4ml_packet e2 p2' (i + 1) (met a b (int (Suc t))) pl2] R'"
proof -
  have k: "int t \<in> {0, 1, 2, 3}" and l: "length a = 64" using t m by (auto simp: met_fits_def)
  obtain p1' R1 where 1: "gradient_hdr r (of_nat (Suc t)) p1'"
      "switch_pass setup_tables n1 (p4ml_packet e1 p1 i a pl1) R = ([(128, p4ml_packet e1 p1' (i + 1) a pl1)], R1)"
      "slot_state r 0 i [(dst_addr e1, stamped (fst n1) p1, i, a)] R1" "\<forall>j. j \<noteq> i \<longrightarrow> same_slot j R R1"
    using recirculated [OF e(1) l p(1) t, of "[]" R i n1 pl1] R met_sums(1,3) [OF m k] by auto
  obtain p2' R2 where 2: "gradient_hdr r (of_nat (Suc t)) p2'"
      "switch_pass setup_tables n2 (p4ml_packet e2 p2 i (met a b (int t)) pl2) R1 =
         ([(128, p4ml_packet e2 p2' (i + 1) (met a b (int t + 1)) pl2)], R2)" "\<forall>j. j \<noteq> i \<longrightarrow> same_slot j R1 R2"
    using recirculated [OF e(2) met_length p(2) t, of "[(dst_addr e1, stamped (fst n1) p1, i, a)]" R1 i a b "int t" n2 pl2]
      1(3) met_sums(2,4) [OF m k] by auto
  have "switch_run setup_tables loop (n1 # n2 # nows) [p4ml_packet e1 p1 i a pl1, p4ml_packet e2 p2 i (met a b (int t)) pl2] R =
      switch_run setup_tables loop nows [p4ml_packet e1 p1' (i + 1) a pl1, p4ml_packet e2 p2' (i + 1) (met a b (int t + 1)) pl2] R2"
    using 1(2) 2(2) by (simp add: loop_def option.map_id0 case_prod_beta)
  then show ?thesis using 1(1,4) 2(1,3) same_slot_trans by (intro exI [of _ p1'] exI [of _ p2'] exI [of _ R2]) (auto simp: add.commute)
qed

lemma pair_last:
  fixes loop
  defines "loop \<equiv> \<lambda>port. port = (128 :: 9 word)"
  assumes e: "ether_type e1 = 0x0a00" "ether_type e2 = 0x0a00" and m: "met_fits a b"
    and p: "gradient_hdr r 3 p1" "gradient_hdr r 3 p2" and R: "fresh_slot r R i"
  shows "\<exists>p' R'. h_roundNum p' = r
    \<and> switch_run setup_tables loop [n1, n2] [p4ml_packet e1 p1 i a pl1, p4ml_packet e2 p2 i (met a b 3) pl2] R =
      Some (map (\<lambda>port. (port, p4ml_packet e2 p' i (met a b 4) pl2)) [168, 184], R')"
proof -
  have k: "3 \<in> {0, 1, 2, 3 :: int}" and l: "length a = 64" using m by (auto simp: met_fits_def)
  obtain R1 where 1: "switch_pass setup_tables n1 (p4ml_packet e1 p1 i a pl1) R = ([], R1)"
      "slot_state r 0 i [(dst_addr e1, stamped (fst n1) p1, i, a)] R1"
    using last_passed [OF e(1) l p(1), of "[]" R i n1 pl1] R met_sums(1) [OF m k] by auto
  obtain p2' R2 where 2: "h_roundNum p2' = r" "switch_pass setup_tables n2 (p4ml_packet e2 p2 i (met a b 3) pl2) R1 =
      (map (\<lambda>port. (port, p4ml_packet e2 p2' i (met a b (3 + 1)) pl2)) [168, 184], R2)"
    using last_passed [OF e(2) met_length p(2), of "[(dst_addr e1, stamped (fst n1) p1, i, a)]" R1 i a b 3 n2 pl2]
      1(2) met_sums(2,4) [OF m k] by auto
  then show ?thesis using 1(1) by (intro exI [of _ p2'] exI [of _ R2]) (simp add: loop_def case_prod_beta)
qed

lemma fresh_same_slot: "same_slot i R R' \<Longrightarrow> fresh_slot r R i \<Longrightarrow> fresh_slot r R' i"
  by (simp add: same_slot_def fresh_slot_def)

lemma slots_differ: "(i :: 16 word) + 1 \<noteq> i" "i + 2 \<noteq> i" "i + 3 \<noteq> i" "i + 2 \<noteq> i + 1" "i + 3 \<noteq> i + 1" "i + 3 \<noteq> i + 2"
  by simp_all

lemma fresh_others:
  "(\<forall>j. j \<noteq> i \<longrightarrow> same_slot j R R') \<Longrightarrow> fresh_slot r R j \<Longrightarrow> j \<noteq> i \<Longrightarrow> fresh_slot r R' j"
  using fresh_same_slot by blast

text \<open>
  C11. Recirculated gradients: with the tables of the set-up, the gradient packets of two workers pass
  four times through fresh slots of their own. Let no entry of the first gradient be \<open>-1\<close> or the largest number (values at which the
  switch stops adding), and let up to four times the first entry plus the second fit into 32 bits. Then the first packet is dropped and the second is sent to both workers,
  but since each pass adds the entries that the last pass has already summed, it carries four times the
  first gradient plus the second, and everything behind its 64 entries is the second worker's alone.
\<close>

theorem gradients_recirculated:
  assumes "set_up sw" "ether_type e1 = 0x0a00" "ether_type e2 = 0x0a00" "met_fits a b"
    and "gradient_hdr r 0 p1" "gradient_hdr r 0 p2"
    and R: "fresh_slot r R i" "fresh_slot r R (i + 1)" "fresh_slot r R (i + 2)" "fresh_slot r R (i + 3)"
  shows "\<exists>p' R'. h_roundNum p' = r
    \<and> switch_run (installed (sw_log sw)) (\<lambda>port. port = 128) [n1, n2, n3, n4, n5, n6, n7, n8]
        [p4ml_packet e1 p1 i a pl1, p4ml_packet e2 p2 i b pl2] R =
      Some (map (\<lambda>port. (port, p4ml_packet e2 p' (i + 3) (map (\<lambda>c. word_of_int (4 * sint (a ! c) + sint (b ! c))) [0..<64]) pl2))
              [168, 184], R')"
proof -
  let ?run = "switch_run setup_tables (\<lambda>port. port = 128)"
  let ?q = "\<lambda>p1 p2 j k. [p4ml_packet e1 p1 j a pl1, p4ml_packet e2 p2 j (met a b (int k)) pl2]"
  let ?h = "\<lambda>t. gradient_hdr r (of_nat t)"
  have i: "i + 1 + 1 = i + 2" "i + 2 + 1 = i + 3" by simp_all
  have b: "met a b (int 0) = b" using assms(4) map_nth [of b] by (simp add: met_def met_fits_def)
  have h: "?h 0 p1" "?h 0 p2" and lt: "0 < (3 :: nat)" "Suc 0 < 3" "Suc (Suc 0) < 3" using assms(5,6) by simp_all
  note pair = pair_pass [OF assms(2-4)]
  obtain q1 q2 R1 where 1: "?h (Suc 0) q1" "?h (Suc 0) q2" "\<forall>j. j \<noteq> i \<longrightarrow> same_slot j R R1"
      "?run [n1, n2, n3, n4, n5, n6, n7, n8] (?q p1 p2 i 0) R = ?run [n3, n4, n5, n6, n7, n8] (?q q1 q2 (i + 1) (Suc 0)) R1"
    using pair [OF lt(1) h R(1), of n1 n2 "[n3, n4, n5, n6, n7, n8]" pl1 pl2] by blast
  have R1: "fresh_slot r R1 (i + 1)" "fresh_slot r R1 (i + 1 + 1)" "fresh_slot r R1 (i + 1 + 1 + 1)"
    unfolding i using fresh_others [OF 1(3)] R slots_differ by blast+
  obtain s1 s2 R2 where 2: "?h (Suc (Suc 0)) s1" "?h (Suc (Suc 0)) s2" "\<forall>j. j \<noteq> i + 1 \<longrightarrow> same_slot j R1 R2"
      "?run [n3, n4, n5, n6, n7, n8] (?q q1 q2 (i + 1) (Suc 0)) R1 = ?run [n5, n6, n7, n8] (?q s1 s2 (i + 1 + 1) (Suc (Suc 0))) R2"
    using pair [OF lt(2) 1(1,2) R1(1), of n3 n4 "[n5, n6, n7, n8]" pl1 pl2] by blast
  have R2: "fresh_slot r R2 (i + 1 + 1)" "fresh_slot r R2 (i + 1 + 1 + 1)"
    using fresh_others [OF 2(3)] R1 slots_differ unfolding i by blast+
  obtain u1 u2 R3 where 3: "?h (Suc (Suc (Suc 0))) u1" "?h (Suc (Suc (Suc 0))) u2" "\<forall>j. j \<noteq> i + 1 + 1 \<longrightarrow> same_slot j R2 R3"
      "?run [n5, n6, n7, n8] (?q s1 s2 (i + 1 + 1) (Suc (Suc 0))) R2 = ?run [n7, n8] (?q u1 u2 (i + 1 + 1 + 1) (Suc (Suc (Suc 0)))) R3"
    using pair [OF lt(3) 2(1,2) R2(1), of n5 n6 "[n7, n8]" pl1 pl2] by blast
  have R3: "fresh_slot r R3 (i + 3)" using fresh_others [OF 3(3)] R2 slots_differ unfolding i by blast
  have n: "of_nat (Suc (Suc (Suc 0))) = (3 :: 8 word)" "int (Suc (Suc (Suc 0))) = 3" by simp_all
  obtain p' R' where "h_roundNum p' = r" "?run [n7, n8] (?q u1 u2 (i + 3) (Suc (Suc (Suc 0)))) R3 =
      Some (map (\<lambda>port. (port, p4ml_packet e2 p' (i + 3) (met a b 4) pl2)) [168, 184], R')"
    using pair_last [OF assms(2-4) 3(1,2) [unfolded n] R3] unfolding n by blast
  then have "h_roundNum p' = r" "?run [n1, n2, n3, n4, n5, n6, n7, n8] (?q p1 p2 i 0) R =
      Some (map (\<lambda>port. (port, p4ml_packet e2 p' (i + 3) (met a b 4) pl2)) [168, 184], R')"
    using 1(4) 2(4) 3(4) unfolding i by (blast, simp only:)
  then show ?thesis unfolding b installed_set_up [OF assms(1)] unfolding met_def by blast
qed

text \<open>Gradients 3 and 4 arrive as 16 on a switch that has just been set up.\<close>

definition set_up_switch :: switch where
  "set_up_switch = sec_recirc_ports (set_multicast (slim_enable_ports \<lparr>sw_next = 0, sw_open = [], sw_log = [], sw_regs = []\<rparr>))"

lemma set_up_switch: "set_up set_up_switch"
  unfolding set_up_def
  by (intro exI [of _ "[''setup_ports.py'', ''p4ml'']"] exI [of _ "\<lparr>sw_next = 0, sw_open = [], sw_log = [], sw_regs = []\<rparr>"])
    (simp add: slim_main_def set_up_switch_def set_dmac_forward_def)

definition worker_frame :: ethernet_h where
  "worker_frame = \<lparr>dst_addr = 2, src_addr = 1, ether_type = 0x0a00\<rparr>"

theorem gradients_recirculated_witness:
  "\<exists>p' R'. h_roundNum p' = 1
    \<and> switch_run (installed (sw_log set_up_switch)) (\<lambda>port. port = 128) (replicate 8 (0, 0))
        [p4ml_packet worker_frame (gradient_header 1 0 0) 20 (replicate 64 3) [1], p4ml_packet worker_frame (gradient_header 1 0 0) 20 (replicate 64 4) [2]]
        cleared =
      Some (map (\<lambda>port. (port, p4ml_packet worker_frame p' 23 (replicate 64 16) [2])) [168, 184], R')"
proof -
  have m: "met_fits (replicate 64 3) (replicate 64 4)" by (simp add: met_fits_def int32_def)
  have g: "gradient_hdr 1 0 (gradient_header 1 0 0)" and e: "ether_type worker_frame = 0x0a00"
    by (simp_all add: gradient_hdr_def gradient_header_def worker_frame_def)
  have f: "fresh_slot 1 cleared i" for i by (simp add: fresh_slot_def cleared_def)
  have v: "map (\<lambda>c. word_of_int (4 * sint (replicate 64 (3 :: 32 word) ! c) + sint (replicate 64 (4 :: 32 word) ! c))) [0..<64] = replicate 64 (16 :: 32 word)"
    by (intro nth_equalityI) simp_all
  have r: "replicate 8 (0, 0) = [(0, 0), (0, 0), (0, 0), (0, 0), (0, 0), (0, 0), (0, 0), (0 :: 48 word, 0 :: 48 word)]"
    by (simp add: numeral_eq_Suc)
  have i: "20 + 3 = (23 :: 16 word)" by simp
  show ?thesis
    using gradients_recirculated [OF set_up_switch e e m g g f f f f, where i = 20 and ?pl1.0 = "[1]" and ?pl2.0 = "[2]"]
    unfolding v i r by blast
qed

end
