(* ===== verification/P4_Traffic.thy ===== *)
theory P4_Traffic
  imports P4_Pipeline
begin

text \<open>
  Traffic through the switch that \<^verbatim>\<open>P4/setup_ports.py\<close> has set up: every packet leaves, late packets are
  answered, and the headers that the workers build in \<^verbatim>\<open>dpdk/common/dpdk_pkt.h\<close> use slots of their own.
\<close>

section \<open>Every packet leaves\<close>

definition p4ml_shape :: "switch_header \<Rightarrow> bool" where
  "p4ml_shape h \<longleftrightarrow> udp h = None \<and> p4ml_bg h = None
     \<and> (ether_type (ethernet h) = 0x0a00 \<and> ipv4 h = None
        \<or> ether_type (ethernet h) = 0x0700 \<and> (\<exists>x. ipv4 h = Some x \<and> length x = 20))"

lemma parsed_shape:
  assumes "parse_ethernet bs = Some (h, payload)" "p4ml h = Some p"
  shows "p4ml_shape h \<and> (\<exists>i es. agtr_index h = Some i \<and> p4ml_entries h = Some es \<and> length es = 64)"
  using assms
  by (auto simp: parse_ethernet_def parse_defs pkt_extract_Some Let_def bind_eq_Some_conv p4ml_shape_def wire_simps split: if_splits)

lemma parse_shape:
  assumes "p4ml_shape h" "p4ml h = Some p" "agtr_index h = Some i" "p4ml_entries h = Some es" "length es = 64"
  shows "parse_ethernet (ingress_deparser h payload) = Some (h, payload)"
  using assms
  by (cases h) (auto simp: p4ml_shape_def parse_ethernet_def parse_defs Let_def ingress_deparser_def emit_def wire_simps)

lemma parsed_p4ml:
  assumes "parse_ethernet bs = Some (h, payload)" "p4ml h = Some p"
  shows "\<exists>i es. agtr_index h = Some i \<and> p4ml_entries h = Some es \<and> length es = 64
    \<and> (\<forall>p' i' es'. length es' = 64 \<longrightarrow>
         (let h' = h\<lparr>p4ml := Some p', agtr_index := Some i', p4ml_entries := Some es'\<rparr>
          in parse_ethernet (ingress_deparser h' payload) = Some (h', payload)))"
proof -
  have "parse_ethernet (ingress_deparser (h\<lparr>p4ml := Some p', agtr_index := Some i', p4ml_entries := Some es'\<rparr>) payload) =
      Some (h\<lparr>p4ml := Some p', agtr_index := Some i', p4ml_entries := Some es'\<rparr>, payload)" if "length es' = 64" for p' i' es'
    using parsed_shape [OF assms] that by (intro parse_shape) (auto simp: p4ml_shape_def)
  then show ?thesis using parsed_shape [OF assms] by (auto simp: Let_def)
qed

lemma entries_after_length: "length (entries_after p i es R) = length es"
  by (simp add: entries_after_def)

definition passes_left :: "8 word list \<Rightarrow> nat" where
  "passes_left bs =
     (case parse_ethernet bs of
        None \<Rightarrow> 1
      | Some (h, _) \<Rightarrow>
          (case p4ml h of
             None \<Rightarrow> 1
           | Some p \<Rightarrow> let t = unat (h_recirc_time p) in if t \<le> 3 then 4 - t else if t \<le> 7 then 8 - t else 1))"

lemma passes_left_bounds: "1 \<le> passes_left bs" "passes_left bs \<le> 4"
  by (auto simp: passes_left_def Let_def split: option.split)

lemma app_id_seq_set_up:
  assumes "app_id_seq setup_tables dst (p, i, es) R no_intrinsic = ((p', i', es'), R', m)"
  shows "length es' = length es \<and> (out_ports setup_tables m \<in> {[], [176], [168, 184]}
    \<or> out_ports setup_tables m = [128] \<and> bypass_egress m = 1 \<and> h_recirc_time p \<noteq> 3
      \<and> h_recirc_time p' = h_recirc_time p + 1 \<and> 1 \<le> h_recirc_time p' \<and> h_recirc_time p' \<le> 7)"
proof (cases "roundNumbers R i \<le> h_roundNum p")
  case True
  show ?thesis using assms unfolding app_id_seq_counted [OF True]
    by (auto simp: Let_def entries_after_length out_ports_def no_intrinsic_def recirc_port_apply_def setup_tables_def split: if_splits)
next
  case False
  then show ?thesis using assms
    by (auto simp: app_id_seq_stale out_ports_def no_intrinsic_def setup_tables_def)
qed

lemma later_pass:
  fixes t :: "8 word"
  assumes "t \<noteq> 3" "1 \<le> t + 1" "t + 1 \<le> 7"
  shows "(let t = unat (t + 1) in if t \<le> 3 then 4 - t else if t \<le> 7 then 8 - t else 1) <
    (let t = unat t in if t \<le> 3 then 4 - t else if t \<le> 7 then 8 - t else 1)"
proof -
  have "t + 1 \<noteq> 0" using assms(2) by auto
  then have u: "unat (t + 1) = Suc (unat t)" by (simp add: unatSuc add.commute)
  moreover have "unat t \<noteq> 3" using assms(1) word_unat_eq_iff [of t 3] by simp
  moreover have "unat (t + 1) \<le> 7" using assms(3) by (simp add: word_le_nat_alt)
  ultimately show ?thesis by (auto simp: Let_def)
qed

lemma p4ml_pass_set_up:
  assumes pass: "switch_pass setup_tables now bs R = (outs, R')" and h: "parse_ethernet bs = Some (h, payload)" "p4ml h = Some p"
  shows "filter (\<lambda>(port, _). port = 128) outs = [] \<and> fst ` set outs \<subseteq> {168, 176, 184}
    \<or> (\<exists>out. outs = [(128, out)] \<and> passes_left out < passes_left bs)"
proof -
  obtain i es where ie: "agtr_index h = Some i" "p4ml_entries h = Some es" "length es = 64"
      and reparse: "\<And>p' i' es'. length es' = 64 \<Longrightarrow>
        parse_ethernet (ingress_deparser (h\<lparr>p4ml := Some p', agtr_index := Some i', p4ml_entries := Some es'\<rparr>) payload) =
          Some (h\<lparr>p4ml := Some p', agtr_index := Some i', p4ml_entries := Some es'\<rparr>, payload)"
    using parsed_p4ml [OF h] by (auto simp: Let_def)
  obtain p' i' es' R1 m where a: "app_id_seq setup_tables (dst_addr (ethernet h)) (stamped (fst now) p, i, es) R no_intrinsic =
      ((p', i', es'), R1, m)" by (metis surj_pair)
  let ?h = "h\<lparr>p4ml := Some p', agtr_index := Some i', p4ml_entries := Some es'\<rparr>"
  note s = app_id_seq_set_up [OF a]
  have g: "switch_ingress setup_tables (fst now) h R = (?h, R1, m)"
    using a h(2) ie by (simp add: switch_ingress_def stamped_def Let_def)
  have o: "outs = (case egress_pass (snd now) m (ingress_deparser ?h payload) of None \<Rightarrow> []
      | Some out \<Rightarrow> map (\<lambda>port. (port, out)) (out_ports setup_tables m))"
    using pass h by (simp add: switch_pass_def g split: option.splits)
  show ?thesis
  proof (cases "out_ports setup_tables m \<in> {[], [176], [168, 184]}")
    case True
    then show ?thesis unfolding o by (auto split: option.split)
  next
    case False
    then have m: "out_ports setup_tables m = [128]" "bypass_egress m = 1" "h_recirc_time p \<noteq> 3"
        "h_recirc_time p' = h_recirc_time p + 1" "1 \<le> h_recirc_time p'" "h_recirc_time p' \<le> 7"
      using s by (auto simp: stamped_def split: if_splits)
    have "passes_left (ingress_deparser ?h payload) < passes_left bs"
      using later_pass [of "h_recirc_time p"] m(3-6) h reparse [of es'] s ie(3) by (simp add: passes_left_def Let_def)
    then show ?thesis unfolding o using m(1,2) by (simp add: egress_pass_def)
  qed
qed

lemma switch_pass_set_up:
  assumes "switch_pass setup_tables now bs R = (outs, R')"
  shows "filter (\<lambda>(port, _). port = 128) outs = [] \<and> fst ` set outs \<subseteq> {168, 176, 184}
    \<or> (\<exists>out. outs = [(128, out)] \<and> passes_left out < passes_left bs)"
proof (cases "parse_ethernet bs")
  case None
  then show ?thesis using assms by (simp add: switch_pass_def)
next
  case (Some x)
  then obtain h payload where h: "parse_ethernet bs = Some (h, payload)" by (cases x) simp
  show ?thesis
  proof (cases "p4ml h")
    case None
    then show ?thesis using assms h
      by (auto simp: switch_pass_def switch_ingress_def dmac_apply_def out_ports_def no_intrinsic_def setup_tables_def Let_def
          split: if_splits option.splits)
  qed (rule p4ml_pass_set_up [OF assms h])
qed

lemma switch_run_ends:
  "sum_list (map passes_left q) \<le> length nows \<Longrightarrow>
   \<exists>sent R'. switch_run setup_tables (\<lambda>port. port = 128) nows q R = Some (sent, R') \<and> fst ` set sent \<subseteq> {168, 176, 184}"
proof (induction setup_tables "\<lambda>port. port = (128 :: 9 word)" nows q R rule: switch_run.induct)
  case (2 bs q R)
  then show ?case using passes_left_bounds(1) [of bs] by simp
next
  case (3 now nows bs q R)
  obtain outs R1 where o: "switch_pass setup_tables now bs R = (outs, R1)" by fastforce
  show ?case
  proof (cases "filter (\<lambda>(port, _). port = 128) outs = [] \<and> fst ` set outs \<subseteq> {168, 176, 184}")
    case True
    have "sum_list (map passes_left q) \<le> length nows" using 3(2) passes_left_bounds(1) [of bs] by simp
    then obtain sent R' where "switch_run setup_tables (\<lambda>port. port = 128) nows q R1 = Some (sent, R')" "fst ` set sent \<subseteq> {168, 176, 184}"
      using 3(1) [OF o [symmetric] refl] True by auto
    moreover from this have "fst ` set (filter (\<lambda>(port, _). port \<noteq> 128) outs @ sent) \<subseteq> {168, 176, 184}"
      using True by (simp only: set_append image_Un set_filter Un_subset_iff) blast
    ultimately show ?thesis using True o by (simp del: set_append)
  next
    case False
    then obtain out where out: "outs = [(128, out)]" "passes_left out < passes_left bs" using switch_pass_set_up [OF o] by blast
    then have "sum_list (map passes_left (q @ [out])) \<le> length nows" using 3(2) by simp
    then show ?thesis using 3(1) [OF o [symmetric] refl] out(1) o by auto
  qed
qed simp

text \<open>
  C9. Every packet leaves: on a switch that has been set up, whatever bytes arrive and whatever the
  registers hold, no packet passes more than four times, and copies leave only by the two ports of the
  workers and by port 176.
\<close>

theorem packets_leave:
  assumes "set_up sw" "4 * length q \<le> length nows"
  shows "\<exists>sent R'. switch_run (installed (sw_log sw)) (\<lambda>port. port = 128) nows q R = Some (sent, R') \<and> fst ` set sent \<subseteq> {168, 176, 184}"
proof -
  have "sum_list (map passes_left q) \<le> 4 * length q" by (induction q) (use passes_left_bounds(2) in \<open>auto intro: add_mono\<close>)
  then show ?thesis using switch_run_ends assms by (simp add: installed_set_up)
qed

theorem packets_leave_witness:
  "\<exists>sent R'. switch_run (installed (sw_log set_up_switch)) (\<lambda>port. port = 128) (replicate 8 (0, 0))
     [p4ml_packet worker_frame (gradient_header 1 0 4) 20 (replicate 64 3) [], [1, 2, 3]] cleared = Some (sent, R')
     \<and> fst ` set sent \<subseteq> {168, 176, 184}"
  by (rule packets_leave) (simp_all add: set_up_switch)

section \<open>Late packets\<close>

definition enabled_ports :: "drv list \<Rightarrow> int list" where
  "enabled_ports log = concat (map (\<lambda>c. case c of Port_enable port \<Rightarrow> [port] | _ \<Rightarrow> []) log)"

text \<open>
  C39. Late packets: a packet of an earlier round than its slot changes no register, and the set-up
  leaves the table of known destinations empty. So the packet is marked as round 0, which stands for a
  tensor of zeros, but keeps its own entries, and is sent to port 176, which the set-up does not enable.
\<close>

theorem late_packet:
  assumes "set_up sw" "ether_type e = 0x0a00" "length es = 64" "h_roundNum p < roundNumbers R i"
  shows "switch_run (installed (sw_log sw)) (\<lambda>port. port = 128) (now # nows) [p4ml_packet e p i es payload] R =
      Some ([(176, p4ml_packet e ((stamped (fst now) p)\<lparr>h_roundNum := 0, h_egress_global := snd now\<rparr>) i es payload)], R)
    \<and> enabled_ports (sw_log sw) = [168, 184, 192]"
proof -
  let ?p = "stamped (fst now) p"
  have "h_roundNum ?p < roundNumbers R i" using assms(4) by (simp add: stamped_def)
  then have a: "app_id_seq setup_tables (dst_addr e) (?p, i, es) R no_intrinsic =
      ((?p\<lparr>h_roundNum := 0\<rparr>, i, es), R, no_intrinsic\<lparr>ucast_egress_port := Some 176\<rparr>)"
    by (simp add: app_id_seq_stale setup_tables_def)
  have "switch_pass setup_tables now (p4ml_packet e p i es payload) R =
      ([(176, p4ml_packet e (?p\<lparr>h_roundNum := 0, h_egress_global := snd now\<rparr>) i es payload)], R)"
    using switch_pass_p4ml [OF assms(2,3) a] by (simp add: out_ports_def no_intrinsic_def)
  then show ?thesis unfolding installed_set_up [OF assms(1)]
    by (simp add: set_up_log [OF assms(1)] enabled_ports_def add_port_def)
qed

theorem late_packet_witness:
  "switch_run (installed (sw_log set_up_switch)) (\<lambda>port. port = 128) [(5, 6)]
      [p4ml_packet worker_frame (gradient_header 1 0 0) 20 (replicate 64 3) []] (cleared\<lparr>roundNumbers := (\<lambda>_. 2)\<rparr>) =
    Some ([(176, p4ml_packet worker_frame ((gradient_header 0 0 0)\<lparr>h_ingress_global := 5, h_egress_global := 6\<rparr>) 20 (replicate 64 3) [])],
      cleared\<lparr>roundNumbers := (\<lambda>_. 2)\<rparr>)
   \<and> enabled_ports (sw_log set_up_switch) = [168, 184, 192]"
  using late_packet [OF set_up_switch, of worker_frame "replicate 64 3" "gradient_header 1 0 0" "cleared\<lparr>roundNumbers := (\<lambda>_. 2)\<rparr>" 20 "(5, 6)" "[]" "[]"]
  by (simp add: worker_frame_def gradient_header_def stamped_def)

section \<open>The headers of the workers\<close>

text \<open>
  The structure \<open>p4mlhdr\<close> with the values that \<open>htonl\<close> and \<open>htons\<close> put on the wire. With \<open>SW_PS\<close> (aggregation
  by a software server) it has no time stamps; this build option is an argument.
\<close>

record p4mlhdr =
  c_bitmap :: "32 word"
  c_num_worker :: "8 word"
  c_roundNum :: "32 word"
  c_max_info :: "32 word"
  c_norm_info :: "32 word"
  c_type_and_index :: "8 word"
  c_recirc_times :: "8 word"
  c_ingress_global_timestamp :: "64 word"
  c_egress_global_timestamp :: "64 word"
  c_agtr :: "16 word"
  c_vector :: "8 word list"

definition MAX_AGTR_COUNT :: nat where
  "MAX_AGTR_COUNT = 2500"

definition NORM_SLOT :: nat where
  "NORM_SLOT = 300"

definition MAX_ENTRIES_PER_PACKET :: nat where
  "MAX_ENTRIES_PER_PACKET = 256"

definition CIRC_TIME :: nat where
  "CIRC_TIME = MAX_ENTRIES_PER_PACKET div 64"

definition DPDK_ELEMENT_NUM :: nat where
  "DPDK_ELEMENT_NUM = MAX_ENTRIES_PER_PACKET * 4"

definition assemble_norm_pkt :: "bool \<Rightarrow> nat \<Rightarrow> 8 word \<Rightarrow> 32 word \<Rightarrow> 64 word \<Rightarrow> 32 word \<Rightarrow> p4mlhdr \<Rightarrow> p4mlhdr" where
  "assemble_norm_pkt SW_PS worker_id num_worker round_num key norm h =
     (let h = h\<lparr>c_bitmap := push_bit worker_id 1, c_num_worker := num_worker,
           c_agtr := of_nat (if SW_PS then MAX_AGTR_COUNT + unat key mod NORM_SLOT else MAX_AGTR_COUNT * CIRC_TIME + unat key mod NORM_SLOT),
           c_roundNum := round_num, c_type_and_index := push_bit 7 1, c_max_info := 0, c_norm_info := norm,
           c_recirc_times := of_nat (CIRC_TIME - 1)\<rparr>
      in if SW_PS then h else h\<lparr>c_ingress_global_timestamp := 0, c_egress_global_timestamp := 0\<rparr>)"

text \<open>The common part of the two functions that build gradient packets, which differ in what they copy.\<close>

definition gradient_fields :: "bool \<Rightarrow> nat \<Rightarrow> 8 word \<Rightarrow> 32 word \<Rightarrow> 64 word \<Rightarrow> p4mlhdr \<Rightarrow> p4mlhdr" where
  "gradient_fields SW_PS worker_id num_worker round_num key h =
     (let h = h\<lparr>c_bitmap := push_bit worker_id 1, c_num_worker := num_worker,
           c_agtr := of_nat (if SW_PS then unat key mod MAX_AGTR_COUNT else unat key mod MAX_AGTR_COUNT * CIRC_TIME),
           c_roundNum := round_num, c_type_and_index := 0, c_max_info := 0, c_norm_info := 0, c_recirc_times := 0\<rparr>
      in if SW_PS then h else h\<lparr>c_ingress_global_timestamp := 0, c_egress_global_timestamp := 0\<rparr>)"

definition memcpy :: "nat \<Rightarrow> 8 word list \<Rightarrow> 8 word list \<Rightarrow> 8 word list" where
  "memcpy n src dst = take n src @ drop n dst"

definition assemble_dpdk_p4ml_hdrs ::
    "bool \<Rightarrow> nat \<Rightarrow> 8 word \<Rightarrow> 32 word \<Rightarrow> 8 word list option \<Rightarrow> 64 word \<Rightarrow> nat \<Rightarrow> p4mlhdr \<Rightarrow> p4mlhdr" where
  "assemble_dpdk_p4ml_hdrs SW_PS worker_id num_worker round_num input_data key len h =
     (let h = gradient_fields SW_PS worker_id num_worker round_num key h; data_len = min len DPDK_ELEMENT_NUM
      in case input_data of None \<Rightarrow> h | Some d \<Rightarrow> h\<lparr>c_vector := memcpy data_len d (c_vector h)\<rparr>)"

definition assemble_normal_hdrs ::
    "bool \<Rightarrow> nat \<Rightarrow> 8 word \<Rightarrow> 32 word \<Rightarrow> 8 word list option \<Rightarrow> 64 word \<Rightarrow> nat \<Rightarrow> p4mlhdr \<Rightarrow> p4mlhdr" where
  "assemble_normal_hdrs SW_PS worker_id num_worker round_num data key len h =
     (let h = gradient_fields SW_PS worker_id num_worker round_num key h; data_len = min len MAX_ENTRIES_PER_PACKET
      in case data of None \<Rightarrow> h | Some d \<Rightarrow> h\<lparr>c_vector := memcpy (4 * data_len) d (c_vector h)\<rparr>)"

definition ps_assemble_p4ml_hdrs ::
    "bool \<Rightarrow> nat \<Rightarrow> 8 word \<Rightarrow> 16 word \<Rightarrow> 32 word \<Rightarrow> 8 word list option \<Rightarrow> p4mlhdr \<Rightarrow> p4mlhdr" where
  "ps_assemble_p4ml_hdrs SW_PS worker_id num_worker agtr round_num data h =
     (let h = h\<lparr>c_bitmap := push_bit worker_id 1, c_num_worker := num_worker, c_agtr := agtr, c_roundNum := round_num,
           c_type_and_index := 0, c_max_info := 1, c_norm_info := 2, c_recirc_times := 0\<rparr>;
          h = (if SW_PS then h else h\<lparr>c_ingress_global_timestamp := 0, c_egress_global_timestamp := 0\<rparr>)
      in case data of None \<Rightarrow> h | Some d \<Rightarrow> h\<lparr>c_vector := memcpy (MAX_ENTRIES_PER_PACKET * 4) d (c_vector h)\<rparr>)"

text \<open>The packed structure in memory, as it is sent.\<close>

definition p4mlhdr_bytes :: "bool \<Rightarrow> p4mlhdr \<Rightarrow> 8 word list" where
  "p4mlhdr_bytes SW_PS h =
     be_bytes 4 (c_bitmap h) @ be_bytes 1 (c_num_worker h) @ be_bytes 4 (c_roundNum h) @ be_bytes 4 (c_max_info h)
     @ be_bytes 4 (c_norm_info h) @ be_bytes 1 (c_type_and_index h) @ be_bytes 1 (c_recirc_times h)
     @ (if SW_PS then [] else be_bytes 8 (c_ingress_global_timestamp h) @ be_bytes 8 (c_egress_global_timestamp h))
     @ be_bytes 2 (c_agtr h) @ c_vector h"

definition header_of :: "p4mlhdr \<Rightarrow> p4ml_h" where
  "header_of h = \<lparr>h_bitmap = c_bitmap h, h_num_worker = c_num_worker h, h_roundNum = c_roundNum h, h_max_info = c_max_info h,
     h_norm_info = c_norm_info h, h_packet_type = of_nat (unat (c_type_and_index h) div 128),
     h_dataIndex = of_nat (unat (c_type_and_index h) div 64 mod 2), h_pad = of_nat (unat (c_type_and_index h) mod 64),
     h_recirc_time = c_recirc_times h, h_pad_1 = 0, h_ingress_global = 0, h_pad_2 = 0, h_egress_global = 0\<rparr>"

lemma nat_bytes_0: "nat_bytes n 0 = replicate n 0"
  by (induction n) simp_all

lemma header_bytes:
  assumes "c_ingress_global_timestamp h = 0" "c_egress_global_timestamp h = 0"
  shows "p4mlhdr_bytes False h = emit_p4ml (header_of h) @ be_bytes 2 (c_agtr h) @ c_vector h"
proof -
  have "unat (c_type_and_index h) < 256" using unat_bound [of "c_type_and_index h"] by simp
  then have f: "nat_bytes 1 (128 * unat (h_packet_type (header_of h)) + 64 * unat (h_dataIndex (header_of h)) + unat (h_pad (header_of h))) =
      be_bytes 1 (c_type_and_index h)"
    unfolding header_of_def p4ml_h.simps be_bytes_def by (simp only: flags_byte)
  have z: "be_bytes 8 (0 :: 64 word) = be_bytes 2 (0 :: 16 word) @ be_bytes 6 (0 :: 48 word)"
    by (simp add: be_bytes_def nat_bytes_0 flip: replicate_add)
  have "p4mlhdr_bytes False h = be_bytes 4 (c_bitmap h) @ be_bytes 1 (c_num_worker h) @ be_bytes 4 (c_roundNum h) @ be_bytes 4 (c_max_info h)
      @ be_bytes 4 (c_norm_info h) @ be_bytes 1 (c_type_and_index h) @ be_bytes 1 (c_recirc_times h)
      @ be_bytes 8 (0 :: 64 word) @ be_bytes 8 (0 :: 64 word) @ be_bytes 2 (c_agtr h) @ c_vector h"
    using assms by (simp only: p4mlhdr_bytes_def if_False append_assoc)
  then show ?thesis unfolding emit_p4ml_def f z by (simp add: header_of_def)
qed

lemma header_read:
  assumes "ether_type e = 0x0a00" "256 \<le> length (c_vector h)" "c_ingress_global_timestamp h = 0" "c_egress_global_timestamp h = 0"
  shows "parse_ethernet (emit_ethernet e @ p4mlhdr_bytes False h @ tail) =
    Some (p4ml_headers e (header_of h) (c_agtr h) (read_words 64 (take 256 (c_vector h))), drop 256 (c_vector h) @ tail)"
proof -
  have "emit_ethernet e @ p4mlhdr_bytes False h @ tail =
      p4ml_packet e (header_of h) (c_agtr h) (read_words 64 (take 256 (c_vector h))) (drop 256 (c_vector h) @ tail)"
    using assms(2) emit_read_words [of "take 256 (c_vector h)" 64]
    by (simp add: header_bytes [OF assms(3,4)] p4ml_packet_def flip: append_assoc)
  then show ?thesis using parse_p4ml_packet [OF assms(1)] by (simp add: read_words_length)
qed

lemma agtr_value:
  "unat (c_agtr (gradient_fields False w n r key h)) = unat key mod MAX_AGTR_COUNT * CIRC_TIME"
  "unat (c_agtr (assemble_norm_pkt False w n r key norm h)) = MAX_AGTR_COUNT * CIRC_TIME + unat key mod NORM_SLOT"
proof -
  have g: "unat key mod 2500 < 2500" "unat key mod 300 < 300" by simp_all
  then have "unat key mod 2500 * 4 < 2 ^ LENGTH(16)" "10000 + unat key mod 300 < 2 ^ LENGTH(16)" by simp_all
  then show "unat (c_agtr (gradient_fields False w n r key h)) = unat key mod MAX_AGTR_COUNT * CIRC_TIME"
      "unat (c_agtr (assemble_norm_pkt False w n r key norm h)) = MAX_AGTR_COUNT * CIRC_TIME + unat key mod NORM_SLOT"
    using unat_small [of "unat key mod 2500 * 4", where 'a = 16] unat_small [of "10000 + unat key mod 300", where 'a = 16]
    by (simp_all add: gradient_fields_def assemble_norm_pkt_def MAX_AGTR_COUNT_def NORM_SLOT_def CIRC_TIME_def MAX_ENTRIES_PER_PACKET_def)
qed

text \<open>
  C20. The switch reads what a worker wrote: the layout of the worker's structure is that of the switch's
  headers, so a gradient packet is parsed with the worker's bit, its round and its slot, starts with
  its first pass, and its 64 entries are the first 256 bytes of the worker's data.
\<close>

theorem worker_packet_read:
  fixes h0 d w n r key len
  defines "h \<equiv> assemble_dpdk_p4ml_hdrs False w n r (Some d) key len h0"
  assumes "ether_type e = 0x0a00" "length (c_vector h0) = DPDK_ELEMENT_NUM" "256 \<le> len" "len \<le> length d"
  shows "\<exists>p i es rest. parse_ethernet (emit_ethernet e @ p4mlhdr_bytes False h @ tail) = Some (p4ml_headers e p i es, rest)
    \<and> h_bitmap p = push_bit w 1 \<and> h_num_worker p = n \<and> h_roundNum p = r \<and> h_packet_type p = 0 \<and> h_recirc_time p = 0
    \<and> unat i = unat key mod MAX_AGTR_COUNT * CIRC_TIME \<and> length es = 64 \<and> emit_words es = take 256 d"
proof -
  have l: "256 \<le> min len DPDK_ELEMENT_NUM" using assms(4) by (simp add: DPDK_ELEMENT_NUM_def MAX_ENTRIES_PER_PACKET_def)
  have h: "h = (gradient_fields False w n r key h0)\<lparr>c_vector := memcpy (min len DPDK_ELEMENT_NUM) d (c_vector h0)\<rparr>"
    by (simp add: h_def assemble_dpdk_p4ml_hdrs_def gradient_fields_def Let_def)
  then have z: "c_ingress_global_timestamp h = 0" "c_egress_global_timestamp h = 0" by (simp_all add: gradient_fields_def)
  have v: "take 256 (c_vector h) = take 256 d" "256 \<le> length (c_vector h)"
    using l assms(3,5) by (simp_all add: h memcpy_def)
  have "c_agtr h = c_agtr (gradient_fields False w n r key h0)" by (simp add: h)
  then show ?thesis
    using header_read [OF assms(2) v(2) z, of tail] agtr_value(1) [of w n r key h0] emit_read_words [of "take 256 d" 64] assms(4,5) v(1)
    by (intro exI) (auto simp: header_of_def h gradient_fields_def read_words_length)
qed

definition blank_hdr :: p4mlhdr where
  "blank_hdr = \<lparr>c_bitmap = 0, c_num_worker = 0, c_roundNum = 0, c_max_info = 0, c_norm_info = 0, c_type_and_index = 0, c_recirc_times = 0,
     c_ingress_global_timestamp = 0, c_egress_global_timestamp = 0, c_agtr = 0, c_vector = replicate 1024 0\<rparr>"

theorem worker_packet_read_witness:
  "\<exists>p i es rest. parse_ethernet (emit_ethernet worker_frame
       @ p4mlhdr_bytes False (assemble_dpdk_p4ml_hdrs False 1 2 7 (Some (replicate 300 9)) 2503 300 blank_hdr) @ [0])
       = Some (p4ml_headers worker_frame p i es, rest)
    \<and> h_bitmap p = push_bit 1 1 \<and> h_num_worker p = 2 \<and> h_roundNum p = 7 \<and> h_packet_type p = 0 \<and> h_recirc_time p = 0
    \<and> unat i = unat (2503 :: 64 word) mod MAX_AGTR_COUNT * CIRC_TIME \<and> length es = 64 \<and> emit_words es = take 256 (replicate 300 9)"
  by (rule worker_packet_read) (simp_all add: worker_frame_def blank_hdr_def DPDK_ELEMENT_NUM_def MAX_ENTRIES_PER_PACKET_def)

text \<open>
  Slots do not collide: the slots that the four passes of a gradient packet use are shared with no
  packet of another key modulo 2500 and with no norm packet, and all of them exist in the registers.
\<close>

theorem worker_slots:
  fixes w n r norm h
  defines "g \<equiv> \<lambda>key. let s = unat (c_agtr (gradient_fields False w n r key h)) in {s..<s + CIRC_TIME}"
    and "f \<equiv> \<lambda>key. unat (c_agtr (assemble_norm_pkt False w n r key norm h))"
  shows "(unat k1 mod MAX_AGTR_COUNT \<noteq> unat k2 mod MAX_AGTR_COUNT \<longrightarrow> g k1 \<inter> g k2 = {}) \<and> f k2 \<notin> g k1
    \<and> (\<forall>s \<in> insert (f k2) (g k1). s < total_aggregator_cnt)"
proof -
  have c: "CIRC_TIME = 4" by (simp add: CIRC_TIME_def MAX_ENTRIES_PER_PACKET_def)
  have b: "unat k mod MAX_AGTR_COUNT < 2500" "unat k mod NORM_SLOT < 300" for k :: "64 word"
    by (simp_all add: MAX_AGTR_COUNT_def NORM_SLOT_def)
  have "g k1 \<inter> g k2 = {}" if "unat k1 mod MAX_AGTR_COUNT \<noteq> unat k2 mod MAX_AGTR_COUNT"
    using that unfolding g_def agtr_value c Let_def by auto
  then show ?thesis using b [of k1] b [of k2]
    unfolding g_def f_def agtr_value c Let_def by (auto simp: total_aggregator_cnt_def MAX_AGTR_COUNT_def)
qed

theorem worker_slots_witness:
  "{unat (c_agtr (gradient_fields False 0 2 1 1 blank_hdr))..<unat (c_agtr (gradient_fields False 0 2 1 1 blank_hdr)) + CIRC_TIME}
     \<inter> {unat (c_agtr (gradient_fields False 0 2 1 2502 blank_hdr))..<unat (c_agtr (gradient_fields False 0 2 1 2502 blank_hdr)) + CIRC_TIME} = {}"
  using worker_slots [of 1 2502 0 2 1 blank_hdr 0] by (simp add: MAX_AGTR_COUNT_def Let_def)

end
