(* ===== verification/Dpdk_Server.thy ===== *)
theory Dpdk_Server
  imports P4_Traffic
begin

text \<open>
  The software parameter server, \<^verbatim>\<open>dpdk/server/ParameterServer.cc\<close> and \<^verbatim>\<open>ParameterServer.h\<close>, which takes the
  place of the switch when the workers are built with \<open>SW_PS\<close>: the arrays that correspond to the
  registers of the switch, the handling of one message, the reply, and the receiving loop. The build
  without \<open>NEW_INCA\<close>, \<open>IP_HDR\<close>, \<open>USE_EXPECTED_KEY\<close> and \<open>USE_TX_THREAD\<close> is modelled, which is the one the
  repository selects. Message buffers and the network are left out; the parts of a reply that the code
  does not set are a parameter.
\<close>

section \<open>Messages\<close>

record message =
  m_type :: "16 word"
  m_hdr :: p4mlhdr
  m_key :: "64 word"
  m_cmd :: int
  m_len :: int
  m_shutdown :: bool

definition TENSOR_COMM :: int where "TENSOR_COMM = 1"

definition TENSOR_NORM :: int where "TENSOR_NORM = 2"

definition TENSOR_INIT :: int where "TENSOR_INIT = 3"

definition TOTAL_AGTR_CNT :: nat where "TOTAL_AGTR_CNT = 3000"

definition NUM_WORKER :: "8 word" where "NUM_WORKER = 2"

text \<open>Words of the vector in the byte order of the host, which is little endian.\<close>

fun host_words :: "nat \<Rightarrow> 8 word list \<Rightarrow> 32 word list" where
  "host_words 0 bs = []"
| "host_words (Suc n) bs = be_word (rev (take 4 bs)) # host_words n (drop 4 bs)"

definition host_bytes :: "32 word list \<Rightarrow> 8 word list" where
  "host_bytes ws = concat (map (\<lambda>w. rev (be_bytes 4 w)) ws)"

section \<open>The server\<close>

record ps_state =
  ps_roundNumbers :: "16 word \<Rightarrow> 32 word"
  ps_bitmap :: "16 word \<Rightarrow> 32 word"
  ps_norm_info :: "16 word \<Rightarrow> 32 word"
  ps_receive_count :: "16 word \<Rightarrow> 8 word"
  ps_data_slots :: "nat \<Rightarrow> 16 word \<Rightarrow> 32 word"

definition ps_init :: ps_state where
  "ps_init = \<lparr>ps_roundNumbers = (\<lambda>_. 0), ps_bitmap = (\<lambda>_. 0), ps_norm_info = (\<lambda>_. 0), ps_receive_count = (\<lambda>_. 0),
     ps_data_slots = (\<lambda>_ _. 0)\<rparr>"

definition ps_process_data :: "message \<Rightarrow> ps_state \<Rightarrow> ps_state" where
  "ps_process_data msg s =
     (let agtr_idx = c_agtr (m_hdr msg); v = host_words MAX_ENTRIES_PER_PACKET (c_vector (m_hdr msg))
      in s\<lparr>ps_data_slots := (\<lambda>i j.
            if j = agtr_idx \<and> i < MAX_ENTRIES_PER_PACKET
            then if ps_receive_count s agtr_idx = 1 then v ! i else ps_data_slots s i j + v ! i
            else ps_data_slots s i j)\<rparr>)"

definition assemble_reply_p4ml_hdrs :: "nat \<Rightarrow> 8 word \<Rightarrow> 32 word \<Rightarrow> 32 word list \<Rightarrow> 32 word \<Rightarrow> 16 word \<Rightarrow> p4mlhdr \<Rightarrow> p4mlhdr" where
  "assemble_reply_p4ml_hdrs worker_id num_worker round_num data max_norm agtr h =
     h\<lparr>c_bitmap := push_bit worker_id 1, c_num_worker := num_worker, c_agtr := agtr, c_roundNum := round_num,
       c_type_and_index := 0, c_max_info := 0, c_norm_info := max_norm, c_recirc_times := 7,
       c_vector := memcpy (MAX_ENTRIES_PER_PACKET * 4) (host_bytes data) (c_vector h)\<rparr>"

definition broadcast_packet :: "message \<Rightarrow> message \<Rightarrow> ps_state \<Rightarrow> message" where
  "broadcast_packet msg0 msg s =
     (let agtr_idx = c_agtr (m_hdr msg); reply_data = map (\<lambda>i. ps_data_slots s i agtr_idx) [0..<MAX_ENTRIES_PER_PACKET]
      in msg0\<lparr>m_type := 0x0d00, m_cmd := m_cmd msg, m_key := m_key msg, m_len := m_len msg,
           m_hdr := assemble_reply_p4ml_hdrs 0 NUM_WORKER (c_roundNum (m_hdr msg)) reply_data (ps_norm_info s agtr_idx) agtr_idx (m_hdr msg0)\<rparr>)"

text \<open>The check of the round and the counters.\<close>

definition ps_count_packet :: "p4mlhdr \<Rightarrow> ps_state \<Rightarrow> ps_state" where
  "ps_count_packet h s =
     (let i = c_agtr h
      in if c_roundNum h > ps_roundNumbers s i
         then s\<lparr>ps_roundNumbers := (ps_roundNumbers s)(i := c_roundNum h), ps_receive_count := (ps_receive_count s)(i := 1),
                ps_norm_info := (ps_norm_info s)(i := c_norm_info h)\<rparr>
         else s\<lparr>ps_receive_count := (ps_receive_count s)(i := if ps_receive_count s i = c_num_worker h then 1 else ps_receive_count s i + 1),
                ps_norm_info := (ps_norm_info s)(i := if ps_norm_info s i < c_norm_info h then c_norm_info h else ps_norm_info s i)\<rparr>)"

definition ps_answer :: "message \<Rightarrow> message \<Rightarrow> ps_state \<Rightarrow> message option \<times> ps_state" where
  "ps_answer msg0 msg s =
     (let h = m_hdr msg; i = c_agtr h
      in if ps_receive_count s i = c_num_worker h
         then let s = s\<lparr>ps_bitmap := (ps_bitmap s)(i := 0)\<rparr> in (Some (broadcast_packet msg0 msg s), s)
         else (None, s\<lparr>ps_bitmap := (ps_bitmap s)(i := ps_bitmap s i OR c_bitmap h)\<rparr>))"

text \<open>One message in the loop of a receiving thread, and the loop up to the message that ends it.\<close>

definition ps_message :: "nat \<Rightarrow> message \<Rightarrow> message \<Rightarrow> ps_state \<Rightarrow> (16 word \<times> message option) \<times> ps_state" where
  "ps_message lcore_id msg0 msg s =
     (let h = m_hdr msg; i = c_agtr h
      in if m_cmd msg \<noteq> TENSOR_COMM \<and> m_cmd msg \<noteq> TENSOR_NORM \<and> m_cmd msg \<noteq> TENSOR_INIT \<or> m_type msg \<noteq> 0x0c00 + of_nat lcore_id - 1
         then ((i, None), s)
         else if c_roundNum h < ps_roundNumbers s i then ((i, None), s)
         else let s = ps_count_packet h s;
                  s = (if m_cmd msg = TENSOR_COMM then ps_process_data msg s else s);
                  (reply, s) = ps_answer msg0 msg s
              in ((i, reply), s))"

fun ps_rx_thread :: "nat \<Rightarrow> message \<Rightarrow> message list \<Rightarrow> ps_state \<Rightarrow> message list \<times> ps_state" where
  "ps_rx_thread lcore_id msg0 [] s = ([], s)"
| "ps_rx_thread lcore_id msg0 (msg # msgs) s =
     (if m_shutdown msg then ([], s)
      else let ((i, reply), s) = ps_message lcore_id msg0 msg s; (replies, s) = ps_rx_thread lcore_id msg0 msgs s
           in ((case reply of None \<Rightarrow> [] | Some m \<Rightarrow> [m]) @ replies, s))"

section \<open>Slots of the server\<close>

definition same_ps :: "16 word \<Rightarrow> ps_state \<Rightarrow> ps_state \<Rightarrow> bool" where
  "same_ps i s t \<longleftrightarrow> ps_roundNumbers s i = ps_roundNumbers t i \<and> ps_bitmap s i = ps_bitmap t i \<and> ps_norm_info s i = ps_norm_info t i
     \<and> ps_receive_count s i = ps_receive_count t i \<and> (\<forall>n. ps_data_slots s n i = ps_data_slots t n i)"

definition msg_slot :: "message \<Rightarrow> 16 word" where
  "msg_slot m = c_agtr (m_hdr m)"

lemma ps_parts_other:
  assumes "c_agtr h \<noteq> i" "c_agtr (m_hdr m) \<noteq> i"
  shows "same_ps i s (ps_count_packet h s)" "same_ps i s (ps_process_data m s)" "same_ps i s (snd (ps_answer msg0 m s))"
  using assms by (simp_all add: same_ps_def ps_count_packet_def ps_process_data_def ps_answer_def Let_def)

lemma ps_parts_own:
  assumes "same_ps i s t"
  shows "c_agtr h = i \<Longrightarrow> same_ps i (ps_count_packet h s) (ps_count_packet h t)"
    and "c_agtr (m_hdr m) = i \<Longrightarrow> same_ps i (ps_process_data m s) (ps_process_data m t)"
    and "c_agtr (m_hdr m) = i \<Longrightarrow> fst (ps_answer msg0 m s) = fst (ps_answer msg0 m t) \<and> same_ps i (snd (ps_answer msg0 m s)) (snd (ps_answer msg0 m t))"
  using assms by (auto simp: same_ps_def ps_count_packet_def ps_process_data_def ps_answer_def broadcast_packet_def Let_def)

lemma ps_message_other:
  assumes "msg_slot m \<noteq> i"
  shows "same_ps i s (snd (ps_message l msg0 m s))"
proof -
  note o = ps_parts_other [of "m_hdr m" i m, OF assms [unfolded msg_slot_def] assms [unfolded msg_slot_def]]
  have t: "same_ps i a b \<Longrightarrow> same_ps i b c \<Longrightarrow> same_ps i a c" "same_ps i a a" for a b c by (simp_all add: same_ps_def)
  have "same_ps i s (snd (ps_answer msg0 m (ps_count_packet (m_hdr m) s)))"
      "same_ps i s (snd (ps_answer msg0 m (ps_process_data m (ps_count_packet (m_hdr m) s))))"
    using t(1) [OF o(1) o(3)] t(1) [OF t(1) [OF o(1) o(2)] o(3)] by blast+
  then show ?thesis unfolding ps_message_def Let_def using t(2) by (simp add: case_prod_beta)
qed

lemma ps_message_own:
  assumes "same_ps (msg_slot m) s t"
  shows "fst (ps_message l msg0 m s) = fst (ps_message l msg0 m t) \<and> same_ps (msg_slot m) (snd (ps_message l msg0 m s)) (snd (ps_message l msg0 m t))"
proof -
  let ?d = "\<lambda>s. if m_cmd m = TENSOR_COMM then ps_process_data m s else s"
  have r: "ps_roundNumbers s (c_agtr (m_hdr m)) = ps_roundNumbers t (c_agtr (m_hdr m))" using assms by (simp add: same_ps_def msg_slot_def)
  have "same_ps (msg_slot m) (?d (ps_count_packet (m_hdr m) s)) (?d (ps_count_packet (m_hdr m) t))"
    using ps_parts_own(1,2) [of "msg_slot m"] assms by (simp add: msg_slot_def)
  from ps_parts_own(3) [OF this, of m msg0] show ?thesis
    unfolding ps_message_def Let_def r using assms by (auto simp: case_prod_beta msg_slot_def)
qed

interpretation ps: slotted "ps_message l msg0" msg_slot fst same_ps
  for l msg0
proof
  fix q i and s t u :: ps_state
  show "same_ps i s s" "same_ps i s t \<Longrightarrow> same_ps i t s" "same_ps i s t \<Longrightarrow> same_ps i t u \<Longrightarrow> same_ps i s u" by (simp_all add: same_ps_def)
  show "fst (fst (ps_message l msg0 q s)) = msg_slot q" by (simp add: ps_message_def msg_slot_def Let_def case_prod_beta)
  show "msg_slot q \<noteq> i \<Longrightarrow> same_ps i s (snd (ps_message l msg0 q s))" by (rule ps_message_other)
  show "same_ps (msg_slot q) s t \<Longrightarrow> fst (ps_message l msg0 q s) = fst (ps_message l msg0 q t)
      \<and> same_ps (msg_slot q) (snd (ps_message l msg0 q s)) (snd (ps_message l msg0 q t))" by (rule ps_message_own)
qed

section \<open>Rounds of the server\<close>

definition round_msg :: "nat \<Rightarrow> 32 word \<Rightarrow> 8 word \<Rightarrow> int \<Rightarrow> 16 word \<Rightarrow> message \<Rightarrow> bool" where
  "round_msg l r N cmd i m \<longleftrightarrow> msg_slot m = i \<and> m_type m = 0x0c00 + of_nat l - 1 \<and> m_cmd m = cmd \<and> cmd \<in> {TENSOR_COMM, TENSOR_NORM, TENSOR_INIT}
     \<and> c_roundNum (m_hdr m) = r \<and> c_num_worker (m_hdr m) = N"

definition word_sum :: "message list \<Rightarrow> nat \<Rightarrow> 32 word" where
  "word_sum ms c = sum_list (map (\<lambda>m. host_words MAX_ENTRIES_PER_PACKET (c_vector (m_hdr m)) ! c) ms)"

definition norm_maximum :: "message list \<Rightarrow> 32 word" where
  "norm_maximum ms = fold (\<lambda>m v. max (c_norm_info (m_hdr m)) v) ms 0"

definition ps_fresh :: "32 word \<Rightarrow> ps_state \<Rightarrow> 16 word \<Rightarrow> bool" where
  "ps_fresh r s i \<longleftrightarrow> ps_roundNumbers s i < r \<or> ps_roundNumbers s i = r \<and> ps_receive_count s i = 0 \<and> ps_norm_info s i = 0"

definition ps_slot :: "32 word \<Rightarrow> int \<Rightarrow> 16 word \<Rightarrow> message list \<Rightarrow> ps_state \<Rightarrow> bool" where
  "ps_slot r cmd i ms s \<longleftrightarrow> ps_roundNumbers s i = r \<and> ps_receive_count s i = of_nat (length ms) \<and> ps_norm_info s i = norm_maximum ms
     \<and> (cmd = TENSOR_COMM \<longrightarrow> (\<forall>c < MAX_ENTRIES_PER_PACKET. ps_data_slots s c i = word_sum ms c))"

text \<open>The reply to a list of messages.\<close>

definition reply_to :: "message list \<Rightarrow> int \<Rightarrow> message \<Rightarrow> message \<Rightarrow> bool" where
  "reply_to ms cmd m rep \<longleftrightarrow> m_type rep = 0x0d00 \<and> m_cmd rep = cmd \<and> m_key rep = m_key m \<and> m_len rep = m_len m \<and> c_roundNum (m_hdr rep) = c_roundNum (m_hdr m)
     \<and> c_agtr (m_hdr rep) = c_agtr (m_hdr m) \<and> c_norm_info (m_hdr rep) = norm_maximum ms
     \<and> (cmd = TENSOR_COMM \<longrightarrow> take (4 * MAX_ENTRIES_PER_PACKET) (c_vector (m_hdr rep)) = host_bytes (map (word_sum ms) [0..<MAX_ENTRIES_PER_PACKET]))"

lemma host_bytes_length: "length (host_bytes ws) = 4 * length ws"
  by (simp add: host_bytes_def length_concat comp_def sum_list_triv)

lemma ps_counted:
  assumes "if ms = [] then ps_fresh r s i else ps_slot r cmd i ms s" "round_msg l r N cmd i m" "length ms < unat N"
  shows "ps_slot r cmd i (ms @ [m]) (if cmd = TENSOR_COMM then ps_process_data m (ps_count_packet (m_hdr m) s) else ps_count_packet (m_hdr m) s)"
    and "\<not> c_roundNum (m_hdr m) < ps_roundNumbers s i"
proof -
  have b: "Suc (length ms) < 2 ^ LENGTH(8)" using assms(3) unat_bound [of N] by simp
  have u: "unat (of_nat (length ms) :: 8 word) = length ms" "unat (of_nat (Suc (length ms)) :: 8 word) = Suc (length ms)"
    using b by (intro unat_small; simp)+
  have h: "c_agtr (m_hdr m) = i" "c_roundNum (m_hdr m) = r" "c_num_worker (m_hdr m) = N" using assms(2) by (simp_all add: round_msg_def msg_slot_def)
  show "\<not> c_roundNum (m_hdr m) < ps_roundNumbers s i" using assms(1) h by (auto simp: ps_fresh_def ps_slot_def split: if_splits)
  let ?t = "ps_count_packet (m_hdr m) s"
  have N: "N \<noteq> 0" "of_nat (length ms) \<noteq> N" using assms(3) u(1) by auto
  have c: "ps_roundNumbers ?t i = r \<and> ps_receive_count ?t i = of_nat (length (ms @ [m])) \<and> ps_norm_info ?t i = norm_maximum (ms @ [m])"
    using assms(1) h N by (auto simp: ps_count_packet_def ps_fresh_def ps_slot_def norm_maximum_def max_def add.commute Let_def word_gt_0 split: if_splits)
  have f: "of_nat (length (ms @ [m])) = (1 :: 8 word) \<longleftrightarrow> ms = []" using u(2) word_unat_eq_iff [of "of_nat (Suc (length ms)) :: 8 word" 1] by simp
  have d: "ps_data_slots ?t = ps_data_slots s" by (simp add: ps_count_packet_def Let_def)
  have "ps_data_slots (ps_process_data m ?t) k i = word_sum (ms @ [m]) k" if "cmd = TENSOR_COMM" "k < MAX_ENTRIES_PER_PACKET" for k
    using that assms(1) f c h(1) d by (auto simp: ps_process_data_def word_sum_def ps_slot_def Let_def split: if_splits)
  then show "ps_slot r cmd i (ms @ [m]) (if cmd = TENSOR_COMM then ps_process_data m ?t else ?t)"
    using c by (auto simp: ps_slot_def ps_process_data_def Let_def)
qed

lemma ps_round_message:
  assumes "if ms = [] then ps_fresh r s i else ps_slot r cmd i ms s" "round_msg l r N cmd i m" "length ms < unat N"
  shows "\<exists>rep s'. ps_message l msg0 m s = ((i, rep), s') \<and> ps_slot r cmd i (ms @ [m]) s'
    \<and> (if Suc (length ms) = unat N then \<exists>x. rep = Some x \<and> reply_to (ms @ [m]) cmd m x else rep = None)"
proof -
  define t where "t = (if cmd = TENSOR_COMM then ps_process_data m (ps_count_packet (m_hdr m) s) else ps_count_packet (m_hdr m) s)"
  note c = ps_counted [OF assms, folded t_def]
  have h: "c_agtr (m_hdr m) = i" "c_num_worker (m_hdr m) = N" "m_cmd m = cmd" using assms(2) by (simp_all add: round_msg_def msg_slot_def)
  have "ps_message l msg0 m s = (let (reply, s) = ps_answer msg0 m t in ((i, reply), s))"
    using assms(2) c(2) h by (auto simp: ps_message_def t_def round_msg_def Let_def)
  moreover have n: "ps_receive_count t i = N \<longleftrightarrow> Suc (length ms) = unat N"
  proof -
    have "unat (of_nat (Suc (length ms)) :: 8 word) = Suc (length ms)" using assms(3) unat_bound [of N] by (intro unat_small) simp
    then show ?thesis using c(1) word_unat_eq_iff [of "of_nat (Suc (length ms)) :: 8 word" N] by (simp add: ps_slot_def)
  qed
  moreover have "ps_slot r cmd i (ms @ [m]) (snd (ps_answer msg0 m t))" using c(1) by (simp add: ps_answer_def ps_slot_def Let_def)
  moreover have "reply_to (ms @ [m]) cmd m (broadcast_packet msg0 m (t\<lparr>ps_bitmap := f\<rparr>))" for f
  proof -
    have "host_bytes (map (\<lambda>k. ps_data_slots t k i) [0..<MAX_ENTRIES_PER_PACKET]) = host_bytes (map (word_sum (ms @ [m])) [0..<MAX_ENTRIES_PER_PACKET])"
      if "cmd = TENSOR_COMM" using c(1) that by (intro arg_cong [of _ _ host_bytes]) (auto simp: ps_slot_def)
    then show ?thesis using c(1) h host_bytes_length [of "map (word_sum (ms @ [m])) [0..<MAX_ENTRIES_PER_PACKET]"]
      by (auto simp: reply_to_def broadcast_packet_def assemble_reply_p4ml_hdrs_def ps_slot_def memcpy_def Let_def mult.commute)
  qed
  ultimately show ?thesis using h by (auto simp: ps_answer_def Let_def)
qed

subsection \<open>Bytes of a sum\<close>

lemma host_words_nth: "c < n \<Longrightarrow> host_words n bs ! c = be_word (rev (take 4 (drop (4 * c) bs)))"
proof (induction n arbitrary: c bs)
  case (Suc n)
  then show ?case by (cases c) (simp_all add: add.commute)
qed simp

lemma host_bytes_nth: "c < length ws \<Longrightarrow> j < 4 \<Longrightarrow> host_bytes ws ! (4 * c + j) = rev (be_bytes 4 (ws ! c)) ! j"
proof (induction ws arbitrary: c)
  case (Cons w ws)
  then show ?case by (cases c) (simp_all add: host_bytes_def nth_append)
qed simp

lemma four_bytes: "length bs = 4 \<Longrightarrow> be_nat (rev bs) = unat (bs ! 0) + 256 * unat (bs ! 1) + 256 ^ 2 * unat (bs ! 2) + 256 ^ 3 * unat (bs ! 3)"
proof -
  assume "length bs = 4"
  then have "length bs = Suc (Suc (Suc (Suc 0)))" by simp
  then obtain a b c d where "bs = [a, b, c, d]" unfolding length_Suc_conv length_0_conv by blast
  then show ?thesis by (simp add: numeral_2_eq_2 numeral_3_eq_3)
qed

definition byte_sum :: "8 word list list \<Rightarrow> nat \<Rightarrow> nat" where
  "byte_sum vs j = sum_list (map (\<lambda>v. unat (v ! j)) vs)"

lemma quad_sum:
  assumes "\<forall>v \<in> set vs. 4 * c + 4 \<le> length v"
  shows "sum_list (map (\<lambda>v. be_nat (rev (take 4 (drop (4 * c) v)))) vs) =
    byte_sum vs (4 * c) + 256 * byte_sum vs (4 * c + 1) + 256 ^ 2 * byte_sum vs (4 * c + 2) + 256 ^ 3 * byte_sum vs (4 * c + 3)"
  using assms
proof (induction vs)
  case (Cons v vs)
  have "be_nat (rev (take 4 (drop (4 * c) v))) = unat (v ! (4 * c)) + 256 * unat (v ! (4 * c + 1)) + 256 ^ 2 * unat (v ! (4 * c + 2)) + 256 ^ 3 * unat (v ! (4 * c + 3))"
    using Cons.prems by (subst four_bytes) (auto simp: min_def)
  then show ?case using Cons by (simp add: byte_sum_def)
qed (simp add: byte_sum_def)

lemma of_nat_sum_list: "of_nat (sum_list (map f xs)) = sum_list (map (\<lambda>x. of_nat (f x) :: 'a :: len word) xs)"
  by (induction xs) simp_all

lemma mod_mult_div: "0 < a \<Longrightarrow> k mod (a * b) div a = k div a mod (b :: nat)"
  by (simp add: mod_mult2_eq)

lemma byte_of_word: "j < 4 \<Longrightarrow> unat (rev (be_bytes 4 (w :: 32 word)) ! j) = unat w div 256 ^ j mod 256"
proof -
  assume "j < 4"
  then have j: "j = 0 \<or> j = 1 \<or> j = 2 \<or> j = 3" by auto
  have "unat w < 256 ^ 4" using unat_bound [of w] by simp
  then have "unat w div 256 ^ 3 < 256" by (simp add: less_mult_imp_div_less)
  moreover have "unat (of_nat k :: 8 word) = k mod 256" for k by (simp add: unat_of_nat)
  moreover have "rev (be_bytes 4 w) = [of_nat (unat w mod 256), of_nat (unat w mod 256 ^ 2 div 256), of_nat (unat w mod 256 ^ 3 div 256 ^ 2), of_nat (unat w div 256 ^ 3)]"
  proof -
    have four: "(4 :: nat) = Suc (Suc (Suc (Suc 0)))" by simp
    show ?thesis unfolding be_bytes_def four nat_bytes.simps by (simp add: mod_mod_cancel)
  qed
  moreover have "k mod 256 ^ 2 div 256 = k div 256 mod 256" "k mod 256 ^ 3 div 256 ^ 2 = k div 256 ^ 2 mod 256" for k :: nat
    using mod_mult_div [of 256 k 256] mod_mult_div [of "256 ^ 2" k 256] by simp_all
  ultimately show ?thesis using j by auto
qed

lemma digit_of_sum:
  fixes s0 s1 s2 s3 :: nat
  assumes "s0 < 256" "j \<ge> 1 \<Longrightarrow> s1 < 256" "j \<ge> 2 \<Longrightarrow> s2 < 256" "j \<ge> 3 \<Longrightarrow> s3 < 256" "j < 4"
  shows "(s0 + 256 * s1 + 256 ^ 2 * s2 + 256 ^ 3 * s3) mod 2 ^ 32 div 256 ^ j mod 256 = [s0, s1, s2, s3] ! j"
proof -
  have j: "j = 0 \<or> j = 1 \<or> j = 2 \<or> j = 3" using assms(5) by auto
  have m: "k mod 2 ^ 32 div 256 ^ j mod 256 = k div 256 ^ j mod 256" for k :: nat
  proof -
    have "k mod 2 ^ 32 = k mod (256 ^ j * 256 ^ (4 - j))" using assms(5) by (simp add: power_add [symmetric])
    then have "k mod 2 ^ 32 div 256 ^ j = k div 256 ^ j mod 256 ^ (4 - j)" by (simp add: mod_mult2_eq)
    moreover have "256 dvd (256 :: nat) ^ (4 - j)" using assms(5) by simp
    ultimately show ?thesis by (simp add: mod_mod_cancel)
  qed
  have pw: "k div 256 ^ 2 = k div 256 div 256" "k div 256 ^ 3 = k div 256 div 256 div 256" for k :: nat by (simp_all add: div_mult2_eq [symmetric])
  define k2 k1 S where k: "k2 = s2 + 256 * s3" "k1 = s1 + 256 * k2" "S = s0 + 256 * k1"
  have S: "s0 + 256 * s1 + 256 ^ 2 * s2 + 256 ^ 3 * s3 = S" by (simp add: k algebra_simps)
  have d: "S div 256 = k1" "j \<ge> 2 \<Longrightarrow> k1 div 256 = k2" "j = 3 \<Longrightarrow> k2 div 256 = s3" using assms by (simp_all add: k)
  have r: "S mod 256 = s0" "k1 mod 256 = s1 mod 256" "k2 mod 256 = s2 mod 256" using assms(1) unfolding k(3) k(2) k(1) by (simp_all only: mod_mult_self2 mod_less)
  from j show ?thesis unfolding m S
  proof (elim disjE)
    assume "j = 2"
    then show "S div 256 ^ j mod 256 = [s0, s1, s2, s3] ! j" using d(1,2) r assms by (simp only: pw) simp
  next
    assume "j = 3"
    then show "S div 256 ^ j mod 256 = [s0, s1, s2, s3] ! j" using d r assms by (simp only: pw) simp
  qed (use d(1) r assms in simp_all)
qed

text \<open>A byte of a sum of words depends on the bytes below it only: a carry goes to the next byte.\<close>

lemma bytes_of_sum:
  assumes "\<forall>v \<in> set vs. 4 * c + 4 \<le> length v" "\<forall>i \<le> j. byte_sum vs (4 * c + i) < 256" "j < 4"
  shows "unat (rev (be_bytes 4 (sum_list (map (\<lambda>v. be_word (rev (take 4 (drop (4 * c) v))) :: 32 word) vs))) ! j) = byte_sum vs (4 * c + j)"
proof -
  let ?S = "sum_list (map (\<lambda>v. be_nat (rev (take 4 (drop (4 * c) v)))) vs)" and ?b = "\<lambda>i. byte_sum vs (4 * c + i)"
  have "sum_list (map (\<lambda>v. be_word (rev (take 4 (drop (4 * c) v))) :: 32 word) vs) = of_nat ?S" by (simp add: be_word_def of_nat_sum_list)
  then have "unat (rev (be_bytes 4 (sum_list (map (\<lambda>v. be_word (rev (take 4 (drop (4 * c) v))) :: 32 word) vs))) ! j) = ?S mod 2 ^ 32 div 256 ^ j mod 256"
    using byte_of_word [OF assms(3)] by (simp add: unat_of_nat)
  also have "\<dots> = [?b 0, ?b 1, ?b 2, ?b 3] ! j" unfolding quad_sum [OF assms(1)]
    using digit_of_sum [OF assms(2) [rule_format] assms(2) [rule_format] assms(2) [rule_format] assms(2) [rule_format] assms(3), of 0 1 2 3] by simp
  also have "\<dots> = ?b j"
  proof -
    have "j = 0 \<or> j = 1 \<or> j = 2 \<or> j = 3" using assms(3) by auto
    then show ?thesis by auto
  qed
  finally show ?thesis .
qed

lemma reply_bytes:
  assumes "take 1024 v = host_bytes (map (word_sum ms) [0..<MAX_ENTRIES_PER_PACKET])" "\<forall>m \<in> set ms. length (c_vector (m_hdr m)) = 1024"
    and "\<forall>i \<le> k. byte_sum (map (\<lambda>m. c_vector (m_hdr m)) ms) i < 256" "k < 1024"
  shows "unat (v ! k) = byte_sum (map (\<lambda>m. c_vector (m_hdr m)) ms) k"
proof -
  let ?vs = "map (\<lambda>m. c_vector (m_hdr m)) ms" and ?c = "k div 4" and ?j = "k mod 4"
  have k: "4 * ?c + ?j = k" "?c < 256" "?j < 4" using assms(4) by auto
  have w: "word_sum ms ?c = sum_list (map (\<lambda>v. be_word (rev (take 4 (drop (4 * ?c) v))) :: 32 word) ?vs)"
    using k(2) by (simp add: word_sum_def host_words_nth MAX_ENTRIES_PER_PACKET_def comp_def)
  have "v ! k = host_bytes (map (word_sum ms) [0..<256]) ! (4 * ?c + ?j)"
    using assms(1,4) k(1) by (metis MAX_ENTRIES_PER_PACKET_def nth_take)
  also have "\<dots> = rev (be_bytes 4 (word_sum ms ?c)) ! ?j" using k(2,3) host_bytes_nth [of ?c "map (word_sum ms) [0..<256]" ?j] by simp
  finally have "unat (v ! k) = unat (rev (be_bytes 4 (word_sum ms ?c)) ! ?j)" by simp
  also have "\<dots> = byte_sum ?vs (4 * ?c + ?j)" unfolding w
  proof (rule bytes_of_sum [OF _ _ k(3)])
    show "\<forall>v \<in> set ?vs. 4 * ?c + 4 \<le> length v" using assms(2) k(2) by auto
    show "\<forall>i \<le> ?j. byte_sum ?vs (4 * ?c + i) < 256" using assms(3) k(1) by (metis add_le_cancel_left)
  qed
  finally show ?thesis using k(1) by simp
qed

subsection \<open>The receiving loop\<close>

definition replies_of :: "(16 word \<times> message option) list \<Rightarrow> message list" where
  "replies_of xs = concat (map (\<lambda>(i, r). case r of None \<Rightarrow> [] | Some m \<Rightarrow> [m]) xs)"

lemma ps_rx_thread_run:
  "\<forall>m \<in> set ms. \<not> m_shutdown m \<Longrightarrow>
   ps_rx_thread l msg0 ms s = (replies_of (fst (run_steps (ps_message l msg0) ms s)), snd (run_steps (ps_message l msg0) ms s))"
  by (induction ms arbitrary: s) (auto simp: replies_of_def Let_def case_prod_beta)

lemma ps_message_reply_slot:
  "ps_message l msg0 m s = ((i, Some x), s') \<Longrightarrow> c_agtr (m_hdr x) = i"
  by (auto simp: ps_message_def ps_answer_def broadcast_packet_def assemble_reply_p4ml_hdrs_def Let_def split: if_splits)

lemma replies_at_slot:
  "filter (\<lambda>x. c_agtr (m_hdr x) = i) (replies_of (fst (run_steps (ps_message l msg0) ms s))) =
   replies_of (filter (\<lambda>x. fst x = i) (fst (run_steps (ps_message l msg0) ms s)))"
proof (induction ms arbitrary: s)
  case (Cons m ms)
  obtain j r s1 where m: "ps_message l msg0 m s = ((j, r), s1)" by (metis surj_pair)
  then show ?case using Cons.IH [of s1] ps_message_reply_slot [of l msg0 m s j _ s1]
    by (cases r) (auto simp: replies_of_def Let_def case_prod_beta)
qed (simp add: replies_of_def)

lemma ps_round_run:
  assumes "ps_fresh r s i" "\<forall>m \<in> set ms. round_msg l r N cmd i m" "length ms \<le> unat N" "ms \<noteq> []"
  shows "\<exists>rep. run_steps (ps_message l msg0) ms s = (replicate (length ms - 1) (i, None) @ [(i, rep)], snd (run_steps (ps_message l msg0) ms s))
    \<and> ps_slot r cmd i ms (snd (run_steps (ps_message l msg0) ms s))
    \<and> (if length ms = unat N then \<exists>x. rep = Some x \<and> reply_to ms cmd (last ms) x else rep = None)"
  using assms
proof (induction ms rule: rev_induct)
  case (snoc m ms)
  obtain xs s1 where a: "run_steps (ps_message l msg0) ms s = (xs, s1)" by fastforce
  have "if ms = [] then ps_fresh r s1 i \<and> xs = [] else ps_slot r cmd i ms s1 \<and> xs = replicate (length ms) (i, None)"
  proof (cases "ms = []")
    case False
    moreover have "length ms \<noteq> unat N" "replicate (length ms - 1) (i, None) @ [(i, None)] = replicate (length ms) (i, None :: message option)"
      using snoc.prems(3) False by (simp_all add: replicate_append_same Suc_diff_1 flip: replicate_Suc)
    ultimately show ?thesis using snoc.IH snoc.prems a by auto
  qed (use a snoc.prems in simp)
  moreover from this obtain rep s' where "ps_message l msg0 m s1 = ((i, rep), s')" "ps_slot r cmd i (ms @ [m]) s'"
      "if Suc (length ms) = unat N then \<exists>x. rep = Some x \<and> reply_to (ms @ [m]) cmd m x else rep = None"
    using ps_round_message [of ms r s1 i cmd l N m msg0] snoc.prems(2,3) by (auto split: if_splits)
  ultimately show ?case using a by (auto simp: run_steps_snoc Let_def split: if_splits)
qed simp

lemma server_round_bytes:
  fixes ms i
  defines "ps \<equiv> filter (\<lambda>m. msg_slot m = i) ms"
  assumes "\<forall>m \<in> set ms. \<not> m_shutdown m" "ps_fresh r s i" "\<forall>m \<in> set ps. round_msg l r N TENSOR_COMM i m \<and> length (c_vector (m_hdr m)) = 1024"
    and "length ps = unat N" "0 < unat N" "\<forall>k < 1024. byte_sum (map (\<lambda>m. c_vector (m_hdr m)) ps) k < 256"
  shows "\<exists>x. filter (\<lambda>x. c_agtr (m_hdr x) = i) (fst (ps_rx_thread l msg0 ms s)) = [x]
    \<and> m_type x = 0x0d00 \<and> m_key x = m_key (last ps) \<and> c_roundNum (m_hdr x) = r \<and> c_norm_info (m_hdr x) = norm_maximum ps
    \<and> (\<forall>k < 1024. unat (c_vector (m_hdr x) ! k) = byte_sum (map (\<lambda>m. c_vector (m_hdr m)) ps) k)
    \<and> ps_roundNumbers (snd (ps_rx_thread l msg0 ms s)) i = r \<and> ps_receive_count (snd (ps_rx_thread l msg0 ms s)) i = N"
proof -
  have ne: "ps \<noteq> []" using assms(5,6) by auto
  obtain x s' where x: "run_steps (ps_message l msg0) ps s = (replicate (length ps - 1) (i, None) @ [(i, Some x)], s')"
      "ps_slot r TENSOR_COMM i ps s'" "reply_to ps TENSOR_COMM (last ps) x"
    using ps_round_run [OF assms(3) _ _ ne, of l N TENSOR_COMM msg0] assms(4,5) by auto
  have v: "take 1024 (c_vector (m_hdr x)) = host_bytes (map (word_sum ps) [0..<MAX_ENTRIES_PER_PACKET])"
    using x(3) by (simp add: reply_to_def MAX_ENTRIES_PER_PACKET_def)
  have "c_roundNum (m_hdr (last ps)) = r" using assms(4) ne by (simp add: round_msg_def)
  moreover have "filter (\<lambda>x. c_agtr (m_hdr x) = i) (fst (ps_rx_thread l msg0 ms s)) = [x]"
    using ps.run_slot [of i s s l msg0 ms] x(1)
    by (simp add: ps_rx_thread_run [OF assms(2)] replies_at_slot ps_def same_ps_def) (simp add: replies_of_def)
  moreover have "ps_roundNumbers (snd (ps_rx_thread l msg0 ms s)) i = r" "ps_receive_count (snd (ps_rx_thread l msg0 ms s)) i = N"
    using ps.run_slot [of i s s l msg0 ms] x(1,2) assms(5) by (simp_all add: ps_rx_thread_run [OF assms(2)] ps_def same_ps_def ps_slot_def)
  moreover have "unat (c_vector (m_hdr x) ! k) = byte_sum (map (\<lambda>m. c_vector (m_hdr m)) ps) k" if "k < 1024" for k
    using reply_bytes [OF v _ _ that] assms(4,7) that by auto
  ultimately show ?thesis using x(3) by (auto simp: reply_to_def)
qed

text \<open>
  C8. The software server sums bytes: when one gradient message of every worker reaches a fresh slot,
  whatever other messages come in between, the server sends exactly one reply for that slot, to the last
  message; it carries the round, the largest norm and, as long as no sum of bytes exceeds 255, in every byte
  the sum of the workers' bytes.
\<close>

theorem server_sums:
  fixes ms i
  defines "ps \<equiv> filter (\<lambda>m. msg_slot m = i) ms"
  assumes "\<forall>m \<in> set ms. \<not> m_shutdown m" "ps_fresh r s i" "\<forall>m \<in> set ps. round_msg l r N TENSOR_COMM i m \<and> length (c_vector (m_hdr m)) = 1024"
    and "length ps = unat N" "0 < unat N" "\<forall>k < 1024. byte_sum (map (\<lambda>m. c_vector (m_hdr m)) ps) k < 256"
  shows "\<exists>x. filter (\<lambda>x. c_agtr (m_hdr x) = i) (fst (ps_rx_thread l msg0 ms s)) = [x]
    \<and> m_type x = 0x0d00 \<and> m_key x = m_key (last ps) \<and> c_roundNum (m_hdr x) = r \<and> c_norm_info (m_hdr x) = norm_maximum ps
    \<and> (\<forall>k < 1024. unat (c_vector (m_hdr x) ! k) = byte_sum (map (\<lambda>m. c_vector (m_hdr m)) ps) k)
    \<and> ps_roundNumbers (snd (ps_rx_thread l msg0 ms s)) i = r \<and> ps_receive_count (snd (ps_rx_thread l msg0 ms s)) i = N"
  using server_round_bytes [OF assms(2-7) [unfolded ps_def]] unfolding ps_def .

definition worker_msg :: "64 word \<Rightarrow> 8 word \<Rightarrow> message" where
  "worker_msg key b = \<lparr>m_type = 0x0c00, m_hdr = assemble_dpdk_p4ml_hdrs True 0 NUM_WORKER 1 (Some (replicate 1024 b)) key 1024 blank_hdr,
     m_key = key, m_cmd = TENSOR_COMM, m_len = 1024, m_shutdown = False\<rparr>"

lemma worker_msg_fields:
  "m_type (worker_msg key b) = 0x0c00" "m_cmd (worker_msg key b) = TENSOR_COMM" "\<not> m_shutdown (worker_msg key b)"
  "c_roundNum (m_hdr (worker_msg key b)) = 1" "c_num_worker (m_hdr (worker_msg key b)) = 2"
  "msg_slot (worker_msg key b) = of_nat (unat key mod 2500)" "c_vector (m_hdr (worker_msg key b)) = replicate 1024 b"
  by (simp_all add: worker_msg_def msg_slot_def assemble_dpdk_p4ml_hdrs_def gradient_fields_def NUM_WORKER_def memcpy_def blank_hdr_def
      MAX_AGTR_COUNT_def DPDK_ELEMENT_NUM_def MAX_ENTRIES_PER_PACKET_def Let_def)

theorem server_sums_witness:
  "\<exists>x. filter (\<lambda>x. c_agtr (m_hdr x) = 7) (fst (ps_rx_thread 1 (worker_msg 0 0) [worker_msg 7 3, worker_msg 8 9, worker_msg 2507 4] ps_init)) = [x]
    \<and> m_key x = 2507 \<and> unat (c_vector (m_hdr x) ! 100) = 7"
proof -
  let ?ms = "[worker_msg 7 3, worker_msg 8 9, worker_msg 2507 4]"
  have f: "filter (\<lambda>m. msg_slot m = 7) ?ms = [worker_msg 7 3, worker_msg 2507 4]" by (simp add: worker_msg_fields)
  have b: "byte_sum (map (\<lambda>m. c_vector (m_hdr m)) [worker_msg 7 3, worker_msg 2507 4]) k = 7" if "k < 1024" for k
    using that by (simp add: byte_sum_def worker_msg_fields)
  have p: "\<forall>m \<in> set ?ms. \<not> m_shutdown m" "ps_fresh 1 ps_init 7"
      "\<forall>m \<in> set (filter (\<lambda>m. msg_slot m = 7) ?ms). round_msg 1 1 2 TENSOR_COMM 7 m \<and> length (c_vector (m_hdr m)) = 1024"
      "length (filter (\<lambda>m. msg_slot m = 7) ?ms) = unat (2 :: 8 word)" "0 < unat (2 :: 8 word)"
      "\<forall>k < 1024. byte_sum (map (\<lambda>m. c_vector (m_hdr m)) (filter (\<lambda>m. msg_slot m = 7) ?ms)) k < 256"
    unfolding f using b by (simp_all add: worker_msg_fields ps_fresh_def ps_init_def round_msg_def)
  have "m_key (last (filter (\<lambda>m. msg_slot m = 7) ?ms)) = 2507" unfolding f by (simp add: worker_msg_def)
  then show ?thesis using server_sums [OF p, of "worker_msg 0 0"] b [of 100] unfolding f by auto
qed

end
