(* ===== verification/Dpdk_Client.thy ===== *)
theory Dpdk_Client
  imports Dpdk_Server
begin

text \<open>
  The worker's side of the aggregation protocol, \<^verbatim>\<open>dpdk/client/dpdk_manager.cc\<close>: cutting a tensor into
  jobs, sending a job when its slot is free, receiving the results, norms, polling and the reset after a
  time-out. The build options \<open>SW_PS\<close> and \<open>use_compression\<close> are arguments. The memory of the process is a
  function from addresses to bytes, so that the place to which a result is copied is part of the model.

  A run is a sequence of these operations. The code takes its locks around each of them, or gives the data
  to one thread only. The set-up of the network card, the buffers of the packets, timing and printing are
  left out; the value of a local variable or a structure that the code does not set is a parameter.
\<close>

section \<open>State\<close>

record job =
  j_key :: nat
  j_data :: nat
  j_len :: nat
  j_cmd :: int
  j_agtr_index :: nat

record client =
  dpdkKey :: "64 word"
  pushpulljobQueue :: "job list"
  slot_roundnum :: "nat \<Rightarrow> 32 word"
  slot_ready :: "nat \<Rightarrow> bool"
  slot_dpdk_key :: "nat \<Rightarrow> nat"
  dpdk_key_to_tensor_key :: "nat \<Rightarrow> nat"
  dpdk_key_to_mutex_idx :: "nat \<Rightarrow> nat"
  cpubuff_table :: "nat \<Rightarrow> nat option"
  curr_mutex_idx :: nat
  tensor_key_part_total :: "nat \<Rightarrow> int"
  tensor_key_part_finish :: "nat \<Rightarrow> int"
  finishKeys :: "nat list"
  norm_ready :: "nat \<Rightarrow> bool"
  norm_value :: "nat \<Rightarrow> 32 word"
  memory :: "nat \<Rightarrow> 8 word"

definition DPDK_KEY_TOTAL :: nat where
  "DPDK_KEY_TOTAL = 1200000"

definition dpdk_init :: "client \<Rightarrow> client" where
  "dpdk_init w =
     w\<lparr>dpdkKey := 0, curr_mutex_idx := 0,
       slot_roundnum := (\<lambda>i. if i < MAX_AGTR_COUNT + NORM_SLOT then 0 else slot_roundnum w i),
       slot_ready := (\<lambda>i. if i < MAX_AGTR_COUNT + NORM_SLOT then True else slot_ready w i),
       slot_dpdk_key := (\<lambda>i. if i < MAX_AGTR_COUNT + NORM_SLOT then 0 else slot_dpdk_key w i)\<rparr>"

section \<open>Cutting a tensor into jobs\<close>

definition GetNewKey :: "client \<Rightarrow> 64 word \<times> client" where
  "GetNewKey w = (dpdkKey w, w\<lparr>dpdkKey := dpdkKey w + 1\<rparr>)"

text \<open>One turn of the loop, and the loop.\<close>

definition push_part :: "nat \<Rightarrow> nat \<Rightarrow> nat \<Rightarrow> int \<Rightarrow> nat \<Rightarrow> nat \<Rightarrow> nat \<Rightarrow> client \<Rightarrow> client" where
  "push_part tensor_key data len cmd mutex_idx bound accumulated w =
     (let (k, w) = GetNewKey w; key = unat k mod DPDK_KEY_TOTAL;
          w = w\<lparr>dpdk_key_to_tensor_key := (dpdk_key_to_tensor_key w)(key := tensor_key),
                dpdk_key_to_mutex_idx := (dpdk_key_to_mutex_idx w)(key := mutex_idx)\<rparr>;
          job_len = min bound (len - accumulated);
          w = (if cmd = TENSOR_COMM then w\<lparr>cpubuff_table := (cpubuff_table w)(key := Some (data + accumulated))\<rparr> else w)
      in w\<lparr>pushpulljobQueue := pushpulljobQueue w
             @ [\<lparr>j_key = key, j_data = data + accumulated, j_len = job_len, j_cmd = cmd, j_agtr_index = key mod MAX_AGTR_COUNT\<rparr>]\<rparr>)"

function push_parts :: "nat \<Rightarrow> nat \<Rightarrow> nat \<Rightarrow> int \<Rightarrow> nat \<Rightarrow> nat \<Rightarrow> nat \<Rightarrow> client \<Rightarrow> client" where
  "push_parts tensor_key data len cmd mutex_idx bound accumulated w =
     (if accumulated < len \<and> 0 < bound
      then push_parts tensor_key data len cmd mutex_idx bound (accumulated + bound)
             (push_part tensor_key data len cmd mutex_idx bound accumulated w)
      else w)"
  by pat_completeness auto
termination
  by (relation "measure (\<lambda>(_, _, len, _, _, _, accumulated, _). len - accumulated)") auto

declare push_parts.simps [simp del]

definition part_bound :: "bool \<Rightarrow> nat" where
  "part_bound use_compression = (if use_compression then DPDK_ELEMENT_NUM else MAX_ENTRIES_PER_PACKET)"

definition DPDKPushPull :: "bool \<Rightarrow> nat \<Rightarrow> nat \<Rightarrow> nat \<Rightarrow> int \<Rightarrow> string \<Rightarrow> client \<Rightarrow> client" where
  "DPDKPushPull use_compression tensor_key data len cmd tensor_name w =
     (let cmd = (if tensor_name ! 7 \<noteq> CHR ''G'' then TENSOR_INIT else cmd);
          bound = part_bound use_compression;
          mutex_idx = curr_mutex_idx w;
          w = w\<lparr>curr_mutex_idx := (curr_mutex_idx w + 1) mod DPDK_KEY_TOTAL,
                tensor_key_part_total := (tensor_key_part_total w)(mutex_idx := int ((len + bound - 1) div bound)),
                tensor_key_part_finish := (tensor_key_part_finish w)(mutex_idx := 0)\<rparr>
      in push_parts tensor_key data len cmd mutex_idx bound 0 w)"

section \<open>Sending\<close>

definition read_memory :: "client \<Rightarrow> nat \<Rightarrow> nat \<Rightarrow> 8 word list" where
  "read_memory w a n = map (memory w) [a..<a + n]"

definition job_header :: "bool \<Rightarrow> bool \<Rightarrow> nat \<Rightarrow> p4mlhdr \<Rightarrow> job \<Rightarrow> client \<Rightarrow> p4mlhdr" where
  "job_header SW_PS use_compression host h0 j w =
     (let round_num = slot_roundnum w (j_agtr_index j); key = of_nat (j_key j)
      in if use_compression
         then assemble_dpdk_p4ml_hdrs SW_PS host NUM_WORKER round_num (Some (read_memory w (j_data j) (j_len j))) key (j_len j) h0
         else assemble_normal_hdrs SW_PS host NUM_WORKER round_num (Some (read_memory w (j_data j) (4 * j_len j))) key (j_len j) h0)"

text \<open>One turn of the sending thread: the first job of the queue, if its slot is free.\<close>

definition TxThread_step :: "bool \<Rightarrow> bool \<Rightarrow> nat \<Rightarrow> p4mlhdr \<Rightarrow> client \<Rightarrow> message option \<times> client" where
  "TxThread_step SW_PS use_compression host h0 w =
     (case pushpulljobQueue w of
        [] \<Rightarrow> (None, w)
      | j # js \<Rightarrow>
          if slot_ready w (j_agtr_index j)
          then let w = w\<lparr>slot_ready := (slot_ready w)(j_agtr_index j := False),
                         slot_dpdk_key := (slot_dpdk_key w)(j_agtr_index j := j_key j)\<rparr>;
                   msg = \<lparr>m_type = (if SW_PS then 0x0c00 else 0x0a00), m_hdr = job_header SW_PS use_compression host h0 j w,
                          m_key = of_nat (j_key j), m_cmd = j_cmd j, m_len = int (j_len j), m_shutdown = False\<rparr>
               in (Some msg, w\<lparr>pushpulljobQueue := js\<rparr>)
          else (None, w))"

definition CommunicateNorm_send :: "bool \<Rightarrow> nat \<Rightarrow> p4mlhdr \<Rightarrow> int \<Rightarrow> nat \<Rightarrow> 32 word \<Rightarrow> client \<Rightarrow> message \<times> client" where
  "CommunicateNorm_send SW_PS host h0 len0 key max_norm w =
     (let agtr_index = MAX_AGTR_COUNT + key mod NORM_SLOT; round_num = slot_roundnum w agtr_index
      in (\<lparr>m_type = (if SW_PS then 0x0c00 else 0x0a00), m_hdr = assemble_norm_pkt SW_PS host NUM_WORKER round_num (of_nat key) max_norm h0,
           m_key = of_nat key, m_cmd = TENSOR_NORM, m_len = len0, m_shutdown = False\<rparr>,
          w\<lparr>norm_ready := (norm_ready w)(key := False)\<rparr>))"

section \<open>Receiving\<close>

definition recv_slot :: "bool \<Rightarrow> nat \<Rightarrow> message \<Rightarrow> nat" where
  "recv_slot SW_PS unset msg =
     (if SW_PS then unat (c_agtr (m_hdr msg))
      else if m_cmd msg = TENSOR_NORM then MAX_AGTR_COUNT + unat (m_key msg) mod NORM_SLOT
      else if m_cmd msg = TENSOR_COMM then (unat (c_agtr (m_hdr msg)) - (CIRC_TIME - 1)) div CIRC_TIME
      else unset)"

definition right_format :: "bool \<Rightarrow> nat \<Rightarrow> message \<Rightarrow> bool" where
  "right_format SW_PS lcore_id msg \<longleftrightarrow>
     m_type msg = (if SW_PS then 0x0d00 + of_nat lcore_id - 1 else 0x0a00) \<and> m_cmd msg \<le> TENSOR_INIT \<and> unat (m_key msg) < DPDK_KEY_TOTAL"

definition copy_result :: "bool \<Rightarrow> message \<Rightarrow> client \<Rightarrow> client" where
  "copy_result use_compression msg w =
     (case cpubuff_table w (unat (m_key msg)) of
        None \<Rightarrow> w
      | Some a \<Rightarrow>
          let n = nat (if use_compression then m_len msg else 4 * m_len msg)
          in w\<lparr>memory := (\<lambda>x. if a \<le> x \<and> x < a + n then c_vector (m_hdr msg) ! (x - a) else memory w x)\<rparr>)"

definition part_finished :: "nat \<Rightarrow> client \<Rightarrow> client" where
  "part_finished key w =
     (let tensor_key = dpdk_key_to_tensor_key w key; mutex_idx = dpdk_key_to_mutex_idx w key;
          w = w\<lparr>tensor_key_part_finish := (tensor_key_part_finish w)(mutex_idx := tensor_key_part_finish w mutex_idx + 1)\<rparr>
      in if tensor_key_part_finish w mutex_idx = tensor_key_part_total w mutex_idx
         then w\<lparr>finishKeys := finishKeys w @ [tensor_key]\<rparr> else w)"

definition RxThread_message :: "bool \<Rightarrow> bool \<Rightarrow> nat \<Rightarrow> nat \<Rightarrow> message \<Rightarrow> client \<Rightarrow> client" where
  "RxThread_message SW_PS use_compression lcore_id unset msg w =
     (let key = unat (m_key msg); i = recv_slot SW_PS unset msg
      in if \<not> right_format SW_PS lcore_id msg then w
         else if c_roundNum (m_hdr msg) \<noteq> slot_roundnum w i then w
         else let w = w\<lparr>slot_roundnum := (slot_roundnum w)(i := slot_roundnum w i + 1)\<rparr>
              in if m_cmd msg = TENSOR_NORM
                 then w\<lparr>norm_value := (norm_value w)(key := c_norm_info (m_hdr msg)), norm_ready := (norm_ready w)(key := True)\<rparr>
                 else let w = (if m_cmd msg = TENSOR_COMM then copy_result use_compression msg w else w);
                          w = part_finished key w
                      in w\<lparr>slot_ready := (slot_ready w)(i := True), slot_dpdk_key := (slot_dpdk_key w)(i := 0)\<rparr>)"

section \<open>Polling and resetting\<close>

definition PollFinishKey :: "client \<Rightarrow> int \<times> client" where
  "PollFinishKey w = (case finishKeys w of [] \<Rightarrow> (- 1, w) | k # ks \<Rightarrow> (int k, w\<lparr>finishKeys := ks\<rparr>))"

definition reset_slot :: "nat \<Rightarrow> client \<Rightarrow> client" where
  "reset_slot i w =
     (if slot_ready w i then w
      else let w = w\<lparr>slot_roundnum := (slot_roundnum w)(i := slot_roundnum w i + 1), slot_ready := (slot_ready w)(i := True)\<rparr>;
               w = part_finished (slot_dpdk_key w i) w
           in w\<lparr>slot_dpdk_key := (slot_dpdk_key w)(i := 0)\<rparr>)"

definition Reset :: "client \<Rightarrow> client" where
  "Reset w = fold reset_slot [0..<MAX_AGTR_COUNT + NORM_SLOT] w"

definition ShutdownSignal :: "message \<Rightarrow> message" where
  "ShutdownSignal msg_body = msg_body\<lparr>m_type := 0x0c00, m_shutdown := True\<rparr>"

section \<open>Jobs: behaviour\<close>

definition part_count :: "nat \<Rightarrow> nat \<Rightarrow> nat" where
  "part_count len bound = (len + bound - 1) div bound"

lemma part_count_step:
  assumes "0 < bound"
  shows "part_count 0 bound = 0" "0 < len \<Longrightarrow> part_count len bound = Suc (part_count (len - bound) bound)"
proof -
  show "part_count 0 bound = 0" using assms by (simp add: part_count_def)
  assume l: "0 < len"
  have e: "len + bound - 1 = (len - 1) + bound" using l assms by simp
  have "part_count len bound = ((len - 1) + bound) div bound" unfolding part_count_def e ..
  also have "\<dots> = Suc ((len - 1) div bound)" using assms div_add_self2 [of bound "len - 1"] by simp
  finally have "part_count len bound = Suc ((len - 1) div bound)" .
  moreover have "part_count (len - bound) bound = (len - 1) div bound"
    using assms l by (cases "bound \<le> len") (simp_all add: part_count_def)
  ultimately show "part_count len bound = Suc (part_count (len - bound) bound)" by simp
qed

definition key_at :: "client \<Rightarrow> nat \<Rightarrow> nat" where
  "key_at w j = unat (dpdkKey w + of_nat j) mod DPDK_KEY_TOTAL"

definition part_job :: "nat \<Rightarrow> nat \<Rightarrow> int \<Rightarrow> nat \<Rightarrow> nat \<Rightarrow> nat \<Rightarrow> job" where
  "part_job data len cmd bound key accumulated =
     \<lparr>j_key = key, j_data = data + accumulated, j_len = min bound (len - accumulated), j_cmd = cmd, j_agtr_index = key mod MAX_AGTR_COUNT\<rparr>"

lemma push_part_fields:
  fixes t d len cmd x bound acc w
  defines "w' \<equiv> push_part t d len cmd x bound acc w"
  shows "pushpulljobQueue w' = pushpulljobQueue w @ [part_job d len cmd bound (key_at w 0) acc]" "dpdkKey w' = dpdkKey w + 1"
    "tensor_key_part_total w' = tensor_key_part_total w" "tensor_key_part_finish w' = tensor_key_part_finish w"
  by (simp_all add: w'_def push_part_def GetNewKey_def part_job_def key_at_def Let_def)

lemma push_parts_queue:
  assumes "0 < bound"
  shows "pushpulljobQueue (push_parts t d len cmd x bound acc w) =
      pushpulljobQueue w @ map (\<lambda>j. part_job d len cmd bound (key_at w j) (acc + j * bound)) [0..<part_count (len - acc) bound]
    \<and> tensor_key_part_total (push_parts t d len cmd x bound acc w) = tensor_key_part_total w
    \<and> tensor_key_part_finish (push_parts t d len cmd x bound acc w) = tensor_key_part_finish w"
  using assms
proof (induction t d len cmd x bound acc w rule: push_parts.induct)
  case (1 t d len cmd x bound acc w)
  show ?case
  proof (cases "acc < len")
    case True
    let ?w = "push_part t d len cmd x bound acc w"
    have n: "part_count (len - acc) bound = Suc (part_count (len - (acc + bound)) bound)"
      using part_count_step(2) [OF 1(2), of "len - acc"] True by simp
    have k: "key_at ?w j = key_at w (Suc j)" for j by (simp add: key_at_def push_part_fields add.assoc)
    have "map (\<lambda>j. part_job d len cmd bound (key_at w j) (acc + j * bound)) [0..<Suc (part_count (len - (acc + bound)) bound)] =
        part_job d len cmd bound (key_at w 0) acc
        # map (\<lambda>j. part_job d len cmd bound (key_at ?w j) (acc + bound + j * bound)) [0..<part_count (len - (acc + bound)) bound]"
      by (simp add: upt_conv_Cons k map_Suc_upt [symmetric] comp_def add.assoc del: upt_Suc)
    then show ?thesis using 1 True unfolding n push_parts.simps [of t d len cmd x bound acc w] by (simp add: push_part_fields)
  next
    case False
    then show ?thesis using part_count_step(1) [OF 1(2)] push_parts.simps [of t d len cmd x bound acc w] by simp
  qed
qed

lemma parts_concat:
  assumes "0 < bound"
  shows "concat (map (\<lambda>j. [d + j * bound..<d + j * bound + min bound (len - j * bound)]) [0..<part_count len bound]) = [d..<d + len]"
  using assms
proof (induction len arbitrary: d rule: less_induct)
  case (less len)
  show ?case
  proof (cases "len = 0")
    case False
    let ?n = "part_count (len - bound) bound"
    have n: "part_count len bound = Suc ?n" using part_count_step(2) [OF assms] False by simp
    have "concat (map (\<lambda>j. [d + bound + j * bound..<d + bound + j * bound + min bound (len - bound - j * bound)]) [0..<?n]) = [d + bound..<d + bound + (len - bound)]"
      using less.IH [of "len - bound" "d + bound"] False assms by simp
    moreover have "map (\<lambda>j. [d + j * bound..<d + j * bound + min bound (len - j * bound)]) [0..<Suc ?n] =
        [d..<d + min bound len] # map (\<lambda>j. [d + bound + j * bound..<d + bound + j * bound + min bound (len - bound - j * bound)]) [0..<?n]"
      by (simp add: upt_conv_Cons map_Suc_upt [symmetric] comp_def add.assoc diff_diff_add del: upt_Suc)
    moreover have "[d..<d + min bound len] @ [d + bound..<d + bound + (len - bound)] = [d..<d + len]"
      using upt_add_eq_append [of d "d + bound" "len - bound"] by (cases "bound \<le> len") (simp_all add: min_def)
    ultimately show ?thesis unfolding n by simp
  qed (use part_count_step(1) [OF assms] in simp)
qed

text \<open>
  C21. The parts of a compressed tensor: the jobs of a push-pull cover the bytes of the tensor in order,
  without gaps or overlaps, none has more bytes than a packet holds, each uses the slot of its key, and
  the number of parts to wait for is the number of jobs.
\<close>

theorem parts_cover:
  assumes "tensor_name ! 7 = CHR ''G''"
  shows "\<exists>jobs. pushpulljobQueue (DPDKPushPull True t data len cmd tensor_name w) = pushpulljobQueue w @ jobs
    \<and> tensor_key_part_total (DPDKPushPull True t data len cmd tensor_name w) (curr_mutex_idx w) = int (length jobs)
    \<and> tensor_key_part_finish (DPDKPushPull True t data len cmd tensor_name w) (curr_mutex_idx w) = 0
    \<and> concat (map (\<lambda>j. [j_data j..<j_data j + j_len j]) jobs) = [data..<data + len]
    \<and> list_all (\<lambda>j. j_len j \<le> DPDK_ELEMENT_NUM \<and> j_key j < DPDK_KEY_TOTAL \<and> j_agtr_index j = j_key j mod MAX_AGTR_COUNT \<and> j_cmd j = cmd) jobs"
proof -
  define w0 where "w0 = w\<lparr>curr_mutex_idx := (curr_mutex_idx w + 1) mod DPDK_KEY_TOTAL,
    tensor_key_part_total := (tensor_key_part_total w)(curr_mutex_idx w := int (part_count len 1024)),
    tensor_key_part_finish := (tensor_key_part_finish w)(curr_mutex_idx w := 0)\<rparr>"
  have b: "part_bound True = 1024" "DPDK_ELEMENT_NUM = 1024" by (simp_all add: part_bound_def DPDK_ELEMENT_NUM_def MAX_ENTRIES_PER_PACKET_def)
  have p: "DPDKPushPull True t data len cmd tensor_name w = push_parts t data len cmd (curr_mutex_idx w) 1024 0 w0"
    using assms by (simp add: DPDKPushPull_def b w0_def part_count_def Let_def)
  let ?jobs = "map (\<lambda>j. part_job data len cmd 1024 (key_at w0 j) (0 + j * 1024)) [0..<part_count (len - 0) 1024]"
  have q: "pushpulljobQueue (DPDKPushPull True t data len cmd tensor_name w) = pushpulljobQueue w0 @ ?jobs"
      "tensor_key_part_total (DPDKPushPull True t data len cmd tensor_name w) = tensor_key_part_total w0"
      "tensor_key_part_finish (DPDKPushPull True t data len cmd tensor_name w) = tensor_key_part_finish w0"
    unfolding p using push_parts_queue [of 1024 t data len cmd "curr_mutex_idx w" 0 w0] by simp_all
  have "concat (map (\<lambda>j. [j_data j..<j_data j + j_len j]) ?jobs) = [data..<data + len]"
    using parts_concat [of 1024 data len] by (simp add: part_job_def comp_def)
  then show ?thesis unfolding q
    by (intro exI [of _ ?jobs]) (simp add: w0_def list_all_iff part_job_def b key_at_def DPDK_KEY_TOTAL_def)
qed

definition idle_client :: client where
  "idle_client = \<lparr>dpdkKey = 0, pushpulljobQueue = [], slot_roundnum = (\<lambda>_. 0), slot_ready = (\<lambda>_. True), slot_dpdk_key = (\<lambda>_. 0),
     dpdk_key_to_tensor_key = (\<lambda>_. 0), dpdk_key_to_mutex_idx = (\<lambda>_. 0), cpubuff_table = (\<lambda>_. None), curr_mutex_idx = 0,
     tensor_key_part_total = (\<lambda>_. 0), tensor_key_part_finish = (\<lambda>_. 0), finishKeys = [], norm_ready = (\<lambda>_. False), norm_value = (\<lambda>_. 0),
     memory = (\<lambda>_. 0)\<rparr>"

theorem parts_cover_witness:
  "\<exists>jobs. pushpulljobQueue (DPDKPushPull True 5 100 3000 TENSOR_COMM ''byteps.Gradient.w'' idle_client) = jobs
    \<and> concat (map (\<lambda>j. [j_data j..<j_data j + j_len j]) jobs) = [100..<3100]"
  using parts_cover [of "''byteps.Gradient.w''" 5 100 3000 TENSOR_COMM idle_client] by (auto simp: idle_client_def)

text \<open>
  C40. The parts of an uncompressed tensor overlap: without compression a job is 256 numbers of four
  bytes, but the next job starts 256 bytes later, inside the bytes of the job before, so that the numbers are
  not sent one after the other.
\<close>

theorem uncompressed_overlap:
  assumes "tensor_name ! 7 = CHR ''G''" "256 < len"
  shows "\<exists>j0 j1 js. pushpulljobQueue (DPDKPushPull False t data len cmd tensor_name w) = pushpulljobQueue w @ j0 # j1 # js
    \<and> j_data j0 = data \<and> j_len j0 = 256 \<and> j_data j1 = data + 256 \<and> j_data j1 < j_data j0 + 4 * j_len j0"
proof -
  define w0 where "w0 = w\<lparr>curr_mutex_idx := (curr_mutex_idx w + 1) mod DPDK_KEY_TOTAL,
    tensor_key_part_total := (tensor_key_part_total w)(curr_mutex_idx w := int (part_count len 256)),
    tensor_key_part_finish := (tensor_key_part_finish w)(curr_mutex_idx w := 0)\<rparr>"
  have p: "DPDKPushPull False t data len cmd tensor_name w = push_parts t data len cmd (curr_mutex_idx w) 256 0 w0"
    using assms(1) by (simp add: DPDKPushPull_def part_bound_def MAX_ENTRIES_PER_PACKET_def w0_def part_count_def Let_def)
  have "part_count len 256 = Suc (Suc (part_count (len - 256 - 256) 256))" using part_count_step(2) [of 256] assms(2) by simp
  then have "[0..<part_count len 256] = 0 # 1 # [2..<part_count len 256]" by (simp add: upt_conv_Cons numeral_2_eq_2 del: upt_Suc)
  then show ?thesis unfolding p using push_parts_queue [of 256 t data len cmd "curr_mutex_idx w" 0 w0] assms(2)
    by (simp add: w0_def part_job_def)
qed

theorem uncompressed_overlap_witness:
  "\<exists>j0 j1 js. pushpulljobQueue (DPDKPushPull False 5 100 1000 TENSOR_COMM ''byteps.Gradient.w'' idle_client) = j0 # j1 # js
    \<and> j_data j0 = 100 \<and> j_len j0 = 256 \<and> j_data j1 = 356 \<and> j_data j1 < j_data j0 + 4 * j_len j0"
  using uncompressed_overlap [of "''byteps.Gradient.w''" 1000 5 100 TENSOR_COMM idle_client] by (simp add: idle_client_def)

section \<open>Receiving: behaviour\<close>

lemma copy_result_keeps:
  "slot_roundnum (copy_result c m w) = slot_roundnum w" "slot_ready (copy_result c m w) = slot_ready w"
  "pushpulljobQueue (copy_result c m w) = pushpulljobQueue w" "cpubuff_table (copy_result c m w) = cpubuff_table w"
  by (simp_all add: copy_result_def Let_def split: option.split)

lemma part_finished_keeps:
  "slot_roundnum (part_finished k w) = slot_roundnum w" "slot_ready (part_finished k w) = slot_ready w"
  "pushpulljobQueue (part_finished k w) = pushpulljobQueue w" "memory (part_finished k w) = memory w"
  by (simp_all add: part_finished_def Let_def)

lemmas client_keeps = copy_result_keeps part_finished_keeps

text \<open>
  Repeated results: a worker that receives the same packet twice ignores the second copy, in every
  state and for every kind of packet.
\<close>

theorem duplicate_ignored:
  "RxThread_message sw_ps c l unset m (RxThread_message sw_ps c l unset m w) = RxThread_message sw_ps c l unset m w"
proof (cases "right_format sw_ps l m \<and> c_roundNum (m_hdr m) = slot_roundnum w (recv_slot sw_ps unset m)")
  case True
  let ?i = "recv_slot sw_ps unset m"
  have "slot_roundnum (RxThread_message sw_ps c l unset m w) ?i = slot_roundnum w ?i + 1"
    using True by (simp add: RxThread_message_def client_keeps Let_def)
  then have "c_roundNum (m_hdr m) \<noteq> slot_roundnum (RxThread_message sw_ps c l unset m w) ?i" using True by simp
  then show ?thesis by (simp add: RxThread_message_def [of sw_ps c l unset m "RxThread_message sw_ps c l unset m w"] Let_def)
qed (simp add: RxThread_message_def Let_def)

section \<open>A part on its way through the server\<close>

text \<open>A worker whose next job is the part of a key, with its slot free in round \<open>r\<close>.\<close>

definition part_ready :: "nat \<Rightarrow> nat \<Rightarrow> nat \<Rightarrow> 32 word \<Rightarrow> client \<Rightarrow> bool" where
  "part_ready key a n r w \<longleftrightarrow> key < DPDK_KEY_TOTAL \<and> n \<le> DPDK_ELEMENT_NUM \<and> cpubuff_table w key = Some a
     \<and> (\<exists>js. pushpulljobQueue w = \<lparr>j_key = key, j_data = a, j_len = n, j_cmd = TENSOR_COMM, j_agtr_index = key mod MAX_AGTR_COUNT\<rparr> # js)
     \<and> slot_ready w (key mod MAX_AGTR_COUNT) \<and> slot_roundnum w (key mod MAX_AGTR_COUNT) = r"

lemma key_values:
  assumes "key < DPDK_KEY_TOTAL"
  shows "unat (of_nat key :: 64 word) = key" "unat (of_nat (key mod MAX_AGTR_COUNT) :: 16 word) = key mod MAX_AGTR_COUNT"
  using assms by (simp_all add: unat_small DPDK_KEY_TOTAL_def MAX_AGTR_COUNT_def)

lemma tx_part:
  assumes "part_ready key a n r w" "length (c_vector h0) = 1024"
  shows "\<exists>m w1. TxThread_step True True host h0 w = (Some m, w1)
    \<and> round_msg 1 r 2 TENSOR_COMM (of_nat (key mod MAX_AGTR_COUNT)) m \<and> \<not> m_shutdown m
    \<and> m_key m = of_nat key \<and> m_len m = int n \<and> c_vector (m_hdr m) = read_memory w a n @ drop n (c_vector h0)
    \<and> memory w1 = memory w \<and> cpubuff_table w1 = cpubuff_table w \<and> slot_roundnum w1 (key mod MAX_AGTR_COUNT) = r"
proof -
  have "min n DPDK_ELEMENT_NUM = n" "length (read_memory w a n) = n" using assms(1) by (simp_all add: part_ready_def read_memory_def)
  then show ?thesis using assms key_values [of key]
    by (auto simp: part_ready_def TxThread_step_def job_header_def assemble_dpdk_p4ml_hdrs_def gradient_fields_def round_msg_def msg_slot_def
        NUM_WORKER_def memcpy_def read_memory_def Let_def)
qed

lemma rx_part:
  assumes "m_type x = 0x0d00" "m_cmd x = TENSOR_COMM" "m_key x = of_nat key" "m_len x = int n" "c_agtr (m_hdr x) = of_nat (key mod MAX_AGTR_COUNT)"
    and "c_roundNum (m_hdr x) = r" "key < DPDK_KEY_TOTAL" "cpubuff_table w key = Some a" "slot_roundnum w (key mod MAX_AGTR_COUNT) = r"
  shows "memory (RxThread_message True True 1 u x w) = (\<lambda>y. if a \<le> y \<and> y < a + n then c_vector (m_hdr x) ! (y - a) else memory w y)"
    and "slot_ready (RxThread_message True True 1 u x w) (key mod MAX_AGTR_COUNT)"
    and "slot_roundnum (RxThread_message True True 1 u x w) (key mod MAX_AGTR_COUNT) = r + 1"
proof -
  let ?i = "key mod MAX_AGTR_COUNT"
  have s: "recv_slot True u x = ?i" "unat (m_key x) = key" using assms key_values [of key] by (simp_all add: recv_slot_def)
  have f: "right_format True 1 x" using assms s(2) by (simp add: right_format_def TENSOR_COMM_def TENSOR_INIT_def)
  have n: "TENSOR_COMM \<noteq> TENSOR_NORM" by (simp add: TENSOR_COMM_def TENSOR_NORM_def)
  have c: "memory (copy_result True x (w\<lparr>slot_roundnum := g\<rparr>)) = (\<lambda>y. if a \<le> y \<and> y < a + n then c_vector (m_hdr x) ! (y - a) else memory w y)" for g
    using assms s(2) by (simp add: copy_result_def Let_def cong: if_cong)
  show "memory (RxThread_message True True 1 u x w) = (\<lambda>y. if a \<le> y \<and> y < a + n then c_vector (m_hdr x) ! (y - a) else memory w y)"
      "slot_ready (RxThread_message True True 1 u x w) ?i" "slot_roundnum (RxThread_message True True 1 u x w) ?i = r + 1"
    using assms f n c by (simp_all add: RxThread_message_def s client_keeps Let_def)
qed

lemma server_pair:
  assumes "ps_fresh r s i" "round_msg 1 r 2 TENSOR_COMM i mA" "round_msg 1 r 2 TENSOR_COMM i mB" "\<not> m_shutdown mA" "\<not> m_shutdown mB"
  shows "\<exists>x s'. ps_rx_thread 1 msg0 [mA, mB] s = ([x], s') \<and> reply_to [mA, mB] TENSOR_COMM mB x \<and> ps_roundNumbers s' i = r"
proof -
  define out where "out = run_steps (ps_message 1 msg0) [mA, mB] s"
  obtain rep where "out = (replicate (length [mA, mB] - 1) (i, None) @ [(i, rep)], snd out)"
      "ps_slot r TENSOR_COMM i [mA, mB] (snd out)" "\<exists>x. rep = Some x \<and> reply_to [mA, mB] TENSOR_COMM mB x"
    using ps_round_run [of r s i "[mA, mB]" 1 2 TENSOR_COMM msg0, folded out_def] assms by auto
  then obtain x s' where "out = ([(i, None), (i, Some x)], s')" "ps_slot r TENSOR_COMM i [mA, mB] s'" "reply_to [mA, mB] TENSOR_COMM mB x"
    by (cases out) auto
  moreover have "ps_rx_thread 1 msg0 [mA, mB] s = (replies_of (fst out), snd out)"
    unfolding out_def using assms(4,5) by (intro ps_rx_thread_run) simp
  ultimately show ?thesis by (simp add: replies_of_def ps_slot_def)
qed

lemma vector_bytes:
  assumes "n \<le> 1024" "length v = 1024" "k < 1024"
  shows "(read_memory w a n @ drop n v) ! k = (if k < n then memory w (a + k) else v ! k)"
  using assms by (simp add: nth_append read_memory_def)

text \<open>
  C4. A part is summed: when two workers have the same part as their next job, with free slots in the same
  round, the server's slot is fresh for that round, and at no position of the part the two bytes add up to more than 255 (the server adds words of four bytes, so a
  larger sum would be carried into the next byte), then both send it, the server answers the two messages with one reply, and once the workers have
  received it, each byte of the part is in both memories the sum of the two bytes. No other byte changes,
  the slots are free again, and the workers have moved to the next round. A part may be shorter than a packet: whatever
  uninitialised bytes the messages carry behind it do not matter, because carries only go away from the part.
\<close>

theorem part_summed:
  assumes A: "part_ready key a n r wA" "length (c_vector hA) = 1024" and B: "part_ready key b n r wB" "length (c_vector hB) = 1024"
    and s: "ps_fresh r s (of_nat (key mod MAX_AGTR_COUNT))"
    and sums: "\<forall>k < n. unat (memory wA (a + k)) + unat (memory wB (b + k)) < 256"
  shows "\<exists>mA mB wA1 wB1 x s' wA2 wB2.
      TxThread_step True True 0 hA wA = (Some mA, wA1) \<and> TxThread_step True True 1 hB wB = (Some mB, wB1)
    \<and> ps_rx_thread 1 msg0 [mA, mB] s = ([x], s')
    \<and> RxThread_message True True 1 u x wA1 = wA2 \<and> RxThread_message True True 1 u x wB1 = wB2
    \<and> (\<forall>k < n. unat (memory wA2 (a + k)) = unat (memory wA (a + k)) + unat (memory wB (b + k))
             \<and> unat (memory wB2 (b + k)) = unat (memory wA (a + k)) + unat (memory wB (b + k)))
    \<and> (\<forall>y. \<not> (a \<le> y \<and> y < a + n) \<longrightarrow> memory wA2 y = memory wA y) \<and> (\<forall>y. \<not> (b \<le> y \<and> y < b + n) \<longrightarrow> memory wB2 y = memory wB y)
    \<and> slot_ready wA2 (key mod MAX_AGTR_COUNT) \<and> slot_ready wB2 (key mod MAX_AGTR_COUNT)
    \<and> slot_roundnum wA2 (key mod MAX_AGTR_COUNT) = r + 1 \<and> slot_roundnum wB2 (key mod MAX_AGTR_COUNT) = r + 1
    \<and> ps_roundNumbers s' (of_nat (key mod MAX_AGTR_COUNT)) = r"
proof -
  let ?i = "of_nat (key mod MAX_AGTR_COUNT) :: 16 word"
  have n: "n \<le> 1024" "key < DPDK_KEY_TOTAL" "cpubuff_table wA key = Some a" "cpubuff_table wB key = Some b"
    using A(1) B(1) by (simp_all add: part_ready_def DPDK_ELEMENT_NUM_def MAX_ENTRIES_PER_PACKET_def)
  obtain mA wA1 where mA: "TxThread_step True True 0 hA wA = (Some mA, wA1)" "round_msg 1 r 2 TENSOR_COMM ?i mA" "\<not> m_shutdown mA"
      "c_vector (m_hdr mA) = read_memory wA a n @ drop n (c_vector hA)" "memory wA1 = memory wA" "cpubuff_table wA1 = cpubuff_table wA"
      "slot_roundnum wA1 (key mod MAX_AGTR_COUNT) = r"
    using tx_part [OF A] by blast
  obtain mB wB1 where mB: "TxThread_step True True 1 hB wB = (Some mB, wB1)" "round_msg 1 r 2 TENSOR_COMM ?i mB" "\<not> m_shutdown mB"
      "m_key mB = of_nat key" "m_len mB = int n" "c_vector (m_hdr mB) = read_memory wB b n @ drop n (c_vector hB)"
      "memory wB1 = memory wB" "cpubuff_table wB1 = cpubuff_table wB" "slot_roundnum wB1 (key mod MAX_AGTR_COUNT) = r"
    using tx_part [OF B] by blast
  obtain x s' where x: "ps_rx_thread 1 msg0 [mA, mB] s = ([x], s')" "reply_to [mA, mB] TENSOR_COMM mB x" "ps_roundNumbers s' ?i = r"
    using server_pair [OF s mA(2) mB(2) mA(3) mB(3)] by blast
  have h: "m_type x = 0x0d00" "m_cmd x = TENSOR_COMM" "m_key x = of_nat key" "m_len x = int n" "c_agtr (m_hdr x) = ?i" "c_roundNum (m_hdr x) = r"
    using x(2) mB(2,4,5) by (simp_all add: reply_to_def round_msg_def msg_slot_def)
  have bs: "byte_sum (map (\<lambda>m. c_vector (m_hdr m)) [mA, mB]) k =
      (if k < n then unat (memory wA (a + k)) + unat (memory wB (b + k)) else unat (c_vector hA ! k) + unat (c_vector hB ! k))" if "k < 1024" for k
    using vector_bytes [OF n(1) A(2) that, of wA a] vector_bytes [OF n(1) B(2) that, of wB b] by (simp add: byte_sum_def mA(4) mB(6))
  have v: "unat (c_vector (m_hdr x) ! k) = unat (memory wA (a + k)) + unat (memory wB (b + k))" if "k < n" for k
  proof -
    have "unat (c_vector (m_hdr x) ! k) = byte_sum (map (\<lambda>m. c_vector (m_hdr m)) [mA, mB]) k"
    proof (rule reply_bytes)
      show "take 1024 (c_vector (m_hdr x)) = host_bytes (map (word_sum [mA, mB]) [0..<MAX_ENTRIES_PER_PACKET])"
        using x(2) by (simp add: reply_to_def MAX_ENTRIES_PER_PACKET_def)
      show "\<forall>m \<in> set [mA, mB]. length (c_vector (m_hdr m)) = 1024" using n(1) A(2) B(2) by (simp add: mA(4) mB(6) read_memory_def)
      show "\<forall>i \<le> k. byte_sum (map (\<lambda>m. c_vector (m_hdr m)) [mA, mB]) i < 256" using bs sums n(1) that by auto
    qed (use that n(1) in simp)
    then show ?thesis using bs [of k] that n(1) by simp
  qed
  note rA = rx_part [OF h n(2), of wA1 a u, unfolded mA(5,6), OF n(3) mA(7)]
  note rB = rx_part [OF h n(2), of wB1 b u, unfolded mB(7,8), OF n(4) mB(9)]
  show ?thesis
    by (rule exI [of _ mA], rule exI [of _ mB], rule exI [of _ wA1], rule exI [of _ wB1], rule exI [of _ x], rule exI [of _ s'])
      (simp add: mA(1) mB(1) x(1,3) rA rB v del: One_nat_def ps_rx_thread.simps)
qed

text \<open>Two workers with one small tensor each, of bytes 3 and 4, at different addresses.\<close>

definition one_tensor :: "nat \<Rightarrow> 8 word \<Rightarrow> client" where
  "one_tensor a b = DPDKPushPull True 5 a 8 TENSOR_COMM ''byteps.Gradient.w'' (idle_client\<lparr>memory := (\<lambda>_. b)\<rparr>)"

lemma one_tensor_fields: "part_ready 0 a 8 0 (one_tensor a b)" "memory (one_tensor a b) = (\<lambda>_. b)"
  by (simp_all add: one_tensor_def DPDKPushPull_def part_bound_def DPDK_ELEMENT_NUM_def MAX_ENTRIES_PER_PACKET_def push_parts.simps
      push_part_def GetNewKey_def idle_client_def part_ready_def DPDK_KEY_TOTAL_def TENSOR_COMM_def TENSOR_INIT_def Let_def)

theorem part_summed_witness:
  "\<exists>mA mB wA1 wB1 x s'. TxThread_step True True 0 blank_hdr (one_tensor 100 3) = (Some mA, wA1)
    \<and> TxThread_step True True 1 blank_hdr (one_tensor 200 4) = (Some mB, wB1) \<and> ps_rx_thread 1 (worker_msg 0 0) [mA, mB] ps_init = ([x], s')
    \<and> unat (memory (RxThread_message True True 1 0 x wA1) 107) = 7 \<and> unat (memory (RxThread_message True True 1 0 x wB1) 207) = 7
    \<and> memory (RxThread_message True True 1 0 x wA1) 108 = 3"
proof -
  have p: "length (c_vector blank_hdr) = 1024" "ps_fresh 0 ps_init (of_nat (0 mod MAX_AGTR_COUNT))"
      "\<forall>k < 8. unat (memory (one_tensor 100 3) (100 + k)) + unat (memory (one_tensor 200 4) (200 + k)) < 256"
    by (simp_all add: blank_hdr_def ps_fresh_def ps_init_def one_tensor_fields)
  note r = part_summed [OF one_tensor_fields(1) p(1) one_tensor_fields(1) p, of "worker_msg 0 0" 0]
  then obtain mA mB wA1 wB1 x s' wA2 wB2 where o: "TxThread_step True True 0 blank_hdr (one_tensor 100 3) = (Some mA, wA1)"
      "TxThread_step True True 1 blank_hdr (one_tensor 200 4) = (Some mB, wB1)" "ps_rx_thread 1 (worker_msg 0 0) [mA, mB] ps_init = ([x], s')"
      "RxThread_message True True 1 0 x wA1 = wA2" "RxThread_message True True 1 0 x wB1 = wB2"
      "\<forall>k < 8. unat (memory wA2 (100 + k)) = unat (memory (one_tensor 100 3) (100 + k)) + unat (memory (one_tensor 200 4) (200 + k))
         \<and> unat (memory wB2 (200 + k)) = unat (memory (one_tensor 100 3) (100 + k)) + unat (memory (one_tensor 200 4) (200 + k))"
      "\<forall>y. \<not> (100 \<le> y \<and> y < 100 + 8) \<longrightarrow> memory wA2 y = memory (one_tensor 100 3) y"
    by blast
  have "unat (memory wA2 107) = 7" "unat (memory wB2 207) = 7" "memory wA2 108 = 3"
    using o(6) [rule_format, of 7] o(7) [rule_format, of 108] by (simp_all add: one_tensor_fields)
  with o(1-5) show ?thesis by blast
qed

section \<open>Resetting: behaviour\<close>

lemma reset_slot_fields:
  "slot_ready (reset_slot i w) j = (j = i \<or> slot_ready w j)"
  "slot_roundnum (reset_slot i w) j = (if j = i \<and> \<not> slot_ready w i then slot_roundnum w i + 1 else slot_roundnum w j)"
  by (auto simp: reset_slot_def part_finished_keeps Let_def)

lemma reset_slots:
  "distinct is \<Longrightarrow> slot_ready (fold reset_slot is w) j = (j \<in> set is \<or> slot_ready w j)
   \<and> slot_roundnum (fold reset_slot is w) j = (if j \<in> set is \<and> \<not> slot_ready w j then slot_roundnum w j + 1 else slot_roundnum w j)"
  by (induction "is" arbitrary: w) (auto simp: reset_slot_fields)

text \<open>
  The reset after a time-out: every slot is free again, the rounds of the slots that were waiting are
  given up, and a result of such a round that arrives afterwards changes nothing.
\<close>

theorem reset_abandons:
  assumes "\<not> slot_ready w (recv_slot sw_ps unset m)" "recv_slot sw_ps unset m < MAX_AGTR_COUNT + NORM_SLOT"
    and "c_roundNum (m_hdr m) = slot_roundnum w (recv_slot sw_ps unset m)"
  shows "(\<forall>i < MAX_AGTR_COUNT + NORM_SLOT. slot_ready (Reset w) i) \<and> RxThread_message sw_ps c l unset m (Reset w) = Reset w"
proof -
  let ?i = "recv_slot sw_ps unset m"
  have "slot_roundnum (Reset w) ?i = slot_roundnum w ?i + 1"
    unfolding Reset_def using reset_slots [of "[0..<MAX_AGTR_COUNT + NORM_SLOT]" w ?i] assms(1,2) by simp
  then have "c_roundNum (m_hdr m) \<noteq> slot_roundnum (Reset w) ?i" using assms(3) by simp
  then have "RxThread_message sw_ps c l unset m (Reset w) = Reset w" by (simp add: RxThread_message_def Let_def)
  then show ?thesis using reset_slots [of "[0..<MAX_AGTR_COUNT + NORM_SLOT]" w] by (simp add: Reset_def)
qed

theorem reset_abandons_witness:
  "RxThread_message True True 1 0 (worker_msg 7 3) (Reset (idle_client\<lparr>slot_ready := (\<lambda>_. False), slot_roundnum := (\<lambda>_. 1)\<rparr>)) =
   Reset (idle_client\<lparr>slot_ready := (\<lambda>_. False), slot_roundnum := (\<lambda>_. 1)\<rparr>)"
proof -
  have "recv_slot True 0 (worker_msg 7 3) = 7" using worker_msg_fields(6) [of 7 3] by (simp add: recv_slot_def msg_slot_def)
  then show ?thesis
    using reset_abandons [of "idle_client\<lparr>slot_ready := (\<lambda>_. False), slot_roundnum := (\<lambda>_. 1)\<rparr>" True 0 "worker_msg 7 3" True 1]
    by (simp add: worker_msg_fields MAX_AGTR_COUNT_def)
qed


section \<open>Shutting the server down\<close>

text \<open>The signal ends the server's loop: the messages before it are answered, the ones after it are not read.\<close>

lemma shutdown_ends:
  "ps_rx_thread lcore_id msg0 (msgs @ ShutdownSignal msg_body # later) s = ps_rx_thread lcore_id msg0 msgs s"
  by (induction msgs arbitrary: s) (auto simp: ShutdownSignal_def split: prod.splits)

end
