(* ===== verification/Ps_Server.thy ===== *)
theory Ps_Server
  imports Collective
begin

text \<open>
  The parameter server of BytePS, \<^verbatim>\<open>server/server.cc\<close> and \<^verbatim>\<open>server/server.h\<close> with the queue of \<^verbatim>\<open>server/queue.h\<close>:
  the handler of the requests, the engine threads that add the tensors, and the assignment of keys to threads.

  A run is a sequence of events: a request that the handler takes under its lock, or one message that an
  engine thread takes from its queue. A buffer that several fields point to is kept once: \<open>merged\<close> says
  where the result of a key lies. The contents of a response are those of the buffer at the time of the
  call. A failed \<open>CHECK\<close> or the use of a null pointer ends the process and is an error value.

  Tensors pushed under one key have one element type and length; where they differ the source reads or writes a prefix or
  beyond a buffer, and the model has an error. Messages to copy or to add always carry the received tensor. A
  request carries its type, decoded from the command, and loads are unbounded.

  The transport, the shutdown (\<open>TERMINATE\<close>), the translation of keys to the key range of the server, logging and the debug output are left out, and so is
  the order of the queue under \<open>BYTEPS_SERVER_ENABLE_SCHEDULE\<close>, which is off by default. The compressor that a worker
  registers for a key is a parameter.
\<close>

section \<open>Commands\<close>

datatype request_type = DefaultPushPull | RowSparsePushPull | CompressedPushPull | TopKPushPull | FindMin | FindMax

fun request_number :: "request_type \<Rightarrow> nat" where
  "request_number DefaultPushPull = 0"
| "request_number RowSparsePushPull = 1"
| "request_number CompressedPushPull = 2"
| "request_number TopKPushPull = 3"
| "request_number FindMin = 4"
| "request_number FindMax = 5"

definition GetCommandType :: "nat \<Rightarrow> nat \<Rightarrow> nat" where
  "GetCommandType m d = (m + d) * (m + d + 1) div 2 + d"

text \<open>The square root, rounded down.\<close>

fun isqrt :: "nat \<Rightarrow> nat" where
  "isqrt 0 = 0"
| "isqrt (Suc n) = (let r = isqrt n in if (r + 1) * (r + 1) \<le> Suc n then r + 1 else r)"

definition DepairDataHandleType :: "nat \<Rightarrow> (nat \<times> nat) option" where
  "DepairDataHandleType cmd =
     (let w = (isqrt (8 * cmd + 1) - 1) div 2; t = (w * w + w) div 2; y = int cmd - int t; x = int w - y
      in if 0 \<le> x \<and> 0 \<le> y then Some (nat x, nat y) else None)"

section \<open>State\<close>

datatype ps_error = Check_failed | Bad_pointer

datatype engine_op = SUM_RECV | COPY_FIRST | ALL_RECV

text \<open>The source of a message is the received tensor, or the stored tensor itself (\<open>None\<close>).\<close>

record engine_message =
  e_id :: nat
  e_key :: nat
  e_src :: "tensor option"
  e_op :: engine_op

datatype merged = Null | Stored | Buffer

record 'c codec =
  z_create :: "tensor \<Rightarrow> tensor option \<Rightarrow> 'c option"
  z_compress :: "'c \<Rightarrow> tensor \<Rightarrow> 'c \<times> tensor"
  z_decompress :: "'c \<Rightarrow> tensor \<Rightarrow> 'c"
  z_buffer :: "'c \<Rightarrow> tensor"

record config =
  NumWorkers :: nat
  sync_mode :: bool
  is_engine_blocking :: bool
  engine_thread_num :: nat

record 'c server =
  sv_store :: "nat \<Rightarrow> tensor option"
  sv_request :: "nat \<Rightarrow> nat list"
  sv_merged :: "nat \<Rightarrow> merged"
  sv_compressor_map :: "nat \<Rightarrow> 'c option"
  sv_engine_queues :: "nat \<Rightarrow> engine_message list"
  sv_is_push_finished :: "nat \<Rightarrow> nat \<Rightarrow> bool option"
  sv_q_pull_reqmeta :: "nat \<Rightarrow> nat \<Rightarrow> nat list"
  sv_seen_sender :: "nat \<Rightarrow> nat \<Rightarrow> nat set"
  sv_pull_cnt :: "nat \<Rightarrow> nat \<Rightarrow> nat"
  sv_hash_cache :: "nat \<Rightarrow> nat option"
  sv_acc_load :: "nat list"
  sv_timestamp :: nat

definition server_init :: "config \<Rightarrow> 'c server" where
  "server_init cfg = \<lparr>sv_store = (\<lambda>_. None), sv_request = (\<lambda>_. []), sv_merged = (\<lambda>_. Null), sv_compressor_map = (\<lambda>_. None),
     sv_engine_queues = (\<lambda>_. []), sv_is_push_finished = (\<lambda>_ _. None), sv_q_pull_reqmeta = (\<lambda>_ _. []), sv_seen_sender = (\<lambda>_ _. {}),
     sv_pull_cnt = (\<lambda>_ _. 0), sv_hash_cache = (\<lambda>_. None), sv_acc_load = replicate (engine_thread_num cfg) 0, sv_timestamp = 0\<rparr>"

record kv_request =
  q_sender :: nat
  q_push :: bool
  q_type :: request_type
  q_key :: nat
  q_vals :: tensor

datatype response = Push_response nat nat | Pull_response nat nat tensor

fun dtype_size :: "dtype \<Rightarrow> nat" where
  "dtype_size Float16 = 2"
| "dtype_size Float32 = 4"
| "dtype_size Float64 = 8"
| "dtype_size Uint8 = 1"
| "dtype_size Int32 = 4"
| "dtype_size Int64 = 8"

definition nbytes :: "tensor \<Rightarrow> nat" where
  "nbytes t = dtype_size (t_dtype t) * length (t_data t)"

text \<open>\<open>copy\<close> of the reducer: the bytes of the source into a buffer of the same length.\<close>

definition reducer_copy :: "tensor \<Rightarrow> tensor \<Rightarrow> tensor option" where
  "reducer_copy dst src =
     (if t_dtype dst = t_dtype src \<and> length (t_data dst) = length (t_data src) then Some (dst\<lparr>t_data := t_data src\<rparr>) else None)"

section \<open>Keys and threads\<close>

fun min_load :: "nat list \<Rightarrow> nat \<Rightarrow> nat \<Rightarrow> nat \<Rightarrow> nat" where
  "min_load [] i best_index best = best_index"
| "min_load (x # xs) i best_index best = (if x < best then min_load xs (Suc i) i x else min_load xs (Suc i) best_index best)"

definition GetThreadID :: "nat \<Rightarrow> nat \<Rightarrow> 'c server \<Rightarrow> ps_error + (nat \<times> 'c server)" where
  "GetThreadID key len s =
     (case sv_hash_cache s key of
        Some tid \<Rightarrow> Inr (tid, s)
      | None \<Rightarrow>
          if len = 0 then Inl Check_failed
          else (case sv_acc_load s of
                  [] \<Rightarrow> Inl Check_failed
                | x # xs \<Rightarrow>
                    let m = min_load xs 1 0 x
                    in Inr (m, s\<lparr>sv_acc_load := (sv_acc_load s)[m := sv_acc_load s ! m + len], sv_hash_cache := (sv_hash_cache s)(key \<mapsto> m)\<rparr>)))"

section \<open>Responses\<close>

text \<open>The senders that are answered one after the other get the contents of the same buffer.\<close>

definition merged_tensor :: "'c codec \<Rightarrow> nat \<Rightarrow> 'c server \<Rightarrow> ps_error + tensor" where
  "merged_tensor z key s =
     (case sv_merged s key of
        Null \<Rightarrow> Inl Check_failed
      | Stored \<Rightarrow> (case sv_store s key of None \<Rightarrow> Inl Check_failed | Some t \<Rightarrow> Inr t)
      | Buffer \<Rightarrow> (case sv_compressor_map s key of None \<Rightarrow> Inl Bad_pointer | Some k \<Rightarrow> Inr (z_buffer z k)))"

definition SendPullResponse :: "'c codec \<Rightarrow> nat \<Rightarrow> nat list \<Rightarrow> 'c server \<Rightarrow> ps_error + response list" where
  "SendPullResponse z key senders s =
     (if senders = [] then Inr [] else map_sum id (\<lambda>t. map (\<lambda>n. Pull_response n key t) senders) (merged_tensor z key s))"

definition queue_push :: "nat \<Rightarrow> engine_message \<Rightarrow> 'c server \<Rightarrow> 'c server" where
  "queue_push tid m s = s\<lparr>sv_engine_queues := (sv_engine_queues s)(tid := sv_engine_queues s tid @ [m])\<rparr>"

definition queue_message :: "nat \<Rightarrow> nat \<Rightarrow> tensor option \<Rightarrow> engine_op \<Rightarrow> 'c server \<Rightarrow> 'c server" where
  "queue_message tid key src ops s =
     queue_push tid \<lparr>e_id = sv_timestamp s, e_key = key, e_src = src, e_op = ops\<rparr> (s\<lparr>sv_timestamp := sv_timestamp s + 1\<rparr>)"

section \<open>The engine threads\<close>

text \<open>
  The loop over the waiting pull requests of a key after all pushes: which senders are answered, which
  requests stay, and the flag, the counter and the senders after it.
\<close>

fun serve_waiting :: "nat \<Rightarrow> nat list \<Rightarrow> nat \<Rightarrow> nat set \<Rightarrow> nat list \<times> nat list \<times> bool \<times> nat \<times> nat set" where
  "serve_waiting n [] cnt seen = ([], [], True, cnt, seen)"
| "serve_waiting n (q # qs) cnt seen =
     (let (sent, keep, cnt, seen) = (if q \<notin> seen then ([q], [], cnt + 1, insert q seen) else ([], [q], cnt, seen))
      in if cnt = n then (sent, keep @ qs, False, 0, {})
         else let (sent', keep', fin, cnt, seen) = serve_waiting n qs cnt seen in (sent @ sent', keep @ keep', fin, cnt, seen))"

definition engine_merge :: "'c codec \<Rightarrow> nat \<Rightarrow> tensor \<Rightarrow> 'c server \<Rightarrow> 'c server" where
  "engine_merge z key buf s =
     (case sv_compressor_map s key of
        None \<Rightarrow> s\<lparr>sv_merged := (sv_merged s)(key := Stored)\<rparr>
      | Some k \<Rightarrow>
          let (k', grad) = z_compress z k buf
          in s\<lparr>sv_store := (sv_store s)(key \<mapsto> grad), sv_compressor_map := (sv_compressor_map s)(key \<mapsto> k'), sv_merged := (sv_merged s)(key := Buffer)\<rparr>)"

definition all_recv :: "config \<Rightarrow> 'c codec \<Rightarrow> nat \<Rightarrow> nat \<Rightarrow> 'c server \<Rightarrow> ps_error + (response list \<times> 'c server)" where
  "all_recv cfg z i key s =
     (let (cnt, seen) = (if sv_is_push_finished s i key = None then (0, {}) else (sv_pull_cnt s i key, sv_seen_sender s i key));
          (sent, keep, fin, cnt, seen) = serve_waiting (NumWorkers cfg) (sv_q_pull_reqmeta s i key) cnt seen;
          s = s\<lparr>sv_is_push_finished := (sv_is_push_finished s)(i := (sv_is_push_finished s i)(key \<mapsto> fin)),
                sv_pull_cnt := (sv_pull_cnt s)(i := (sv_pull_cnt s i)(key := cnt)),
                sv_seen_sender := (sv_seen_sender s)(i := (sv_seen_sender s i)(key := seen)),
                sv_q_pull_reqmeta := (sv_q_pull_reqmeta s)(i := (sv_q_pull_reqmeta s i)(key := keep))\<rparr>
      in map_sum id (\<lambda>rs. (rs, s)) (SendPullResponse z key sent s))"

text \<open>The tensor that is copied or added: the received one, decompressed where the key has a compressor.\<close>

definition engine_source :: "'c codec \<Rightarrow> nat \<Rightarrow> tensor \<Rightarrow> tensor \<Rightarrow> 'c server \<Rightarrow> ps_error + (tensor \<times> 'c server)" where
  "engine_source z key dst src s =
     (case sv_compressor_map s key of
        None \<Rightarrow> Inr (src, s)
      | Some k \<Rightarrow>
          if nbytes dst < nbytes src then Inl Check_failed
          else let k' = z_decompress z k src in Inr (z_buffer z k', s\<lparr>sv_compressor_map := (sv_compressor_map s)(key \<mapsto> k')\<rparr>))"

definition engine_write :: "(tensor \<Rightarrow> tensor \<Rightarrow> tensor option) \<Rightarrow> 'c codec \<Rightarrow> engine_message \<Rightarrow> tensor \<Rightarrow> 'c server \<Rightarrow> ps_error + 'c server" where
  "engine_write f z m dst s =
     (case e_src m of
        None \<Rightarrow> Inl Check_failed
      | Some src \<Rightarrow>
          (case engine_source z (e_key m) dst src s of
             Inl e \<Rightarrow> Inl e
           | Inr (src, s) \<Rightarrow>
               (case f dst src of None \<Rightarrow> Inl Bad_pointer | Some t \<Rightarrow> Inr (s\<lparr>sv_store := (sv_store s)(e_key m \<mapsto> t)\<rparr>))))"

definition engine_step :: "config \<Rightarrow> storage \<Rightarrow> 'c codec \<Rightarrow> nat \<Rightarrow> 'c server \<Rightarrow> ps_error + (response list \<times> 'c server)" where
  "engine_step cfg c z i s =
     (case sv_engine_queues s i of
        [] \<Rightarrow> Inr ([], s)
      | m # ms \<Rightarrow>
          let s = s\<lparr>sv_engine_queues := (sv_engine_queues s)(i := ms)\<rparr>
          in (case sv_store s (e_key m) of
                None \<Rightarrow> Inl Check_failed
              | Some dst \<Rightarrow>
                  (case e_op m of
                     ALL_RECV \<Rightarrow> all_recv cfg z i (e_key m) (engine_merge z (e_key m) dst s)
                   | COPY_FIRST \<Rightarrow> map_sum id (Pair []) (engine_write reducer_copy z m dst s)
                   | SUM_RECV \<Rightarrow> map_sum id (Pair []) (engine_write (reducer_sum c) z m dst s))))"

section \<open>The handler\<close>

text \<open>A request that waits until all workers have sent theirs: the registration of a compressor and the first push.\<close>

definition collect :: "config \<Rightarrow> nat \<Rightarrow> nat \<Rightarrow> ('c server \<Rightarrow> 'c server) \<Rightarrow> 'c server \<Rightarrow> response list \<times> 'c server" where
  "collect cfg key sender f s =
     (let s = s\<lparr>sv_request := (sv_request s)(key := sv_request s key @ [sender])\<rparr>
      in if length (sv_request s key) < NumWorkers cfg then ([], s)
         else (map (\<lambda>q. Push_response q key) (sv_request s key), (f s)\<lparr>sv_request := (sv_request s)(key := [])\<rparr>))"

definition register_compressor :: "config \<Rightarrow> 'c codec \<Rightarrow> kv_request \<Rightarrow> 'c server \<Rightarrow> ps_error + (response list \<times> 'c server)" where
  "register_compressor cfg z q s =
     (case sv_compressor_map s (q_key q) of
        Some k \<Rightarrow> Inr (collect cfg (q_key q) (q_sender q) id s)
      | None \<Rightarrow>
          (case z_create z (q_vals q) (sv_store s (q_key q)) of
             None \<Rightarrow> Inl Check_failed
           | Some k \<Rightarrow> Inr (collect cfg (q_key q) (q_sender q) id (s\<lparr>sv_compressor_map := (sv_compressor_map s)(q_key q \<mapsto> k)\<rparr>))))"

definition push_first :: "config \<Rightarrow> storage \<Rightarrow> nat \<Rightarrow> kv_request \<Rightarrow> tensor \<Rightarrow> 'c server \<Rightarrow> ps_error + 'c server" where
  "push_first cfg c tid q buf s =
     (if sync_mode cfg then Inr (queue_message tid (q_key q) (Some (q_vals q)) COPY_FIRST s)
      else (case reducer_sum c buf (q_vals q) of
              None \<Rightarrow> Inl Bad_pointer
            | Some t \<Rightarrow> Inr (s\<lparr>sv_store := (sv_store s)(q_key q \<mapsto> t)\<rparr>)))"

definition push_other :: "config \<Rightarrow> storage \<Rightarrow> nat \<Rightarrow> kv_request \<Rightarrow> 'c server \<Rightarrow> ps_error + 'c server" where
  "push_other cfg c tid q s =
     (if \<not> sync_mode cfg then Inl Check_failed
      else if is_engine_blocking cfg
      then (case sv_merged s (q_key q) of
              Stored \<Rightarrow>
                (case sv_store s (q_key q) of
                   None \<Rightarrow> Inl Bad_pointer
                 | Some t \<Rightarrow> (case reducer_sum c t (q_vals q) of None \<Rightarrow> Inl Bad_pointer | Some t \<Rightarrow> Inr (s\<lparr>sv_store := (sv_store s)(q_key q \<mapsto> t)\<rparr>)))
            | _ \<Rightarrow> Inl Bad_pointer)
      else Inr (queue_message tid (q_key q) (Some (q_vals q)) SUM_RECV s))"

definition push_complete :: "config \<Rightarrow> nat \<Rightarrow> nat \<Rightarrow> 'c server \<Rightarrow> ps_error + 'c server" where
  "push_complete cfg tid key s =
     (if sync_mode cfg \<and> length (sv_request s key) = NumWorkers cfg
      then if is_engine_blocking cfg
           then (case sv_merged s key of Stored \<Rightarrow> Inr (s\<lparr>sv_request := (sv_request s)(key := [])\<rparr>) | _ \<Rightarrow> Inl Bad_pointer)
           else Inr ((queue_message tid key None ALL_RECV s)\<lparr>sv_request := (sv_request s)(key := [])\<rparr>)
      else if \<not> sync_mode cfg then Inr (s\<lparr>sv_request := (sv_request s)(key := [])\<rparr>) else Inr s)"

definition handle_push :: "config \<Rightarrow> storage \<Rightarrow> kv_request \<Rightarrow> 'c server \<Rightarrow> ps_error + (response list \<times> 'c server)" where
  "handle_push cfg c q s =
     (let key = q_key q
      in case sv_store s key of
           None \<Rightarrow> Inr (collect cfg key (q_sender q) (\<lambda>s. s\<lparr>sv_store := (sv_store s)(key \<mapsto> q_vals q)\<rparr>) s)
         | Some buf \<Rightarrow>
             (case GetThreadID key (nbytes (q_vals q)) s of
                Inl e \<Rightarrow> Inl e
              | Inr (tid, s) \<Rightarrow>
                  (case (if sv_request s key = [] then push_first cfg c tid q buf s else push_other cfg c tid q s) of
                     Inl e \<Rightarrow> Inl e
                   | Inr s \<Rightarrow>
                       map_sum id (Pair [Push_response (q_sender q) key])
                         (push_complete cfg tid key (s\<lparr>sv_request := (sv_request s)(key := sv_request s key @ [q_sender q])\<rparr>)))))"

definition handle_pull :: "config \<Rightarrow> 'c codec \<Rightarrow> kv_request \<Rightarrow> 'c server \<Rightarrow> ps_error + (response list \<times> 'c server)" where
  "handle_pull cfg z q s =
     (let key = q_key q; n = q_sender q
      in if sv_store s key = None then Inl Check_failed
         else if is_engine_blocking cfg \<or> \<not> sync_mode cfg
         then map_sum id (\<lambda>rs. (rs, s)) (SendPullResponse z key [n] s)
         else (case GetThreadID key 0 s of
                 Inl e \<Rightarrow> Inl e
               | Inr (tid, s) \<Rightarrow>
                   let s = (if sv_is_push_finished s tid key = None
                            then s\<lparr>sv_is_push_finished := (sv_is_push_finished s)(tid := (sv_is_push_finished s tid)(key \<mapsto> False)),
                                   sv_pull_cnt := (sv_pull_cnt s)(tid := (sv_pull_cnt s tid)(key := 0)),
                                   sv_seen_sender := (sv_seen_sender s)(tid := (sv_seen_sender s tid)(key := {}))\<rparr>
                            else s)
                   in if sv_is_push_finished s tid key = Some True \<and> n \<notin> sv_seen_sender s tid key
                      then let cnt = sv_pull_cnt s tid key + 1; last = (cnt = NumWorkers cfg);
                               s' = s\<lparr>sv_is_push_finished := (sv_is_push_finished s)(tid := (sv_is_push_finished s tid)(key \<mapsto> \<not> last)),
                                      sv_pull_cnt := (sv_pull_cnt s)(tid := (sv_pull_cnt s tid)(key := if last then 0 else cnt)),
                                      sv_seen_sender := (sv_seen_sender s)(tid := (sv_seen_sender s tid)(key := if last then {} else insert n (sv_seen_sender s tid key)))\<rparr>
                           in map_sum id (\<lambda>rs. (rs, s')) (SendPullResponse z key [n] s)
                      else Inr ([], s\<lparr>sv_q_pull_reqmeta := (sv_q_pull_reqmeta s)(tid := (sv_q_pull_reqmeta s tid)(key := sv_q_pull_reqmeta s tid key @ [n]))\<rparr>)))"

definition BytePSHandler :: "config \<Rightarrow> storage \<Rightarrow> 'c codec \<Rightarrow> kv_request \<Rightarrow> 'c server \<Rightarrow> ps_error + (response list \<times> 'c server)" where
  "BytePSHandler cfg c z q s =
     (if q_type q = CompressedPushPull then register_compressor cfg z q s
      else if q_push q then handle_push cfg c q s else handle_pull cfg z q s)"

section \<open>Runs\<close>

datatype event = Request kv_request | Engine nat

fun server_event :: "config \<Rightarrow> storage \<Rightarrow> 'c codec \<Rightarrow> event \<Rightarrow> 'c server \<Rightarrow> ps_error + (response list \<times> 'c server)" where
  "server_event cfg c z (Request q) s = BytePSHandler cfg c z q s"
| "server_event cfg c z (Engine i) s = engine_step cfg c z i s"

fun server_run :: "config \<Rightarrow> storage \<Rightarrow> 'c codec \<Rightarrow> event list \<Rightarrow> 'c server \<Rightarrow> ps_error + (response list \<times> 'c server)" where
  "server_run cfg c z [] s = Inr ([], s)"
| "server_run cfg c z (e # es) s =
     (case server_event cfg c z e s of
        Inl x \<Rightarrow> Inl x
      | Inr (rs, s) \<Rightarrow> map_sum id (\<lambda>(rs', s). (rs @ rs', s)) (server_run cfg c z es s))"

end
