(* ===== verification/Ps_Rounds.thy ===== *)
theory Ps_Rounds
  imports Ps_Server
begin

text \<open>
  What the parameter server guarantees to workers that keep to the protocol: a worker pushes once in a
  round and pulls once after its push, all tensors of a key have one type and length, the key has no compressor, and nobody
  pushes again before all workers of the round have been answered. The source does not enforce the last
  condition, and \<open>late_pull_race\<close> shows what happens without it. The
  rounds of a key are recorded beside the state of the server, and the guarantees are invariants of the runs.
\<close>

section \<open>Commands\<close>

lemma isqrt_bounds: "isqrt n * isqrt n \<le> n \<and> n < (isqrt n + 1) * (isqrt n + 1)"
  by (induction n) (auto simp: Let_def)

lemma isqrt_between: "(2 * S + 1) * (2 * S + 1) \<le> n \<Longrightarrow> n < (2 * S + 3) * (2 * S + 3) \<Longrightarrow> (isqrt n - 1) div 2 = S"
proof -
  assume a: "(2 * S + 1) * (2 * S + 1) \<le> n" "n < (2 * S + 3) * (2 * S + 3)"
  have "2 * S + 1 < isqrt n + 1" using isqrt_bounds [of n] a(1) mult_le_mono [of "isqrt n + 1" "2 * S + 1" "isqrt n + 1" "2 * S + 1"]
    by (meson leD leI le_less_trans)
  moreover have "isqrt n < 2 * S + 3" using isqrt_bounds [of n] a(2) mult_le_mono [of "2 * S + 3" "isqrt n" "2 * S + 3" "isqrt n"]
    by (meson leD leI le_less_trans)
  ultimately show ?thesis by linarith
qed

text \<open>
  Commands: the number that a worker computes from a request type and an element type gives back both.
\<close>

theorem command_roundtrip: "DepairDataHandleType (GetCommandType m d) = Some (m, d)"
proof -
  define S where "S = m + d"
  have e: "even (S * (S + 1))" by simp
  then obtain h where h: "S * (S + 1) = 2 * h" by (rule evenE)
  have cmd: "GetCommandType m d = h + d" unfolding GetCommandType_def S_def [symmetric] using h by simp
  have sq: "S * S + S = 2 * h" using h by (simp add: algebra_simps)
  have "8 * (h + d) + 1 = 4 * (S * S + S) + 8 * d + 1" using sq by simp
  also have "\<dots> = (2 * S + 1) * (2 * S + 1) + 8 * d" by (simp add: algebra_simps)
  finally have n: "8 * (h + d) + 1 = (2 * S + 1) * (2 * S + 1) + 8 * d" .
  have "d \<le> S" by (simp add: S_def)
  then have "(2 * S + 1) * (2 * S + 1) + 8 * d < (2 * S + 3) * (2 * S + 3)" by (simp add: algebra_simps)
  then have w: "(isqrt (8 * (h + d) + 1) - 1) div 2 = S" unfolding n by (intro isqrt_between) simp_all
  show ?thesis unfolding DepairDataHandleType_def cmd w Let_def using sq by (simp add: S_def)
qed

section \<open>Rounds\<close>

text \<open>The current round of a key: the pushes, the senders of the pulls, and the answers, in order.\<close>

record round =
  r_pushes :: "(nat \<times> tensor) list"
  r_pulls :: "nat list"
  r_answers :: "(nat \<times> tensor) list"

definition new_round :: round where
  "new_round = \<lparr>r_pushes = [], r_pulls = [], r_answers = []\<rparr>"

fun note_response :: "response \<Rightarrow> (nat \<Rightarrow> round) \<Rightarrow> nat \<Rightarrow> round" where
  "note_response (Push_response n k) G = G"
| "note_response (Pull_response n k t) G = G(k := (G k)\<lparr>r_answers := r_answers (G k) @ [(n, t)]\<rparr>)"

definition answered :: "response list \<Rightarrow> (nat \<Rightarrow> round) \<Rightarrow> nat \<Rightarrow> round" where
  "answered rs G = fold note_response rs G"

definition like :: "tensor \<Rightarrow> tensor \<Rightarrow> bool" where
  "like t u \<longleftrightarrow> t_dtype u = t_dtype t \<and> t_size u = t_size t \<and> length (t_data u) = length (t_data t) \<and> 0 < nbytes u"

text \<open>The requests that the protocol allows for the keys \<open>K\<close>, and the runs of a server that receives only these.\<close>

definition allowed :: "config \<Rightarrow> nat set \<Rightarrow> (nat \<Rightarrow> tensor) \<Rightarrow> (nat \<Rightarrow> round) \<Rightarrow> kv_request \<Rightarrow> bool" where
  "allowed cfg K T G q \<longleftrightarrow>
     q_key q \<in> K \<and> q_type q \<noteq> CompressedPushPull
     \<and> (if q_push q
        then q_sender q \<notin> fst ` set (r_pushes (G (q_key q))) \<and> length (r_pushes (G (q_key q))) < NumWorkers cfg \<and> like (T (q_key q)) (q_vals q)
        else q_sender q \<in> fst ` set (r_pushes (G (q_key q))) \<and> q_sender q \<notin> set (r_pulls (G (q_key q))))"

definition noted :: "kv_request \<Rightarrow> (nat \<Rightarrow> round) \<Rightarrow> nat \<Rightarrow> round" where
  "noted q G =
     G(q_key q := if q_push q then (G (q_key q))\<lparr>r_pushes := r_pushes (G (q_key q)) @ [(q_sender q, q_vals q)]\<rparr>
                  else (G (q_key q))\<lparr>r_pulls := r_pulls (G (q_key q)) @ [q_sender q]\<rparr>)"

inductive training :: "config \<Rightarrow> storage \<Rightarrow> 'c codec \<Rightarrow> nat set \<Rightarrow> (nat \<Rightarrow> tensor) \<Rightarrow> (nat \<Rightarrow> round) \<Rightarrow> 'c server \<Rightarrow> bool"
  for cfg c z K T where
  start: "(\<And>k. k \<in> K \<Longrightarrow> sv_store s k = Some (T k) \<and> 0 < nbytes (T k) \<and> sv_request s k = [] \<and> sv_compressor_map s k = None) \<Longrightarrow>
    (\<And>i. sv_engine_queues s i = []) \<Longrightarrow>
    (\<And>i k. sv_is_push_finished s i k \<noteq> Some True \<and> sv_q_pull_reqmeta s i k = [] \<and> sv_seen_sender s i k = {} \<and> sv_pull_cnt s i k = 0) \<Longrightarrow>
    sv_acc_load s \<noteq> [] \<Longrightarrow> training cfg c z K T (\<lambda>_. new_round) s"
| request: "training cfg c z K T G s \<Longrightarrow> allowed cfg K T G q \<Longrightarrow> BytePSHandler cfg c z q s = Inr (rs, s') \<Longrightarrow>
    training cfg c z K T (answered rs (noted q G)) s'"
| engine: "training cfg c z K T G s \<Longrightarrow> engine_step cfg c z i s = Inr (rs, s') \<Longrightarrow> training cfg c z K T (answered rs G) s'"
| next_round: "training cfg c z K T G s \<Longrightarrow> length (r_answers (G k)) = NumWorkers cfg \<Longrightarrow> training cfg c z K T (G(k := new_round)) s"

section \<open>The invariant of a key\<close>

definition key_msgs :: "nat \<Rightarrow> 'c server \<Rightarrow> nat \<Rightarrow> (engine_op \<times> tensor option) list" where
  "key_msgs k s i = map (\<lambda>m. (e_op m, e_src m)) (filter (\<lambda>m. e_key m = k) (sv_engine_queues s i))"

definition round_msgs :: "nat \<Rightarrow> (nat \<times> tensor) list \<Rightarrow> (engine_op \<times> tensor option) list" where
  "round_msgs n ps =
     (case ps of [] \<Rightarrow> [] | p # ps' \<Rightarrow> (COPY_FIRST, Some (snd p)) # map (\<lambda>p. (SUM_RECV, Some (snd p))) ps')
     @ (if length ps = n then [(ALL_RECV, None)] else [])"

definition idle :: "nat \<Rightarrow> nat \<Rightarrow> 'c server \<Rightarrow> bool" where
  "idle k i s \<longleftrightarrow> sv_is_push_finished s i k \<noteq> Some True \<and> sv_q_pull_reqmeta s i k = [] \<and> sv_seen_sender s i k = {} \<and> sv_pull_cnt s i k = 0"

text \<open>The pulls of a round, before and after the thread has seen that all pushes arrived.\<close>

definition pulls_wait :: "nat \<Rightarrow> nat \<Rightarrow> round \<Rightarrow> 'c server \<Rightarrow> bool" where
  "pulls_wait k i R s \<longleftrightarrow> sv_is_push_finished s i k \<noteq> Some True \<and> sv_q_pull_reqmeta s i k = r_pulls R \<and> sv_seen_sender s i k = {}
     \<and> sv_pull_cnt s i k = 0 \<and> r_answers R = []"

definition pulls_served :: "config \<Rightarrow> nat \<Rightarrow> nat \<Rightarrow> round \<Rightarrow> 'c server \<Rightarrow> bool" where
  "pulls_served cfg k i R s \<longleftrightarrow> sv_merged s k = Stored \<and> sv_q_pull_reqmeta s i k = [] \<and> map fst (r_answers R) = r_pulls R
     \<and> (\<forall>x \<in> set (r_answers R). sv_store s k = Some (snd x))
     \<and> (if length (r_pulls R) < NumWorkers cfg
        then sv_is_push_finished s i k = Some True \<and> sv_pull_cnt s i k = length (r_pulls R) \<and> sv_seen_sender s i k = set (r_pulls R)
        else sv_is_push_finished s i k = Some False \<and> sv_pull_cnt s i k = 0 \<and> sv_seen_sender s i k = {})"

text \<open>The thread \<open>i\<close> of the key has taken \<open>d\<close> messages of the round.\<close>

definition round_at :: "config \<Rightarrow> storage \<Rightarrow> tensor \<Rightarrow> nat \<Rightarrow> round \<Rightarrow> 'c server \<Rightarrow> nat \<Rightarrow> nat \<Rightarrow> bool" where
  "round_at cfg c t0 k R s i d \<longleftrightarrow>
     (\<forall>j. j \<noteq> i \<longrightarrow> key_msgs k s j = [] \<and> idle k j s)
     \<and> key_msgs k s i = drop d (round_msgs (NumWorkers cfg) (r_pushes R)) \<and> d \<le> length (round_msgs (NumWorkers cfg) (r_pushes R))
     \<and> (if d = 0 then \<exists>t. sv_store s k = Some t \<and> like t0 t else sv_store s k = server_round c (map snd (take d (r_pushes R))))
     \<and> (if d \<le> NumWorkers cfg then pulls_wait k i R s else pulls_served cfg k i R s)"

definition round_ok :: "config \<Rightarrow> tensor \<Rightarrow> round \<Rightarrow> bool" where
  "round_ok cfg t0 R \<longleftrightarrow> (\<forall>p \<in> set (r_pushes R). like t0 (snd p)) \<and> distinct (map fst (r_pushes R)) \<and> length (r_pushes R) \<le> NumWorkers cfg
     \<and> distinct (r_pulls R) \<and> set (r_pulls R) \<subseteq> fst ` set (r_pushes R)"

definition key_inv :: "config \<Rightarrow> storage \<Rightarrow> tensor \<Rightarrow> nat \<Rightarrow> round \<Rightarrow> 'c server \<Rightarrow> bool" where
  "key_inv cfg c t0 k R s \<longleftrightarrow> round_ok cfg t0 R \<and> sv_compressor_map s k = None
     \<and> sv_request s k = (if length (r_pushes R) = NumWorkers cfg then [] else map fst (r_pushes R))
     \<and> (\<exists>i d. (r_pushes R \<noteq> [] \<longrightarrow> sv_hash_cache s k = Some i) \<and> round_at cfg c t0 k R s i d)"

text \<open>An event on another key leaves everything that belongs to a key as it is.\<close>

definition same_key :: "nat \<Rightarrow> 'c server \<Rightarrow> 'c server \<Rightarrow> bool" where
  "same_key k s s' \<longleftrightarrow> sv_store s' k = sv_store s k \<and> sv_request s' k = sv_request s k \<and> sv_compressor_map s' k = sv_compressor_map s k
     \<and> sv_merged s' k = sv_merged s k \<and> sv_hash_cache s' k = sv_hash_cache s k
     \<and> (\<forall>i. key_msgs k s' i = key_msgs k s i \<and> sv_is_push_finished s' i k = sv_is_push_finished s i k
          \<and> sv_q_pull_reqmeta s' i k = sv_q_pull_reqmeta s i k \<and> sv_seen_sender s' i k = sv_seen_sender s i k
          \<and> sv_pull_cnt s' i k = sv_pull_cnt s i k)"

lemma same_key_round_at: "same_key k s s' \<Longrightarrow> round_at cfg c t0 k R s' i d = round_at cfg c t0 k R s i d"
  unfolding same_key_def round_at_def idle_def pulls_wait_def pulls_served_def by (elim conjE) (simp only:)

lemma same_key_inv: "same_key k s s' \<Longrightarrow> key_inv cfg c t0 k R s \<Longrightarrow> key_inv cfg c t0 k R s'"
  unfolding key_inv_def by (simp add: same_key_round_at) (simp add: same_key_def)

section \<open>Sums\<close>

lemma like_trans: "like t u \<Longrightarrow> like t v \<Longrightarrow> like u v"
  by (simp add: like_def)

lemma reducer_sum_like: "like t u \<Longrightarrow> like t v \<Longrightarrow> \<exists>w. reducer_sum c u v = Some w \<and> like t w"
  by (auto simp: like_def reducer_sum_def nbytes_def vadd_def)

lemma reducer_copy_like: "like t u \<Longrightarrow> like t v \<Longrightarrow> reducer_copy u v = Some v"
  by (simp add: like_def reducer_copy_def)

lemma sum_recv_like: "like t u \<Longrightarrow> \<forall>v \<in> set ts. like t v \<Longrightarrow> \<exists>w. sum_recv c u ts = Some w \<and> like t w"
proof (induction ts arbitrary: u)
  case (Cons v ts)
  then obtain w where "reducer_sum c u v = Some w" "like t w" using reducer_sum_like [of t u v c] by auto
  then show ?case using Cons by simp
qed simp

lemma server_round_like: "ts \<noteq> [] \<Longrightarrow> \<forall>v \<in> set ts. like t v \<Longrightarrow> \<exists>w. server_round c ts = Some w \<and> like t w"
  by (cases ts) (auto intro: sum_recv_like)

lemma sum_recv_snoc: "sum_recv c u (ts @ [v]) = (case sum_recv c u ts of None \<Rightarrow> None | Some w \<Rightarrow> reducer_sum c w v)"
  by (induction ts arbitrary: u) (auto split: option.split)

lemma server_round_snoc: "ts \<noteq> [] \<Longrightarrow> server_round c (ts @ [v]) = (case server_round c ts of None \<Rightarrow> None | Some w \<Rightarrow> reducer_sum c w v)"
  by (cases ts) (simp_all add: sum_recv_snoc)

section \<open>Pushes\<close>

lemma thread_id:
  assumes "sv_acc_load s \<noteq> []" "0 < len \<or> sv_hash_cache s k \<noteq> None"
  obtains i load where "GetThreadID k len s = Inr (i, s\<lparr>sv_acc_load := load, sv_hash_cache := (sv_hash_cache s)(k \<mapsto> i)\<rparr>)" "load \<noteq> []"
    "sv_hash_cache s k = None \<or> sv_hash_cache s k = Some i"
proof (cases "sv_hash_cache s k")
  case None
  obtain x xs where x: "sv_acc_load s = x # xs" using assms(1) by (cases "sv_acc_load s") auto
  let ?m = "min_load xs 1 0 x"
  show ?thesis
    by (rule that [of ?m "(x # xs)[?m := (x # xs) ! ?m + len]"]) (use None x assms(2) in \<open>simp_all add: GetThreadID_def Let_def split: nat.split\<close>)
next
  case (Some i)
  then have "s\<lparr>sv_acc_load := sv_acc_load s, sv_hash_cache := (sv_hash_cache s)(k \<mapsto> i)\<rparr> = s" by (simp add: fun_upd_idem)
  then show ?thesis using Some assms(1) that [of i "sv_acc_load s"] by (simp add: GetThreadID_def)
qed

text \<open>Everything but the queues, the request list and the thread of a key.\<close>

definition kept :: "'c server \<Rightarrow> 'c server \<Rightarrow> bool" where
  "kept s s' \<longleftrightarrow> sv_store s' = sv_store s \<and> sv_compressor_map s' = sv_compressor_map s \<and> sv_merged s' = sv_merged s
     \<and> sv_is_push_finished s' = sv_is_push_finished s \<and> sv_q_pull_reqmeta s' = sv_q_pull_reqmeta s \<and> sv_seen_sender s' = sv_seen_sender s
     \<and> sv_pull_cnt s' = sv_pull_cnt s"

definition queued :: "nat \<Rightarrow> nat \<Rightarrow> (engine_op \<times> tensor option) list \<Rightarrow> 'c server \<Rightarrow> 'c server \<Rightarrow> bool" where
  "queued k i new s s' \<longleftrightarrow>
     (\<exists>ms. sv_engine_queues s' = (sv_engine_queues s)(i := sv_engine_queues s i @ ms) \<and> (\<forall>m \<in> set ms. e_key m = k) \<and> map (\<lambda>m. (e_op m, e_src m)) ms = new)"

lemma queued_msgs: "queued k i new s s' \<Longrightarrow> key_msgs k' s' j = key_msgs k' s j @ (if k' = k \<and> j = i then new else [])"
  by (auto simp: queued_def key_msgs_def filter_id_conv filter_empty_conv)

lemma queued_keys: "queued k i new s s' \<Longrightarrow> m \<in> set (sv_engine_queues s' j) \<Longrightarrow> m \<in> set (sv_engine_queues s j) \<or> e_key m = k"
  by (auto simp: queued_def split: if_splits)

lemma queued_two:
  "sv_engine_queues s' = (sv_engine_queues s)(i := sv_engine_queues s i @ [m]) \<Longrightarrow> e_key m = k \<Longrightarrow> queued k i [(e_op m, e_src m)] s s'"
  "sv_engine_queues s' = (sv_engine_queues s)(i := sv_engine_queues s i @ [m, m']) \<Longrightarrow> e_key m = k \<Longrightarrow> e_key m' = k \<Longrightarrow>
   queued k i [(e_op m, e_src m), (e_op m', e_src m')] s s'"
  unfolding queued_def by (rule exI [of _ "[m]"], simp, rule exI [of _ "[m, m']"], simp)

lemma push_effect:
  assumes cfg: "sync_mode cfg" "\<not> is_engine_blocking cfg" and s: "sv_store s (q_key q) = Some t" "sv_acc_load s \<noteq> []" and q: "0 < nbytes (q_vals q)"
  obtains i s' where "handle_push cfg c q s = Inr ([Push_response (q_sender q) (q_key q)], s')"
    "sv_hash_cache s (q_key q) = None \<or> sv_hash_cache s (q_key q) = Some i"
    "kept s s'" "sv_acc_load s' \<noteq> []" "sv_hash_cache s' = (sv_hash_cache s)(q_key q \<mapsto> i)"
    "sv_request s' = (sv_request s)(q_key q := if Suc (length (sv_request s (q_key q))) = NumWorkers cfg then [] else sv_request s (q_key q) @ [q_sender q])"
    "queued (q_key q) i ((if sv_request s (q_key q) = [] then COPY_FIRST else SUM_RECV, Some (q_vals q))
        # (if Suc (length (sv_request s (q_key q))) = NumWorkers cfg then [(ALL_RECV, None)] else [])) s s'"
proof -
  obtain i load where i: "GetThreadID (q_key q) (nbytes (q_vals q)) s = Inr (i, s\<lparr>sv_acc_load := load, sv_hash_cache := (sv_hash_cache s)(q_key q \<mapsto> i)\<rparr>)"
      "load \<noteq> []" "sv_hash_cache s (q_key q) = None \<or> sv_hash_cache s (q_key q) = Some i"
    using thread_id [OF s(2)] q by blast
  define s1 where "s1 = s\<lparr>sv_acc_load := load, sv_hash_cache := (sv_hash_cache s)(q_key q \<mapsto> i)\<rparr>"
  define s2 where "s2 = (queue_message i (q_key q) (Some (q_vals q)) (if sv_request s (q_key q) = [] then COPY_FIRST else SUM_RECV) s1)
    \<lparr>sv_request := (sv_request s)(q_key q := sv_request s (q_key q) @ [q_sender q])\<rparr>"
  define s' where "s' = (if Suc (length (sv_request s (q_key q))) = NumWorkers cfg
    then (queue_message i (q_key q) None ALL_RECV s2)\<lparr>sv_request := (sv_request s2)(q_key q := [])\<rparr> else s2)"
  have r: "sv_request s1 = sv_request s" "sv_request (queue_message i k x y s1) = sv_request s" for k x y
    by (simp_all add: s1_def queue_message_def queue_push_def)
  have e: "handle_push cfg c q s = Inr ([Push_response (q_sender q) (q_key q)], s')"
    using cfg s(1) i(1) unfolding s1_def [symmetric]
    by (simp add: handle_push_def push_first_def push_other_def push_complete_def r s'_def s2_def Let_def)
  show ?thesis
    by (rule that [OF e i(3)])
       (auto simp: s'_def s2_def s1_def queue_message_def queue_push_def kept_def i(2) dest!: sym [of "Suc _"]
          intro!: queued_two [where m = "\<lparr>e_id = _, e_key = _, e_src = _, e_op = _\<rparr>", simplified]
            queued_two(2) [where m = "\<lparr>e_id = _, e_key = _, e_src = _, e_op = _\<rparr>" and m' = "\<lparr>e_id = _, e_key = _, e_src = _, e_op = _\<rparr>", simplified])
qed

lemma round_msgs_snoc:
  "length ps < n \<Longrightarrow> round_msgs n (ps @ [p]) = round_msgs n ps @ (if ps = [] then COPY_FIRST else SUM_RECV, Some (snd p))
     # (if Suc (length ps) = n then [(ALL_RECV, None)] else [])"
  by (cases ps) (auto simp: round_msgs_def)

lemma round_msgs_length: "length (round_msgs n ps) = length ps + (if length ps = n then 1 else 0)"
  by (cases ps) (auto simp: round_msgs_def)

text \<open>Before the first push of a round the thread of the key does not matter.\<close>

lemma round_at_start:
  assumes "round_ok cfg t0 R" "r_pushes R = []" "0 < NumWorkers cfg" "round_at cfg c t0 k R s i d"
  shows "round_at cfg c t0 k R s j 0"
proof -
  have d: "d = 0" "r_pulls R = []" "key_msgs k s i = []" using assms by (auto simp: round_at_def round_ok_def round_msgs_length round_msgs_def)
  then have w: "pulls_wait k i R s" using assms(4) by (simp add: round_at_def)
  then have "idle k i s" using d by (simp add: pulls_wait_def idle_def)
  then have all: "key_msgs k s l = [] \<and> idle k l s" for l using assms(4) d(3) by (cases "l = i") (auto simp: round_at_def)
  then have "pulls_wait k j R s" using w d(2) by (simp add: pulls_wait_def idle_def)
  then show ?thesis using all assms(2-4) d(1) by (simp add: round_at_def round_msgs_def)
qed

lemma key_inv_thread:
  assumes "key_inv cfg c t0 k R s" "0 < NumWorkers cfg" "sv_hash_cache s k = None \<or> sv_hash_cache s k = Some i"
  obtains d where "round_at cfg c t0 k R s i d"
proof -
  obtain j d where j: "r_pushes R \<noteq> [] \<longrightarrow> sv_hash_cache s k = Some j" "round_at cfg c t0 k R s j d" "round_ok cfg t0 R"
    using assms(1) by (auto simp: key_inv_def)
  show ?thesis
  proof (cases "r_pushes R = []")
    case True then show ?thesis using round_at_start [OF j(3) True assms(2) j(2)] that by blast
  next
    case False then show ?thesis using j assms(3) that by auto
  qed
qed

lemma inv_store:
  assumes "key_inv cfg c t0 k R s" "0 < NumWorkers cfg"
  obtains t where "sv_store s k = Some t" "like t0 t"
proof -
  obtain i d where d: "round_at cfg c t0 k R s i d" and ok: "\<forall>p \<in> set (r_pushes R). like t0 (snd p)"
    using assms(1) by (auto simp: key_inv_def round_ok_def)
  show ?thesis
  proof (cases "take d (r_pushes R) = []")
    case True
    then have "d = 0" using d assms(2) by (auto simp: round_at_def round_msgs_length)
    then show ?thesis using d that by (auto simp: round_at_def)
  next
    case False
    then have "\<exists>w. server_round c (map snd (take d (r_pushes R))) = Some w \<and> like t0 w"
      using ok by (intro server_round_like) (auto dest: in_set_takeD)
    then show ?thesis using d False that by (auto simp: round_at_def)
  qed
qed

lemma push_inv:
  assumes inv: "key_inv cfg c t0 (q_key q) R s" and cfg: "sync_mode cfg" "\<not> is_engine_blocking cfg"
    and q: "q_sender q \<notin> fst ` set (r_pushes R)" "length (r_pushes R) < NumWorkers cfg" "like t0 (q_vals q)" and load: "sv_acc_load s \<noteq> []"
  obtains s' i new where "handle_push cfg c q s = Inr ([Push_response (q_sender q) (q_key q)], s')"
    "key_inv cfg c t0 (q_key q) (R\<lparr>r_pushes := r_pushes R @ [(q_sender q, q_vals q)]\<rparr>) s'"
    "kept s s'" "sv_acc_load s' \<noteq> []" "queued (q_key q) i new s s'" "\<forall>k. k \<noteq> q_key q \<longrightarrow> same_key k s s'"
proof -
  let ?k = "q_key q" and ?N = "NumWorkers cfg" and ?R = "R\<lparr>r_pushes := r_pushes R @ [(q_sender q, q_vals q)]\<rparr>"
  have N: "0 < ?N" using q(2) by linarith
  have req: "sv_request s ?k = map fst (r_pushes R)" and ok: "round_ok cfg t0 R" "sv_compressor_map s ?k = None" using inv q(2) by (auto simp: key_inv_def)
  obtain t where t: "sv_store s ?k = Some t" using inv_store [OF inv N] by blast
  obtain i s' where e: "handle_push cfg c q s = Inr ([Push_response (q_sender q) ?k], s')" "sv_hash_cache s ?k = None \<or> sv_hash_cache s ?k = Some i"
      "kept s s'" "sv_acc_load s' \<noteq> []" "sv_hash_cache s' = (sv_hash_cache s)(?k \<mapsto> i)"
      "sv_request s' = (sv_request s)(?k := if Suc (length (sv_request s ?k)) = ?N then [] else sv_request s ?k @ [q_sender q])"
      "queued ?k i ((if sv_request s ?k = [] then COPY_FIRST else SUM_RECV, Some (q_vals q))
        # (if Suc (length (sv_request s ?k)) = ?N then [(ALL_RECV, None)] else [])) s s'"
    by (rule push_effect [OF cfg t load, where c = c]) (use q(3) in \<open>simp add: like_def\<close>)
  obtain d where d: "round_at cfg c t0 ?k R s i d" using key_inv_thread [OF inv N e(2)] by blast
  have dl: "d \<le> length (r_pushes R)" using d q(2) by (simp add: round_at_def round_msgs_length)
  have "round_at cfg c t0 ?k ?R s' i d"
    using d e(3) dl q(2) unfolding round_at_def kept_def idle_def pulls_wait_def
    by (simp add: queued_msgs [OF e(7)] req round_msgs_snoc round_msgs_length)
  moreover have "round_ok cfg t0 ?R" using ok(1) q by (auto simp: round_ok_def)
  ultimately have "key_inv cfg c t0 ?k ?R s'" using ok e(3,5,6) req by (auto simp: key_inv_def kept_def)
  moreover have "same_key k s s'" if "k \<noteq> ?k" for k
    using that e(3,5,6) queued_msgs [OF e(7), of k] by (simp add: same_key_def kept_def)
  ultimately show ?thesis using that e by blast
qed

section \<open>Pulls\<close>

fun answers_of :: "nat \<Rightarrow> response list \<Rightarrow> (nat \<times> tensor) list" where
  "answers_of k [] = []"
| "answers_of k (Push_response _ _ # rs) = answers_of k rs"
| "answers_of k (Pull_response n k' t # rs) = (if k' = k then (n, t) # answers_of k rs else answers_of k rs)"

lemma answered_at: "answered rs G k = (G k)\<lparr>r_answers := r_answers (G k) @ answers_of k rs\<rparr>"
  unfolding answered_def by (induction k rs arbitrary: G rule: answers_of.induct) auto

lemma answers_of_map [simp]: "answers_of k (map (\<lambda>n. Pull_response n k' t) ns) = (if k' = k then map (\<lambda>n. (n, t)) ns else [])"
  by (induction ns) auto

lemma pulls_left:
  assumes "round_ok cfg t0 R" "n \<in> fst ` set (r_pushes R)" "n \<notin> set (r_pulls R)"
  shows "length (r_pulls R) < NumWorkers cfg"
proof -
  have "card (insert n (set (r_pulls R))) \<le> card (fst ` set (r_pushes R))"
    using assms by (intro card_mono) (auto simp: round_ok_def)
  also have "\<dots> = length (r_pushes R)" using assms(1) distinct_card [of "map fst (r_pushes R)"] by (simp add: round_ok_def)
  finally show ?thesis using assms by (simp add: round_ok_def distinct_card)
qed

text \<open>A pull changes only what its thread keeps about its key.\<close>

definition pull_kept :: "nat \<Rightarrow> nat \<Rightarrow> 'c server \<Rightarrow> 'c server \<Rightarrow> bool" where
  "pull_kept k i s s' \<longleftrightarrow> sv_store s' = sv_store s \<and> sv_compressor_map s' = sv_compressor_map s \<and> sv_merged s' = sv_merged s
     \<and> sv_request s' = sv_request s \<and> sv_hash_cache s' = sv_hash_cache s \<and> sv_engine_queues s' = sv_engine_queues s \<and> sv_acc_load s' = sv_acc_load s
     \<and> (\<forall>j k'. j \<noteq> i \<or> k' \<noteq> k \<longrightarrow> sv_is_push_finished s' j k' = sv_is_push_finished s j k' \<and> sv_q_pull_reqmeta s' j k' = sv_q_pull_reqmeta s j k'
          \<and> sv_seen_sender s' j k' = sv_seen_sender s j k' \<and> sv_pull_cnt s' j k' = sv_pull_cnt s j k')"

lemma pull_kept_same: "pull_kept k i s s' \<Longrightarrow> k' \<noteq> k \<Longrightarrow> same_key k' s s'"
  by (simp add: pull_kept_def same_key_def key_msgs_def)

lemma pull_kept_round_at:
  assumes "pull_kept k i s s'" "round_at cfg c t0 k R s i d" "r_pushes R' = r_pushes R"
    and "if d \<le> NumWorkers cfg then pulls_wait k i R' s' else pulls_served cfg k i R' s'"
  shows "round_at cfg c t0 k R' s' i d"
proof -
  have "idle k j s' \<and> key_msgs k s' j = []" if "j \<noteq> i" for j
    using assms(1,2) that by (simp add: pull_kept_def round_at_def idle_def key_msgs_def)
  moreover have "key_msgs k s' i = key_msgs k s i" "sv_store s' = sv_store s" using assms(1) by (simp_all add: pull_kept_def key_msgs_def)
  ultimately show ?thesis using assms(2-4) by (simp add: round_at_def)
qed

lemma pull_waits:
  assumes cfg: "sync_mode cfg" "\<not> is_engine_blocking cfg" and s: "sv_store s k = Some t" "sv_hash_cache s k = Some i"
    and w: "pulls_wait k i R s" and q: "q_key q = k"
  obtains s' where "handle_pull cfg z q s = Inr ([], s')" "pull_kept k i s s'" "pulls_wait k i (R\<lparr>r_pulls := r_pulls R @ [q_sender q]\<rparr>) s'"
proof (cases "sv_is_push_finished s i k")
  case None
  show ?thesis
    by (rule that [of "s\<lparr>sv_is_push_finished := (sv_is_push_finished s)(i := (sv_is_push_finished s i)(k \<mapsto> False)),
          sv_pull_cnt := (sv_pull_cnt s)(i := (sv_pull_cnt s i)(k := 0)), sv_seen_sender := (sv_seen_sender s)(i := (sv_seen_sender s i)(k := {})),
          sv_q_pull_reqmeta := (sv_q_pull_reqmeta s)(i := (sv_q_pull_reqmeta s i)(k := sv_q_pull_reqmeta s i k @ [q_sender q]))\<rparr>"])
       (use None cfg s w q in \<open>simp_all add: handle_pull_def GetThreadID_def pull_kept_def pulls_wait_def Let_def\<close>)
next
  case (Some b)
  then have b: "b = False" using w by (simp add: pulls_wait_def)
  show ?thesis
    by (rule that [of "s\<lparr>sv_q_pull_reqmeta := (sv_q_pull_reqmeta s)(i := (sv_q_pull_reqmeta s i)(k := sv_q_pull_reqmeta s i k @ [q_sender q]))\<rparr>"])
       (use Some b cfg s w q in \<open>simp_all add: handle_pull_def GetThreadID_def pull_kept_def pulls_wait_def Let_def\<close>)
qed

lemma pull_answered:
  assumes cfg: "sync_mode cfg" "\<not> is_engine_blocking cfg" and s: "sv_store s k = Some t" "sv_hash_cache s k = Some i"
    and p: "pulls_served cfg k i R s" "length (r_pulls R) < NumWorkers cfg" "q_sender q \<notin> set (r_pulls R)" and q: "q_key q = k"
  obtains s' where "handle_pull cfg z q s = Inr ([Pull_response (q_sender q) k t], s')" "pull_kept k i s s'"
    "pulls_served cfg k i (R\<lparr>r_pulls := r_pulls R @ [q_sender q], r_answers := r_answers R @ [(q_sender q, t)]\<rparr>) s'"
proof -
  let ?n = "q_sender q" and ?cnt = "sv_pull_cnt s i k + 1"
  let ?last = "?cnt = NumWorkers cfg"
  show ?thesis
    by (rule that [of "s\<lparr>sv_is_push_finished := (sv_is_push_finished s)(i := (sv_is_push_finished s i)(k \<mapsto> \<not> ?last)),
          sv_pull_cnt := (sv_pull_cnt s)(i := (sv_pull_cnt s i)(k := if ?last then 0 else ?cnt)),
          sv_seen_sender := (sv_seen_sender s)(i := (sv_seen_sender s i)(k := if ?last then {} else insert ?n (sv_seen_sender s i k)))\<rparr>"])
       (use cfg s p q in \<open>auto simp: handle_pull_def GetThreadID_def pull_kept_def pulls_served_def SendPullResponse_def merged_tensor_def Let_def\<close>)
qed

lemma pull_inv:
  assumes inv: "key_inv cfg c t0 (q_key q) R s" and cfg: "sync_mode cfg" "\<not> is_engine_blocking cfg"
    and q: "q_sender q \<in> fst ` set (r_pushes R)" "q_sender q \<notin> set (r_pulls R)"
  obtains s' rs i where "handle_pull cfg z q s = Inr (rs, s')" "pull_kept (q_key q) i s s'" "\<forall>k. k \<noteq> q_key q \<longrightarrow> answers_of k rs = []"
    "key_inv cfg c t0 (q_key q) (R\<lparr>r_pulls := r_pulls R @ [q_sender q], r_answers := r_answers R @ answers_of (q_key q) rs\<rparr>) s'"
proof -
  let ?k = "q_key q" and ?n = "q_sender q" and ?R = "\<lambda>as. R\<lparr>r_pulls := r_pulls R @ [q_sender q], r_answers := r_answers R @ as\<rparr>"
  have ok: "round_ok cfg t0 R" "r_pushes R \<noteq> []" using inv q(1) by (auto simp: key_inv_def)
  then obtain i d where i: "sv_hash_cache s ?k = Some i" "round_at cfg c t0 ?k R s i d" using inv by (auto simp: key_inv_def)
  have l: "length (r_pulls R) < NumWorkers cfg" by (rule pulls_left [OF ok(1) q])
  obtain t where t: "sv_store s ?k = Some t" using inv_store [OF inv] l by auto
  have ok': "round_ok cfg t0 (?R as)" for as using ok(1) q by (simp add: round_ok_def)
  have "key_inv cfg c t0 ?k (?R as) s'" if "pull_kept ?k i s s'" "round_at cfg c t0 ?k (?R as) s' i d" for s' as
    using inv ok' that i(1) by (auto simp: key_inv_def pull_kept_def)
  note keep = this
  show ?thesis
  proof (cases "d \<le> NumWorkers cfg")
    case True
    then have w: "pulls_wait ?k i R s" using i(2) by (simp add: round_at_def)
    obtain s' where s': "handle_pull cfg z q s = Inr ([], s')" "pull_kept ?k i s s'" "pulls_wait ?k i (R\<lparr>r_pulls := r_pulls R @ [?n]\<rparr>) s'"
      by (rule pull_waits [OF cfg t i(1) w refl])
    then have "round_at cfg c t0 ?k (?R []) s' i d" using pull_kept_round_at [OF s'(2) i(2), of "?R []"] True w by (simp add: pulls_wait_def)
    then have "key_inv cfg c t0 ?k (?R []) s'" by (rule keep [OF s'(2)])
    then show ?thesis using that [OF s'(1,2)] by simp
  next
    case False
    then have "pulls_served cfg ?k i R s" using i(2) by (simp add: round_at_def)
    then obtain s' where s': "handle_pull cfg z q s = Inr ([Pull_response ?n ?k t], s')" "pull_kept ?k i s s'" "pulls_served cfg ?k i (?R [(?n, t)]) s'"
      by (rule pull_answered [OF cfg t i(1) _ l q(2) refl])
    then have "round_at cfg c t0 ?k (?R [(?n, t)]) s' i d" using pull_kept_round_at [OF s'(2) i(2)] False by simp
    then have "key_inv cfg c t0 ?k (?R [(?n, t)]) s'" by (rule keep [OF s'(2)])
    then show ?thesis using that [OF s'(1,2)] by simp
  qed
qed

section \<open>The engine\<close>

lemma round_msgs_nth:
  "d < length ps \<Longrightarrow> round_msgs n ps ! d = (if d = 0 then COPY_FIRST else SUM_RECV, Some (snd (ps ! d)))"
  "length ps = n \<Longrightarrow> round_msgs n ps ! n = (ALL_RECV, None)"
proof -
  show "d < length ps \<Longrightarrow> round_msgs n ps ! d = (if d = 0 then COPY_FIRST else SUM_RECV, Some (snd (ps ! d)))"
    by (cases ps; cases d) (simp_all add: round_msgs_def nth_append)
  show "length ps = n \<Longrightarrow> round_msgs n ps ! n = (ALL_RECV, None)"
    by (cases ps) (auto simp: round_msgs_def nth_append)
qed

lemma serve_waiting_all:
  "distinct qs \<Longrightarrow> set qs \<inter> seen = {} \<Longrightarrow> cnt + length qs \<le> n \<Longrightarrow> cnt < n \<Longrightarrow>
   serve_waiting n qs cnt seen = (qs, [], if cnt + length qs = n then (False, 0, {}) else (True, cnt + length qs, seen \<union> set qs))"
  by (induction n qs cnt seen rule: serve_waiting.induct) (auto simp: Let_def Suc_le_eq)

text \<open>The message at the head of a queue is the next one of the round of its key.\<close>

lemma engine_head:
  assumes inv: "key_inv cfg c t0 (e_key m) R s" and m: "sv_engine_queues s i = m # ms"
  obtains d where "round_at cfg c t0 (e_key m) R s i d" "r_pushes R \<noteq> [] \<longrightarrow> sv_hash_cache s (e_key m) = Some i"
    "d < length (round_msgs (NumWorkers cfg) (r_pushes R))" "round_msgs (NumWorkers cfg) (r_pushes R) ! d = (e_op m, e_src m)"
proof -
  let ?l = "round_msgs (NumWorkers cfg) (r_pushes R)"
  obtain j d where j: "r_pushes R \<noteq> [] \<longrightarrow> sv_hash_cache s (e_key m) = Some j" "round_at cfg c t0 (e_key m) R s j d" using inv by (auto simp: key_inv_def)
  have k: "key_msgs (e_key m) s i = (e_op m, e_src m) # map (\<lambda>m. (e_op m, e_src m)) (filter (\<lambda>x. e_key x = e_key m) ms)"
    using m by (simp add: key_msgs_def)
  then have "i = j" using j(2) by (cases "i = j") (auto simp: round_at_def)
  then have d: "drop d ?l = (e_op m, e_src m) # map (\<lambda>m. (e_op m, e_src m)) (filter (\<lambda>x. e_key x = e_key m) ms)" using j(2) k by (simp add: round_at_def)
  then have "d < length ?l" by (metis drop_all list.distinct(1) not_le)
  moreover have "?l ! d = (e_op m, e_src m)" using d calculation by (simp add: Cons_nth_drop_Suc [symmetric])
  ultimately show ?thesis using that j \<open>i = j\<close> by blast
qed

definition engine_kept :: "nat \<Rightarrow> nat \<Rightarrow> 'c server \<Rightarrow> 'c server \<Rightarrow> bool" where
  "engine_kept k i s s' \<longleftrightarrow> sv_request s' = sv_request s \<and> sv_hash_cache s' = sv_hash_cache s \<and> sv_acc_load s' = sv_acc_load s
     \<and> sv_compressor_map s' = sv_compressor_map s \<and> sv_engine_queues s' = (sv_engine_queues s)(i := tl (sv_engine_queues s i))
     \<and> (\<forall>k'. k' \<noteq> k \<longrightarrow> sv_store s' k' = sv_store s k' \<and> sv_merged s' k' = sv_merged s k')
     \<and> (\<forall>j k'. j \<noteq> i \<or> k' \<noteq> k \<longrightarrow> sv_is_push_finished s' j k' = sv_is_push_finished s j k' \<and> sv_q_pull_reqmeta s' j k' = sv_q_pull_reqmeta s j k'
          \<and> sv_seen_sender s' j k' = sv_seen_sender s j k' \<and> sv_pull_cnt s' j k' = sv_pull_cnt s j k')"

lemma engine_kept_same: "engine_kept (e_key m) i s s' \<Longrightarrow> sv_engine_queues s i = m # ms \<Longrightarrow> k \<noteq> e_key m \<Longrightarrow> same_key k s s'"
  by (auto simp: engine_kept_def same_key_def key_msgs_def)

lemma engine_kept_round_at:
  assumes kept: "engine_kept (e_key m) i s s'" and m: "sv_engine_queues s i = m # ms" and at: "round_at cfg c t0 (e_key m) R s i d"
    and d: "d < length (round_msgs (NumWorkers cfg) (r_pushes R))" "r_pushes R' = r_pushes R"
    and store: "sv_store s' (e_key m) = server_round c (map snd (take (Suc d) (r_pushes R)))"
    and pulls: "if Suc d \<le> NumWorkers cfg then pulls_wait (e_key m) i R' s' else pulls_served cfg (e_key m) i R' s'"
  shows "round_at cfg c t0 (e_key m) R' s' i (Suc d)"
proof -
  have "idle (e_key m) j s' \<and> key_msgs (e_key m) s' j = []" if "j \<noteq> i" for j
    using kept at that by (simp add: engine_kept_def round_at_def idle_def key_msgs_def)
  moreover have "key_msgs (e_key m) s' i = tl (key_msgs (e_key m) s i)" using kept m by (simp add: engine_kept_def key_msgs_def)
  moreover have "\<dots> = drop (Suc d) (round_msgs (NumWorkers cfg) (r_pushes R))" using at by (simp add: round_at_def drop_Suc tl_drop)
  ultimately show ?thesis using d store pulls by (simp add: round_at_def)
qed

text \<open>Copying the first tensor of a round, or adding a further one.\<close>

lemma engine_adds:
  assumes at: "round_at cfg c t0 (e_key m) R s i d" and m: "sv_engine_queues s i = m # ms" and d: "d < length (r_pushes R)"
    and op: "e_op m = (if d = 0 then COPY_FIRST else SUM_RECV)" "e_src m = Some (snd (r_pushes R ! d))"
    and ok: "round_ok cfg t0 R" "sv_compressor_map s (e_key m) = None"
  obtains t s' where "server_round c (map snd (take (Suc d) (r_pushes R))) = Some t" "engine_step cfg c z i s = Inr ([], s')"
    "engine_kept (e_key m) i s s'" "sv_store s' (e_key m) = Some t" "pulls_wait (e_key m) i R s'"
proof -
  let ?v = "snd (r_pushes R ! d)"
  have like: "\<forall>p \<in> set (r_pushes R). like t0 (snd p)" and v: "like t0 ?v" using ok(1) d by (auto simp: round_ok_def)
  have dN: "d < NumWorkers cfg" using d ok(1) by (simp add: round_ok_def)
  then have w: "pulls_wait (e_key m) i R s" using at by (simp add: round_at_def)
  have "\<exists>u t. sv_store s (e_key m) = Some u \<and> (if d = 0 then reducer_copy u ?v else reducer_sum c u ?v) = Some t
      \<and> server_round c (map snd (take (Suc d) (r_pushes R))) = Some t"
  proof (cases "d = 0")
    case True
    then obtain u where "sv_store s (e_key m) = Some u" "like t0 u" using at by (auto simp: round_at_def)
    then show ?thesis using True reducer_copy_like [OF _ v] d by (simp add: take_Suc_conv_app_nth)
  next
    case False
    then have "sv_store s (e_key m) = server_round c (map snd (take d (r_pushes R)))" using at by (simp add: round_at_def)
    moreover have "\<exists>u. server_round c (map snd (take d (r_pushes R))) = Some u \<and> like t0 u"
      using False d like by (intro server_round_like) (auto dest: in_set_takeD)
    ultimately obtain u where u: "sv_store s (e_key m) = Some u" "server_round c (map snd (take d (r_pushes R))) = Some u" "like t0 u" by auto
    have ne: "map snd (take d (r_pushes R)) \<noteq> []" using False d by auto
    show ?thesis using False u d server_round_snoc [OF ne, of c ?v] reducer_sum_like [OF u(3) v, of c] by (auto simp: take_Suc_conv_app_nth)
  qed
  then obtain u t where t: "sv_store s (e_key m) = Some u" "(if d = 0 then reducer_copy u ?v else reducer_sum c u ?v) = Some t"
    "server_round c (map snd (take (Suc d) (r_pushes R))) = Some t" by blast
  show ?thesis
    by (rule that [OF t(3), of "s\<lparr>sv_engine_queues := (sv_engine_queues s)(i := ms), sv_store := (sv_store s)(e_key m \<mapsto> t)\<rparr>"])
       (use t(1,2) m op ok(2) w in \<open>simp_all add: engine_step_def engine_write_def engine_source_def engine_kept_def pulls_wait_def Let_def split: if_splits\<close>)
qed

text \<open>After the last push the waiting pulls are answered.\<close>

lemma engine_answers:
  assumes m: "sv_engine_queues s i = m # ms" "e_op m = ALL_RECV" and t: "sv_store s (e_key m) = Some t" and w: "pulls_wait (e_key m) i R s"
    and ok: "round_ok cfg t0 R" "sv_compressor_map s (e_key m) = None" "0 < NumWorkers cfg"
  obtains s' where "engine_step cfg c z i s = Inr (map (\<lambda>n. Pull_response n (e_key m) t) (r_pulls R), s')" "engine_kept (e_key m) i s s'"
    "sv_store s' (e_key m) = Some t" "pulls_served cfg (e_key m) i (R\<lparr>r_answers := map (\<lambda>n. (n, t)) (r_pulls R)\<rparr>) s'"
proof -
  let ?k = "e_key m" and ?N = "NumWorkers cfg" and ?q = "r_pulls R"
  let ?full = "length ?q = ?N"
  have "length ?q \<le> card (fst ` set (r_pushes R))" using ok(1) distinct_card [of ?q] by (metis card_mono finite_imageI finite_set round_ok_def)
  also have "\<dots> \<le> ?N" using ok(1) card_length [of "map fst (r_pushes R)"] by (simp add: round_ok_def)
  finally have l: "length ?q \<le> ?N" .
  have q: "serve_waiting ?N ?q 0 {} = (?q, [], if ?full then (False, 0, {}) else (True, length ?q, set ?q))"
    using serve_waiting_all [of ?q "{}" 0 ?N] l ok by (simp add: round_ok_def)
  define s' where "s' = s\<lparr>sv_engine_queues := (sv_engine_queues s)(i := ms), sv_merged := (sv_merged s)(?k := Stored),
      sv_is_push_finished := (sv_is_push_finished s)(i := (sv_is_push_finished s i)(?k \<mapsto> \<not> ?full)),
      sv_pull_cnt := (sv_pull_cnt s)(i := (sv_pull_cnt s i)(?k := if ?full then 0 else length ?q)),
      sv_seen_sender := (sv_seen_sender s)(i := (sv_seen_sender s i)(?k := if ?full then {} else set ?q)),
      sv_q_pull_reqmeta := (sv_q_pull_reqmeta s)(i := (sv_q_pull_reqmeta s i)(?k := []))\<rparr>"
  have "engine_step cfg c z i s = Inr (map (\<lambda>n. Pull_response n ?k t) ?q, s')"
    using m t w ok(2) q
    by (simp add: engine_step_def engine_merge_def all_recv_def SendPullResponse_def merged_tensor_def pulls_wait_def s'_def Let_def)
  moreover have "engine_kept ?k i s s'" using m by (simp add: engine_kept_def s'_def)
  moreover have "pulls_served cfg ?k i (R\<lparr>r_answers := map (\<lambda>n. (n, t)) ?q\<rparr>) s'" using l t by (auto simp: pulls_served_def s'_def comp_def)
  ultimately show ?thesis using that t by (simp add: s'_def)
qed

lemma engine_inv:
  assumes inv: "key_inv cfg c t0 (e_key m) R s" and m: "sv_engine_queues s i = m # ms" and N: "0 < NumWorkers cfg"
  obtains rs s' where "engine_step cfg c z i s = Inr (rs, s')" "engine_kept (e_key m) i s s'" "\<forall>k. k \<noteq> e_key m \<longrightarrow> answers_of k rs = []"
    "key_inv cfg c t0 (e_key m) (R\<lparr>r_answers := r_answers R @ answers_of (e_key m) rs\<rparr>) s'"
proof -
  let ?k = "e_key m" and ?N = "NumWorkers cfg" and ?ps = "r_pushes R" and ?R = "\<lambda>as. R\<lparr>r_answers := r_answers R @ as\<rparr>"
  have ok: "round_ok cfg t0 R" "sv_compressor_map s ?k = None" using inv by (simp_all add: key_inv_def)
  obtain d where d: "round_at cfg c t0 ?k R s i d" "?ps \<noteq> [] \<longrightarrow> sv_hash_cache s ?k = Some i" "d < length (round_msgs ?N ?ps)"
      "round_msgs ?N ?ps ! d = (e_op m, e_src m)" by (rule engine_head [OF inv m])
  have keep: "key_inv cfg c t0 ?k (?R as) s'" if "engine_kept ?k i s s'" "round_at cfg c t0 ?k (?R as) s' i (Suc d)" for s' as
    using inv that d(2) by (auto simp: key_inv_def engine_kept_def round_ok_def)
  show ?thesis
  proof (cases "d < length ?ps")
    case True
    then have op: "e_op m = (if d = 0 then COPY_FIRST else SUM_RECV)" "e_src m = Some (snd (?ps ! d))" using d(4) round_msgs_nth(1) [OF True] by simp_all
    obtain t s' where s': "server_round c (map snd (take (Suc d) ?ps)) = Some t" "engine_step cfg c z i s = Inr ([], s')" "engine_kept ?k i s s'"
        "sv_store s' ?k = Some t" "pulls_wait ?k i R s'" by (rule engine_adds [OF d(1) m True op ok])
    have "Suc d \<le> ?N" using True ok(1) by (simp add: round_ok_def)
    then have "round_at cfg c t0 ?k (?R []) s' i (Suc d)" using engine_kept_round_at [OF s'(3) m d(1,3), of "?R []"] s' by simp
    then have "key_inv cfg c t0 ?k (?R []) s'" by (rule keep [OF s'(3)])
    then show ?thesis using that [OF s'(2,3)] by simp
  next
    case False
    then have e: "length ?ps = ?N" "d = ?N" using d(3) by (auto simp: round_msgs_length split: if_splits)
    then have op: "e_op m = ALL_RECV" using d(4) round_msgs_nth(2) [of ?ps ?N] by simp
    have w: "pulls_wait ?k i R s" using d(1) e by (simp add: round_at_def)
    obtain t where t: "sv_store s ?k = Some t" using inv_store [OF inv N] by blast
    obtain s' where s': "engine_step cfg c z i s = Inr (map (\<lambda>n. Pull_response n ?k t) (r_pulls R), s')" "engine_kept ?k i s s'"
        "sv_store s' ?k = Some t" "pulls_served cfg ?k i (R\<lparr>r_answers := map (\<lambda>n. (n, t)) (r_pulls R)\<rparr>) s'"
      by (rule engine_answers [OF m op t w ok N])
    have "sv_store s' ?k = server_round c (map snd (take (Suc d) ?ps))" using d(1) e N t s'(3) by (simp add: round_at_def)
    then have "round_at cfg c t0 ?k (?R (map (\<lambda>n. (n, t)) (r_pulls R))) s' i (Suc d)"
      using engine_kept_round_at [OF s'(2) m d(1,3)] s'(4) e(2) w by (simp add: pulls_wait_def)
    then have "key_inv cfg c t0 ?k (?R (map (\<lambda>n. (n, t)) (r_pulls R))) s'" by (rule keep [OF s'(2)])
    then show ?thesis using that [OF s'(1,2)] by simp
  qed
qed

section \<open>Training\<close>

definition train_inv :: "config \<Rightarrow> storage \<Rightarrow> nat set \<Rightarrow> (nat \<Rightarrow> tensor) \<Rightarrow> (nat \<Rightarrow> round) \<Rightarrow> 'c server \<Rightarrow> bool" where
  "train_inv cfg c K T G s \<longleftrightarrow> (\<forall>k \<in> K. key_inv cfg c (T k) k (G k) s) \<and> sv_acc_load s \<noteq> [] \<and> (\<forall>i. \<forall>m \<in> set (sv_engine_queues s i). e_key m \<in> K)"

lemma request_inv:
  assumes inv: "train_inv cfg c K T G s" and cfg: "sync_mode cfg" "\<not> is_engine_blocking cfg" and q: "allowed cfg K T G q"
  obtains rs s' where "BytePSHandler cfg c z q s = Inr (rs, s')" "train_inv cfg c K T (answered rs (noted q G)) s'"
proof -
  have k: "key_inv cfg c (T (q_key q)) (q_key q) (G (q_key q)) s" and K: "q_key q \<in> K" "q_type q \<noteq> CompressedPushPull"
    and load: "sv_acc_load s \<noteq> []" using inv q by (auto simp: train_inv_def allowed_def)
  show ?thesis
  proof (cases "q_push q")
    case True
    then have q': "q_sender q \<notin> fst ` set (r_pushes (G (q_key q)))" "length (r_pushes (G (q_key q))) < NumWorkers cfg" "like (T (q_key q)) (q_vals q)"
      using q by (simp_all add: allowed_def)
    obtain s' i new where s': "handle_push cfg c q s = Inr ([Push_response (q_sender q) (q_key q)], s')"
        "key_inv cfg c (T (q_key q)) (q_key q) ((G (q_key q))\<lparr>r_pushes := r_pushes (G (q_key q)) @ [(q_sender q, q_vals q)]\<rparr>) s'"
        "kept s s'" "sv_acc_load s' \<noteq> []" "queued (q_key q) i new s s'" "\<forall>k. k \<noteq> q_key q \<longrightarrow> same_key k s s'"
      by (rule push_inv [OF k cfg q' load])
    have "e_key m \<in> K" if "m \<in> set (sv_engine_queues s' j)" for j m using queued_keys [OF s'(5) that] inv K by (auto simp: train_inv_def)
    then have "train_inv cfg c K T (answered [Push_response (q_sender q) (q_key q)] (noted q G)) s'"
      using inv s' True unfolding train_inv_def by (auto simp: answered_def noted_def intro: same_key_inv)
    then show ?thesis using that s'(1) True K by (simp add: BytePSHandler_def)
  next
    case False
    then have q': "q_sender q \<in> fst ` set (r_pushes (G (q_key q)))" "q_sender q \<notin> set (r_pulls (G (q_key q)))" using q by (simp_all add: allowed_def)
    obtain s' rs i where s': "handle_pull cfg z q s = Inr (rs, s')" "pull_kept (q_key q) i s s'" "\<forall>k. k \<noteq> q_key q \<longrightarrow> answers_of k rs = []"
        "key_inv cfg c (T (q_key q)) (q_key q) ((G (q_key q))\<lparr>r_pulls := r_pulls (G (q_key q)) @ [q_sender q],
           r_answers := r_answers (G (q_key q)) @ answers_of (q_key q) rs\<rparr>) s'"
      by (rule pull_inv [OF k cfg q'])
    have "key_inv cfg c (T k) k (answered rs (noted q G) k) s'" if "k \<in> K" for k
      using inv that s' False pull_kept_same [OF s'(2)] by (cases "k = q_key q") (auto simp: train_inv_def answered_at noted_def intro: same_key_inv)
    then have "train_inv cfg c K T (answered rs (noted q G)) s'" using inv s'(2) by (simp add: train_inv_def pull_kept_def)
    then show ?thesis using that s'(1) False K by (simp add: BytePSHandler_def)
  qed
qed

lemma engine_train_inv:
  assumes inv: "train_inv cfg c K T G s" and N: "0 < NumWorkers cfg"
  obtains rs s' where "engine_step cfg c z i s = Inr (rs, s')" "train_inv cfg c K T (answered rs G) s'"
    "sv_engine_queues s' i = tl (sv_engine_queues s i)" "sv_hash_cache s' = sv_hash_cache s"
proof (cases "sv_engine_queues s i")
  case Nil
  then show ?thesis using inv that [of "[]" s] by (simp add: engine_step_def answered_def)
next
  case (Cons m ms)
  then have "m \<in> set (sv_engine_queues s i)" by simp
  then have k: "e_key m \<in> K" "key_inv cfg c (T (e_key m)) (e_key m) (G (e_key m)) s"
    using inv unfolding train_inv_def by blast+
  obtain rs s' where s': "engine_step cfg c z i s = Inr (rs, s')" "engine_kept (e_key m) i s s'" "\<forall>k. k \<noteq> e_key m \<longrightarrow> answers_of k rs = []"
      "key_inv cfg c (T (e_key m)) (e_key m) ((G (e_key m))\<lparr>r_answers := r_answers (G (e_key m)) @ answers_of (e_key m) rs\<rparr>) s'"
    by (rule engine_inv [OF k(2) Cons N])
  have "key_inv cfg c (T k) k (answered rs G k) s'" if "k \<in> K" for k
    using inv that s' engine_kept_same [OF s'(2) Cons] by (cases "k = e_key m") (auto simp: train_inv_def answered_at intro: same_key_inv)
  moreover have "set (sv_engine_queues s' j) \<subseteq> set (sv_engine_queues s j)" for j using s'(2) Cons by (auto simp: engine_kept_def)
  then have "\<forall>j. \<forall>x \<in> set (sv_engine_queues s' j). e_key x \<in> K" using inv unfolding train_inv_def by blast
  ultimately have "train_inv cfg c K T (answered rs G) s'" using inv s'(2) by (simp add: train_inv_def engine_kept_def)
  then show ?thesis using that [OF s'(1)] s'(2) Cons by (simp add: engine_kept_def)
qed

lemma next_round_inv:
  assumes inv: "key_inv cfg c t0 k R s" and N: "0 < NumWorkers cfg" and a: "length (r_answers R) = NumWorkers cfg"
  shows "key_inv cfg c t0 k new_round s"
proof -
  obtain i d where d: "round_at cfg c t0 k R s i d" using inv by (auto simp: key_inv_def)
  obtain t where t: "sv_store s k = Some t" "like t0 t" by (rule inv_store [OF inv N])
  have dN: "\<not> d \<le> NumWorkers cfg" using d a N by (auto simp: round_at_def pulls_wait_def)
  then have l: "length (r_pushes R) = NumWorkers cfg" and p: "pulls_served cfg k i R s"
    using d inv by (auto simp: round_at_def round_msgs_length key_inv_def round_ok_def split: if_splits)
  have "length (r_pulls R) = NumWorkers cfg" using p a by (metis length_map pulls_served_def)
  then have "pulls_wait k i new_round s" using p by (simp add: pulls_served_def pulls_wait_def new_round_def)
  moreover have "key_msgs k s i = []" using d dN l by (auto simp: round_at_def round_msgs_length)
  ultimately have "round_at cfg c t0 k new_round s i 0" using d t N by (auto simp: round_at_def new_round_def round_msgs_def)
  then show ?thesis using inv l N by (auto simp: key_inv_def new_round_def round_ok_def)
qed

lemma engine_drains:
  assumes "train_inv cfg c K T G s" "0 < NumWorkers cfg"
  obtains rs s' where "server_run cfg c z (replicate (length (sv_engine_queues s i)) (Engine i)) s = Inr (rs, s')"
    "train_inv cfg c K T (answered rs G) s'" "sv_engine_queues s' i = []" "sv_hash_cache s' = sv_hash_cache s"
  using assms
proof (induction "length (sv_engine_queues s i)" arbitrary: s G thesis)
  case 0
  then show ?case using "0.prems"(1) [of "[]" s] by (simp add: answered_def)
next
  case (Suc n)
  obtain rs s1 where 1: "engine_step cfg c z i s = Inr (rs, s1)" "train_inv cfg c K T (answered rs G) s1"
      "sv_engine_queues s1 i = tl (sv_engine_queues s i)" "sv_hash_cache s1 = sv_hash_cache s"
    by (rule engine_train_inv [OF Suc.prems(2,3)])
  have n: "n = length (sv_engine_queues s1 i)" using Suc.hyps(2) 1(3) by simp
  obtain rs' s' where 2: "server_run cfg c z (replicate (length (sv_engine_queues s1 i)) (Engine i)) s1 = Inr (rs', s')"
      "train_inv cfg c K T (answered rs' (answered rs G)) s'" "sv_engine_queues s' i = []" "sv_hash_cache s' = sv_hash_cache s1"
    by (rule Suc.hyps(1) [OF n _ 1(2) Suc.prems(3)])
  have "answered rs' (answered rs G) = answered (rs @ rs') G" by (simp add: answered_def)
  moreover have "server_run cfg c z (replicate (length (sv_engine_queues s i)) (Engine i)) s = Inr (rs @ rs', s')"
    unfolding Suc.hyps(2) [symmetric] using 1(1) 2(1) unfolding n [symmetric] by simp
  ultimately show ?case using Suc.prems(1) [of "rs @ rs'" s'] 1(4) 2(2-4) by simp
qed

lemma drained_round:
  assumes inv: "key_inv cfg c t0 k R s" and N: "0 < NumWorkers cfg" "length (r_pushes R) = NumWorkers cfg"
    and i: "sv_hash_cache s k = Some i" "sv_engine_queues s i = []"
  shows "map fst (r_answers R) = r_pulls R"
proof -
  obtain d where d: "round_at cfg c t0 k R s i d" using key_inv_thread [OF inv N(1), of i] i(1) by blast
  then have "drop d (round_msgs (NumWorkers cfg) (r_pushes R)) = []" using i(2) by (simp add: round_at_def key_msgs_def)
  then have "\<not> d \<le> NumWorkers cfg" using N(2) by (simp add: round_msgs_length)
  then show ?thesis using d by (simp add: round_at_def pulls_served_def)
qed

lemma training_inv:
  assumes "training cfg c z K T G s" "sync_mode cfg" "\<not> is_engine_blocking cfg" "0 < NumWorkers cfg"
  shows "train_inv cfg c K T G s"
  using assms
proof (induction rule: training.induct)
  case (start s)
  have "round_at cfg c (T k) k new_round s 0 0" if "k \<in> K" for k
    using start that by (auto simp: round_at_def key_msgs_def idle_def pulls_wait_def new_round_def round_msgs_def like_def)
  moreover have "round_ok cfg (T k) new_round" for k by (simp add: round_ok_def new_round_def)
  ultimately have "key_inv cfg c (T k) k new_round s" if "k \<in> K" for k
    using start that by (auto simp: key_inv_def new_round_def)
  then show ?case using start by (simp add: train_inv_def)
next
  case (request G s q rs s')
  then have i: "train_inv cfg c K T G s" by blast
  obtain rs1 s1 where "BytePSHandler cfg c z q s = Inr (rs1, s1)" "train_inv cfg c K T (answered rs1 (noted q G)) s1"
    by (rule request_inv [OF i request.prems(1,2) request.hyps(2)])
  then show ?case using request.hyps(3) by simp
next
  case (engine G s i rs s')
  then have i: "train_inv cfg c K T G s" by blast
  obtain rs1 s1 where "engine_step cfg c z i s = Inr (rs1, s1)" "train_inv cfg c K T (answered rs1 G) s1"
    by (rule engine_train_inv [OF i engine.prems(3)])
  then show ?case using engine.hyps(2) by simp
next
  case (next_round G s k)
  then have i: "train_inv cfg c K T G s" by blast
  then have "key_inv cfg c (T k) k new_round s" if "k \<in> K"
    using that by (intro next_round_inv [OF _ next_round.prems(3) next_round.hyps(2)]) (simp add: train_inv_def)
  then show ?case using i by (simp add: train_inv_def)
qed

text \<open>
  C3. The parameter server sums a round: while the workers keep to the protocol (tensors of a key are alike, it has no compressor,
  and its next round starts when all workers have been answered), whatever the order of their requests
  and of the steps of the engine threads and whatever other keys are in use, a worker that is answered
  gets the sum of the tensors of all workers of that round, in the order in which they arrived, and no worker is answered twice.
\<close>

theorem server_answers_sum:
  assumes "training cfg c z K T G s" "sync_mode cfg" "\<not> is_engine_blocking cfg" "0 < NumWorkers cfg" "k \<in> K" "(n, t) \<in> set (r_answers (G k))"
  shows "length (r_pushes (G k)) = NumWorkers cfg \<and> server_round c (map snd (r_pushes (G k))) = Some t \<and> n \<in> set (r_pulls (G k))
    \<and> distinct (map fst (r_answers (G k)))"
proof -
  have inv: "key_inv cfg c (T k) k (G k) s" using training_inv [OF assms(1-4)] assms(5) by (simp add: train_inv_def)
  then obtain i d where d: "round_at cfg c (T k) k (G k) s i d" and ok: "round_ok cfg (T k) (G k)" by (auto simp: key_inv_def)
  have dN: "\<not> d \<le> NumWorkers cfg" using d assms(6) by (auto simp: round_at_def pulls_wait_def)
  then have p: "pulls_served cfg k i (G k) s" using d by (simp add: round_at_def)
  have l: "length (r_pushes (G k)) = NumWorkers cfg" using d dN ok by (auto simp: round_at_def round_msgs_length round_ok_def split: if_splits)
  then have "sv_store s k = server_round c (map snd (r_pushes (G k)))" using d dN by (simp add: round_at_def)
  moreover have "sv_store s k = Some t" "map fst (r_answers (G k)) = r_pulls (G k)" using p assms(6) by (auto simp: pulls_served_def)
  moreover have "n \<in> fst ` set (r_answers (G k))" using assms(6) by force
  ultimately show ?thesis using l ok by (metis image_set round_ok_def)
qed

text \<open>Runs of allowed events, to be evaluated.\<close>

fun train_run ::
    "config \<Rightarrow> storage \<Rightarrow> 'c codec \<Rightarrow> nat set \<Rightarrow> (nat \<Rightarrow> tensor) \<Rightarrow> event list \<Rightarrow> (nat \<Rightarrow> round) \<Rightarrow> 'c server \<Rightarrow> ((nat \<Rightarrow> round) \<times> 'c server) option" where
  "train_run cfg c z K T [] G s = Some (G, s)"
| "train_run cfg c z K T (Request q # es) G s =
     (if allowed cfg K T G q
      then (case BytePSHandler cfg c z q s of Inl _ \<Rightarrow> None | Inr (rs, s) \<Rightarrow> train_run cfg c z K T es (answered rs (noted q G)) s)
      else None)"
| "train_run cfg c z K T (Engine i # es) G s =
     (case engine_step cfg c z i s of Inl _ \<Rightarrow> None | Inr (rs, s) \<Rightarrow> train_run cfg c z K T es (answered rs G) s)"

lemma train_run_training: "train_run cfg c z K T es G s = Some (G', s') \<Longrightarrow> training cfg c z K T G s \<Longrightarrow> training cfg c z K T G' s'"
proof (induction es arbitrary: G s)
  case (Cons e es)
  then show ?case by (cases e) (auto split: if_splits sum.splits intro: training.request training.engine)
qed simp

lemma train_run_case:
  assumes "case train_run cfg c z K T es G s of None \<Rightarrow> False | Some (G, s) \<Rightarrow> P G s" "training cfg c z K T G s"
  shows "\<exists>G s. training cfg c z K T G s \<and> P G s"
proof (cases "train_run cfg c z K T es G s")
  case (Some x)
  then show ?thesis using assms train_run_training [of cfg c z K T es G s "fst x" "snd x"] by (auto split: prod.splits)
qed (use assms in simp)

definition two_workers :: config where
  "two_workers = \<lparr>NumWorkers = 2, sync_mode = True, is_engine_blocking = False, engine_thread_num = 4\<rparr>"

definition no_codec :: "unit codec" where
  "no_codec = \<lparr>z_create = (\<lambda>_ _. None), z_compress = Pair, z_decompress = (\<lambda>_ _. ()), z_buffer = (\<lambda>_. zeros 1)\<rparr>"

definition scalar :: "rat \<Rightarrow> tensor" where
  "scalar x = \<lparr>t_dtype = Float32, t_size = [1], t_data = [x]\<rparr>"

definition started :: "unit server" where
  "started = (server_init two_workers)\<lparr>sv_store := [7 \<mapsto> scalar 0]\<rparr>"

abbreviation push_of :: "nat \<Rightarrow> rat \<Rightarrow> event" where
  "push_of n x \<equiv> Request \<lparr>q_sender = n, q_push = True, q_type = DefaultPushPull, q_key = 7, q_vals = scalar x\<rparr>"

abbreviation pull_of :: "nat \<Rightarrow> event" where
  "pull_of n \<equiv> Request \<lparr>q_sender = n, q_push = False, q_type = DefaultPushPull, q_key = 7, q_vals = scalar 0\<rparr>"

text \<open>The state in which training starts is the one that the first pushes of all workers lead to.\<close>

lemma started_run:
  "server_run two_workers c no_codec [push_of 0 0, push_of 1 0] (server_init two_workers) = Inr ([Push_response 0 7, Push_response 1 7], started)"
  by (simp add: BytePSHandler_def handle_push_def collect_def server_init_def started_def two_workers_def fun_upd_idem)

lemma started_training: "training two_workers c no_codec {7} (\<lambda>_. scalar 0) (\<lambda>_. new_round) started"
  by (rule training.start) (simp_all add: started_def server_init_def two_workers_def nbytes_def scalar_def)

lemma round_example:
  "\<exists>G s. training two_workers exact no_codec {7} (\<lambda>_. scalar 0) G s \<and> r_answers (G 7) = [(1, scalar 5), (0, scalar 5)]
     \<and> r_pushes (G 7) = [(0, scalar 2), (1, scalar 3)] \<and> r_pulls (G 7) = [1, 0]"
proof -
  have "case train_run two_workers exact no_codec {7} (\<lambda>_. scalar 0) [push_of 0 2, Engine 0, push_of 1 3, pull_of 1, Engine 0, Engine 0, pull_of 0]
      (\<lambda>_. new_round) started of
    None \<Rightarrow> False
  | Some (G, s) \<Rightarrow> r_answers (G 7) = [(1, scalar 5), (0, scalar 5)] \<and> r_pushes (G 7) = [(0, scalar 2), (1, scalar 3)] \<and> r_pulls (G 7) = [1, 0]"
    by code_simp
  then show ?thesis by (rule train_run_case [OF _ started_training])
qed

theorem server_answers_sum_witness:
  "\<exists>G s. training two_workers exact no_codec {7} (\<lambda>_. scalar 0) G s \<and> length (r_pushes (G 7)) = NumWorkers two_workers
     \<and> server_round exact (map snd (r_pushes (G 7))) = Some (scalar 5) \<and> 0 \<in> set (r_pulls (G 7))"
proof -
  obtain G s where G: "training two_workers exact no_codec {7} (\<lambda>_. scalar 0) G s" "r_answers (G 7) = [(1, scalar 5), (0, scalar 5)]"
    using round_example by blast
  then show ?thesis using server_answers_sum [OF G(1), of 7 0 "scalar 5"] by (auto simp: two_workers_def)
qed

text \<open>
  C10. The parameter server answers: while the workers keep to the protocol, it fails neither on an allowed request nor on a
  step of an engine thread, and once all workers have pushed to a key, letting its thread work off the
  queue answers all pulls of the key that were received, each once.
\<close>

theorem server_answers_all:
  assumes "training cfg c z K T G s" "sync_mode cfg" "\<not> is_engine_blocking cfg" "0 < NumWorkers cfg"
  shows "(allowed cfg K T G q \<longrightarrow> (\<exists>rs s'. BytePSHandler cfg c z q s = Inr (rs, s')))
    \<and> (\<exists>rs s'. engine_step cfg c z i s = Inr (rs, s'))
    \<and> (k \<in> K \<and> sv_hash_cache s k = Some i \<and> length (r_pushes (G k)) = NumWorkers cfg \<longrightarrow>
        (\<exists>rs s'. server_run cfg c z (replicate (length (sv_engine_queues s i)) (Engine i)) s = Inr (rs, s')
          \<and> map fst (r_answers (G k) @ answers_of k rs) = r_pulls (G k)))"
proof (intro conjI impI)
  have inv: "train_inv cfg c K T G s" by (rule training_inv [OF assms])
  show "\<exists>rs s'. BytePSHandler cfg c z q s = Inr (rs, s')" if "allowed cfg K T G q"
    using request_inv [OF inv assms(2,3) that, of z] by blast
  show "\<exists>rs s'. engine_step cfg c z i s = Inr (rs, s')" using engine_train_inv [OF inv assms(4), of z i] by blast
  assume k: "k \<in> K \<and> sv_hash_cache s k = Some i \<and> length (r_pushes (G k)) = NumWorkers cfg"
  obtain rs s' where r: "server_run cfg c z (replicate (length (sv_engine_queues s i)) (Engine i)) s = Inr (rs, s')"
      "train_inv cfg c K T (answered rs G) s'" "sv_engine_queues s' i = []" "sv_hash_cache s' = sv_hash_cache s"
    by (rule engine_drains [OF inv assms(4)])
  have "map fst (r_answers (G k) @ answers_of k rs) = r_pulls (G k)"
    using drained_round [of cfg c "T k" k "answered rs G k" s' i] r k assms by (simp add: train_inv_def answered_at)
  then show "\<exists>rs s'. server_run cfg c z (replicate (length (sv_engine_queues s i)) (Engine i)) s = Inr (rs, s')
      \<and> map fst (r_answers (G k) @ answers_of k rs) = r_pulls (G k)" using r(1) by blast
qed

theorem server_answers_all_witness:
  "\<exists>G s rs s'. training two_workers exact no_codec {7} (\<lambda>_. scalar 0) G s
     \<and> server_run two_workers exact no_codec (replicate (length (sv_engine_queues s 0)) (Engine 0)) s = Inr (rs, s')
     \<and> map fst (r_answers (G 7) @ answers_of 7 rs) = [1]"
proof -
  have "case train_run two_workers exact no_codec {7} (\<lambda>_. scalar 0) [push_of 0 2, push_of 1 3, pull_of 1] (\<lambda>_. new_round) started of
    None \<Rightarrow> False
  | Some (G, s) \<Rightarrow> sv_hash_cache s 7 = Some 0 \<and> length (r_pushes (G 7)) = 2 \<and> r_pulls (G 7) = [1]"
    by code_simp
  then obtain G s where G: "training two_workers exact no_codec {7} (\<lambda>_. scalar 0) G s" "sv_hash_cache s 7 = Some 0" "length (r_pushes (G 7)) = 2"
      "r_pulls (G 7) = [1]"
    using train_run_case [OF _ started_training, where P = "\<lambda>G s. sv_hash_cache s 7 = Some 0 \<and> length (r_pushes (G 7)) = 2 \<and> r_pulls (G 7) = [1]"] by blast
  then show ?thesis using server_answers_all [OF G(1), of _ 0 7] by (fastforce simp: two_workers_def)
qed

text \<open>
  C19. A late pull races with the next round: when a worker that has been answered pushes the tensor of its next round
  before another worker has pulled, the first message of the next round overwrites the sum, and the late
  worker receives the tensor of the other worker in its place.
\<close>

theorem late_pull_race:
  assumes "training cfg c z K T G s" "sync_mode cfg" "\<not> is_engine_blocking cfg" "0 < NumWorkers cfg" "k \<in> K" "sv_hash_cache s k = Some i"
    and "sv_engine_queues s i = []" "a \<in> fst ` set (r_answers (G k))" "b \<in> fst ` set (r_pushes (G k))" "b \<notin> set (r_pulls (G k))" "like (T k) v"
  shows "\<exists>s'. server_run cfg c z
      [Request \<lparr>q_sender = a, q_push = True, q_type = DefaultPushPull, q_key = k, q_vals = v\<rparr>, Engine i,
       Request \<lparr>q_sender = b, q_push = False, q_type = DefaultPushPull, q_key = k, q_vals = u\<rparr>] s
    = Inr ([Push_response a k, Pull_response b k v], s')"
proof -
  have inv: "key_inv cfg c (T k) k (G k) s" using training_inv [OF assms(1-4)] assms(5) by (simp add: train_inv_def)
  then have ok: "round_ok cfg (T k) (G k)" "sv_compressor_map s k = None" by (simp_all add: key_inv_def)
  obtain d where d: "round_at cfg c (T k) k (G k) s i d" using key_inv_thread [OF inv assms(4), of i] assms(6) by blast
  obtain t where t: "sv_store s k = Some t" "like (T k) t" by (rule inv_store [OF inv assms(4)])
  have dN: "\<not> d \<le> NumWorkers cfg" using d assms(8) by (auto simp: round_at_def pulls_wait_def)
  then have l: "length (r_pushes (G k)) = NumWorkers cfg" using d ok(1) by (auto simp: round_at_def round_msgs_length round_ok_def split: if_splits)
  have p: "pulls_served cfg k i (G k) s" using d dN by (simp add: round_at_def)
  have lt: "length (r_pulls (G k)) < NumWorkers cfg" by (rule pulls_left [OF ok(1) assms(9,10)])
  have "a \<in> set (r_pulls (G k))" using p assms(8) by (metis image_set pulls_served_def)
  then have N: "NumWorkers cfg \<noteq> Suc 0" using lt by (cases "r_pulls (G k)") auto
  have f: "sv_is_push_finished s i k = Some True" "sv_seen_sender s i k = set (r_pulls (G k))" "sv_merged s k = Stored" using p lt by (simp_all add: pulls_served_def)
  have r: "sv_request s k = []" using inv l by (simp add: key_inv_def)
  show ?thesis
    using assms(2,3,6,7,10) f r t(1) ok(2) N reducer_copy_like [OF t(2) assms(11)]
    by (auto simp: BytePSHandler_def handle_push_def handle_pull_def push_first_def push_complete_def queue_message_def queue_push_def GetThreadID_def
        engine_step_def engine_write_def engine_source_def SendPullResponse_def merged_tensor_def Let_def)
qed

theorem late_pull_race_witness:
  "\<exists>s s'. server_run two_workers exact no_codec [push_of 0 9, Engine 0, pull_of 1] s = Inr ([Push_response 0 7, Pull_response 1 7 (scalar 9)], s')
     \<and> sv_store s 7 = Some (scalar 5)"
proof -
  let ?P = "\<lambda>G s. sv_hash_cache s 7 = Some 0 \<and> sv_engine_queues s 0 = [] \<and> sv_store s 7 = Some (scalar 5) \<and> r_answers (G 7) = [(0, scalar 5)]
     \<and> r_pushes (G 7) = [(0, scalar 2), (1, scalar 3)] \<and> r_pulls (G 7) = [0]"
  have "case train_run two_workers exact no_codec {7} (\<lambda>_. scalar 0) [push_of 0 2, push_of 1 3, Engine 0, Engine 0, Engine 0, pull_of 0]
      (\<lambda>_. new_round) started of None \<Rightarrow> False | Some (G, s) \<Rightarrow> ?P G s"
    by code_simp
  then obtain G s where G: "training two_workers exact no_codec {7} (\<lambda>_. scalar 0) G s" "?P G s"
    using train_run_case [OF _ started_training, where P = ?P] by blast
  then show ?thesis using late_pull_race [OF G(1), of 7 0 0 1 "scalar 9" "scalar 0"] by (auto simp: two_workers_def like_def scalar_def nbytes_def)
qed

section \<open>Threads\<close>

lemma min_load_least:
  assumes "l = pre @ xs" "j < length pre" "b = pre ! j" "\<forall>x \<in> set pre. b \<le> x"
  shows "min_load xs (length pre) j b < length l \<and> (\<forall>x \<in> set l. l ! min_load xs (length pre) j b \<le> x)"
  using assms
proof (induction xs arbitrary: pre j b)
  case (Cons x xs)
  show ?case
  proof (cases "x < b")
    case True
    then have "\<forall>y \<in> set (pre @ [x]). x \<le> y" using Cons.prems(4) by fastforce
    then show ?thesis using Cons.IH [of "pre @ [x]" "length pre" x] Cons.prems(1) True by simp
  next
    case False
    then have "\<forall>y \<in> set (pre @ [x]). b \<le> y" using Cons.prems(4) by simp
    then show ?thesis using Cons.IH [of "pre @ [x]" j b] Cons.prems(1-3) False by (simp add: nth_append)
  qed
qed (auto simp: nth_append)

text \<open>A new key goes to a thread with the least load so far.\<close>

lemma thread_least_loaded:
  assumes "sv_hash_cache s k = None" "GetThreadID k len s = Inr (i, s')"
  shows "i < length (sv_acc_load s) \<and> (\<forall>x \<in> set (sv_acc_load s). sv_acc_load s ! i \<le> x)
    \<and> sv_acc_load s' = (sv_acc_load s)[i := sv_acc_load s ! i + len] \<and> sv_hash_cache s' = (sv_hash_cache s)(k \<mapsto> i)"
proof -
  obtain x xs where x: "sv_acc_load s = x # xs" using assms by (auto simp: GetThreadID_def Let_def split: if_splits list.splits)
  then show ?thesis using assms min_load_least [of "x # xs" "[x]" xs 0 x] by (auto simp: GetThreadID_def Let_def split: if_splits)
qed

section \<open>The other modes\<close>

text \<open>Without synchronisation, or with a blocking engine, no message ever makes a result available.\<close>

definition no_result :: "'c server \<Rightarrow> bool" where
  "no_result s \<longleftrightarrow> (\<forall>k. sv_merged s k = Null) \<and> (\<forall>i. \<forall>m \<in> set (sv_engine_queues s i). e_op m \<noteq> ALL_RECV)"

lemma no_result_push:
  assumes "no_result s" "\<not> sync_mode cfg \<or> is_engine_blocking cfg" "handle_push cfg c q s = Inr (rs, s')"
  shows "no_result s'"
proof (cases "sv_store s (q_key q)")
  case None
  then show ?thesis using assms by (auto simp: handle_push_def collect_def Let_def no_result_def split: if_splits)
next
  case (Some t)
  then obtain i s1 where i: "GetThreadID (q_key q) (nbytes (q_vals q)) s = Inr (i, s1)"
    using assms(3) by (cases "GetThreadID (q_key q) (nbytes (q_vals q)) s") (auto simp: handle_push_def Let_def)
  then have 1: "no_result s1" using assms(1) by (auto simp: GetThreadID_def no_result_def Let_def split: option.splits if_splits list.splits)
  obtain s2 where 2: "(if sv_request s1 (q_key q) = [] then push_first cfg c i q t s1 else push_other cfg c i q s1) = Inr s2"
    using assms(3) Some i by (cases "if sv_request s1 (q_key q) = [] then push_first cfg c i q t s1 else push_other cfg c i q s1")
      (auto simp: handle_push_def Let_def)
  then have n2: "no_result s2" using 1 assms(2)
    by (auto simp: push_first_def push_other_def queue_message_def queue_push_def no_result_def split: if_splits option.splits)
  let ?s3 = "s2\<lparr>sv_request := (sv_request s2)(q_key q := sv_request s2 (q_key q) @ [q_sender q])\<rparr>"
  have "push_complete cfg i (q_key q) ?s3 = Inr s'"
    using assms(3) Some i 2 by (cases "push_complete cfg i (q_key q) ?s3") (auto simp: handle_push_def Let_def)
  then show ?thesis using n2 assms(2) by (auto simp: push_complete_def no_result_def split: if_splits)
qed

lemma no_result_engine:
  assumes "no_result s" "engine_step cfg c z i s = Inr (rs, s')"
  shows "no_result s'"
proof (cases "sv_engine_queues s i")
  case (Cons m ms)
  then have "e_op m \<noteq> ALL_RECV" using assms(1) by (auto simp: no_result_def dest: spec [of _ i])
  moreover have "sv_merged s2 = sv_merged s1 \<and> sv_engine_queues s2 = sv_engine_queues s1" if "engine_write f z m dst s1 = Inr s2" for f dst s1 s2
    using that by (auto simp: engine_write_def engine_source_def Let_def split: option.splits if_splits)
  ultimately have "sv_merged s' = sv_merged s \<and> sv_engine_queues s' = (sv_engine_queues s)(i := ms)"
    using assms(2) Cons by (cases "e_op m") (auto simp: engine_step_def Let_def map_sum_def split: option.splits sum.splits)
  moreover have "set ms \<subseteq> set (sv_engine_queues s i)" using Cons by auto
  ultimately show ?thesis using assms(1) unfolding no_result_def by (metis fun_upd_apply subsetD)
qed (use assms in \<open>simp add: engine_step_def\<close>)

lemma no_result_event:
  assumes "no_result s" "\<not> sync_mode cfg \<or> is_engine_blocking cfg" "server_event cfg c z e s = Inr (rs, s')"
  shows "no_result s' \<and> (\<forall>q. e = Request q \<longrightarrow> q_push q \<or> q_type q = CompressedPushPull)"
proof (cases e)
  case (Engine i) then show ?thesis using assms no_result_engine by auto
next
  case (Request q)
  consider "q_type q = CompressedPushPull" | "q_type q \<noteq> CompressedPushPull" "q_push q" | "q_type q \<noteq> CompressedPushPull" "\<not> q_push q" by blast
  then show ?thesis
  proof cases
    case 1
    then show ?thesis using assms Request
      by (auto simp: BytePSHandler_def register_compressor_def collect_def Let_def no_result_def split: option.splits if_splits)
  next
    case 2
    then have "handle_push cfg c q s = Inr (rs, s')" using assms(3) Request by (simp add: BytePSHandler_def)
    then have "no_result s'" by (rule no_result_push [OF assms(1,2)])
    then show ?thesis using 2 Request by simp
  next
    case 3
    have "merged_tensor z k s = Inl Check_failed" for k using assms(1) by (simp add: no_result_def merged_tensor_def)
    then show ?thesis using 3 assms(2,3) Request by (auto simp: BytePSHandler_def handle_pull_def SendPullResponse_def Let_def split: if_splits)
  qed
qed

text \<open>
  C28. Asynchronous training and the blocking engine do not work: in both modes every run with a pull request ends with an
  error, because only the message after the last push of a synchronous round makes a result available.
\<close>

theorem other_modes_fail:
  assumes "\<not> sync_mode cfg \<or> is_engine_blocking cfg" "Request q \<in> set es" "\<not> q_push q" "q_type q \<noteq> CompressedPushPull"
  shows "\<exists>e. server_run cfg c z es (server_init cfg) = Inl e"
proof -
  have "\<exists>e. server_run cfg c z es s = Inl e" if "no_result s" for s
    using assms(2) that
  proof (induction es arbitrary: s)
    case (Cons x es)
    show ?case
    proof (cases "server_event cfg c z x s")
      case (Inr y)
      then obtain rs s1 where y: "server_event cfg c z x s = Inr (rs, s1)" by (cases y) simp
      have n: "no_result s1" "x \<noteq> Request q" using no_result_event [OF Cons.prems(2) assms(1) y] assms(3,4) by auto
      then have "\<exists>e. server_run cfg c z es s1 = Inl e" using Cons by auto
      then show ?thesis using y by auto
    qed simp
  qed simp
  then show ?thesis by (simp add: no_result_def server_init_def)
qed

theorem other_modes_fail_witness:
  "\<exists>e. server_run (two_workers\<lparr>sync_mode := False\<rparr>) exact no_codec [push_of 0 0, push_of 1 0, push_of 0 2, pull_of 0]
     (server_init (two_workers\<lparr>sync_mode := False\<rparr>)) = Inl e"
  by (rule other_modes_fail [of _ "\<lparr>q_sender = 0, q_push = False, q_type = DefaultPushPull, q_key = 7, q_vals = scalar 0\<rparr>"]) simp_all

end
