(* ===== verification/Spec2Isabelle.thy ===== *)
theory Spec2Isabelle
  imports Launch Dist_Launch Compression Tracker P4_Control Torch_Opt_State Torch_Sync Torch_DDP Cross_Barrier Mxnet Keras Keras_Callbacks Dpdk_Client Ps_Rounds
begin

text \<open>
  This library models the training middleware of the repository: BytePS with in-network aggregation. Source
  files are named relative to \<^verbatim>\<open>src/\<close>; the prefix \<^verbatim>\<open>byteps/byteps\<close> is left out.

  \<^bold>\<open>The program.\<close> A job is started by \<^verbatim>\<open>launcher/dist_launcher.py\<close>, which opens one \<open>ssh\<close> process for the
  scheduler, every worker and every server; on each host \<^verbatim>\<open>launcher/launch.py\<close> checks the environment, divides the
  cores and starts the training processes. A training process uses one of the front ends (torch, tensorflow
  and keras, mxnet). They hand gradients and parameters to the push-pull service, which adds the contributions of all
  workers under one key and returns the sum or the mean. The service either runs on servers, or the gradients are
  cut into packets and summed on the way: by a programmable switch (\<^verbatim>\<open>P4/\<close>), or by a software server
  (\<^verbatim>\<open>common/dpdk/server\<close>) that speaks the same protocol to the worker's client (\<^verbatim>\<open>common/dpdk/client\<close>).

  \<^bold>\<open>Conventions.\<close> Python code is translated into functions over \<open>'a res\<close> (\<^typ>\<open>py_error\<close> or a value), stateful
  code into a state and error monad (\<open>io\<close>, with \<open>bind_io\<close>, \<open>for_io\<close>), dictionaries into association lists in
  insertion order. Machine integers are words of their width. Numbers in tensors are rationals, and the rounding
  of a result to its storage type is a parameter \<open>c\<close>; a theorem that needs exact arithmetic says so in a
  hypothesis. Code outside the repository (torch, the compressors that INCA loads, \<open>ssh\<close>, files) is an argument.

  \<^bold>\<open>Theories.\<close>

  \<^item> \<open>Py_Prelude\<close>, \<open>Py_Strings\<close>: errors, dictionaries, the monad and its rules, the string methods. \<open>Slots\<close>: message
    handlers whose state is divided into slots (locale \<open>slotted\<close>).

  \<^item> \<open>Numa_Alloc\<close>, \<open>Launch\<close> (\<^verbatim>\<open>launcher/launch.py\<close>), \<open>Dist_Launch\<close> (\<^verbatim>\<open>launcher/dist_launcher.py\<close>): every process gets the
    cores it asks for, the launcher starts one process per device with the right environment, and the processes
    that the distributed launcher starts pass the check of the launcher (below). The distributed launcher only builds command lines; \<open>Shell\<close>
    is the part of the POSIX shell and of \<open>ssh\<close> that gives them a meaning.

  \<^item> \<open>Tracker_Topology\<close>, \<open>Tracker\<close> (\<^verbatim>\<open>3rdparty/ps-lite/tracker/tracker.py\<close>): the tree and the ring are well formed, the ring
    visits every rank, and a complete exchange gives each node its rank and neighbours.

  \<^item> \<open>Tensor\<close>, \<open>Compression\<close> (\<^verbatim>\<open>torch/compression.py\<close>): TopK with error feedback loses nothing over a run: what was
    sent and what is kept add up to what was given (locales \<open>error_feedback\<close>, \<open>lossless\<close>).

  \<^item> \<open>Collective\<close> (\<^verbatim>\<open>server/server.cc\<close>, \<^verbatim>\<open>torch/ops.cc\<close>, \<^verbatim>\<open>torch/handle_manager.cc\<close>): the service, and workers that run in any
    interleaving. A schedule is a list of worker numbers; all schedules end in the same state (locale
    \<open>commuting\<close>), so a theorem on one complete run holds of all; joint loops are reasoned about turn by turn (locale \<open>joint_loop\<close>).

  \<^item> \<open>Ps_Server\<close>, \<open>Ps_Rounds\<close> (\<^verbatim>\<open>server/server.cc\<close>, \<^verbatim>\<open>server/server.h\<close>, \<^verbatim>\<open>server/queue.h\<close>): the request handler and the engine threads of
    the parameter server, as events. The protocol of the workers is an inductive predicate \<open>training\<close>. Under it every answer is
    the \<open>server_round\<close> of \<open>Collective\<close> and all pulls are answered. A pull that comes after the next round has
    begun gets a wrong tensor, and the asynchronous and the blocking mode fail.

  \<^item> \<open>Basics\<close> (\<^verbatim>\<open>common/__init__.py\<close>), \<open>Torch_Ops\<close> (\<^verbatim>\<open>torch/ops.py\<close>), \<open>Torch_Broadcast\<close>, \<open>Torch_Opt_State\<close>, \<open>Torch_Optimizer\<close>,
    \<open>Torch_Sync\<close> (\<^verbatim>\<open>torch/__init__.py\<close>), \<open>Torch_DDP\<close> (\<^verbatim>\<open>torch/parallel/distributed.py\<close>): push-pull computes the mean, broadcasts give
    every worker the root's values, synchronisation leaves the mean of the gradients on every worker in
    whatever order the hooks ran, and equal replicas stay equal. The paths for TopK and INCA are modelled as
    written, and theorems show where they fail.

  \<^item> \<open>Optim_Update\<close>, \<open>Cross_Barrier\<close> (\<^verbatim>\<open>torch/cross_barrier.py\<close>): SGD is the heavy-ball method and Adam has its textbook closed form. The main thread,
    the poller and the service that answers handles are inductive step relations. No leaf module runs forward before its parameters have
    been updated, and the poller works off its queue in every interleaving. Modules with submodules have no hook and do read parameters too
    early, and the final step can lose an update.

  \<^item> \<open>Mxnet_Compression\<close>, \<open>Mxnet\<close> (\<^verbatim>\<open>mxnet/\<close>), \<open>Tensorflow\<close> (\<^verbatim>\<open>tensorflow/\<close>), \<open>Keras\<close>, \<open>Keras_Callbacks\<close> (\<^verbatim>\<open>_keras/\<close>): means of the gradients,
    broadcasts, momentum in the compressor, and the warm-up ramp of the learning rate.

  \<^item> \<open>P4_Control\<close> (\<^verbatim>\<open>P4/control.py\<close>, \<^verbatim>\<open>P4/setup_ports.py\<close>), \<open>P4_Switch\<close>, \<open>P4_Pipeline\<close>, \<open>P4_Traffic\<close> (\<^verbatim>\<open>P4/*.p4\<close>): the tables that the set-up
    installs, and packets as bytes through parser, registers, deparser and recirculation. A slot sums the
    packets of one round; every packet leaves; recirculated gradients are not summed as intended.

  \<^item> \<open>Dpdk_Server\<close>, \<open>Dpdk_Client\<close> (\<^verbatim>\<open>common/dpdk/\<close>): the software server sums bytes; the client cuts a tensor into parts that
    cover it, and a part that two workers send comes back summed into both memories.

  \<^bold>\<open>Bounds and fuel.\<close> \<open>switch_run\<close> takes one time stamp per pass and returns \<open>None\<close> when the list is too short;
  \<open>packets_leave\<close> shows that four per packet are enough, because the set-up recirculates a packet at most
  three times. \<open>run_schedule\<close> is undefined for a worker that cannot move; the theorems on joint runs state that a
  complete schedule exists. The accept loop of the tracker runs over the list of incoming connections. The recursion limit of
  Python is a parameter of the tracker's ring. All other recursions terminate by themselves.

  \<^bold>\<open>Not modelled.\<close> The core of BytePS in C++ (\<^verbatim>\<open>common/core_loops.cc\<close>, \<^verbatim>\<open>operations.cc\<close>, \<^verbatim>\<open>global.cc\<close>, \<^verbatim>\<open>nccl_manager.cc\<close>,
  \<^verbatim>\<open>communicator.cc\<close>, \<^verbatim>\<open>shared_memory.cc\<close>) moves buffers between devices, shared memory, sockets and NCCL by threads whose effect is
  in the drivers; what it computes for its clients is the service of \<open>Collective\<close>. Of the parameter server the transport, the
  shutdown and the priority order of its queue (off by default) are left out. The compressors under
  \<^verbatim>\<open>common/compressor\<close> are parameters. The element loops of
  \<^verbatim>\<open>cpu_reducer.cc\<close> and \<^verbatim>\<open>half.h\<close> are compiler intrinsics on floating point registers, and the CUDA kernels run on
  the device. \<^verbatim>\<open>torch/inca_init.py\<close> is an unused variant of \<^verbatim>\<open>torch/__init__.py\<close>. \<^verbatim>\<open>tensorflow/distribute\<close> and
  \<^verbatim>\<open>misc/imagenet18\<close> subclass and copy code of tensorflow and mxnet, and nearly all of their lines are calls into them. The
  set-up of the network card, sockets, \<open>gRPC\<close>, logging and timing are input and output. \<^verbatim>\<open>setup.py\<close>, examples, tests,
  older copies under \<^verbatim>\<open>dpdk/server/backups\<close> and \<^verbatim>\<open>dpdk/test\<close>, and ps-lite except for its tracker are not part of the running middleware
  or come from elsewhere.
\<close>

section \<open>From the distributed launcher to the launcher of a host\<close>

text \<open>The processes of a job as the user sees them: host, role and number.\<close>

definition job_roles :: "dist_args \<Rightarrow> host list \<Rightarrow> host list \<Rightarrow> (host \<times> string \<times> nat option) list" where
  "job_roles args wh sh =
     ((arg_scheduler_ip args, arg_scheduler_ssh_port args), ''scheduler'', None)
     # map2 (\<lambda>i h. (h, ''worker'', Some i)) [0..<length wh] wh @ map (\<lambda>h. (h, ''server'', None)) sh"

text \<open>The environment of a process holds its role, its number and the variables of the job.\<close>

definition role_env :: "dist_args \<Rightarrow> nat \<Rightarrow> string \<Rightarrow> nat option \<Rightarrow> (string \<rightharpoonup> string) \<Rightarrow> bool" where
  "role_env args nw role i env =
     (env ''DMLC_ROLE'' = Some role \<and> (\<forall>j. i = Some j \<longrightarrow> env ''DMLC_WORKER_ID'' = Some (py_str (int j)))
      \<and> env ''DMLC_NUM_WORKER'' = Some (py_str (int nw)) \<and> env ''DMLC_PS_ROOT_URI'' = Some (arg_scheduler_ip args)
      \<and> env ''DMLC_PS_ROOT_PORT'' = Some (py_str (arg_scheduler_port args)) \<and> (\<forall>k \<in> set COMMON_REQUIRED_ENVS. env k \<noteq> None))"

lemma job_processes_roles:
  "list_all2 (\<lambda>(env, h, f) (h', role, i). h = h' \<and> role_env args (length wh) role i env) (job_processes args wh sh m) (job_roles args wh sh)"
proof -
  let ?R = "\<lambda>(env, h, f) (h', role, i). h = h' \<and> role_env args (length wh) role i env" and ?env = "job_envs args (length wh) (length sh) m"
  have d: "role_env args (length wh) r None (?env (''DMLC_ROLE'' \<mapsto> r))" "role_env args (length wh) ''worker'' (Some i) (worker_env ?env i)"
      "role_env args (length wh) r None ((worker_env ?env j) (''DMLC_ROLE'' \<mapsto> r))" for r i j
    by (auto simp: role_env_def job_envs_def worker_env_def COMMON_REQUIRED_ENVS_def)
  have "list_all2 ?R (map2 (worker_process ?env) [0..<length wh] wh) (map2 (\<lambda>i h. (h, ''worker'', Some i)) [0..<length wh] wh)"
    by (auto simp: list_all2_conv_all_nth worker_process_def d)
  moreover have "list_all2 ?R (map2 (server_process (worker_env ?env (length wh - 1))) [0..<length sh] sh) (map (\<lambda>h. (h, ''server'', None)) sh)"
    by (auto simp: list_all2_conv_all_nth server_process_def d)
  ultimately show ?thesis by (simp add: job_processes_def job_roles_def Let_def d list_all2_appendI)
qed

lemma role_env_mono: "role_env args nw role i env \<Longrightarrow> env \<subseteq>\<^sub>m env' \<Longrightarrow> role_env args nw role i env'"
proof -
  assume r: "role_env args nw role i env" and "env \<subseteq>\<^sub>m env'"
  then have "env' k = Some v" if "env k = Some v" for k v using that by (auto simp: map_le_def dom_def)
  with r show ?thesis by (fastforce simp: role_env_def)
qed

lemma role_env_passes:
  assumes "role_env args nw role i (dict_get e)" "0 < nw" "(h, role, i) \<in> set (job_roles args wh sh)"
  shows "fst (check_env e COMMON_REQUIRED_ENVS) = Passed"
proof -
  have common: "list_all (dict_has e) COMMON_REQUIRED_ENVS" using assms(1) by (simp add: role_env_def list_all_iff dict_has_def)
  have r: "role = ''scheduler'' \<or> role = ''server'' \<or> role = ''worker'' \<and> i \<noteq> None" using assms(3) by (auto simp: job_roles_def)
  then have w: "role = ''worker'' \<Longrightarrow> dict_has e ''DMLC_WORKER_ID''" using assms(1) by (auto simp: role_env_def dict_has_def)
  have low: "py_lower role \<in> {''worker'', ''server'', ''scheduler''}" using r by (auto simp: py_lower_def lower_char_def)
  have g: "dict_get e ''DMLC_ROLE'' = Some role" "dict_get e ''DMLC_NUM_WORKER'' = Some (py_str (int nw))"
    using assms(1) by (auto simp: role_env_def)
  show ?thesis using w low g common assms(2) by (auto simp: check_env_outcome Suc_le_eq)
qed

text \<open>
  C27. The two launchers fit together. Suppose a user name is given and the shell takes the words of the job as they are: user name, hosts, ports, interface,
  variables and values consist of letters, digits and harmless punctuation, and the command has no single quote and no export of its own in front.
  Then the command lines that the distributed launcher hands to the shell are one for the scheduler, one per worker host in order and one per server host.
  Read by the shell and by ssh, each logs in to its host and port under the user's name. There, whatever environment the host has, the exports give the
  command of the user an environment with its role, a worker its number, and all the number of workers and the address of the scheduler; and this
  environment passes the check of the host's launcher.
\<close>

theorem submitted_processes_pass:
  assumes "submit read sys args = Inr progs"
    and "get_hosts_from_file read (arg_worker_hostfile args) = Inr wh" "get_hosts_from_file read (arg_server_hostfile args) = Inr sh"
    and "preprocess_envs (arg_env args) = Inr m" "arg_username args = Some u" "plain_job sys args u (wh @ sh) m"
  shows "list_all2 (\<lambda>prog (host, role, i).
     \<exists>t e. ssh_run prog = Some t \<and> st_login t = Some u \<and> st_host t = fst host \<and> st_port t = Some (snd host)
       \<and> sh_exports base (st_command t) = Some (e, py_join '' '' (arg_command args))
       \<and> role_env args (length wh) role i (dict_get e) \<and> fst (check_env e COMMON_REQUIRED_ENVS) = Passed)
     progs (job_roles args wh sh)"
proof -
  have wh: "0 < length wh" using assms(1-3) by (auto simp: submit_def res_simps)
  note runs = submit_runs [OF assms, of base] and roles = job_processes_roles [of args wh sh m]
  show ?thesis
  proof (rule list_all2_all_nthI)
    show len: "length progs = length (job_roles args wh sh)" using list_all2_lengthD [OF runs] list_all2_lengthD [OF roles] by simp
    fix n assume n: "n < length progs"
    obtain env h f where p: "job_processes args wh sh m ! n = (env, h, f)" by (cases "job_processes args wh sh m ! n") auto
    obtain h' role i where r: "job_roles args wh sh ! n = (h', role, i)" by (cases "job_roles args wh sh ! n") auto
    have "runs_on base args u (progs ! n) h env" using list_all2_nthD [OF runs n] by (simp add: p)
    then obtain t e where t: "ssh_run (progs ! n) = Some t" "st_login t = Some u" "st_host t = fst h" "st_port t = Some (snd h)"
        "sh_exports base (st_command t) = Some (e, py_join '' '' (arg_command args))" "env \<subseteq>\<^sub>m dict_get e" by (auto simp: runs_on_def)
    have hr: "h = h'" "role_env args (length wh) role i env" using list_all2_nthD2 [OF roles, of n] n len by (simp_all add: p r)
    have e: "role_env args (length wh) role i (dict_get e)" by (rule role_env_mono [OF hr(2) t(6)])
    have "(h', role, i) \<in> set (job_roles args wh sh)" using n len r by (metis nth_mem)
    from role_env_passes [OF e wh this] t e hr(1)
    show "(\<lambda>(host, role, i). \<exists>t e. ssh_run (progs ! n) = Some t \<and> st_login t = Some u \<and> st_host t = fst host \<and> st_port t = Some (snd host)
       \<and> sh_exports base (st_command t) = Some (e, py_join '' '' (arg_command args))
       \<and> role_env args (length wh) role i (dict_get e) \<and> fst (check_env e COMMON_REQUIRED_ENVS) = Passed) (job_roles args wh sh ! n)"
      unfolding r by auto
  qed
qed

definition example_args :: dist_args where
  "example_args = \<lparr>arg_worker_hostfile = ''w'', arg_server_hostfile = ''s'', arg_scheduler_ip = ''10.0.0.1'',
     arg_scheduler_port = 1234, arg_interface = ''eth0'', arg_env = [''OMP_NUM_THREADS:3''],
     arg_username = Some ''me'', arg_scheduler_ssh_port = ''22'', arg_command = [''bpslaunch'', ''python3'', ''train.py'']\<rparr>"

theorem submitted_processes_pass_witness:
  "\<exists>progs. submit (\<lambda>f. if f = ''w'' then Some [''a'', ''b:2222''] else Some [''c'']) [(''OMP_NUM_THREADS'', ''4'')] example_args = Inr progs
     \<and> length progs = 4
     \<and> (\<exists>t e. ssh_run (progs ! 2) = Some t \<and> st_login t = Some ''me'' \<and> st_host t = ''b'' \<and> st_port t = Some ''2222''
         \<and> sh_exports [(''DMLC_ROLE'', ''joint'')] (st_command t) = Some (e, ''bpslaunch python3 train.py'')
         \<and> dict_get e ''DMLC_ROLE'' = Some ''worker'' \<and> dict_get e ''DMLC_WORKER_ID'' = Some ''1''
         \<and> fst (check_env e COMMON_REQUIRED_ENVS) = Passed)"
proof -
  let ?read = "\<lambda>f. if f = ''w'' then Some [''a'', ''b:2222''] else Some [''c'']" and ?sys = "[(''OMP_NUM_THREADS'', ''4'')]"
  have h: "get_hosts_from_file ?read (arg_worker_hostfile example_args) = Inr [(''a'', ''22''), (''b'', ''2222'')]"
    "get_hosts_from_file ?read (arg_server_hostfile example_args) = Inr [(''c'', ''22'')]"
    "preprocess_envs (arg_env example_args) = Inr [(''OMP_NUM_THREADS'', ''3'')]" "arg_username example_args = Some ''me''"
    "plain_job ?sys example_args ''me'' ([(''a'', ''22''), (''b'', ''2222'')] @ [(''c'', ''22'')]) [(''OMP_NUM_THREADS'', ''3'')]"
    "py_join '' '' (arg_command example_args) = ''bpslaunch python3 train.py''" "py_str 1 = ''1''"
    by code_simp+
  have "\<not> Option.is_none (case submit ?read ?sys example_args of Inl _ \<Rightarrow> None | Inr c \<Rightarrow> Some c)" by code_simp
  then obtain progs where p: "submit ?read ?sys example_args = Inr progs" by (auto split: sum.splits)
  note w = submitted_processes_pass [OF p h(1-5), of "[(''DMLC_ROLE'', ''joint'')]"]
  have len: "length progs = 4" using list_all2_lengthD [OF w] by (simp add: job_roles_def upt_conv_Cons)
  have "job_roles example_args [(''a'', ''22''), (''b'', ''2222'')] [(''c'', ''22'')] ! 2 = ((''b'', ''2222''), ''worker'', Some 1)" by code_simp
  then show ?thesis using list_all2_nthD [OF w, of 2] p len h(6,7) by (auto simp: role_env_def)
qed

end
